(* ===== verification/Py_Value.thy ===== *)
theory Py_Value
  imports Py_Str
begin

text \<open>
  The values that YAML and JSON documents load to: \<open>None\<close>, booleans, integers, strings, lists
  and dictionaries with string keys in insertion order. (Floats and YAML dates are not modelled.)
  \<open>py_eq\<close> is Python's \<open>==\<close>, which ignores the order of dictionary entries and takes \<open>True\<close> for
  \<open>1\<close>; \<open>truthy\<close> is \<open>bool(x)\<close>.
\<close>

section \<open>Values\<close>

datatype pyval =
    PNone
  | PBool bool
  | PInt int
  | PStr string
  | PList "pyval list"
  | PDict "(string \<times> pyval) list"

type_synonym pydict = "(string \<times> pyval) list"

fun truthy :: "pyval \<Rightarrow> bool" where
  "truthy PNone = False"
| "truthy (PBool b) = b"
| "truthy (PInt i) = (i \<noteq> 0)"
| "truthy (PStr s) = (s \<noteq> [])"
| "truthy (PList xs) = (xs \<noteq> [])"
| "truthy (PDict d) = (d \<noteq> [])"

definition is_dict :: "pyval \<Rightarrow> bool" where
  "is_dict v = (case v of PDict _ \<Rightarrow> True | _ \<Rightarrow> False)"

text \<open>\<open>v.get(k)\<close> on a dictionary, and the entries of a value known to be one.\<close>

definition dget :: "pydict \<Rightarrow> string \<Rightarrow> pyval" where
  "dget d k = (case map_of d k of None \<Rightarrow> PNone | Some v \<Rightarrow> v)"

definition dget_default :: "pydict \<Rightarrow> string \<Rightarrow> pyval \<Rightarrow> pyval" where
  "dget_default d k x = (case map_of d k of None \<Rightarrow> x | Some v \<Rightarrow> v)"

definition num_of :: "pyval \<Rightarrow> int option" where
  "num_of v = (case v of PBool b \<Rightarrow> Some (if b then 1 else 0) | PInt i \<Rightarrow> Some i | _ \<Rightarrow> None)"

function (sequential) py_eq :: "pyval \<Rightarrow> pyval \<Rightarrow> bool" where
  "py_eq PNone PNone = True"
| "py_eq (PStr a) (PStr b) = (a = b)"
| "py_eq (PList xs) (PList ys) = list_all2 py_eq xs ys"
| "py_eq (PDict xs) (PDict ys) =
     (length xs = length ys \<and>
      list_all (\<lambda>p. case map_of ys (fst p) of None \<Rightarrow> False | Some w \<Rightarrow> py_eq (snd p) w) xs)"
| "py_eq v w = (case (num_of v, num_of w) of (Some a, Some b) \<Rightarrow> a = b | _ \<Rightarrow> False)"
  by pat_completeness auto
termination
proof (relation "measure (\<lambda>(v, w). size v)", goal_cases)
  case 1
  show ?case by simp
next
  case (2 xs ys x y)
  then show ?case by (auto dest!: size_list_estimation'[of _ _ _ size, OF _ le_refl])
next
  case (3 xs ys p w)
  obtain k v where p: "p = (k, v)" by (cases p)
  have "size v \<le> size_prod (\<lambda>_. 0) size p" by (simp add: p)
  with 3 have "size v \<le> size_list (size_prod (\<lambda>_. 0) size) xs"
    by (meson size_list_estimation' le_refl order_trans)
  then show ?case by (simp add: p)
qed

section \<open>repr and str\<close>

definition hex2 :: "nat \<Rightarrow> string" where
  "hex2 n = (let d = (\<lambda>k. if k < 10 then char_of (48 + k) else char_of (87 + k))
     in [d (n div 16), d (n mod 16)])"

definition repr_char :: "char \<Rightarrow> char \<Rightarrow> string" where
  "repr_char q c = (let n = code c in
     if c = q \<or> n = 92 then [CHR 0x5C, c]
     else if n = 9 then [CHR 0x5C, CHR ''t''] else if n = 10 then [CHR 0x5C, CHR ''n'']
     else if n = 13 then [CHR 0x5C, CHR ''r'']
     else if n < 32 \<or> (127 \<le> n \<and> n \<le> 160) \<or> n = 173 then CHR 0x5C # CHR ''x'' # hex2 n
     else [c])"

definition repr_str :: "string \<Rightarrow> string" where
  "repr_str s = (let q = (if CHR 0x27 \<in> set s \<and> CHR 0x22 \<notin> set s then CHR 0x22 else CHR 0x27)
     in q # concat (map (repr_char q) s) @ [q])"

fun py_repr :: "pyval \<Rightarrow> string" where
  "py_repr PNone = ''None''"
| "py_repr (PBool b) = (if b then ''True'' else ''False'')"
| "py_repr (PInt i) = show_int i"
| "py_repr (PStr s) = repr_str s"
| "py_repr (PList xs) = ''['' @ join '', '' (map py_repr xs) @ '']''"
| "py_repr (PDict d) =
     ''{'' @ join '', '' (map (\<lambda>p. repr_str (fst p) @ '': '' @ py_repr (snd p)) d) @ ''}''"

definition py_str :: "pyval \<Rightarrow> string" where
  "py_str v = (case v of PStr s \<Rightarrow> s | _ \<Rightarrow> py_repr v)"

section \<open>Well-formed values: dictionary keys are distinct\<close>

fun wf_val :: "pyval \<Rightarrow> bool" where
  "wf_val (PList xs) = list_all wf_val xs"
| "wf_val (PDict d) = (distinct (map fst d) \<and> list_all (\<lambda>p. wf_val (snd p)) d)"
| "wf_val _ = True"

lemma wf_val_dset: "wf_val (PDict d) \<Longrightarrow> wf_val v \<Longrightarrow> wf_val (PDict (dset k v d))"
proof -
  assume d: "wf_val (PDict d)" and v: "wf_val v"
  have "list_all (\<lambda>p. wf_val (snd p)) (dset k v d)"
    using d v by (induction k v d rule: dset.induct) auto
  with d show ?thesis by simp
qed

lemma wf_val_map_of: "wf_val (PDict d) \<Longrightarrow> map_of d k = Some v \<Longrightarrow> wf_val v"
  by (auto simp: list_all_iff dest!: map_of_SomeD)

lemma wf_val_dget [simp]: "wf_val (PDict d) \<Longrightarrow> wf_val (dget d k)"
  by (auto simp: dget_def split: option.splits intro: wf_val_map_of simp del: wf_val.simps(2))

text \<open>On distinct keys, equality of dictionaries is equality as finite maps.\<close>

lemma py_eq_dict_iff:
  assumes "distinct (map fst xs)" and "distinct (map fst ys)"
  shows "py_eq (PDict xs) (PDict ys) \<longleftrightarrow>
    dom (map_of xs) = dom (map_of ys) \<and>
    (\<forall>k v w. map_of xs k = Some v \<longrightarrow> map_of ys k = Some w \<longrightarrow> py_eq v w)"
    (is "?l \<longleftrightarrow> ?d \<and> ?e")
proof -
  have card: "card (dom (map_of zs)) = length zs"
    if "distinct (map fst zs)" for zs :: pydict
    using that by (metis distinct_card dom_map_of_conv_image_fst length_map set_map)
  show ?thesis
  proof
    assume l: ?l
    have el: "\<exists>w. map_of ys k = Some w \<and> py_eq v w" if "(k, v) \<in> set xs" for k v
      using l that by (auto simp: list_all_iff split: option.splits)
    have "dom (map_of xs) \<subseteq> dom (map_of ys)"
      using el by (force dest: map_of_SomeD)
    moreover have "card (dom (map_of xs)) = card (dom (map_of ys))"
      using l card assms by simp
    ultimately have ?d by (simp add: card_subset_eq finite_dom_map_of)
    moreover have ?e using el by (fastforce dest: map_of_SomeD)
    ultimately show "?d \<and> ?e" ..
  next
    assume r: "?d \<and> ?e"
    then have len: "length xs = length ys" using card assms by metis
    have "\<exists>w. map_of ys k = Some w \<and> py_eq v w" if "(k, v) \<in> set xs" for k v
    proof -
      have kv: "map_of xs k = Some v" using that assms(1) by simp
      with r obtain w where "map_of ys k = Some w" by blast
      with kv r show ?thesis by blast
    qed
    with len show ?l by (fastforce simp: list_all_iff split: option.splits)
  qed
qed

lemma py_eq_refl [simp]: "wf_val v \<Longrightarrow> py_eq v v"
proof (induction v)
  case (PDict d)
  then have "py_eq v v" if "map_of d k = Some v" for k v
    using that wf_val_map_of[OF PDict.prems that] by (fastforce dest: map_of_SomeD)
  with PDict.prems show ?case by (subst py_eq_dict_iff) auto
qed (auto simp: list_all_iff list_all2_same num_of_def)

lemma py_eq_sym: "py_eq v w \<Longrightarrow> wf_val v \<Longrightarrow> wf_val w \<Longrightarrow> py_eq w v"
proof (induction v w rule: py_eq.induct)
  case (3 xs ys)
  then show ?case by (auto simp: list_all2_conv_all_nth list_all_length)
next
  case (4 xs ys)
  have d: "distinct (map fst xs)" "distinct (map fst ys)" using 4 by auto
  have eq: "py_eq w v" if "map_of xs k = Some v" "map_of ys k = Some w" for k v w
  proof -
    have "(k, v) \<in> set xs" using that(1) by (rule map_of_SomeD)
    moreover have "py_eq v w" using "4.prems"(1) that unfolding py_eq_dict_iff[OF d] by blast
    moreover have "wf_val v" "wf_val w"
      using "4.prems"(2,3) that by (blast intro: wf_val_map_of)+
    ultimately show ?thesis using "4.IH"[of "(k, v)" w] that by simp
  qed
  show ?case
    using "4.prems"(1) eq unfolding py_eq_dict_iff[OF d] py_eq_dict_iff[OF d(2,1)] by blast
qed (auto simp: num_of_def split: option.splits pyval.splits)

lemma py_eq_trans:
  "py_eq v w \<Longrightarrow> py_eq w u \<Longrightarrow> wf_val v \<Longrightarrow> wf_val w \<Longrightarrow> wf_val u \<Longrightarrow> py_eq v u"
proof (induction v w arbitrary: u rule: py_eq.induct)
  case (3 xs ys)
  from "3.prems" obtain zs where u: "u = PList zs" by (cases u) (auto simp: num_of_def)
  from "3.prems" show ?case
    unfolding u py_eq.simps wf_val.simps list_all2_conv_all_nth list_all_length
    using "3.IH" by (metis nth_mem)
next
  case (4 xs ys)
  from "4.prems"(2) obtain zs where u: "u = PDict zs" by (cases u) (auto simp: num_of_def)
  have d: "distinct (map fst xs)" "distinct (map fst ys)" "distinct (map fst zs)"
    using 4 by (auto simp: u)
  note vw = "4.prems"(1)[unfolded py_eq_dict_iff[OF d(1,2)]]
  note wu = "4.prems"(2)[unfolded u py_eq_dict_iff[OF d(2,3)]]
  have eq: "py_eq v z" if kv: "map_of xs k = Some v" and kz: "map_of zs k = Some z" for k v z
  proof -
    obtain w where w: "map_of ys k = Some w" using vw kv by blast
    show ?thesis
    proof -
      have "(k, v) \<in> set xs" using kv by (rule map_of_SomeD)
      moreover have "py_eq v w" "py_eq w z" using vw wu kv kz w by blast+
      moreover have "wf_val v" "wf_val w" "wf_val z"
        using "4.prems"(3-5) kv w kz unfolding u by (blast intro: wf_val_map_of)+
      ultimately show ?thesis using "4.IH"[of "(k, v)" w] w by simp
    qed
  qed
  show ?case unfolding u using vw wu eq unfolding py_eq_dict_iff[OF d(1,3)] by blast
qed (auto simp: num_of_def split: option.splits pyval.splits if_splits)

end
