(* ===== verification/Json.thy ===== *)
theory Json
  imports Py_Value
begin

text \<open>
  The part of Python's \<open>json\<close> module the program uses: \<open>json.dumps\<close> with the compact
  separators (the audit trail) and with \<open>indent=2\<close> (the state file), both with the default
  \<open>ensure_ascii=True\<close>, and \<open>json.loads\<close>. Reading goes through tokens; a document with a
  fraction or exponent, or with an escape above \<open>\u00ff\<close>, is outside the value type and reads as
  an error. The results are the two round trips at the end.
\<close>

section \<open>Tokens and their text\<close>

datatype tok =
    TLBrace | TRBrace | TLBrack | TRBrack | TColon | TComma
  | TTrue | TFalse | TNull
  | TStr string
  | TInt int

definition hex_digit :: "nat \<Rightarrow> char" where
  "hex_digit d = (if d < 10 then char_of (48 + d) else char_of (87 + d))"

definition esc_char :: "char \<Rightarrow> string" where
  "esc_char c =
     (let n = code c in
      if n = 34 then [CHR 0x5C, CHR 0x22]
      else if n = 92 then [CHR 0x5C, CHR 0x5C]
      else if n = 10 then [CHR 0x5C, CHR ''n'']
      else if n = 13 then [CHR 0x5C, CHR ''r'']
      else if n = 9 then [CHR 0x5C, CHR ''t'']
      else if n = 12 then [CHR 0x5C, CHR ''f'']
      else if n = 8 then [CHR 0x5C, CHR ''b'']
      else if 32 \<le> n \<and> n \<le> 126 then [c]
      else [CHR 0x5C, CHR ''u'', CHR ''0'', CHR ''0'', hex_digit (n div 16), hex_digit (n mod 16)])"

definition json_string :: "string \<Rightarrow> string" where
  "json_string s = CHR 0x22 # concat (map esc_char s) @ [CHR 0x22]"

fun show_tok :: "tok \<Rightarrow> string" where
  "show_tok TLBrace = ''{''"
| "show_tok TRBrace = ''}''"
| "show_tok TLBrack = ''[''"
| "show_tok TRBrack = '']''"
| "show_tok TColon = '':''"
| "show_tok TComma = '',''"
| "show_tok TTrue = ''true''"
| "show_tok TFalse = ''false''"
| "show_tok TNull = ''null''"
| "show_tok (TStr s) = json_string s"
| "show_tok (TInt i) = show_int i"

fun commas :: "'a \<Rightarrow> 'a list list \<Rightarrow> 'a list" where
  "commas c [] = []"
| "commas c [x] = x"
| "commas c (x # y # ys) = x @ c # commas c (y # ys)"

fun toks :: "pyval \<Rightarrow> tok list" where
  "toks PNone = [TNull]"
| "toks (PBool b) = [if b then TTrue else TFalse]"
| "toks (PInt i) = [TInt i]"
| "toks (PStr s) = [TStr s]"
| "toks (PList xs) = TLBrack # commas TComma (map toks xs) @ [TRBrack]"
| "toks (PDict d) =
     TLBrace # commas TComma (map (\<lambda>p. TStr (fst p) # TColon # toks (snd p)) d) @ [TRBrace]"

section \<open>json.dumps\<close>

text \<open>\<open>json.dumps(v, separators=(",", ":"))\<close>.\<close>

definition dumps :: "pyval \<Rightarrow> string" where
  "dumps v = concat (map show_tok (toks v))"

text \<open>\<open>json.dumps(v, indent=2, sort_keys=True)\<close>: every entry on a line of its own.\<close>

definition newline_indent :: "nat \<Rightarrow> string" where
  "newline_indent n = NL # replicate (2 * n) CHR '' ''"

fun pretty :: "nat \<Rightarrow> pyval \<Rightarrow> string" where
  "pretty n (PList xs) =
     (if xs = [] then ''[]''
      else ''['' @ newline_indent (Suc n) @
           join (CHR '','' # newline_indent (Suc n)) (map (pretty (Suc n)) xs) @
           newline_indent n @ '']'')"
| "pretty n (PDict d) =
     (if d = [] then ''{}''
      else ''{'' @ newline_indent (Suc n) @
           join (CHR '','' # newline_indent (Suc n))
             (map (\<lambda>p. json_string (fst p) @ '': '' @ pretty (Suc n) (snd p)) d) @
           newline_indent n @ ''}'')"
| "pretty n v = dumps v"

fun sort_keys :: "pyval \<Rightarrow> pyval" where
  "sort_keys (PList xs) = PList (map sort_keys xs)"
| "sort_keys (PDict d) = PDict (sort_key fst (map (\<lambda>p. (fst p, sort_keys (snd p))) d))"
| "sort_keys v = v"

definition dumps_indent :: "pyval \<Rightarrow> string" where
  "dumps_indent v = pretty 0 (sort_keys v)"

section \<open>json.loads\<close>

definition json_ws :: "char \<Rightarrow> bool" where
  "json_ws c \<longleftrightarrow> code c \<in> {32, 9, 10, 13}"

definition hex_val :: "char \<Rightarrow> nat option" where
  "hex_val c = (let n = code c in
     if 48 \<le> n \<and> n \<le> 57 then Some (n - 48)
     else if 97 \<le> n \<and> n \<le> 102 then Some (n - 87)
     else if 65 \<le> n \<and> n \<le> 70 then Some (n - 55) else None)"

definition hex4 :: "char \<Rightarrow> char \<Rightarrow> char \<Rightarrow> char \<Rightarrow> char option" where
  "hex4 a b c d = (case (hex_val a, hex_val b, hex_val c, hex_val d) of
     (Some x, Some y, Some z, Some w) \<Rightarrow>
       (if x = 0 \<and> y = 0 then Some (char_of (16 * z + w)) else None)
   | _ \<Rightarrow> None)"

definition unescape :: "char \<Rightarrow> char option" where
  "unescape c =
     (if c = CHR 0x22 \<or> c = CHR 0x5C \<or> c = CHR ''/'' then Some c
      else if c = CHR ''n'' then Some NL else if c = CHR ''r'' then Some CR
      else if c = CHR ''t'' then Some (char_of (9::nat))
      else if c = CHR ''f'' then Some (char_of (12::nat))
      else if c = CHR ''b'' then Some (char_of (8::nat)) else None)"

text \<open>The body of a string literal, up to and with the closing quote.\<close>

fun lex_str :: "string \<Rightarrow> (string \<times> string) option" where
  "lex_str [] = None"
| "lex_str (c # s) =
     (if c = CHR 0x22 then Some ([], s)
      else if c = CHR 0x5C then
        (case s of
           [] \<Rightarrow> None
         | e # r \<Rightarrow>
             (if e = CHR ''u'' then
                (case r of
                   h1 # h2 # h3 # h4 # r' \<Rightarrow>
                     (case hex4 h1 h2 h3 h4 of
                        None \<Rightarrow> None
                      | Some x \<Rightarrow> map_option (\<lambda>(w, t). (x # w, t)) (lex_str r'))
                 | _ \<Rightarrow> None)
              else (case unescape e of
                      None \<Rightarrow> None
                    | Some x \<Rightarrow> map_option (\<lambda>(w, t). (x # w, t)) (lex_str r))))
      else if code c < 32 then None
      else map_option (\<lambda>(w, t). (c # w, t)) (lex_str s))"

lemma lex_str_shorter: "lex_str s = Some (w, t) \<Longrightarrow> length t < length s"
proof (induction s arbitrary: w t rule: length_induct)
  case (1 s)
  then have ih: "length t' < length r" if "lex_str r = Some (w', t')" "length r < length s" for r w' t'
    using that by blast
  show ?case
  proof (cases s)
    case (Cons c r)
    with "1.prems" show ?thesis
      by (auto split: if_splits list.splits option.splits dest!: ih)
  qed (use "1.prems" in simp)
qed

text \<open>An integer literal: an optional minus, then \<open>0\<close> or digits that do not start with \<open>0\<close>.\<close>

definition lex_nat :: "string \<Rightarrow> (nat \<times> string) option" where
  "lex_nat s = (case takeWhile is_digit s of
     [] \<Rightarrow> None
   | d # ds \<Rightarrow> (if d = CHR ''0'' then Some (0, tl s)
                else Some (digits_val (d # ds), dropWhile is_digit s)))"

lemma lex_nat_shorter: "lex_nat s = Some (n, t) \<Longrightarrow> length t < length s"
  using length_dropWhile_le[of is_digit "tl s"]
  by (cases s) (auto simp: lex_nat_def split: list.splits if_splits)

definition punct :: "char \<Rightarrow> tok option" where
  "punct c = (if c = CHR ''{'' then Some TLBrace else if c = CHR ''}'' then Some TRBrace
     else if c = CHR ''['' then Some TLBrack else if c = CHR '']'' then Some TRBrack
     else if c = CHR '':'' then Some TColon else if c = CHR '','' then Some TComma else None)"

function lex :: "string \<Rightarrow> tok list option" where
  "lex s = (case s of
     [] \<Rightarrow> Some []
   | c # r \<Rightarrow>
       (if json_ws c then lex r
        else case punct c of
          Some t \<Rightarrow> map_option ((#) t) (lex r)
        | None \<Rightarrow>
            (if c = CHR 0x22 then
               (case lex_str r of None \<Rightarrow> None
                | Some (w, r') \<Rightarrow> map_option ((#) (TStr w)) (lex r'))
             else if c = CHR ''-'' then
               (case lex_nat r of None \<Rightarrow> None
                | Some (n, r') \<Rightarrow> map_option ((#) (TInt (- int n))) (lex r'))
             else if is_digit c then
               (case lex_nat (c # r) of None \<Rightarrow> None
                | Some (n, r') \<Rightarrow> map_option ((#) (TInt (int n))) (lex r'))
             else if take 4 (c # r) = ''true'' then map_option ((#) TTrue) (lex (drop 3 r))
             else if take 5 (c # r) = ''false'' then map_option ((#) TFalse) (lex (drop 4 r))
             else if take 4 (c # r) = ''null'' then map_option ((#) TNull) (lex (drop 3 r))
             else None)))"
  by pat_completeness auto
termination
  by (relation "measure length") (auto dest: lex_str_shorter lex_nat_shorter)

declare lex.simps [simp del]

definition mk_dict :: "(string \<times> pyval) list \<Rightarrow> pydict" where
  "mk_dict ps = foldl (\<lambda>d p. dset (fst p) (snd p) d) [] ps"

fun parse_val :: "nat \<Rightarrow> tok list \<Rightarrow> (pyval \<times> tok list) option"
  and parse_elems :: "nat \<Rightarrow> tok list \<Rightarrow> (pyval list \<times> tok list) option"
  and parse_members :: "nat \<Rightarrow> tok list \<Rightarrow> ((string \<times> pyval) list \<times> tok list) option" where
  "parse_val 0 ts = None"
| "parse_val (Suc n) ts = (case ts of
     TNull # r \<Rightarrow> Some (PNone, r)
   | TTrue # r \<Rightarrow> Some (PBool True, r)
   | TFalse # r \<Rightarrow> Some (PBool False, r)
   | TInt i # r \<Rightarrow> Some (PInt i, r)
   | TStr s # r \<Rightarrow> Some (PStr s, r)
   | TLBrack # r \<Rightarrow>
       (case r of TRBrack # r' \<Rightarrow> Some (PList [], r')
        | _ \<Rightarrow> map_option (\<lambda>(vs, r'). (PList vs, r')) (parse_elems n r))
   | TLBrace # r \<Rightarrow>
       (case r of TRBrace # r' \<Rightarrow> Some (PDict [], r')
        | _ \<Rightarrow> map_option (\<lambda>(ps, r'). (PDict (mk_dict ps), r')) (parse_members n r))
   | _ \<Rightarrow> None)"
| "parse_elems 0 ts = None"
| "parse_elems (Suc n) ts = (case parse_val n ts of
     Some (v, TRBrack # r) \<Rightarrow> Some ([v], r)
   | Some (v, TComma # r) \<Rightarrow> map_option (\<lambda>(vs, r'). (v # vs, r')) (parse_elems n r)
   | _ \<Rightarrow> None)"
| "parse_members 0 ts = None"
| "parse_members (Suc n) ts = (case ts of
     TStr k # TColon # r \<Rightarrow>
       (case parse_val n r of
          Some (v, TRBrace # r') \<Rightarrow> Some ([(k, v)], r')
        | Some (v, TComma # r') \<Rightarrow>
            map_option (\<lambda>(ps, r''). ((k, v) # ps, r'')) (parse_members n r')
        | _ \<Rightarrow> None)
   | _ \<Rightarrow> None)"

text \<open>Two units of fuel per token are always enough (\<open>parse_fuel_enough\<close>).\<close>

definition loads :: "string \<Rightarrow> pyval option" where
  "loads s = (case lex s of None \<Rightarrow> None
     | Some ts \<Rightarrow> (case parse_val (2 * length ts) ts of
         Some (v, []) \<Rightarrow> Some v | _ \<Rightarrow> None))"

section \<open>Reading back strings and numbers\<close>

lemma char_eq_code: "c = d \<longleftrightarrow> code c = code d"
  by (metis char_of_char)

lemma hex_val_hex_digit [simp]: "d < 16 \<Longrightarrow> hex_val (hex_digit d) = Some d"
  by (auto simp: hex_val_def hex_digit_def Let_def)

lemma code_less_256 [simp]: "code c < 256"
  using nat_of_char_less_256[of c] by simp

lemma lex_str_esc: "lex_str (esc_char c @ s) = map_option (\<lambda>(w, t). (c # w, t)) (lex_str s)"
proof -
  have c: "c = char_of (code c)" by simp
  have h: "hex4 (CHR ''0'') (CHR ''0'') (hex_digit (code c div 16)) (hex_digit (code c mod 16)) = Some c"
  proof -
    have "code c div 16 < 16" using code_less_256[of c] by (simp add: less_mult_imp_div_less)
    then have "hex_val (hex_digit (code c div 16)) = Some (code c div 16)"
      by (rule hex_val_hex_digit)
    then show ?thesis by (simp add: hex4_def hex_val_def[of "CHR ''0''"])
  qed
  consider "code c \<in> {34, 92, 10, 13, 9, 12, 8}"
    | "code c \<notin> {34, 92, 10, 13, 9, 12, 8}" "32 \<le> code c" "code c \<le> 126"
    | "code c \<notin> {34, 92, 10, 13, 9, 12, 8}" "\<not> (32 \<le> code c \<and> code c \<le> 126)"
    by blast
  then show ?thesis
  proof cases
    case 1
    then have "c \<in> {CHR 0x22, CHR 0x5C, NL, CR, char_of (9::nat), char_of (12::nat), char_of (8::nat)}"
      by (auto simp: char_eq_code[of c])
    then show ?thesis
      by (elim insertE emptyE) (simp_all add: esc_char_def unescape_def Let_def)
  next
    case 2
    then show ?thesis by (auto simp: esc_char_def Let_def char_eq_code[of c])
  next
    case 3
    then have "esc_char c = [CHR 0x5C, CHR ''u'', CHR ''0'', CHR ''0'',
        hex_digit (code c div 16), hex_digit (code c mod 16)]"
      by (auto simp: esc_char_def Let_def)
    then show ?thesis using h by simp
  qed
qed

lemma lex_str_json_string: "lex_str (concat (map esc_char w) @ CHR 0x22 # s) = Some (w, s)"
  by (induction w) (simp_all add: lex_str_esc del: lex_str.simps(2), simp_all)

lemma code_hex_digit: "d < 16 \<Longrightarrow> 32 \<le> code (hex_digit d) \<and> code (hex_digit d) \<le> 126"
  by (simp add: hex_digit_def)

text \<open>The output is printable ASCII, so no line boundary can occur inside a serialised record.\<close>

lemma esc_char_ascii: "\<forall>x \<in> set (esc_char c). 32 \<le> code x \<and> code x \<le> 126"
proof (cases "code c \<in> {34, 92, 10, 13, 9, 12, 8} \<or> 32 \<le> code c \<and> code c \<le> 126")
  case True
  then show ?thesis by (elim disjE insertE emptyE conjE) (simp_all add: esc_char_def Let_def)
next
  case False
  then have "esc_char c = [CHR 0x5C, CHR ''u'', CHR ''0'', CHR ''0'',
      hex_digit (code c div 16), hex_digit (code c mod 16)]"
    by (auto simp: esc_char_def Let_def)
  moreover have "code c div 16 < 16" "code c mod 16 < 16"
    using code_less_256[of c] by (simp_all add: less_mult_imp_div_less)
  ultimately show ?thesis using code_hex_digit by simp
qed

definition no_digit :: "string \<Rightarrow> bool" where
  "no_digit s \<longleftrightarrow> s = [] \<or> \<not> is_digit (hd s)"

lemma lex_nat_show_nat: "no_digit s \<Longrightarrow> lex_nat (show_nat n @ s) = Some (n, s)"
proof -
  assume s: "no_digit s"
  have tw: "takeWhile is_digit (show_nat n @ s) = show_nat n"
    using s show_nat_digits[of n] by (cases s) (auto simp: no_digit_def takeWhile_append)
  have dw: "dropWhile is_digit (show_nat n @ s) = s"
    using s show_nat_digits[of n] by (cases s) (auto simp: no_digit_def dropWhile_append)
  obtain d ds where d: "show_nat n = d # ds" by (cases "show_nat n") auto
  show ?thesis
  proof (cases "d = CHR ''0''")
    case True
    then have "n = 0" using show_nat_hd[of n] d by simp
    then have "show_nat n = [CHR ''0'']" by (simp add: show_nat.simps digit_0)
    then show ?thesis using tw \<open>n = 0\<close> by (simp add: lex_nat_def is_digit_def)
  next
    case False
    then show ?thesis using tw dw d digits_val_show_nat[of n] by (simp add: lex_nat_def)
  qed
qed

section \<open>The text of a token sequence reads as these tokens\<close>

definition reads :: "string \<Rightarrow> tok list \<Rightarrow> bool" where
  "reads x y \<longleftrightarrow> (\<forall>s ts. no_digit s \<longrightarrow> lex s = Some ts \<longrightarrow> lex (x @ s) = Some (y @ ts))"

lemma lex_Nil [simp]: "lex [] = Some []"
  by (simp add: lex.simps)

lemma lex_ws [simp]: "json_ws c \<Longrightarrow> lex (c # s) = lex s"
  by (simp add: lex.simps)

lemma lex_punct: "punct c = Some t \<Longrightarrow> lex (c # s) = map_option ((#) t) (lex s)"
  by (subst lex.simps) (auto simp: punct_def json_ws_def split: if_splits)

lemma lex_punct_simps [simp]:
  "lex (CHR ''{'' # s) = map_option ((#) TLBrace) (lex s)"
  "lex (CHR ''}'' # s) = map_option ((#) TRBrace) (lex s)"
  "lex (CHR ''['' # s) = map_option ((#) TLBrack) (lex s)"
  "lex (CHR '']'' # s) = map_option ((#) TRBrack) (lex s)"
  "lex (CHR '':'' # s) = map_option ((#) TColon) (lex s)"
  "lex (CHR '','' # s) = map_option ((#) TComma) (lex s)"
  by (simp_all add: lex_punct punct_def)

lemma lex_json_string: "lex (json_string w @ s) = map_option ((#) (TStr w)) (lex s)"
  by (simp add: json_string_def lex.simps[of "CHR 0x22 # t" for t] json_ws_def punct_def
      lex_str_json_string)

lemma lex_show_int: "no_digit s \<Longrightarrow> lex (show_int i @ s) = map_option ((#) (TInt i)) (lex s)"
proof (cases "i < 0")
  case True
  assume "no_digit s"
  with True show ?thesis
    by (simp add: show_int_def lex.simps[of "CHR ''-'' # t" for t] json_ws_def punct_def
        lex_nat_show_nat)
next
  case False
  assume s: "no_digit s"
  obtain d ds where d: "show_nat (nat i) = d # ds" by (cases "show_nat (nat i)") auto
  have "is_digit d" using show_nat_digits[of "nat i"] d by simp
  then have "\<not> json_ws d" "punct d = None" "d \<noteq> CHR 0x22" "d \<noteq> CHR ''-''"
    by (auto simp: is_digit_def json_ws_def punct_def)
  with \<open>is_digit d\<close> False s lex_nat_show_nat[OF s, of "nat i"] show ?thesis
    by (simp add: show_int_def d lex.simps[of "d # t" for t])
qed

lemma lex_keywords [simp]:
  "lex (CHR ''t'' # CHR ''r'' # CHR ''u'' # CHR ''e'' # s) = map_option ((#) TTrue) (lex s)"
  "lex (CHR ''f'' # CHR ''a'' # CHR ''l'' # CHR ''s'' # CHR ''e'' # s) =
     map_option ((#) TFalse) (lex s)"
  "lex (CHR ''n'' # CHR ''u'' # CHR ''l'' # CHR ''l'' # s) = map_option ((#) TNull) (lex s)"
  by (simp_all add: lex.simps[of "CHR ''t'' # t" for t] lex.simps[of "CHR ''f'' # t" for t]
      lex.simps[of "CHR ''n'' # t" for t] json_ws_def punct_def is_digit_def)

lemma reads_tok: "reads (show_tok t) [t]"
  by (cases t) (auto simp: reads_def lex_json_string lex_show_int)

lemma reads_append:
  "reads x y \<Longrightarrow> reads x' y' \<Longrightarrow> x' \<noteq> [] \<Longrightarrow> \<not> is_digit (hd x') \<Longrightarrow> reads (x @ x') (y @ y')"
  by (auto simp: reads_def no_digit_def)

lemma reads_ws: "\<forall>c \<in> set ws. json_ws c \<Longrightarrow> reads x y \<Longrightarrow> reads (ws @ x) y"
proof -
  assume "\<forall>c \<in> set ws. json_ws c"
  then have "lex (ws @ s) = lex s" for s by (induction ws) auto
  moreover assume "reads x y"
  ultimately show ?thesis by (simp add: reads_def)
qed

section \<open>Round trip of json.dumps and json.loads\<close>

lemma join_Cons_hd: "x \<noteq> [] \<Longrightarrow> join sep (x # xs) \<noteq> [] \<and> hd (join sep (x # xs)) = hd x"
  by (cases xs) auto

lemma reads_comma: "\<forall>c \<in> set ws. json_ws c \<Longrightarrow> reads x y \<Longrightarrow> reads (CHR '','' # ws @ x) (TComma # y)"
  using reads_ws[of ws x y] by (auto simp: reads_def)

text \<open>A sequence joined with a comma and white space reads as the tokens with commas between.\<close>

lemma reads_join:
  assumes ws: "\<forall>c \<in> set ws. json_ws c"
    and xy: "list_all2 reads xs ys" and ne: "xs \<noteq> []"
  shows "reads (join (CHR '','' # ws) xs) (commas TComma ys)"
  using xy ne
proof (induction xs ys rule: list_all2_induct)
  case (Cons x xs y ys)
  show ?case
  proof (cases xs)
    case Nil
    with Cons show ?thesis by simp
  next
    case (Cons x' xs')
    with Cons.hyps obtain y' ys' where ys: "ys = y' # ys'" by (cases ys) auto
    have "reads (CHR '','' # ws @ join (CHR '','' # ws) xs) (TComma # commas TComma ys)"
      using Cons.IH by (intro reads_comma ws) (simp add: Cons)
    then have "reads (x @ CHR '','' # ws @ join (CHR '','' # ws) xs) (y @ TComma # commas TComma ys)"
      using reads_append[OF Cons.hyps(1)] by (simp add: is_digit_def)
    then show ?thesis by (simp add: Cons ys)
  qed
qed simp

lemma reads_bracket:
  assumes ob: "punct a = Some ta" and cb: "punct b = Some tb" and ws: "\<forall>c \<in> set ws. json_ws c"
    and x: "reads x y" and that: "\<forall>c \<in> set ws'. json_ws c"
  shows "reads (a # ws @ x @ ws' @ [b]) (ta # y @ [tb])"
proof -
  have b: "reads [b] [tb]" using cb by (simp add: reads_def lex_punct)
  have nd: "\<not> is_digit b" "\<forall>c \<in> set ws'. \<not> is_digit c"
    using cb that by (auto simp: punct_def is_digit_def json_ws_def split: if_splits)
  then have "\<not> is_digit (hd (ws' @ [b]))" by (cases ws') auto
  then have "reads (x @ ws' @ [b]) (y @ [tb])"
    using reads_append[OF x reads_ws[OF that b]] by simp
  then have "reads (ws @ x @ ws' @ [b]) (y @ [tb])" by (rule reads_ws[OF ws])
  then show ?thesis using ob by (simp add: reads_def lex_punct)
qed

lemma show_commas: "concat (map show_tok (commas TComma tss)) =
  join ('','') (map (\<lambda>ts. concat (map show_tok ts)) tss)"
  by (induction TComma tss rule: commas.induct) simp_all

lemma reads_member:
  assumes "\<forall>c \<in> set ws. json_ws c" and "reads x y"
  shows "reads (json_string k @ CHR '':'' # ws @ x) (TStr k # TColon # y)"
proof -
  have "reads (ws @ x) y" using assms by (rule reads_ws)
  then have "reads (CHR '':'' # ws @ x) (TColon # y)" by (simp add: reads_def)
  then show ?thesis
    using reads_append[OF reads_tok[of "TStr k"]] by (simp add: is_digit_def)
qed

lemma dumps_PList: "dumps (PList xs) = CHR ''['' # join ('','') (map dumps xs) @ [CHR '']'']"
  by (simp add: dumps_def[abs_def] show_commas comp_def)

lemma dumps_PDict: "dumps (PDict d) =
  CHR ''{'' # join ('','') (map (\<lambda>p. json_string (fst p) @ CHR '':'' # dumps (snd p)) d) @ [CHR ''}'']"
  by (simp add: dumps_def[abs_def] show_commas comp_def)

lemma punct_simps [simp]:
  "punct (CHR ''['') = Some TLBrack" "punct (CHR '']'') = Some TRBrack"
  "punct (CHR ''{'') = Some TLBrace" "punct (CHR ''}'') = Some TRBrace"
  by (simp_all add: punct_def)

lemma reads_empty: "reads [] []"
  by (simp add: reads_def)

lemma reads_dumps: "reads (dumps v) (toks v)"
proof (induction v)
  case (PList xs)
  have "reads (join ('','') (map dumps xs)) (commas TComma (map toks xs))" if "xs \<noteq> []"
    using PList that by (intro reads_join[where ws = "[]", simplified]) (auto simp: list_all2_conv_all_nth)
  then have "reads (join ('','') (map dumps xs)) (commas TComma (map toks xs))"
    by (cases "xs = []") (simp_all add: reads_empty)
  then show ?case
    using reads_bracket[of "CHR ''[''" _ "CHR '']''" _ "[]" _ _ "[]"] by (simp add: dumps_PList)
next
  case (PDict d)
  let ?s = "map (\<lambda>p. json_string (fst p) @ CHR '':'' # dumps (snd p)) d"
  let ?t = "map (\<lambda>p. TStr (fst p) # TColon # toks (snd p)) d"
  have mem: "reads (json_string (fst p) @ CHR '':'' # dumps (snd p)) (TStr (fst p) # TColon # toks (snd p))"
    if "p \<in> set d" for p
    using PDict[of p "snd p"] that reads_member[of "[]"] by (cases p) simp
  have "reads (join ('','') ?s) (commas TComma ?t)" if "d \<noteq> []"
    using mem that by (intro reads_join[where ws = "[]", simplified]) (auto simp: list_all2_conv_all_nth)
  then have "reads (join ('','') ?s) (commas TComma ?t)"
    by (cases "d = []") (simp_all add: reads_empty)
  then show ?case
    using reads_bracket[of "CHR ''{''" _ "CHR ''}''" _ "[]" _ _ "[]"] by (simp add: dumps_PDict)
qed (simp_all add: dumps_def reads_tok flip: show_tok.simps)

lemma lex_dumps: "lex (dumps v) = Some (toks v)"
  using reads_dumps[of v] by (auto simp: reads_def no_digit_def dest!: spec[where x = "[]"])

lemma newline_indent_ws: "\<forall>c \<in> set (newline_indent n). json_ws c"
  by (auto simp: newline_indent_def json_ws_def)

lemma reads_pretty: "reads (pretty n v) (toks v)"
proof (induction v arbitrary: n)
  case (PList xs)
  let ?i = "newline_indent (Suc n)"
  have "reads (join (CHR '','' # ?i) (map (pretty (Suc n)) xs)) (commas TComma (map toks xs))"
    if "xs \<noteq> []"
    using PList that newline_indent_ws
    by (intro reads_join) (auto simp: list_all2_conv_all_nth)
  then show ?case
    using reads_bracket[of "CHR ''[''" _ "CHR '']''" _ ?i _ _ "newline_indent n"]
      reads_bracket[of "CHR ''[''" _ "CHR '']''" _ "[]" "[]" "[]" "[]"]
    by (auto simp: newline_indent_ws reads_empty)
next
  case (PDict d)
  let ?i = "newline_indent (Suc n)"
  let ?s = "map (\<lambda>p. json_string (fst p) @ '': '' @ pretty (Suc n) (snd p)) d"
  let ?t = "map (\<lambda>p. TStr (fst p) # TColon # toks (snd p)) d"
  have "reads (json_string (fst p) @ '': '' @ pretty (Suc n) (snd p)) (TStr (fst p) # TColon # toks (snd p))"
    if "p \<in> set d" for p
    using PDict[of p "snd p"] that reads_member[of "'' ''"] by (cases p) (simp add: json_ws_def)
  then have "reads (join (CHR '','' # ?i) ?s) (commas TComma ?t)" if "d \<noteq> []"
    using that newline_indent_ws by (intro reads_join) (auto simp: list_all2_conv_all_nth)
  then show ?case
    using reads_bracket[of "CHR ''{''" _ "CHR ''}''" _ ?i _ _ "newline_indent n"]
      reads_bracket[of "CHR ''{''" _ "CHR ''}''" _ "[]" "[]" "[]" "[]"]
    by (auto simp: newline_indent_ws reads_empty)
qed (simp_all add: dumps_def reads_tok flip: show_tok.simps)

lemma lex_pretty: "lex (pretty n v) = Some (toks v)"
  using reads_pretty[of n v] by (auto simp: reads_def no_digit_def dest!: spec[where x = "[]"])

section \<open>The parser on the tokens of a value\<close>

lemma toks_nonempty [simp]: "toks v \<noteq> []"
  by (cases v) auto

lemma toks_hd: "hd (toks v) \<notin> {TRBrack, TRBrace, TComma, TColon}"
  by (cases v) auto

lemma length_commas: "length (commas c (x # xs)) = length x + length (concat (map (\<lambda>y. c # y) xs))"
  by (induction xs arbitrary: x) auto

lemma mk_dict_distinct: "distinct (map fst d) \<Longrightarrow> mk_dict d = d"
proof -
  have "foldl (\<lambda>d p. dset (fst p) (snd p) d) acc d = acc @ d"
    if "distinct (map fst (acc @ d))" for acc d
    using that
  proof (induction d arbitrary: acc)
    case (Cons p d)
    then have "dset (fst p) (snd p) acc = acc @ [p]" by (simp add: dset_fresh)
    with Cons show ?case by (cases p) auto
  qed simp
  from this[of "[]" d] show "distinct (map fst d) \<Longrightarrow> mk_dict d = d"
    by (simp add: mk_dict_def)
qed

lemma parse_elems_toks:
  assumes "\<And>v n r. v \<in> set (x # xs) \<Longrightarrow> 2 * length (toks v) \<le> n \<Longrightarrow>
    parse_val n (toks v @ r) = Some (v, r)"
    and "2 * length (commas TComma (map toks (x # xs))) < n"
  shows "parse_elems n (commas TComma (map toks (x # xs)) @ TRBrack # r) = Some (x # xs, r)"
  using assms
proof (induction xs arbitrary: x n)
  case Nil
  then show ?case by (cases n) auto
next
  case (Cons y ys)
  obtain m where n: "n = Suc m" using Cons.prems(2) by (cases n) auto
  have "2 * length (toks x) \<le> m" "2 * length (commas TComma (map toks (y # ys))) < m"
    using Cons.prems(2) by (simp_all add: n length_commas)
  then show ?case using Cons.prems(1) Cons.IH[of y m] by (simp add: n)
qed

lemma parse_members_toks:
  assumes "\<And>q n r. q \<in> set (p # ps) \<Longrightarrow> 2 * length (toks (snd q)) \<le> n \<Longrightarrow>
    parse_val n (toks (snd q) @ r) = Some (snd q, r)"
    and "2 * length (commas TComma (map (\<lambda>p. TStr (fst p) # TColon # toks (snd p)) (p # ps))) < n"
  shows "parse_members n
    (commas TComma (map (\<lambda>p. TStr (fst p) # TColon # toks (snd p)) (p # ps)) @ TRBrace # r) =
    Some (p # ps, r)"
  using assms
proof (induction ps arbitrary: p n)
  case Nil
  then show ?case by (cases n) auto
next
  case (Cons q ps)
  obtain m where n: "n = Suc m" using Cons.prems(2) by (cases n) auto
  have "2 * length (toks (snd p)) \<le> m"
    "2 * length (commas TComma (map (\<lambda>p. TStr (fst p) # TColon # toks (snd p)) (q # ps))) < m"
    using Cons.prems(2) by (simp_all add: n length_commas)
  then show ?case using Cons.prems(1) Cons.IH[of q m] by (simp add: n)
qed

lemma parse_val_toks:
  "wf_val v \<Longrightarrow> 2 * length (toks v) \<le> n \<Longrightarrow> parse_val n (toks v @ r) = Some (v, r)"
proof (induction v arbitrary: n r)
  case (PList xs)
  obtain m where n: "n = Suc m" using PList.prems(2) by (cases n) auto
  show ?case
  proof (cases xs)
    case Nil
    then show ?thesis by (simp add: n)
  next
    case (Cons x ys)
    have "parse_elems m (commas TComma (map toks (x # ys)) @ TRBrack # r) = Some (x # ys, r)"
      using PList Cons by (intro parse_elems_toks) (auto simp: n list_all_iff)
    moreover have "hd (commas TComma (map toks (x # ys)) @ TRBrack # r) \<noteq> TRBrack"
      using toks_hd[of x] by (cases ys) auto
    ultimately show ?thesis using Cons by (auto simp: n split: list.splits tok.splits)
  qed
next
  case (PDict d)
  obtain m where n: "n = Suc m" using PDict.prems(2) by (cases n) auto
  show ?case
  proof (cases d)
    case Nil
    then show ?thesis by (simp add: n)
  next
    case (Cons p ps)
    let ?f = "\<lambda>p. TStr (fst p) # TColon # toks (snd p)"
    have ih: "parse_val k (toks (snd q) @ s) = Some (snd q, s)"
      if "q \<in> set d" "2 * length (toks (snd q)) \<le> k" for q k s
      using PDict.IH[of q "snd q" k s] PDict.prems(1) that by (cases q) (auto simp: list_all_iff)
    have "parse_members m (commas TComma (map ?f (p # ps)) @ TRBrace # r) = Some (p # ps, r)"
      using PDict.prems(2) Cons by (intro parse_members_toks ih) (auto simp: n)
    moreover have "hd (commas TComma (map ?f (p # ps)) @ TRBrace # r) \<noteq> TRBrace"
      by (cases ps) auto
    ultimately show ?thesis
      using Cons PDict.prems(1) mk_dict_distinct[of d]
      by (auto simp: n split: list.splits tok.splits)
  qed
qed (auto simp: numeral_2_eq_2 dest!: Suc_le_D)

theorem loads_dumps: "wf_val v \<Longrightarrow> loads (dumps v) = Some v"
  using parse_val_toks[of v _ "[]"] by (simp add: loads_def lex_dumps)

lemma wf_sort_keys: "wf_val v \<Longrightarrow> wf_val (sort_keys v)"
  by (induction v) (auto simp: list_all_iff comp_def)

theorem loads_dumps_indent: "wf_val v \<Longrightarrow> loads (dumps_indent v) = Some (sort_keys v)"
  using parse_val_toks[of "sort_keys v" _ "[]"]
  by (simp add: loads_def dumps_indent_def lex_pretty wf_sort_keys)

text \<open>Sorting the keys gives an equal dictionary.\<close>

lemma map_of_sort_key_fst: "distinct (map fst d) \<Longrightarrow> map_of (sort_key fst d) = map_of d"
  by (rule map_of_eqI) (auto simp: map_of_eq_Some_iff image_iff)

lemma map_of_map_snd: "map_of (map (\<lambda>p. (fst p, f (snd p))) d) k = map_option f (map_of d k)"
  by (induction d) auto

lemma py_eq_sort_keys: "wf_val v \<Longrightarrow> py_eq (sort_keys v) v"
proof (induction v)
  case (PDict d)
  let ?d = "sort_key fst (map (\<lambda>p. (fst p, sort_keys (snd p))) d)"
  have di: "distinct (map fst d)" "distinct (map fst ?d)"
    using PDict.prems by (simp_all add: comp_def)
  have m: "map_of ?d k = map_option sort_keys (map_of d k)" for k
    using di by (simp add: map_of_sort_key_fst comp_def map_of_map_snd)
  have "py_eq (sort_keys v) v" if "map_of d k = Some v" for k v
    using PDict.IH[of "(k, v)" v] map_of_SomeD[OF that] wf_val_map_of[OF PDict.prems that] by simp
  then have "py_eq (PDict ?d) (PDict d)"
    unfolding py_eq_dict_iff[OF di(2,1)] by (auto simp: m dom_def)
  then show ?case by simp
qed (auto simp: list_all_iff list_all2_conv_all_nth num_of_def)

section \<open>More fuel never changes what the parser returns\<close>

lemma parse_shorter:
  "parse_val n ts = Some (v, r) \<Longrightarrow> length r < length ts"
  "parse_elems n ts = Some (vs, r) \<Longrightarrow> length r < length ts"
  "parse_members n ts = Some (ps, r) \<Longrightarrow> length r < length ts"
proof (induction n arbitrary: ts v r vs ps)
  case (Suc n)
  note ih = Suc.IH
  {
    case 1
    then show ?case by (auto split: list.splits tok.splits dest!: ih)
  next
    case 2
    then show ?case by (auto split: list.splits tok.splits option.splits dest!: ih)
  next
    case 3
    then show ?case by (auto split: list.splits tok.splits option.splits dest!: ih)
  }
qed simp_all

lemma parse_fuel:
  "parse_val n ts = Some (v, r) \<Longrightarrow> 2 * length ts \<le> m + 2 * length r \<Longrightarrow> parse_val m ts = Some (v, r)"
  "parse_elems n ts = Some (vs, r) \<Longrightarrow> 2 * length ts \<le> m + 2 * length r \<Longrightarrow>
   parse_elems m ts = Some (vs, r)"
  "parse_members n ts = Some (ps, r) \<Longrightarrow> 2 * length ts \<le> m + 2 * length r \<Longrightarrow>
   parse_members m ts = Some (ps, r)"
proof (induction n arbitrary: m ts v r vs ps)
  case (Suc n)
  note ih = Suc.IH
  {
    case 1
    then obtain k where m: "m = Suc k" using parse_shorter(1)[OF 1(1)] by (cases m) auto
    have ex: "\<exists>qs. parse_members k s = Some (qs, r) \<and> mk_dict qs = mk_dict ps"
      if "parse_members n s = Some (ps, r)" "2 * length s \<le> k + 2 * length r" for s ps
      using ih(3)[OF that] by blast
    from 1 show ?case
      by (auto simp: m split: list.splits tok.splits elim!: ih ex)
  next
    case 2
    then obtain k where m: "m = Suc k" using parse_shorter(2)[OF 2(1)] by (cases m) auto
    from 2(1) obtain w t where w: "parse_val n ts = Some (w, t)"
      by (auto split: option.splits)
    with 2 parse_shorter(2)[of n] have "parse_val k ts = Some (w, t)"
      by (intro ih(1)[OF w]) (fastforce simp: m split: list.splits tok.splits)
    with 2 w parse_shorter(1)[OF w] show ?case
      by (auto simp: m split: list.splits tok.splits elim!: ih)
  next
    case 3
    then obtain k where m: "m = Suc k" using parse_shorter(3)[OF 3(1)] by (cases m) auto
    from 3(1) obtain key s w t where ts: "ts = TStr key # TColon # s"
      and w: "parse_val n s = Some (w, t)"
      by (auto split: option.splits list.splits tok.splits)
    with 3 parse_shorter(3)[of n] have "parse_val k s = Some (w, t)"
      by (intro ih(1)[OF w]) (fastforce simp: m ts split: list.splits tok.splits)
    with 3 w parse_shorter(1)[OF w] show ?case
      by (auto simp: m ts split: list.splits tok.splits elim!: ih)
  }
qed simp_all

lemma parse_fuel_enough:
  "parse_val n ts = Some (v, []) \<Longrightarrow> parse_val (2 * length ts) ts = Some (v, [])"
  by (erule parse_fuel(1)) simp

end
