(* ===== verification/Py_Time.thy ===== *)
theory Py_Time
  imports Py_Str
begin

text \<open>
  The part of Python's \<open>datetime\<close> the audit trail uses: \<open>strptime\<close> and \<open>strftime\<close> with the
  format \<open>%Y-%m-%dT%H:%M:%S.%fZ\<close>, and adding one microsecond, with the proleptic Gregorian
  calendar. The result of the theory is that formatting turns the order of instants into the
  lexical order of strings, which is what the audit writer relies on. (The C library pads the
  year to four digits only from year 1000 on; the model always pads.)
\<close>

section \<open>Calendar\<close>

record datetime =
  dt_year :: nat
  dt_month :: nat
  dt_day :: nat
  dt_hour :: nat
  dt_minute :: nat
  dt_second :: nat
  dt_micro :: nat

definition leap_year :: "nat \<Rightarrow> bool" where
  "leap_year y \<longleftrightarrow> y mod 4 = 0 \<and> (y mod 100 \<noteq> 0 \<or> y mod 400 = 0)"

definition days_in_month :: "nat \<Rightarrow> nat \<Rightarrow> nat" where
  "days_in_month y m = (if m = 2 then (if leap_year y then 29 else 28)
     else if m \<in> {4, 6, 9, 11} then 30 else 31)"

definition valid_datetime :: "datetime \<Rightarrow> bool" where
  "valid_datetime d \<longleftrightarrow> 1 \<le> dt_year d \<and> dt_year d \<le> 9999 \<and> 1 \<le> dt_month d \<and> dt_month d \<le> 12 \<and>
     1 \<le> dt_day d \<and> dt_day d \<le> days_in_month (dt_year d) (dt_month d) \<and>
     dt_hour d < 24 \<and> dt_minute d < 60 \<and> dt_second d < 60 \<and> dt_micro d < 1000000"

text \<open>\<open>d + timedelta(microseconds=1)\<close>; \<open>None\<close> is the \<open>OverflowError\<close> after year 9999.\<close>

definition add_microsecond :: "datetime \<Rightarrow> datetime option" where
  "add_microsecond d =
     (if Suc (dt_micro d) < 1000000 then Some (d\<lparr>dt_micro := Suc (dt_micro d)\<rparr>)
      else let d = d\<lparr>dt_micro := 0\<rparr> in
      if Suc (dt_second d) < 60 then Some (d\<lparr>dt_second := Suc (dt_second d)\<rparr>)
      else let d = d\<lparr>dt_second := 0\<rparr> in
      if Suc (dt_minute d) < 60 then Some (d\<lparr>dt_minute := Suc (dt_minute d)\<rparr>)
      else let d = d\<lparr>dt_minute := 0\<rparr> in
      if Suc (dt_hour d) < 24 then Some (d\<lparr>dt_hour := Suc (dt_hour d)\<rparr>)
      else let d = d\<lparr>dt_hour := 0\<rparr> in
      if Suc (dt_day d) \<le> days_in_month (dt_year d) (dt_month d)
      then Some (d\<lparr>dt_day := Suc (dt_day d)\<rparr>)
      else let d = d\<lparr>dt_day := 1\<rparr> in
      if Suc (dt_month d) \<le> 12 then Some (d\<lparr>dt_month := Suc (dt_month d)\<rparr>)
      else let d = d\<lparr>dt_month := 1\<rparr> in
      if Suc (dt_year d) \<le> 9999 then Some (d\<lparr>dt_year := Suc (dt_year d)\<rparr>) else None)"

section \<open>Formatting and parsing\<close>

fun pad :: "nat \<Rightarrow> nat \<Rightarrow> string" where
  "pad 0 n = []"
| "pad (Suc w) n = pad w (n div 10) @ [digit (n mod 10)]"

definition format_datetime :: "datetime \<Rightarrow> string" where
  "format_datetime d =
     pad 4 (dt_year d) @ ''-'' @ pad 2 (dt_month d) @ ''-'' @ pad 2 (dt_day d) @ ''T'' @
     pad 2 (dt_hour d) @ '':'' @ pad 2 (dt_minute d) @ '':'' @ pad 2 (dt_second d) @ ''.'' @
     pad 6 (dt_micro d) @ ''Z''"

text \<open>
  A numeric directive of \<open>strptime\<close> takes the digits before the next separator: at least \<open>lo\<close>
  and at most \<open>hi\<close> of them, with the value in the given range.
\<close>

definition num_field :: "nat \<Rightarrow> nat \<Rightarrow> nat \<Rightarrow> nat \<Rightarrow> string \<Rightarrow> (nat \<times> string) option" where
  "num_field lo hi vmin vmax s = (let ds = takeWhile is_digit s in
     if lo \<le> length ds \<and> length ds \<le> hi \<and> vmin \<le> digits_val ds \<and> digits_val ds \<le> vmax
     then Some (digits_val ds, dropWhile is_digit s) else None)"

text \<open>\<open>%d\<close> also takes a blank and one digit.\<close>

definition day_field :: "string \<Rightarrow> (nat \<times> string) option" where
  "day_field s = (case s of
     [] \<Rightarrow> None
   | c # r \<Rightarrow> (if c = CHR '' '' then num_field 1 1 1 9 r else num_field 1 2 1 31 s))"

text \<open>\<open>%f\<close>: one to six digits, read as a fraction.\<close>

definition micro_field :: "string \<Rightarrow> (nat \<times> string) option" where
  "micro_field s = (let ds = takeWhile is_digit s in
     if 1 \<le> length ds \<and> length ds \<le> 6
     then Some (digits_val ds * 10 ^ (6 - length ds), dropWhile is_digit s) else None)"

text \<open>The literal characters of the format; \<open>strptime\<close> matches them in either case.\<close>

definition expect :: "char \<Rightarrow> string \<Rightarrow> string option" where
  "expect c s = (case s of [] \<Rightarrow> None | x # r \<Rightarrow> if lower_char x = lower_char c then Some r else None)"

definition parse_datetime :: "string \<Rightarrow> datetime option" where
  "parse_datetime s =
     Option.bind (num_field 4 4 0 9999 s) (\<lambda>(y, s).
     Option.bind (expect (CHR ''-'') s) (\<lambda>s. Option.bind (num_field 1 2 1 12 s) (\<lambda>(mo, s).
     Option.bind (expect (CHR ''-'') s) (\<lambda>s. Option.bind (day_field s) (\<lambda>(da, s).
     Option.bind (expect (CHR ''T'') s) (\<lambda>s. Option.bind (num_field 1 2 0 23 s) (\<lambda>(ho, s).
     Option.bind (expect (CHR '':'') s) (\<lambda>s. Option.bind (num_field 1 2 0 59 s) (\<lambda>(mi, s).
     Option.bind (expect (CHR '':'') s) (\<lambda>s. Option.bind (num_field 1 2 0 61 s) (\<lambda>(se, s).
     Option.bind (expect (CHR ''.'') s) (\<lambda>s. Option.bind (micro_field s) (\<lambda>(us, s).
     Option.bind (expect (CHR ''Z'') s) (\<lambda>s.
       let d = \<lparr>dt_year = y, dt_month = mo, dt_day = da, dt_hour = ho, dt_minute = mi,
                dt_second = se, dt_micro = us\<rparr>
       in if s = [] \<and> valid_datetime d then Some d else None))))))))))))))"

section \<open>Fixed-width decimals are ordered like numbers\<close>

lemma length_pad [simp]: "length (pad w n) = w"
  by (induction w arbitrary: n) auto

lemma pad_digits: "\<forall>c \<in> set (pad w n). is_digit c"
  by (induction w arbitrary: n) auto

lemma digits_val_pad [simp]: "n < 10 ^ w \<Longrightarrow> digits_val (pad w n) = n"
proof (induction w arbitrary: n)
  case 0
  then show ?case by (simp add: digits_val_def)
next
  case (Suc w)
  then have "n div 10 < 10 ^ w" by (simp add: less_mult_imp_div_less mult.commute)
  with Suc.IH show ?case by (simp add: digits_val_snoc)
qed

lemma list_less_append_same: "length xs = length ys \<Longrightarrow>
  (xs @ us < ys @ vs) \<longleftrightarrow> (xs < ys \<or> xs = ys \<and> us < (vs :: 'a :: linorder list))"
  by (induction xs ys rule: list_induct2) auto

lemma digit_less: "a < 10 \<Longrightarrow> b < 10 \<Longrightarrow> digit a < digit b \<longleftrightarrow> a < b"
  by (simp add: less_char_def)

lemma pad_less: "m < n \<Longrightarrow> n < 10 ^ w \<Longrightarrow> pad w m < pad w n"
proof (induction w arbitrary: m n)
  case (Suc w)
  have n: "n div 10 < 10 ^ w" using Suc.prems by (simp add: less_mult_imp_div_less mult.commute)
  show ?case
  proof (cases "m div 10 = n div 10")
    case True
    then have "m mod 10 < n mod 10" using Suc.prems(1) div_mult_mod_eq[of m 10] div_mult_mod_eq[of n 10]
      by linarith
    then show ?thesis by (simp add: True list_less_append_same digit_less)
  next
    case False
    then have "m div 10 < n div 10" using Suc.prems(1) by (simp add: div_le_mono le_neq_implies_less)
    with Suc.IH n show ?thesis by (simp add: list_less_append_same)
  qed
qed simp

section \<open>Adding a microsecond moves the formatted text up\<close>

lemma days_in_month_le: "days_in_month y m \<le> 31"
  by (simp add: days_in_month_def)

lemma valid_add_microsecond: "valid_datetime d \<Longrightarrow> add_microsecond d = Some d' \<Longrightarrow> valid_datetime d'"
proof -
  assume v: "valid_datetime d" and a: "add_microsecond d = Some d'"
  have "1 \<le> days_in_month y m" for y m by (simp add: days_in_month_def)
  with v a show ?thesis
    by (auto simp: add_microsecond_def valid_datetime_def Let_def split: if_splits)
qed

text \<open>The seven ways a microsecond carries.\<close>

lemma add_microsecond_cases:
  assumes "add_microsecond d = Some d'"
  obtains
    (micro) "d' = d\<lparr>dt_micro := Suc (dt_micro d)\<rparr>"
  | (second) "d' = d\<lparr>dt_second := Suc (dt_second d), dt_micro := 0\<rparr>"
  | (minute) "d' = d\<lparr>dt_minute := Suc (dt_minute d), dt_second := 0, dt_micro := 0\<rparr>"
  | (hour) "d' = d\<lparr>dt_hour := Suc (dt_hour d), dt_minute := 0, dt_second := 0, dt_micro := 0\<rparr>"
  | (day) "d' = d\<lparr>dt_day := Suc (dt_day d), dt_hour := 0, dt_minute := 0, dt_second := 0,
             dt_micro := 0\<rparr>"
  | (month) "d' = d\<lparr>dt_month := Suc (dt_month d), dt_day := 1, dt_hour := 0, dt_minute := 0,
             dt_second := 0, dt_micro := 0\<rparr>"
  | (year) "d' = d\<lparr>dt_year := Suc (dt_year d), dt_month := 1, dt_day := 1, dt_hour := 0,
             dt_minute := 0, dt_second := 0, dt_micro := 0\<rparr>"
  using assms unfolding add_microsecond_def Let_def
  by (cases d) (simp split: if_splits)

lemma format_add_microsecond:
  assumes v: "valid_datetime d" and a: "add_microsecond d = Some d'"
  shows "format_datetime d < format_datetime d'"
proof -
  have b: "dt_year d < 10 ^ 4" "dt_month d < 10 ^ 2" "dt_day d < 10 ^ 2" "dt_hour d < 10 ^ 2"
    "dt_minute d < 10 ^ 2" "dt_second d < 10 ^ 2" "dt_micro d < 10 ^ 6"
    using v days_in_month_le[of "dt_year d" "dt_month d"] by (auto simp: valid_datetime_def)
  have v': "valid_datetime d'" using v a by (rule valid_add_microsecond)
  have b': "dt_year d' < 10 ^ 4" "dt_month d' < 10 ^ 2" "dt_day d' < 10 ^ 2" "dt_hour d' < 10 ^ 2"
    "dt_minute d' < 10 ^ 2" "dt_second d' < 10 ^ 2" "dt_micro d' < 10 ^ 6"
    using v' days_in_month_le[of "dt_year d'" "dt_month d'"] by (auto simp: valid_datetime_def)
  from a b' show ?thesis
    by (cases rule: add_microsecond_cases)
       (simp_all add: format_datetime_def list_less_append_same pad_less del: pad.simps)
qed

lemma num_field_pad:
  "\<lbrakk>n < 10 ^ w; lo \<le> w; w \<le> hi; vmin \<le> n; n \<le> vmax; s \<noteq> []; \<not> is_digit (hd s)\<rbrakk> \<Longrightarrow>
   num_field lo hi vmin vmax (pad w n @ s) = Some (n, s)"
proof -
  assume a: "n < 10 ^ w" "lo \<le> w" "w \<le> hi" "vmin \<le> n" "n \<le> vmax" and s: "s \<noteq> []" "\<not> is_digit (hd s)"
  have "takeWhile is_digit (pad w n @ s) = pad w n" "dropWhile is_digit (pad w n @ s) = s"
    using s pad_digits[of w n] by (cases s; simp add: takeWhile_append dropWhile_append)+
  with a show ?thesis by (simp add: num_field_def)
qed

lemma day_field_pad:
  "\<lbrakk>n < 100; 1 \<le> n; n \<le> 31; s \<noteq> []; \<not> is_digit (hd s)\<rbrakk> \<Longrightarrow> day_field (pad 2 n @ s) = Some (n, s)"
proof -
  assume a: "n < 100" "1 \<le> n" "n \<le> 31" "s \<noteq> []" "\<not> is_digit (hd s)"
  obtain c r where c: "pad 2 n = c # r" by (cases "pad 2 n") (auto dest: arg_cong[of _ _ length])
  have "is_digit c" using pad_digits[of 2 n] c by simp
  then have "c \<noteq> CHR '' ''" by (auto simp: is_digit_def)
  then show ?thesis using num_field_pad[of n 2 1 2 1 31 s] a c by (simp add: day_field_def)
qed

lemma micro_field_pad:
  "\<lbrakk>n < 1000000; s \<noteq> []; \<not> is_digit (hd s)\<rbrakk> \<Longrightarrow> micro_field (pad 6 n @ s) = Some (n, s)"
proof -
  assume a: "n < 1000000" "s \<noteq> []" "\<not> is_digit (hd s)"
  have "takeWhile is_digit (pad 6 n @ s) = pad 6 n" "dropWhile is_digit (pad 6 n @ s) = s"
    using a pad_digits[of 6 n] by (cases s; simp add: takeWhile_append dropWhile_append)+
  with a show ?thesis by (simp add: micro_field_def)
qed

theorem parse_format_datetime:
  assumes v: "valid_datetime d"
  shows "parse_datetime (format_datetime d) = Some d"
proof -
  have b: "dt_year d < 10 ^ 4" "dt_month d < 10 ^ 2" "dt_day d < 100" "dt_hour d < 10 ^ 2"
    "dt_minute d < 10 ^ 2" "dt_second d < 10 ^ 2" "dt_micro d < 1000000"
    and r: "dt_year d \<le> 9999" "1 \<le> dt_month d" "dt_month d \<le> 12" "1 \<le> dt_day d" "dt_day d \<le> 31"
    "dt_hour d \<le> 23" "dt_minute d \<le> 59" "dt_second d \<le> 61"
    using v days_in_month_le[of "dt_year d" "dt_month d"] by (auto simp: valid_datetime_def)
  have eta: "(let x = \<lparr>dt_year = dt_year d, dt_month = dt_month d, dt_day = dt_day d,
      dt_hour = dt_hour d, dt_minute = dt_minute d, dt_second = dt_second d,
      dt_micro = dt_micro d\<rparr> in if valid_datetime x then Some x else None) = Some d"
    using v by (cases d) simp
  show ?thesis
    using b r
    by (simp add: format_datetime_def parse_datetime_def num_field_pad day_field_pad
        micro_field_pad expect_def is_digit_def eta del: pad.simps)
qed

text \<open>Texts of the fixed format; appending to them and comparing them is the writer's whole interface.\<close>

definition canonical_ts :: "string \<Rightarrow> bool" where
  "canonical_ts s \<longleftrightarrow> (\<exists>d. valid_datetime d \<and> s = format_datetime d)"

lemma canonical_ts_nonempty: "canonical_ts s \<Longrightarrow> s \<noteq> []"
  by (auto simp: canonical_ts_def format_datetime_def)

end
