(* ===== verification/Audit_Writer.thy ===== *)
theory Audit_Writer
  imports Json Py_Time
begin

text \<open>
  The audit trail of \<open>contentops/audit/writer.py\<close>: records hash-chained over date-named
  \<open>.jsonl\<close> files. The digest (\<open>hashlib.sha256(..).hexdigest()\<close>) is the parameter \<open>h\<close>; nothing
  here depends on what it computes, so every theorem holds for every digest. The directory
  \<open>audit/\<close> is the state: \<open>None\<close> while it does not exist, else its files by name, a file that
  cannot be read being \<open>None\<close>. What other processes do between two reads is a parameter too.
\<close>

section \<open>Records\<close>

record audit_record =
  timestamp :: string
  asset :: string
  rec_id :: string
  action :: string
  status :: string
  sha :: string
  actor :: string
  workflow_run :: "string option"
  message :: "string option"
  metadata_owner :: "string option"
  workspace :: "string option"
  snippet_digest :: "string option"
  prev_hash :: string
  record_hash :: string

definition ZERO_HASH :: string where
  "ZERO_HASH = replicate 64 (CHR ''0'')"

definition opt_str :: "string option \<Rightarrow> pyval" where
  "opt_str x = (case x of None \<Rightarrow> PNone | Some s \<Rightarrow> PStr s)"

text \<open>\<open>asdict(rec)\<close> without its last entry: the fields in declaration order.\<close>

definition unhashed_fields :: "audit_record \<Rightarrow> pydict" where
  "unhashed_fields r =
    [(''timestamp'', PStr (timestamp r)), (''asset'', PStr (asset r)), (''id'', PStr (rec_id r)),
     (''action'', PStr (action r)), (''status'', PStr (status r)), (''sha'', PStr (sha r)),
     (''actor'', PStr (actor r)), (''workflow_run'', opt_str (workflow_run r)),
     (''message'', opt_str (message r)), (''metadata_owner'', opt_str (metadata_owner r)),
     (''workspace'', opt_str (workspace r)), (''snippet_digest'', opt_str (snippet_digest r)),
     (''prev_hash'', PStr (prev_hash r))]"

definition asdict :: "audit_record \<Rightarrow> pydict" where
  "asdict r = unhashed_fields r @ [(''record_hash'', PStr (record_hash r))]"

definition to_json_unhashed :: "audit_record \<Rightarrow> string" where
  "to_json_unhashed r = dumps (PDict (dpop ''record_hash'' (asdict r)))"

definition to_json :: "audit_record \<Rightarrow> string" where
  "to_json r = dumps (PDict (asdict r))"

definition compute_record_hash :: "(string \<Rightarrow> string) \<Rightarrow> audit_record \<Rightarrow> string" where
  "compute_record_hash h r = h (to_json_unhashed r)"

section \<open>Chaining a batch\<close>

text \<open>Exceptions of this module.\<close>

datatype audit_error =
    ConcurrentWrite                 \<comment> \<open>\<open>AuditConcurrentWriteError\<close>\<close>
  | Overflow                        \<comment> \<open>\<open>OverflowError\<close> of the \<open>datetime\<close> addition\<close>
  | NotAMapping                     \<comment> \<open>\<open>AttributeError\<close> / \<open>TypeError\<close>: a line that is JSON but no object\<close>
  | ReadError                       \<comment> \<open>\<open>OSError\<close> from \<open>read_bytes\<close>\<close>
  | BadAttempts                     \<comment> \<open>\<open>ValueError\<close>: \<open>attempts < 1\<close>\<close>

definition monotonic_timestamp :: "string \<Rightarrow> string \<Rightarrow> audit_error + string" where
  "monotonic_timestamp prev_ts candidate =
    (if prev_ts = [] \<or> prev_ts < candidate then Inr candidate
     else case parse_datetime prev_ts of
       None \<Rightarrow> Inr candidate
     | Some dt_prev \<Rightarrow>
         (case add_microsecond dt_prev of
            None \<Rightarrow> Inl Overflow
          | Some d \<Rightarrow> Inr (format_datetime d)))"

fun chain_records ::
  "(string \<Rightarrow> string) \<Rightarrow> audit_record list \<Rightarrow> string \<Rightarrow> string \<Rightarrow> audit_error + audit_record list" where
  "chain_records h [] current_prev current_ts = Inr []"
| "chain_records h (r # rs) current_prev current_ts =
    rbind (monotonic_timestamp current_ts (timestamp r)) (\<lambda>bumped_ts.
      let with_prev = r\<lparr>timestamp := bumped_ts, prev_hash := current_prev, record_hash := []\<rparr>;
          d = compute_record_hash h with_prev
      in rbind (chain_records h rs d bumped_ts)
           (\<lambda>chained. Inr (with_prev\<lparr>record_hash := d\<rparr> # chained)))"

section \<open>The directory and its tail\<close>

type_synonym audit_files = "(string \<times> string option) list"
type_synonym audit_dir = "audit_files option"

definition jsonl_files :: "audit_files \<Rightarrow> audit_files" where
  "jsonl_files fs = sort_key fst (filter (\<lambda>f. endswith (fst f) ''.jsonl'') fs)"

text \<open>The scan of one file's lines, already reversed; \<open>Inr None\<close> goes on to the next file.\<close>

fun tail_of_lines :: "string list \<Rightarrow> audit_error + (string \<times> string) option" where
  "tail_of_lines [] = Inr None"
| "tail_of_lines (l # ls) =
    (if strip l = [] then tail_of_lines ls
     else case loads l of
       None \<Rightarrow> tail_of_lines ls
     | Some (PDict d) \<Rightarrow>
         (case dget d ''record_hash'' of
            PStr rh \<Rightarrow>
              (if rh = [] then tail_of_lines ls
               else Inr (Some (rh, case dget d ''timestamp'' of PStr ts \<Rightarrow> ts | _ \<Rightarrow> [])))
          | _ \<Rightarrow> tail_of_lines ls)
     | Some _ \<Rightarrow> Inl NotAMapping)"

fun tail_of_files :: "audit_files \<Rightarrow> audit_error + (string \<times> string)" where
  "tail_of_files [] = Inr (ZERO_HASH, [])"
| "tail_of_files ((name, content) # fs) =
    (case content of
       None \<Rightarrow> tail_of_files fs
     | Some c \<Rightarrow>
         rbind (tail_of_lines (rev (splitlines c)))
           (\<lambda>t. case t of None \<Rightarrow> tail_of_files fs | Some x \<Rightarrow> Inr x))"

definition last_record_tail :: "audit_dir \<Rightarrow> audit_error + (string \<times> string)" where
  "last_record_tail d = (case d of
     None \<Rightarrow> Inr (ZERO_HASH, [])
   | Some fs \<Rightarrow> tail_of_files (rev (jsonl_files fs)))"

definition last_record_hash :: "audit_dir \<Rightarrow> audit_error + string" where
  "last_record_hash d = rbind (last_record_tail d) (\<lambda>t. Inr (fst t))"

section \<open>Writing\<close>

definition files_of :: "audit_dir \<Rightarrow> audit_files" where
  "files_of d = (case d of None \<Rightarrow> [] | Some fs \<Rightarrow> fs)"

definition lines_text :: "audit_record list \<Rightarrow> string" where
  "lines_text rs = concat (map (\<lambda>r. to_json r @ [NL]) rs)"

text \<open>
  \<open>write_records\<close> on the day \<open>today\<close> (the \<open>YYYY-MM-DD\<close> text). Two functions stand for what other processes do
  to the directory: \<open>race\<close> between the first look at the tail and the second, and \<open>gap\<close> between that check and
  \<open>os.replace\<close>, a window nothing guards. The result pairs the outcome with the directory left behind. The
  temporary file is not a \<open>.jsonl\<close> file, so no other operation sees it.
\<close>

definition write_records_gap ::
  "(string \<Rightarrow> string) \<Rightarrow> string \<Rightarrow> (audit_files \<Rightarrow> audit_files) \<Rightarrow> (audit_files \<Rightarrow> audit_files) \<Rightarrow>
   audit_record list \<Rightarrow> audit_dir \<Rightarrow> (audit_error + string) \<times> audit_dir" where
  "write_records_gap h today race gap records d =
    (let fs = files_of d; path = today @ ''.jsonl'' in
     case last_record_tail (Some fs) of
       Inl e \<Rightarrow> (Inl e, Some fs)
     | Inr (prev, prev_ts) \<Rightarrow>
         (case chain_records h records prev prev_ts of
            Inl e \<Rightarrow> (Inl e, Some fs)
          | Inr batch \<Rightarrow>
              (case (case map_of fs path of None \<Rightarrow> Some [] | Some c \<Rightarrow> c) of
                 None \<Rightarrow> (Inl ReadError, Some fs)
               | Some existing \<Rightarrow>
                   (let fs' = race fs in
                    case last_record_tail (Some fs') of
                      Inl e \<Rightarrow> (Inl e, Some fs')
                    | Inr (current, _) \<Rightarrow>
                        (if current \<noteq> prev then (Inl ConcurrentWrite, Some fs')
                         else (Inr path,
                               Some (dset path (Some (existing @ lines_text batch)) (gap fs'))))))))"

text \<open>The append of a run in which nobody writes between the second look and the replace.\<close>

definition write_records ::
  "(string \<Rightarrow> string) \<Rightarrow> string \<Rightarrow> (audit_files \<Rightarrow> audit_files) \<Rightarrow> audit_record list \<Rightarrow>
   audit_dir \<Rightarrow> (audit_error + string) \<times> audit_dir" where
  "write_records h today race records d = write_records_gap h today race id records d"

fun write_attempts ::
  "(string \<Rightarrow> string) \<Rightarrow> string \<Rightarrow> (nat \<Rightarrow> audit_files \<Rightarrow> audit_files) \<Rightarrow> (nat \<Rightarrow> audit_files \<Rightarrow> audit_files) \<Rightarrow>
   audit_record list \<Rightarrow> nat \<Rightarrow> nat \<Rightarrow> audit_dir \<Rightarrow> (audit_error + string) \<times> audit_dir" where
  "write_attempts h today race gap records i 0 d = (Inl ConcurrentWrite, d)"
| "write_attempts h today race gap records i (Suc n) d =
    (case write_records_gap h today (race i) (gap i) records d of
       (Inl ConcurrentWrite, d') \<Rightarrow> write_attempts h today race gap records (Suc i) n d'
     | res \<Rightarrow> res)"

definition write_records_with_retry ::
  "(string \<Rightarrow> string) \<Rightarrow> string \<Rightarrow> (nat \<Rightarrow> audit_files \<Rightarrow> audit_files) \<Rightarrow> (nat \<Rightarrow> audit_files \<Rightarrow> audit_files) \<Rightarrow>
   audit_record list \<Rightarrow> nat \<Rightarrow> audit_dir \<Rightarrow> (audit_error + string) \<times> audit_dir" where
  "write_records_with_retry h today race gap records attempts d =
    (if attempts < 1 then (Inl BadAttempts, d)
     else write_attempts h today race gap records 0 attempts d)"

definition write_orphan_records ::
  "string \<Rightarrow> audit_record list \<Rightarrow> audit_dir \<Rightarrow> (audit_error + string) \<times> audit_dir" where
  "write_orphan_records today records d =
    (let fs = files_of d; path = today @ ''.jsonl.orphan'' in
     case (case map_of fs path of None \<Rightarrow> Some [] | Some c \<Rightarrow> c) of
       None \<Rightarrow> (Inl ReadError, Some fs)
     | Some existing \<Rightarrow> (Inr path, Some (dset path (Some (existing @ lines_text records)) fs)))"

lemma write_records_gap_id [simp]: "write_records_gap h today race id = write_records h today race"
  by (simp add: write_records_def fun_eq_iff)

lemma write_records_unfold:
  "write_records h today race records d =
    (let fs = files_of d; path = today @ ''.jsonl'' in
     case last_record_tail (Some fs) of
       Inl e \<Rightarrow> (Inl e, Some fs)
     | Inr (prev, prev_ts) \<Rightarrow>
         (case chain_records h records prev prev_ts of
            Inl e \<Rightarrow> (Inl e, Some fs)
          | Inr batch \<Rightarrow>
              (case (case map_of fs path of None \<Rightarrow> Some [] | Some c \<Rightarrow> c) of
                 None \<Rightarrow> (Inl ReadError, Some fs)
               | Some existing \<Rightarrow>
                   (let fs' = race fs in
                    case last_record_tail (Some fs') of
                      Inl e \<Rightarrow> (Inl e, Some fs')
                    | Inr (current, _) \<Rightarrow>
                        (if current \<noteq> prev then (Inl ConcurrentWrite, Some fs')
                         else (Inr path,
                               Some (dset path (Some (existing @ lines_text batch)) fs')))))))"
  unfolding write_records_def write_records_gap_def id_def by (rule refl)

section \<open>Verification\<close>

datatype break_reason =
    Prev_hash_mismatch | Record_hash_invalid | Missing_field | Timestamp_regression

record chain_break =
  brk_file :: string
  line_number :: nat
  expected_prev_hash :: pyval
  actual_prev_hash :: pyval
  reason :: break_reason

record verification =
  files_checked :: nat
  records_verified :: nat
  breaks :: "chain_break list"

record walk =
  expected_prev :: pyval
  prev_timestamp :: string
  verified :: nat
  found :: "chain_break list"

definition add_break :: "string \<Rightarrow> nat \<Rightarrow> pyval \<Rightarrow> break_reason \<Rightarrow> walk \<Rightarrow> walk" where
  "add_break f ln act why w = w\<lparr>found := found w @
     [\<lparr>brk_file = f, line_number = ln, expected_prev_hash = expected_prev w,
       actual_prev_hash = act, reason = why\<rparr>]\<rparr>"

definition check_hashes :: "(string \<Rightarrow> string) \<Rightarrow> string \<Rightarrow> nat \<Rightarrow> pydict \<Rightarrow> walk \<Rightarrow> walk" where
  "check_hashes h f ln d w =
    (let act = dget d ''prev_hash'';
         computed = h (dumps (PDict (dpop ''record_hash'' d)))
     in if \<not> py_eq (PStr computed) (dget d ''record_hash'')
        then add_break f ln act Record_hash_invalid w
        else if \<not> py_eq act (expected_prev w)
        then add_break f ln act Prev_hash_mismatch w
        else w)"

definition check_timestamp :: "string \<Rightarrow> nat \<Rightarrow> pydict \<Rightarrow> walk \<Rightarrow> walk" where
  "check_timestamp f ln d w =
    (case dget d ''timestamp'' of
       PStr ts \<Rightarrow>
         (let w = (if prev_timestamp w \<noteq> [] \<and> ts < prev_timestamp w
                   then add_break f ln (dget d ''prev_hash'') Timestamp_regression w else w)
          in if ts \<noteq> [] then w\<lparr>prev_timestamp := ts\<rparr> else w)
     | _ \<Rightarrow> w)"

definition verify_line ::
  "(string \<Rightarrow> string) \<Rightarrow> string \<Rightarrow> nat \<Rightarrow> string \<Rightarrow> walk \<Rightarrow> audit_error + walk" where
  "verify_line h f ln line w =
    (if strip line = [] then Inr w
     else case loads line of
       None \<Rightarrow> Inr (add_break f ln (PStr []) Missing_field w)
     | Some (PDict d) \<Rightarrow>
         (if map_of d ''record_hash'' = None \<or> map_of d ''prev_hash'' = None
          then Inr (add_break f ln (PStr (py_str (dget_default d ''prev_hash'' (PStr []))))
                      Missing_field w)
          else let w = check_timestamp f ln d (check_hashes h f ln d w)
               in Inr (w\<lparr>verified := Suc (verified w), expected_prev := dget d ''record_hash''\<rparr>))
     | Some _ \<Rightarrow> Inl NotAMapping)"

fun verify_lines ::
  "(string \<Rightarrow> string) \<Rightarrow> string \<Rightarrow> nat \<Rightarrow> string list \<Rightarrow> walk \<Rightarrow> audit_error + walk" where
  "verify_lines h f ln [] w = Inr w"
| "verify_lines h f ln (l # ls) w =
     rbind (verify_line h f ln l w) (verify_lines h f (Suc ln) ls)"

fun verify_files :: "(string \<Rightarrow> string) \<Rightarrow> audit_files \<Rightarrow> walk \<Rightarrow> audit_error + walk" where
  "verify_files h [] w = Inr w"
| "verify_files h ((f, content) # fs) w =
     (case content of
        None \<Rightarrow> verify_files h fs w
      | Some c \<Rightarrow> rbind (verify_lines h f 1 (splitlines c) w) (verify_files h fs))"

definition walk_start :: walk where
  "walk_start = \<lparr>expected_prev = PStr ZERO_HASH, prev_timestamp = [], verified = 0, found = []\<rparr>"

definition verify_chain :: "(string \<Rightarrow> string) \<Rightarrow> audit_dir \<Rightarrow> audit_error + verification" where
  "verify_chain h d = (case d of
     None \<Rightarrow> Inr \<lparr>files_checked = 0, records_verified = 0, breaks = []\<rparr>
   | Some fs \<Rightarrow>
       rbind (verify_files h (jsonl_files fs) walk_start) (\<lambda>w.
         Inr \<lparr>files_checked = length (jsonl_files fs), records_verified = verified w,
              breaks = found w\<rparr>))"

record head_info =
  head_hash :: "string option"
  tail_timestamp :: "string option"
  head_files_checked :: nat
  head_records_verified :: nat
  chain_breaks :: nat
  head_verified :: bool

definition head_summary :: "(string \<Rightarrow> string) \<Rightarrow> audit_dir \<Rightarrow> audit_error + head_info" where
  "head_summary h d =
    rbind (last_record_tail d) (\<lambda>(hd_hash, tail_ts).
    rbind (verify_chain h d) (\<lambda>res.
      Inr \<lparr>head_hash = (if hd_hash = ZERO_HASH then None else Some hd_hash),
           tail_timestamp = (if tail_ts = [] then None else Some tail_ts),
           head_files_checked = files_checked res, head_records_verified = records_verified res,
           chain_breaks = length (breaks res), head_verified = (breaks res = [])\<rparr>))"

section \<open>A record is one line of text that reads back as itself\<close>

text \<open>
  What the chain relies on of its serialisation, as an interface: a line that parses back to
  the fields of the record, holds no line boundary and is not blank.
\<close>

locale line_codec =
  fixes enc :: "'r \<Rightarrow> string" and fields :: "'r \<Rightarrow> pydict"
  assumes loads_enc: "loads (enc r) = Some (PDict (fields r))"
    and enc_no_break: "c \<in> set (enc r) \<Longrightarrow> \<not> is_linebreak c"
    and enc_visible: "strip (enc r) \<noteq> []"
begin

lemma splitlines_enc: "splitlines (concat (map (\<lambda>r. enc r @ [NL]) rs)) = map enc rs"
  using splitlines_lines[of "map enc rs" "[]"] enc_no_break by (auto simp: comp_def)

lemma tail_of_enc:
  "dget (fields r) ''record_hash'' = PStr rh \<Longrightarrow> rh \<noteq> [] \<Longrightarrow>
   dget (fields r) ''timestamp'' = PStr ts \<Longrightarrow>
   tail_of_lines (enc r # ls) = Inr (Some (rh, ts))"
  by (simp add: loads_enc enc_visible)

lemma verify_enc:
  "map_of (fields r) ''record_hash'' \<noteq> None \<Longrightarrow> map_of (fields r) ''prev_hash'' \<noteq> None \<Longrightarrow>
   verify_line h f ln (enc r) w =
     (let w' = check_timestamp f ln (fields r) (check_hashes h f ln (fields r) w)
      in Inr (w'\<lparr>verified := Suc (verified w'), expected_prev := dget (fields r) ''record_hash''\<rparr>))"
  by (auto simp: verify_line_def loads_enc enc_visible)

end

lemma strip_by_eq_Nil: "strip_by P s = [] \<longleftrightarrow> (\<forall>c \<in> set s. P c)"
proof -
  have "rstrip_by P u = [] \<longleftrightarrow> (\<forall>c \<in> set u. P c)" for u
    by (simp add: rstrip_by_def dropWhile_eq_Nil_conv)
  moreover have "(\<forall>c \<in> set (dropWhile P s). P c) \<longleftrightarrow> dropWhile P s = []"
    using hd_dropWhile[of P s] by (cases "dropWhile P s") (auto dest: set_dropWhileD)
  ultimately show ?thesis
    unfolding strip_by_def lstrip_by_def by (metis dropWhile_eq_Nil_conv)
qed

lemma show_tok_ascii: "\<forall>c \<in> set (show_tok t). 32 \<le> code c \<and> code c \<le> 126"
proof (cases t)
  case (TStr s)
  then show ?thesis using esc_char_ascii by (auto simp: json_string_def)
next
  case (TInt i)
  then show ?thesis by (auto simp: show_int_def is_digit_def dest!: bspec[OF show_nat_digits])
qed auto

lemma dumps_ascii: "c \<in> set (dumps v) \<Longrightarrow> 32 \<le> code c \<and> code c \<le> 126"
  using show_tok_ascii by (auto simp: dumps_def)

lemma wf_opt_str [simp]: "wf_val (opt_str x)"
  by (simp add: opt_str_def split: option.splits)

lemma wf_asdict: "wf_val (PDict (asdict r))"
  by (simp add: asdict_def unhashed_fields_def)

interpretation rec_line: line_codec to_json asdict
proof
  fix r :: audit_record and c
  show "loads (to_json r) = Some (PDict (asdict r))"
    unfolding to_json_def by (rule loads_dumps[OF wf_asdict])
  show "strip (to_json r) \<noteq> []"
    by (simp add: strip_by_eq_Nil to_json_def dumps_PDict is_space_def)
  assume "c \<in> set (to_json r)"
  then have "32 \<le> code c \<and> code c \<le> 126" unfolding to_json_def by (rule dumps_ascii)
  then show "\<not> is_linebreak c" by (auto simp: is_linebreak_def)
qed

lemma asdict_lookup [simp]:
  "map_of (asdict r) ''record_hash'' = Some (PStr (record_hash r))"
  "map_of (asdict r) ''prev_hash'' = Some (PStr (prev_hash r))"
  "map_of (asdict r) ''timestamp'' = Some (PStr (timestamp r))"
  "dpop ''record_hash'' (asdict r) = unhashed_fields r"
  by (simp_all add: asdict_def unhashed_fields_def dpop_def)

section \<open>Chains of records\<close>

text \<open>
  The specification of the log: every record points at its predecessor's hash, carries its own
  and is later than its predecessor. \<open>chain_end\<close> is what the next batch is chained to.
\<close>

fun chained :: "(string \<Rightarrow> string) \<Rightarrow> string \<Rightarrow> string \<Rightarrow> audit_record list \<Rightarrow> bool" where
  "chained h p t [] = True"
| "chained h p t (r # rs) =
    (prev_hash r = p \<and> record_hash r = compute_record_hash h r \<and> canonical_ts (timestamp r) \<and>
     (t = [] \<or> t < timestamp r) \<and> chained h (record_hash r) (timestamp r) rs)"

fun chain_end :: "string \<Rightarrow> string \<Rightarrow> audit_record list \<Rightarrow> string \<times> string" where
  "chain_end p t [] = (p, t)"
| "chain_end p t (r # rs) = chain_end (record_hash r) (timestamp r) rs"

lemma chain_end_append [simp]:
  "chain_end p t (xs @ ys) = chain_end (fst (chain_end p t xs)) (snd (chain_end p t xs)) ys"
  by (induction xs arbitrary: p t) auto

lemma chained_append: "chained h p t (xs @ ys) \<longleftrightarrow>
  chained h p t xs \<and> chained h (fst (chain_end p t xs)) (snd (chain_end p t xs)) ys"
  by (induction xs arbitrary: p t) auto

lemma chain_end_snoc: "rs \<noteq> [] \<Longrightarrow> chain_end p t rs = (record_hash (last rs), timestamp (last rs))"
  by (induction rs arbitrary: p t) auto

lemma compute_record_hash_frame [simp]:
  "compute_record_hash h (r\<lparr>record_hash := x\<rparr>) = compute_record_hash h r"
  by (simp add: compute_record_hash_def to_json_unhashed_def unhashed_fields_def)

lemma monotonic_timestamp_cases:
  assumes "prev_ts = [] \<or> canonical_ts prev_ts" and "canonical_ts candidate"
    and "monotonic_timestamp prev_ts candidate = Inr ts"
  shows "canonical_ts ts \<and> (prev_ts = [] \<or> prev_ts < ts) \<and> candidate \<le> ts"
proof (cases "prev_ts = [] \<or> prev_ts < candidate")
  case True
  with assms show ?thesis by (auto simp: monotonic_timestamp_def)
next
  case False
  with assms(1) obtain d where d: "valid_datetime d" "prev_ts = format_datetime d"
    by (auto simp: canonical_ts_def)
  with assms(3) False obtain d' where "add_microsecond d = Some d'" "ts = format_datetime d'"
    by (auto simp: monotonic_timestamp_def parse_format_datetime split: option.splits)
  moreover from this have "prev_ts < ts" using d format_add_microsecond by blast
  ultimately show ?thesis
    using False d valid_add_microsecond by (auto simp: canonical_ts_def)
qed

lemma chain_records_chained:
  "t = [] \<or> canonical_ts t \<Longrightarrow> \<forall>r \<in> set rs. canonical_ts (timestamp r) \<Longrightarrow>
   chain_records h rs p t = Inr cs \<Longrightarrow> chained h p t cs"
proof (induction rs arbitrary: p t cs)
  case (Cons r rs)
  from Cons.prems(3) obtain b ds where b: "monotonic_timestamp t (timestamp r) = Inr b"
    and ds: "chain_records h rs (compute_record_hash h
        (r\<lparr>timestamp := b, prev_hash := p, record_hash := []\<rparr>)) b = Inr ds"
    and cs: "cs = r\<lparr>timestamp := b, prev_hash := p, record_hash := compute_record_hash h
        (r\<lparr>timestamp := b, prev_hash := p, record_hash := []\<rparr>)\<rparr> # ds"
    by (auto simp: rbind_Inr_iff Let_def)
  have c: "canonical_ts b" "t = [] \<or> t < b"
    using monotonic_timestamp_cases[OF Cons.prems(1) _ b] Cons.prems(2) by auto
  have "compute_record_hash h (r\<lparr>timestamp := b, prev_hash := p, record_hash := x\<rparr>) =
      compute_record_hash h (r\<lparr>timestamp := b, prev_hash := p, record_hash := []\<rparr>)" for x
    using compute_record_hash_frame[of h x "r\<lparr>timestamp := b, prev_hash := p\<rparr>"]
      compute_record_hash_frame[of h "[]" "r\<lparr>timestamp := b, prev_hash := p\<rparr>"] by simp
  with c Cons.IH[OF _ _ ds] Cons.prems(2) show ?case by (simp add: cs)
qed simp

lemma chain_records_length: "chain_records h rs p t = Inr cs \<Longrightarrow> length cs = length rs"
  by (induction rs arbitrary: p t cs) (auto simp: rbind_Inr_iff Let_def)

section \<open>Verifying and extending a directory that holds a chain\<close>

lemma splitlines_lines_text: "splitlines (lines_text rs) = map to_json rs"
  unfolding lines_text_def by (rule rec_line.splitlines_enc)

lemma lines_text_append: "lines_text (xs @ ys) = lines_text xs @ lines_text ys"
  by (simp add: lines_text_def)

lemma verify_line_chained:
  assumes "chained h p t (r # rs)" and "expected_prev w = PStr p" and "prev_timestamp w = t"
  shows "verify_line h f ln (to_json r) w =
    Inr (w\<lparr>expected_prev := PStr (record_hash r), prev_timestamp := timestamp r,
           verified := Suc (verified w)\<rparr>)"
proof -
  have "h (dumps (PDict (unhashed_fields r))) = record_hash r"
    using assms(1) by (simp add: compute_record_hash_def to_json_unhashed_def)
  then have "check_hashes h f ln (asdict r) w = w"
    using assms by (simp add: check_hashes_def dget_def)
  moreover have "check_timestamp f ln (asdict r) w = w\<lparr>prev_timestamp := timestamp r\<rparr>"
    using assms canonical_ts_nonempty[of "timestamp r"] by (auto simp: check_timestamp_def dget_def)
  ultimately show ?thesis
    by (simp add: rec_line.verify_enc dget_def)
qed

lemma verify_lines_chained:
  "chained h p t rs \<Longrightarrow> expected_prev w = PStr p \<Longrightarrow> prev_timestamp w = t \<Longrightarrow>
   verify_lines h f ln (map to_json rs) w =
     Inr (w\<lparr>expected_prev := PStr (fst (chain_end p t rs)), prev_timestamp := snd (chain_end p t rs),
            verified := verified w + length rs\<rparr>)"
proof (induction rs arbitrary: p t w ln)
  case (Cons r rs)
  from Cons.prems(1) have "chained h (record_hash r) (timestamp r) rs"
    unfolding chained.simps by blast
  from Cons.IH[OF this, of "w\<lparr>expected_prev := PStr (record_hash r), prev_timestamp := timestamp r,
      verified := Suc (verified w)\<rparr>" "Suc ln"]
  show ?case by (simp add: verify_line_chained[OF Cons.prems])
qed simp

type_synonym day_log = "(string \<times> audit_record list) list"

definition log_file :: "string \<times> audit_record list \<Rightarrow> string \<times> string option" where
  "log_file x = (fst x @ ''.jsonl'', Some (lines_text (snd x)))"

abbreviation log_records :: "day_log \<Rightarrow> audit_record list" where
  "log_records logs \<equiv> concat (map snd logs)"

lemma verify_files_chained:
  "chained h p t (log_records logs) \<Longrightarrow> expected_prev w = PStr p \<Longrightarrow> prev_timestamp w = t \<Longrightarrow>
   verify_files h (map log_file logs) w =
     Inr (w\<lparr>expected_prev := PStr (fst (chain_end p t (log_records logs))),
            prev_timestamp := snd (chain_end p t (log_records logs)),
            verified := verified w + length (log_records logs)\<rparr>)"
proof (induction logs arbitrary: p t w)
  case (Cons x logs)
  let ?e = "chain_end p t (snd x)"
  let ?w = "w\<lparr>expected_prev := PStr (fst ?e), prev_timestamp := snd ?e,
    verified := verified w + length (snd x)\<rparr>"
  from Cons.prems(1) have c: "chained h p t (snd x)"
    "chained h (fst ?e) (snd ?e) (log_records logs)"
    by (auto simp: chained_append)
  show ?case
    using Cons.IH[OF c(2), of ?w] verify_lines_chained[OF c(1) Cons.prems(2,3)]
    by (simp add: log_file_def splitlines_lines_text add.assoc)
qed simp

lemma tail_of_files_log:
  assumes "chained h p t (log_records logs)" and h: "\<And>x. h x \<noteq> []"
  shows "tail_of_files (rev (map log_file logs)) =
    (if log_records logs = [] then Inr (ZERO_HASH, [])
     else Inr (chain_end p t (log_records logs)))"
  using assms(1)
proof (induction logs rule: rev_induct)
  case (snoc x logs)
  show ?case
  proof (cases "snd x = []")
    case True
    with snoc show ?thesis by (simp add: log_file_def lines_text_def)
  next
    case False
    then obtain rs r where rs: "snd x = rs @ [r]" by (metis append_butlast_last_id)
    have "record_hash r = compute_record_hash h r"
      using snoc.prems by (simp add: rs chained_append)
    then have "record_hash r \<noteq> []" by (simp add: compute_record_hash_def h)
    then have "tail_of_lines (to_json r # ls) = Inr (Some (record_hash r, timestamp r))" for ls
      by (intro rec_line.tail_of_enc) (simp_all add: dget_def)
    then show ?thesis
      by (simp add: log_file_def splitlines_lines_text rs del: tail_of_lines.simps)
  qed
qed simp

end
