(* ===== verification/Audit_Log.thy ===== *)
theory Audit_Log
  imports Audit_Writer
begin

text \<open>
  What the audit directory is as a whole. \<open>log_inv\<close> abstracts a directory to a list of dated
  batches: its \<open>.jsonl\<close> files, in name order, are the texts of those batches, and all the records
  in order are one hash chain. Writing a batch is appending to that list, verification finds no
  break in it, and the directories the writer can reach all satisfy it.
\<close>

section \<open>The files in name order\<close>

lemma filter_dset:
  "filter (\<lambda>p. P (fst p)) (dset k v d) =
   (if P k then dset k v (filter (\<lambda>p. P (fst p)) d) else filter (\<lambda>p. P (fst p)) d)"
  by (induction k v d rule: dset.induct) auto

lemma dset_keys_old: "k \<in> set (map fst d) \<Longrightarrow> map fst (dset k v d) = map fst d"
  by (induction k v d rule: dset.induct) auto

lemma sort_key_fst_dset:
  assumes d: "distinct (map fst d)" and k: "k \<in> set (map fst d)"
  shows "sort_key fst (dset k v d) = dset k v (sort_key fst d)"
proof (rule sort_key_inj_key_eq)
  have "distinct (map fst (dset k v d))" "distinct (map fst (dset k v (sort_key fst d)))"
    using d by (auto intro!: distinct_dset)
  moreover have "map_of (dset k v d) = map_of (dset k v (sort_key fst d))"
    using d by (simp add: map_of_sort_key_fst)
  ultimately show "mset (dset k v d) = mset (dset k v (sort_key fst d))"
    by (metis distinct_map map_of_inject_set set_eq_iff_mset_eq_distinct)
  show "inj_on fst (set (dset k v d))" using distinct_dset[OF d, of k v] by (simp add: distinct_map)
  show "sorted (map fst (dset k v (sort_key fst d)))"
    using k by (simp add: dset_keys_old)
qed

lemma sort_key_fst_greatest:
  assumes "distinct (map fst d)" and "\<forall>n \<in> set (map fst d). n < k"
  shows "sort_key fst (d @ [(k, v)]) = sort_key fst d @ [(k, v)]"
proof (rule sort_key_inj_key_eq)
  show "inj_on fst (set (d @ [(k, v)]))"
    using assms by (auto simp: inj_on_def distinct_map)
  show "sorted (map fst (sort_key fst d @ [(k, v)]))"
    using assms by (auto simp: sorted_append intro: less_imp_le)
qed simp

lemma jsonl_files_old:
  assumes "distinct (map fst fs)" and "endswith n ''.jsonl''" and "n \<in> set (map fst fs)"
  shows "jsonl_files (dset n c fs) = dset n c (jsonl_files fs)"
proof -
  let ?d = "filter (\<lambda>f. endswith (fst f) ''.jsonl'') fs"
  have "distinct (map fst ?d)" using assms(1) by (simp add: distinct_map_filter)
  moreover have "n \<in> set (map fst ?d)" using assms(2,3) by force
  ultimately show ?thesis
    using assms(2) filter_dset[of "\<lambda>n. endswith n ''.jsonl''" n c fs]
    by (simp add: jsonl_files_def sort_key_fst_dset)
qed

lemma jsonl_files_new:
  assumes "distinct (map fst fs)" and "endswith n ''.jsonl''" and "n \<notin> set (map fst fs)"
    and "\<forall>m \<in> set (map fst (jsonl_files fs)). m < n"
  shows "jsonl_files (dset n c fs) = jsonl_files fs @ [(n, c)]"
proof -
  have "distinct (map fst (filter (\<lambda>f. endswith (fst f) ''.jsonl'') fs))"
    using assms(1) by (simp add: distinct_map_filter)
  then show ?thesis
    using assms sort_key_fst_greatest[of "filter (\<lambda>f. endswith (fst f) ''.jsonl'') fs" n c]
    by (simp add: jsonl_files_def dset_fresh)
qed

lemma jsonl_files_other:
  "\<not> endswith n ''.jsonl'' \<Longrightarrow> jsonl_files (dset n c fs) = jsonl_files fs"
  using filter_dset[of "\<lambda>n. endswith n ''.jsonl''" n c fs] by (simp add: jsonl_files_def)

lemma map_of_jsonl_files:
  assumes "distinct (map fst fs)" and "endswith n ''.jsonl''"
  shows "map_of (jsonl_files fs) n = map_of fs n"
proof -
  have "map_of (filter (\<lambda>f. endswith (fst f) ''.jsonl'') fs) n = map_of fs n"
    using assms(2) by (induction fs) auto
  then show ?thesis
    using assms distinct_map_filter[of fst fs "\<lambda>f. endswith (fst f) ''.jsonl''"]
    by (simp add: jsonl_files_def map_of_sort_key_fst)
qed

lemma endswith_append [simp]: "endswith (s @ t) t"
  by (simp add: endswith_def suffix_def)

section \<open>Dated batches\<close>

definition log_inv :: "(string \<Rightarrow> string) \<Rightarrow> string \<Rightarrow> audit_files \<Rightarrow> day_log \<Rightarrow> bool" where
  "log_inv h day fs logs \<longleftrightarrow>
     distinct (map fst fs) \<and> jsonl_files fs = map log_file logs \<and> sorted_wrt (<) (map fst logs) \<and>
     (\<forall>x \<in> set logs. length (fst x) = 10 \<and> fst x \<le> day) \<and>
     chained h ZERO_HASH [] (log_records logs)"

definition log_add :: "string \<Rightarrow> audit_record list \<Rightarrow> day_log \<Rightarrow> day_log" where
  "log_add day rs logs =
     (if logs \<noteq> [] \<and> fst (last logs) = day
      then butlast logs @ [(day, snd (last logs) @ rs)] else logs @ [(day, rs)])"

lemma log_records_add [simp]: "log_records (log_add day rs logs) = log_records logs @ rs"
  by (cases logs rule: rev_cases) (auto simp: log_add_def)

lemma last_record_tail_log:
  assumes "log_inv h day fs logs" and "\<And>x. h x \<noteq> []"
  shows "last_record_tail (Some fs) = Inr (chain_end ZERO_HASH [] (log_records logs))"
proof -
  have j: "jsonl_files fs = map log_file logs" and c: "chained h ZERO_HASH [] (log_records logs)"
    using assms(1) by (auto simp: log_inv_def)
  have "tail_of_files (rev (map log_file logs)) =
      Inr (chain_end ZERO_HASH [] (log_records logs))"
    using tail_of_files_log[OF c assms(2)] 
    by (cases "log_records logs = []") (simp_all del: concat_eq_Nil_conv)
  then show ?thesis by (simp add: last_record_tail_def j)
qed

lemma verify_chain_log:
  assumes "log_inv h day fs logs"
  shows "verify_chain h (Some fs) = Inr \<lparr>files_checked = length logs,
     records_verified = length (log_records logs), breaks = []\<rparr>"
  using assms verify_files_chained[of h ZERO_HASH "[]" logs walk_start]
  by (auto simp: log_inv_def verify_chain_def walk_start_def)

lemma log_file_less:
  "length (fst x) = length (fst y) \<Longrightarrow> fst (log_file x) < fst (log_file y) \<longleftrightarrow> fst x < fst y"
  by (simp add: log_file_def list_less_append_same)

lemma dset_append_fresh: "k \<notin> set (map fst xs) \<Longrightarrow> dset k v (xs @ ys) = xs @ dset k v ys"
  by (induction xs) auto

lemma log_step_last:
  assumes inv: "log_inv h day' fs logs" and l: "logs \<noteq> []" "fst (last logs) = day"
    and c: "chained h ZERO_HASH [] (log_records logs @ cs)"
  shows "map_of fs (day @ ''.jsonl'') = Some (Some (lines_text (snd (last logs))))"
    and "log_inv h day' (dset (day @ ''.jsonl'')
           (Some (lines_text (snd (last logs)) @ lines_text cs)) fs) (log_add day cs logs)"
proof -
  obtain ls rs where logs: "logs = ls @ [(day, rs)]"
    using l by (metis append_butlast_last_id prod.collapse)
  let ?p = "day @ ''.jsonl''"
  have d: "distinct (map fst fs)" and j: "jsonl_files fs = map log_file ls @ [log_file (day, rs)]"
    and ls: "\<forall>x \<in> set ls. fst x < day \<and> length (fst x) = 10" and day: "length day = 10" "day \<le> day'"
    using inv by (auto simp: log_inv_def logs sorted_wrt_append)
  have fresh: "?p \<notin> set (map fst (map log_file ls))"
    using ls by (auto simp: log_file_def)
  have "map_of (map log_file ls) ?p = None" using fresh by (simp only: map_of_eq_None_iff set_map not_False_eq_True)
  then have k: "map_of fs ?p = Some (Some (lines_text rs))"
    using map_of_jsonl_files[OF d, of ?p] by (simp add: j log_file_def map_add_def)
  then show "map_of fs ?p = Some (Some (lines_text (snd (last logs))))" by (simp add: logs)
  have "jsonl_files (dset ?p (Some (lines_text rs @ lines_text cs)) fs) =
      map log_file (log_add day cs logs)"
    using jsonl_files_old[OF d, of ?p] map_of_SomeD[OF k] fresh
    by (force simp: j dset_append_fresh log_file_def logs log_add_def lines_text_append)
  then show "log_inv h day' (dset ?p (Some (lines_text (snd (last logs)) @ lines_text cs)) fs)
      (log_add day cs logs)"
    using inv c d by (auto simp: log_inv_def logs log_add_def sorted_wrt_append)
qed

lemma log_step_new:
  assumes inv: "log_inv h day' fs logs" and l: "logs = [] \<or> fst (last logs) \<noteq> day"
    and c: "chained h ZERO_HASH [] (log_records logs @ cs)"
    and day: "day' \<le> day" "length day = 10"
  shows "map_of fs (day @ ''.jsonl'') = None"
    and "log_inv h day (dset (day @ ''.jsonl'') (Some (lines_text cs)) fs) (log_add day cs logs)"
proof -
  let ?p = "day @ ''.jsonl''"
  have d: "distinct (map fst fs)" and j: "jsonl_files fs = map log_file logs"
    and s: "sorted_wrt (<) (map fst logs)"
    using inv by (auto simp: log_inv_def)
  have older: "fst x < day \<and> length (fst x) = 10" if "x \<in> set logs" for x
  proof (cases logs rule: rev_cases)
    case (snoc ls y)
    have "fst x \<le> fst y" using s that by (auto simp: snoc sorted_wrt_append)
    moreover have "fst y \<le> day" "length (fst x) = 10"
      using inv that day by (auto simp: log_inv_def snoc)
    ultimately show ?thesis using l by (auto simp: snoc)
  qed (use that in simp)
  then have less: "\<forall>n \<in> set (map fst (jsonl_files fs)). n < ?p"
    using day by (auto simp: j log_file_def list_less_append_same)
  then have n: "map_of (jsonl_files fs) ?p = None"
    by (auto simp: map_of_eq_None_iff)
  then show "map_of fs ?p = None" using map_of_jsonl_files[OF d, of ?p] by simp
  then have "?p \<notin> set (map fst fs)" by (simp add: map_of_eq_None_iff)
  then have "jsonl_files (dset ?p (Some (lines_text cs)) fs) = map log_file (log_add day cs logs)"
    using jsonl_files_new[OF d _ _ less] l by (auto simp: j log_add_def log_file_def)
  moreover have "log_add day cs logs = logs @ [(day, cs)]" using l by (auto simp: log_add_def)
  ultimately show "log_inv h day (dset ?p (Some (lines_text cs)) fs) (log_add day cs logs)"
    using inv c d older day by (auto simp: log_inv_def sorted_wrt_append less_imp_le)
qed


section \<open>Writing a batch\<close>

lemma write_records_log:
  assumes inv: "log_inv h day' fs logs" and h: "\<And>x. h x \<noteq> []"
    and day: "day' \<le> day" "length day = 10"
    and ts: "\<forall>r \<in> set rs. canonical_ts (timestamp r)"
    and cr: "chain_records h rs (fst (chain_end ZERO_HASH [] (log_records logs)))
      (snd (chain_end ZERO_HASH [] (log_records logs))) = Inr cs"
  obtains fs' where "write_records h day id rs (Some fs) = (Inr (day @ ''.jsonl''), Some fs')"
    and "log_inv h day fs' (log_add day cs logs)"
proof -
  let ?e = "chain_end ZERO_HASH [] (log_records logs)"
  have c: "chained h ZERO_HASH [] (log_records logs)" using inv by (simp add: log_inv_def)
  have "snd ?e = [] \<or> canonical_ts (snd ?e)"
  proof (cases "log_records logs" rule: rev_cases)
    case (snoc xs x)
    with c show ?thesis by (simp add: chained_append)
  qed (simp del: concat_eq_Nil_conv)
  then have "chained h (fst ?e) (snd ?e) cs" using chain_records_chained ts cr by blast
  with c have c': "chained h ZERO_HASH [] (log_records logs @ cs)" by (simp add: chained_append)
  note t = last_record_tail_log[OF inv h]
  show thesis
  proof (cases "logs \<noteq> [] \<and> fst (last logs) = day")
    case True
    then have l: "logs \<noteq> []" "fst (last logs) = day" by auto
    have "log_inv h day fs logs" using inv day by (auto simp: log_inv_def)
    note s = log_step_last[OF this l c']
    show thesis
      by (rule that[OF _ s(2)])
         (use cr s(1) in \<open>simp add: write_records_unfold files_of_def t case_prod_unfold Let_def\<close>)
  next
    case False
    then have l: "logs = [] \<or> fst (last logs) \<noteq> day" by auto
    note s = log_step_new[OF inv l c' day]
    show thesis
      by (rule that[OF _ s(2)])
         (use cr s(1) in \<open>simp add: write_records_unfold files_of_def t case_prod_unfold Let_def\<close>)
  qed
qed

text \<open>
  What the writer can do to a directory over a succession of runs: a batch on a day not before
  the last one's, a batch whose timestamps overflow and is not written, and an orphan batch
  beside the log.
\<close>

inductive audit_run :: "(string \<Rightarrow> string) \<Rightarrow> string \<Rightarrow> nat \<Rightarrow> audit_dir \<Rightarrow> bool"
  for h :: "string \<Rightarrow> string" where
  start: "audit_run h [] 0 None"
| append: "audit_run h day n d \<Longrightarrow> day \<le> today \<Longrightarrow> length today = 10 \<Longrightarrow>
    \<forall>r \<in> set rs. canonical_ts (timestamp r) \<Longrightarrow>
    write_records h today id rs d = (Inr p, d') \<Longrightarrow> audit_run h today (n + length rs) d'"
| write_fails: "audit_run h day n d \<Longrightarrow> write_records h today id rs d = (Inl e, d') \<Longrightarrow>
    audit_run h day n d'"
| orphan: "audit_run h day n d \<Longrightarrow> write_orphan_records today rs d = (res, d') \<Longrightarrow>
    audit_run h day n d'"

lemma write_records_refused_dir:
  "write_records h today id rs d = (Inl e, d') \<Longrightarrow> d' = Some (files_of d)"
  by (auto simp: write_records_unfold Let_def split: sum.splits option.splits prod.splits if_splits)

lemma endswith_orphan: "\<not> endswith (s @ ''.jsonl.orphan'') ''.jsonl''"
  by (simp add: endswith_def suffix_def append_eq_append_conv2 Cons_eq_append_conv
      append_eq_Cons_conv)

lemma orphan_log_inv:
  assumes "log_inv h day fs logs" and "write_orphan_records today rs (Some fs) = (res, d')"
  shows "\<exists>fs'. d' = Some fs' \<and> log_inv h day fs' logs"
  using assms endswith_orphan[of today]
  by (auto simp: write_orphan_records_def log_inv_def files_of_def Let_def jsonl_files_other
      split: option.splits)

lemma log_inv_empty: "log_inv h [] [] []"
  by (simp add: log_inv_def jsonl_files_def)

lemma audit_run_log:
  assumes h: "\<And>x. h x \<noteq> []"
  shows "audit_run h day n d \<Longrightarrow>
    \<exists>logs. log_inv h day (files_of d) logs \<and> length (log_records logs) = n"
proof (induction rule: audit_run.induct)
  case start
  then show ?case using log_inv_empty by (force simp: files_of_def)
next
  case (append day n d today rs p d')
  then obtain logs where inv: "log_inv h day (files_of d) logs" "length (log_records logs) = n"
    by blast
  have w: "write_records h today id rs (Some (files_of d)) = (Inr p, d')"
    using append.hyps by (simp add: write_records_unfold files_of_def)
  then obtain cs where cs: "chain_records h rs (fst (chain_end ZERO_HASH [] (log_records logs)))
      (snd (chain_end ZERO_HASH [] (log_records logs))) = Inr cs"
    using last_record_tail_log[OF inv(1) h]
    by (cases "chain_records h rs (fst (chain_end ZERO_HASH [] (log_records logs)))
          (snd (chain_end ZERO_HASH [] (log_records logs)))")
       (auto simp: write_records_unfold files_of_def case_prod_unfold)
  obtain fs' where "d' = Some fs'" "log_inv h today fs' (log_add today cs logs)"
    using write_records_log[OF inv(1) h append.hyps(2,3,4) cs] w by auto
  then show ?case
    using inv(2) chain_records_length[OF cs]
    by (intro exI[of _ "log_add today cs logs"]) (simp add: files_of_def)
next
  case (write_fails day n d today rs e d')
  then show ?case using write_records_refused_dir by (fastforce simp: files_of_def)
next
  case (orphan day n d today rs res d')
  then obtain logs where "log_inv h day (files_of d) logs" "length (log_records logs) = n" by blast
  moreover have "write_orphan_records today rs (Some (files_of d)) = (res, d')"
    using orphan.hyps by (simp add: write_orphan_records_def files_of_def)
  ultimately show ?case using orphan_log_inv by (fastforce simp: files_of_def)
qed


section \<open>Writers that race\<close>

text \<open>
  \<open>raced race k d\<close> is the directory after the interference of the first \<open>k\<close> attempts. The digest
  makes the tail a witness of interference: \<open>moves_tail\<close> says that another process that changes
  the directory changes the tail hash.
\<close>

fun raced :: "(nat \<Rightarrow> audit_files \<Rightarrow> audit_files) \<Rightarrow> nat \<Rightarrow> audit_dir \<Rightarrow> audit_dir" where
  "raced race 0 d = d"
| "raced race (Suc k) d = raced (\<lambda>i. race (Suc i)) k (Some (race 0 (files_of d)))"

definition moves_tail :: "(audit_files \<Rightarrow> audit_files) \<Rightarrow> bool" where
  "moves_tail race \<longleftrightarrow> (\<forall>fs. race fs \<noteq> fs \<longrightarrow>
     last_record_hash (Some (race fs)) \<noteq> last_record_hash (Some fs))"

lemma tail_of_lines_error: "tail_of_lines ls = Inl e \<Longrightarrow> e = NotAMapping"
  by (induction ls) (auto split: if_splits option.splits pyval.splits)

lemma last_record_tail_error: "last_record_tail d = Inl e \<Longrightarrow> e = NotAMapping"
proof -
  have "tail_of_files fs = Inl e \<Longrightarrow> e = NotAMapping" for fs
    by (induction fs) (auto simp: rbind_Inl_iff dest: tail_of_lines_error split: option.splits)
  then show "last_record_tail d = Inl e \<Longrightarrow> e = NotAMapping"
    by (auto simp: last_record_tail_def split: option.splits)
qed

lemma chain_records_error: "chain_records h rs p t = Inl e \<Longrightarrow> e = Overflow"
  by (induction rs arbitrary: p t)
     (auto simp: rbind_Inl_iff Let_def monotonic_timestamp_def split: if_splits option.splits)

lemma not_concurrent [simp]:
  "last_record_tail d \<noteq> Inl ConcurrentWrite"
  "chain_records h rs p t \<noteq> Inl ConcurrentWrite"
  using last_record_tail_error chain_records_error by force+

text \<open>The text of today's file, empty when there is none.\<close>

definition today_text :: "string \<Rightarrow> audit_files \<Rightarrow> string \<Rightarrow> bool" where
  "today_text today fs old \<longleftrightarrow> map_of fs (today @ ''.jsonl'') = Some (Some old) \<or>
     map_of fs (today @ ''.jsonl'') = None \<and> old = []"

text \<open>
  \<open>appended h today fs rs base d'\<close>: the batch \<open>rs\<close> is chained to the tail of the directory \<open>fs\<close> and its lines follow
  the text today's file had in \<open>fs\<close>; every other file is as in \<open>base\<close>.
\<close>

definition appended ::
  "(string \<Rightarrow> string) \<Rightarrow> string \<Rightarrow> audit_files \<Rightarrow> audit_record list \<Rightarrow> audit_files \<Rightarrow> audit_dir \<Rightarrow> bool" where
  "appended h today fs rs base d' \<longleftrightarrow> (\<exists>prev ts cs old. last_record_tail (Some fs) = Inr (prev, ts) \<and>
     chain_records h rs prev ts = Inr cs \<and> today_text today fs old \<and>
     d' = Some (dset (today @ ''.jsonl'') (Some (old @ lines_text cs)) base))"

text \<open>What another process writes to the file of the day between the second look at the tail and the replace is lost.\<close>

lemma gap_write_is_lost:
  "write_records_gap h today race (dset (today @ ''.jsonl'') c) rs d = write_records h today race rs d"
proof -
  have "dset k v (dset k c fs) = dset k v fs" for k :: string and v and fs :: audit_files
    by (induction fs) auto
  then show ?thesis by (simp only: write_records_gap_def write_records_def Let_def id_apply)
qed

lemma write_records_cases:
  assumes "moves_tail race" and "write_records_gap h today race gap rs d = (res, d')"
  obtains (ok) "res = Inr (today @ ''.jsonl'')" "race (files_of d) = files_of d"
      "appended h today (files_of d) rs (gap (files_of d)) d'"
    | (raced) "res = Inl ConcurrentWrite" "d' = Some (race (files_of d))"
    | (failed) e where "res = Inl e" "e \<noteq> ConcurrentWrite" "d' = Some (files_of d) \<or> d' = Some (race (files_of d))"
proof -
  have same: "race fs = fs" if "last_record_tail (Some fs) = Inr (x, t)"
      "last_record_tail (Some (race fs)) = Inr (x, t')" for fs x t t'
    using assms(1) that by (force simp: moves_tail_def last_record_hash_def)
  show thesis
  proof (cases res)
    case (Inl e)
    then show thesis
      using assms(2) raced failed
      by (cases "e = ConcurrentWrite")
        (auto simp: write_records_gap_def Let_def split: sum.splits option.splits prod.splits if_splits)
  next
    case (Inr p)
    then obtain prev ts cs old ts' where t: "last_record_tail (Some (files_of d)) = Inr (prev, ts)"
        "chain_records h rs prev ts = Inr cs" "today_text today (files_of d) old" "p = today @ ''.jsonl''"
        "last_record_tail (Some (race (files_of d))) = Inr (prev, ts')"
        "d' = Some (dset (today @ ''.jsonl'') (Some (old @ lines_text cs)) (gap (race (files_of d))))"
      using assms(2) by (auto simp: write_records_gap_def today_text_def Let_def
          split: sum.splits option.splits prod.splits if_splits)
    then show thesis using ok same[OF t(1,5)] Inr by (auto simp: appended_def)
  qed
qed

lemma write_attempts_outcome:
  assumes "\<forall>i. moves_tail (race i)" and "write_attempts h today race gap rs i n d = (res, d')" and "0 < n"
  shows "(\<exists>k < n. res = Inr (today @ ''.jsonl'') \<and> (let fs = files_of (raced (\<lambda>j. race (i + j)) k d) in
        race (i + k) fs = fs \<and> appended h today fs rs (gap (i + k) fs) d')) \<or>
    (\<exists>e k. res = Inl e \<and> k \<le> n \<and> d' = Some (files_of (raced (\<lambda>j. race (i + j)) k d)) \<and> (e = ConcurrentWrite \<longrightarrow> k = n))"
  using assms(2,3)
proof (induction n arbitrary: i d)
  case (Suc n)
  obtain r1 d1 where w: "write_records_gap h today (race i) (gap i) rs d = (r1, d1)" by fastforce
  from assms(1) have m: "moves_tail (race i)" by blast
  from m w show ?case
  proof (cases rule: write_records_cases)
    case ok
    then show ?thesis using Suc.prems w by (intro disjI1 exI[of _ 0]) (simp add: Let_def)
  next
    case raced
    have shift: "raced (\<lambda>j. race (Suc i + j)) k d1 = raced (\<lambda>j. race (i + j)) (Suc k) d" for k
      using raced by simp
    show ?thesis
    proof (cases "n = 0")
      case True
      then show ?thesis using Suc.prems w raced by (intro disjI2 exI[of _ ConcurrentWrite] exI[of _ "Suc 0"]) (auto simp: files_of_def)
    next
      case False
      have "write_attempts h today race gap rs (Suc i) n d1 = (res, d')"
        using Suc.prems(1) by (simp add: w raced)
      moreover have "0 < n" using False by simp
      ultimately have "(\<exists>k < n. res = Inr (today @ ''.jsonl'') \<and> (let fs = files_of (raced (\<lambda>j. race (Suc i + j)) k d1) in
            race (Suc i + k) fs = fs \<and> appended h today fs rs (gap (Suc i + k) fs) d')) \<or>
          (\<exists>e k. res = Inl e \<and> k \<le> n \<and> d' = Some (files_of (raced (\<lambda>j. race (Suc i + j)) k d1)) \<and>
             (e = ConcurrentWrite \<longrightarrow> k = n))"
        by (rule Suc.IH)
      then show ?thesis unfolding shift
      proof (elim disjE exE conjE)
        fix k assume "k < n" "res = Inr (today @ ''.jsonl'')"
          "let fs = files_of (raced (\<lambda>j. race (i + j)) (Suc k) d) in
            race (Suc i + k) fs = fs \<and> appended h today fs rs (gap (Suc i + k) fs) d'"
        then show ?thesis by (intro disjI1 exI[of _ "Suc k"]) (simp add: Let_def)
      next
        fix e k assume "res = Inl e" "k \<le> n" "d' = Some (files_of (raced (\<lambda>j. race (i + j)) (Suc k) d))" "e = ConcurrentWrite \<longrightarrow> k = n"
        then show ?thesis by (intro disjI2 exI[of _ e] exI[of _ "Suc k"]) simp
      qed
    qed
  next
    case (failed e)
    then have "res = Inl e" "d' = d1" using Suc.prems by (auto simp: w split: sum.splits audit_error.splits)
    moreover have "\<exists>k \<le> Suc n. d1 = Some (files_of (raced (\<lambda>j. race (i + j)) k d))"
      using failed(3)
    proof
      assume "d1 = Some (files_of d)"
      then show ?thesis by (intro exI[of _ 0]) simp
    next
      assume "d1 = Some (race i (files_of d))"
      then show ?thesis by (intro exI[of _ 1]) (simp add: files_of_def)
    qed
    ultimately show ?thesis using failed(2) by blast
  qed
qed simp

section \<open>What a batch adds to a log\<close>

text \<open>Chaining sets the timestamp and the two hashes of a record and keeps the rest of it.\<close>

definition same_content :: "audit_record \<Rightarrow> audit_record \<Rightarrow> bool" where
  "same_content r c \<longleftrightarrow> asset c = asset r \<and> rec_id c = rec_id r \<and> action c = action r \<and> status c = status r \<and>
     sha c = sha r \<and> actor c = actor r \<and> workflow_run c = workflow_run r \<and> message c = message r \<and>
     metadata_owner c = metadata_owner r \<and> workspace c = workspace r \<and> snippet_digest c = snippet_digest r"

lemma chain_records_content: "chain_records h rs p t = Inr cs \<Longrightarrow> list_all2 same_content rs cs"
  by (induction rs arbitrary: p t cs) (auto simp: rbind_def Let_def same_content_def split: sum.splits)

text \<open>Today's file got the lines of \<open>cs\<close> after the text it had, and nothing else changed.\<close>

definition extended_by :: "string \<Rightarrow> audit_record list \<Rightarrow> audit_dir \<Rightarrow> audit_dir \<Rightarrow> bool" where
  "extended_by today cs d d' \<longleftrightarrow> (\<exists>old. today_text today (files_of d) old \<and>
     d' = Some (dset (today @ ''.jsonl'') (Some (old @ lines_text cs)) (files_of d)))"

lemma log_inv_readable:
  assumes "log_inv h day fs logs"
  shows "map_of fs (today @ ''.jsonl'') \<noteq> Some None"
proof
  assume "map_of fs (today @ ''.jsonl'') = Some None"
  then have "(today @ ''.jsonl'', None) \<in> set (jsonl_files fs)"
    by (auto simp: jsonl_files_def endswith_def suffix_def dest: map_of_SomeD)
  then show False using assms by (auto simp: log_inv_def log_file_def)
qed

text \<open>Alone on a log of the writer, an append adds exactly its batch unless the timestamps run out.\<close>

lemma write_records_exact:
  assumes "audit_run h day n d" and "\<And>x. h x \<noteq> []" and "write_records h today id rs d = (y, d')"
  obtains (ok) cs where "y = Inr (today @ ''.jsonl'')" "extended_by today cs d d'" "list_all2 same_content rs cs"
    | (overflow) p t where "y = Inl Overflow" "d' = Some (files_of d)" "last_record_tail (Some (files_of d)) = Inr (p, t)"
        "chain_records h rs p t = Inl Overflow"
proof -
  obtain logs where inv: "log_inv h day (files_of d) logs" using audit_run_log[OF assms(2,1)] by blast
  obtain p t where t: "last_record_tail (Some (files_of d)) = Inr (p, t)"
    using last_record_tail_log[OF inv assms(2)] by (metis surj_pair)
  show thesis
  proof (cases "chain_records h rs p t")
    case (Inl e)
    then show thesis
      using overflow[OF _ _ t] chain_records_error[OF Inl] assms(3) t by (simp add: write_records_unfold Let_def)
  next
    case (Inr cs)
    obtain old where "today_text today (files_of d) old"
      "(case map_of (files_of d) (today @ ''.jsonl'') of None \<Rightarrow> Some [] | Some c \<Rightarrow> c) = Some old"
      using log_inv_readable[OF inv, of today] that
      by (cases "map_of (files_of d) (today @ ''.jsonl'')") (auto simp: today_text_def)
    then show thesis
      using ok chain_records_content[OF Inr] assms(3) t Inr by (auto simp: write_records_unfold Let_def extended_by_def)
  qed
qed

section \<open>Verification against a reference\<close>

text \<open>
  The specification of a good log on its parsed lines alone, with no accumulator: used to say
  that \<open>verify_chain\<close> reports no break exactly on the good ones, whatever edited the files.
\<close>

fun chain_ok :: "(string \<Rightarrow> string) \<Rightarrow> pyval \<Rightarrow> string \<Rightarrow> pyval option list \<Rightarrow> bool" where
  "chain_ok h prev ts [] = True"
| "chain_ok h prev ts (Some (PDict d) # es) =
    (map_of d ''record_hash'' \<noteq> None \<and> map_of d ''prev_hash'' \<noteq> None \<and>
     py_eq (PStr (h (dumps (PDict (dpop ''record_hash'' d))))) (dget d ''record_hash'') \<and>
     py_eq (dget d ''prev_hash'') prev \<and>
     (case dget d ''timestamp'' of
        PStr t \<Rightarrow> (ts = [] \<or> ts \<le> t) \<and>
                  chain_ok h (dget d ''record_hash'') (if t = [] then ts else t) es
      | _ \<Rightarrow> chain_ok h (dget d ''record_hash'') ts es))"
| "chain_ok h prev ts (_ # es) = False"

definition parsed_lines :: "string list \<Rightarrow> pyval option list" where
  "parsed_lines ls = map loads (filter (\<lambda>l. strip l \<noteq> []) ls)"

definition log_entries :: "audit_files \<Rightarrow> pyval option list" where
  "log_entries fs = concat (map (\<lambda>f. case snd f of None \<Rightarrow> [] | Some c \<Rightarrow> parsed_lines (splitlines c)) fs)"

text \<open>The state of the walk after good entries, and that nothing else keeps it clean.\<close>

definition clean_to :: "walk \<Rightarrow> audit_error + walk \<Rightarrow> bool" where
  "clean_to w r \<longleftrightarrow> (\<exists>w'. r = Inr w' \<and> found w' = found w)"

fun next_state :: "pyval \<times> string \<Rightarrow> pyval option \<Rightarrow> pyval \<times> string" where
  "next_state (p, ts) (Some (PDict d)) =
     (dget d ''record_hash'', case dget d ''timestamp'' of PStr t \<Rightarrow> (if t = [] then ts else t) | _ \<Rightarrow> ts)"
| "next_state s _ = s"

lemma chain_ok_Cons: "chain_ok h p ts (e # es) \<longleftrightarrow>
  chain_ok h p ts [e] \<and> chain_ok h (fst (next_state (p, ts) e)) (snd (next_state (p, ts) e)) es"
  by (cases e rule: option.exhaust; cases "the e") (auto split: pyval.splits)

lemma found_add_break [simp]: "found (add_break f ln a r w) = found w @
  [\<lparr>brk_file = f, line_number = ln, expected_prev_hash = expected_prev w, actual_prev_hash = a, reason = r\<rparr>]"
  and add_break_frame [simp]: "expected_prev (add_break f ln a r w) = expected_prev w"
  "prev_timestamp (add_break f ln a r w) = prev_timestamp w"
  "verified (add_break f ln a r w) = verified w"
  by (simp_all add: add_break_def)

lemma verify_line_grows: "verify_line h f ln l w = Inr w' \<Longrightarrow> \<exists>bs. found w' = found w @ bs"
  by (auto simp: verify_line_def check_hashes_def check_timestamp_def Let_def
      split: if_splits option.splits pyval.splits)


lemma verify_line_clean:
  "clean_to w (verify_line h f ln l w) \<longleftrightarrow>
     chain_ok h (expected_prev w) (prev_timestamp w) (parsed_lines [l])"
  "verify_line h f ln l w = Inr w' \<Longrightarrow> found w' = found w \<Longrightarrow>
     (expected_prev w', prev_timestamp w') =
     fold (\<lambda>e s. next_state s e) (parsed_lines [l]) (expected_prev w, prev_timestamp w)"
  by (auto simp: verify_line_def check_hashes_def check_timestamp_def Let_def clean_to_def
      parsed_lines_def not_less split: if_splits option.splits pyval.splits)


abbreviation walk_to :: "pyval option list \<Rightarrow> pyval \<times> string \<Rightarrow> pyval \<times> string" where
  "walk_to es s \<equiv> fold (\<lambda>e s. next_state s e) es s"

lemma chain_ok_append: "chain_ok h p ts (xs @ ys) \<longleftrightarrow> chain_ok h p ts xs \<and>
  chain_ok h (fst (walk_to xs (p, ts))) (snd (walk_to xs (p, ts))) ys"
proof (induction xs arbitrary: p ts)
  case (Cons x xs)
  show ?case
    using Cons[of "fst (next_state (p, ts) x)" "snd (next_state (p, ts) x)"]
      chain_ok_Cons[of h p ts x xs] chain_ok_Cons[of h p ts x "xs @ ys"] by simp
qed simp

lemma parsed_lines_Nil [simp]: "parsed_lines [] = []"
  by (simp add: parsed_lines_def)

lemma parsed_lines_Cons: "parsed_lines (l # ls) = parsed_lines [l] @ parsed_lines ls"
  by (simp add: parsed_lines_def)

text \<open>A scan of one piece that is clean exactly on good entries, and then stands where they end.\<close>

definition scans :: "(string \<Rightarrow> string) \<Rightarrow> (walk \<Rightarrow> audit_error + walk) \<Rightarrow> pyval option list \<Rightarrow> bool" where
  "scans h v es \<longleftrightarrow> (\<forall>w. case v w of
     Inl e \<Rightarrow> \<not> chain_ok h (expected_prev w) (prev_timestamp w) es
   | Inr w' \<Rightarrow> (\<exists>bs. found w' = found w @ bs \<and>
       (bs = [] \<longleftrightarrow> chain_ok h (expected_prev w) (prev_timestamp w) es) \<and>
       (bs = [] \<longrightarrow> walk_to es (expected_prev w, prev_timestamp w) =
          (expected_prev w', prev_timestamp w'))))"

lemma scansD: "scans h v es \<Longrightarrow> case v w of
     Inl e \<Rightarrow> \<not> chain_ok h (expected_prev w) (prev_timestamp w) es
   | Inr w' \<Rightarrow> (\<exists>bs. found w' = found w @ bs \<and>
       (bs = [] \<longleftrightarrow> chain_ok h (expected_prev w) (prev_timestamp w) es) \<and>
       (bs = [] \<longrightarrow> walk_to es (expected_prev w, prev_timestamp w) =
          (expected_prev w', prev_timestamp w')))"
  unfolding scans_def by (rule spec)

lemma scans_nothing: "scans h Inr []"
  by (simp add: scans_def)

lemma scans_one_line: "scans h (verify_line h f ln l) (parsed_lines [l])"
proof -
  have "case verify_line h f ln l w of
     Inl e \<Rightarrow> \<not> chain_ok h (expected_prev w) (prev_timestamp w) (parsed_lines [l])
   | Inr w' \<Rightarrow> (\<exists>bs. found w' = found w @ bs \<and>
       (bs = [] \<longleftrightarrow> chain_ok h (expected_prev w) (prev_timestamp w) (parsed_lines [l])) \<and>
       (bs = [] \<longrightarrow> walk_to (parsed_lines [l]) (expected_prev w, prev_timestamp w) =
          (expected_prev w', prev_timestamp w')))" for w
    using verify_line_clean[where w = w and h = h and f = f and ln = ln and l = l] verify_line_grows[of h f ln l w]
    by (cases "verify_line h f ln l w") (auto simp: clean_to_def)
  then show ?thesis unfolding scans_def by blast
qed

lemma scans_seq:
  assumes u: "scans h u es" and v: "scans h v es'"
  shows "scans h (\<lambda>w. rbind (u w) v) (es @ es')"
  unfolding scans_def
proof
  fix w
  note u = scansD[OF u, of w]
  show "case rbind (u w) v of
     Inl e \<Rightarrow> \<not> chain_ok h (expected_prev w) (prev_timestamp w) (es @ es')
   | Inr w' \<Rightarrow> (\<exists>bs. found w' = found w @ bs \<and>
       (bs = [] \<longleftrightarrow> chain_ok h (expected_prev w) (prev_timestamp w) (es @ es')) \<and>
       (bs = [] \<longrightarrow> walk_to (es @ es') (expected_prev w, prev_timestamp w) =
          (expected_prev w', prev_timestamp w')))"
  proof (cases "u w")
    case (Inl e)
    then show ?thesis using u by (simp add: chain_ok_append)
  next
    case (Inr w1)
    with u obtain bs where bs: "found w1 = found w @ bs"
      "bs = [] \<longleftrightarrow> chain_ok h (expected_prev w) (prev_timestamp w) es"
      "bs = [] \<longrightarrow> walk_to es (expected_prev w, prev_timestamp w) =
         (expected_prev w1, prev_timestamp w1)"
      by auto
    note v = scansD[OF v, of w1]
    have both: "chain_ok h (expected_prev w) (prev_timestamp w) (es @ es') \<longleftrightarrow>
        bs = [] \<and> chain_ok h (expected_prev w1) (prev_timestamp w1) es'"
      using bs(2,3) by (auto simp: chain_ok_append)
    show ?thesis
      using v bs both by (cases "v w1") (auto simp: Inr)
  qed
qed

lemma scans_lines: "scans h (verify_lines h f ln ls) (parsed_lines ls)"
proof (induction ls arbitrary: ln)
  case Nil
  have "verify_lines h f ln [] = Inr" by (simp add: fun_eq_iff)
  then show ?case using scans_nothing by simp
next
  case (Cons l ls)
  have "verify_lines h f ln (l # ls) =
      (\<lambda>w. rbind (verify_line h f ln l w) (verify_lines h f (Suc ln) ls))" by (simp add: fun_eq_iff)
  then show ?case using scans_seq[OF scans_one_line Cons, of f ln l "Suc ln"]
    by (simp only: parsed_lines_Cons[of l ls])
qed

lemma scans_files: "scans h (verify_files h fs) (log_entries fs)"
proof (induction fs)
  case Nil
  have "verify_files h [] = Inr" by (simp add: fun_eq_iff)
  then show ?case using scans_nothing by (simp add: log_entries_def)
next
  case (Cons f fs)
  obtain n c where f: "f = (n, c)" by (cases f)
  show ?case
  proof (cases c)
    case None
    then have "verify_files h (f # fs) = verify_files h fs" by (simp add: fun_eq_iff f)
    then show ?thesis using Cons by (simp add: log_entries_def f None)
  next
    case (Some t)
    then have "verify_files h (f # fs) =
        (\<lambda>w. rbind (verify_lines h n 1 (splitlines t) w) (verify_files h fs))"
      by (simp add: fun_eq_iff f)
    then show ?thesis using scans_seq[OF scans_lines Cons] by (simp add: log_entries_def f Some)
  qed
qed


section \<open>What a head hash commits to\<close>

lemma dumps_inj: "wf_val v \<Longrightarrow> wf_val w \<Longrightarrow> dumps v = dumps w \<Longrightarrow> v = w"
  using loads_dumps by (metis option.inject)

lemma opt_str_inj [simp]: "opt_str x = opt_str y \<longleftrightarrow> x = y"
  by (simp add: opt_str_def split: option.splits)

lemma to_json_unhashed_inj:
  assumes "to_json_unhashed r = to_json_unhashed s" and "record_hash r = record_hash s"
  shows "r = s"
proof -
  have "wf_val (PDict (unhashed_fields x))" for x by (simp add: unhashed_fields_def)
  then have "unhashed_fields r = unhashed_fields s"
    using dumps_inj assms(1) by (fastforce simp: to_json_unhashed_def)
  then show ?thesis
    using assms(2) by (cases r; cases s) (simp add: unhashed_fields_def)
qed

text \<open>Two distinct texts of a record with the same digest.\<close>

definition collision :: "(string \<Rightarrow> string) \<Rightarrow> audit_record list \<Rightarrow> audit_record list \<Rightarrow> bool" where
  "collision h xs ys \<longleftrightarrow> (\<exists>r \<in> set xs. \<exists>s \<in> set ys.
     to_json_unhashed r \<noteq> to_json_unhashed s \<and> h (to_json_unhashed r) = h (to_json_unhashed s))"

lemma chained_unique:
  "chained h p t xs \<Longrightarrow> chained h p t ys \<Longrightarrow> length xs = length ys \<Longrightarrow>
    fst (chain_end p t xs) = fst (chain_end p t ys) \<Longrightarrow> \<not> collision h xs ys \<Longrightarrow> xs = ys"
proof (induction xs arbitrary: ys rule: rev_induct)
  case (snoc r xs)
  from snoc.prems(3) obtain zs s where ys: "ys = zs @ [s]"
    by (metis append_butlast_last_id length_0_conv length_append_singleton nat.distinct(1))
  have c: "chained h p t xs" "prev_hash r = fst (chain_end p t xs)"
    "record_hash r = compute_record_hash h r" "chained h p t zs"
    "prev_hash s = fst (chain_end p t zs)" "record_hash s = compute_record_hash h s"
    using snoc.prems(1,2) by (auto simp: ys chained_append)
  have n: "\<not> collision h xs zs" using snoc.prems(5) by (auto simp: collision_def ys)
  have "record_hash r = record_hash s" using snoc.prems(4) by (simp add: ys)
  moreover from this have "to_json_unhashed r = to_json_unhashed s"
    using c(3,6) snoc.prems(5) by (auto simp: compute_record_hash_def collision_def ys)
  ultimately have "r = s" by (rule to_json_unhashed_inj[rotated])
  moreover have "xs = zs" using snoc.IH[of zs] snoc.prems(3) c n \<open>r = s\<close> by (simp add: ys)
  ultimately show ?case by (simp add: ys)
qed simp

lemma chained_later: "chained h p t rs \<Longrightarrow> sorted_wrt (<) (map timestamp rs) \<and>
  (t = [] \<or> (\<forall>r \<in> set rs. t < timestamp r))"
proof (induction rs arbitrary: p t)
  case (Cons r rs)
  then have c: "chained h (record_hash r) (timestamp r) rs" "canonical_ts (timestamp r)"
    "t = [] \<or> t < timestamp r" by auto
  from Cons.IH[OF c(1)] have "sorted_wrt (<) (map timestamp rs)" "\<forall>s \<in> set rs. timestamp r < timestamp s"
    using canonical_ts_nonempty[OF c(2)] by auto
  then show ?case using c(3) by (auto intro: less_trans)
qed simp

lemma head_summary_log:
  assumes "log_inv h day fs logs" and "\<And>x. h x \<noteq> []"
  shows "head_summary h (Some fs) = Inr
    \<lparr>head_hash = (let x = fst (chain_end ZERO_HASH [] (log_records logs))
                   in if x = ZERO_HASH then None else Some x),
     tail_timestamp = (let x = snd (chain_end ZERO_HASH [] (log_records logs))
                   in if x = [] then None else Some x),
     head_files_checked = length logs, head_records_verified = length (log_records logs),
     chain_breaks = 0, head_verified = True\<rparr>"
  using last_record_tail_log[OF assms] verify_chain_log[OF assms(1)]
  by (simp add: head_summary_def Let_def case_prod_unfold)

section \<open>A concrete log, for the instances\<close>

definition demo_hash :: "string \<Rightarrow> string" where
  "demo_hash s = ''h'' @ show_nat (length s)"

definition demo_time :: datetime where
  "demo_time = \<lparr>dt_year = 2026, dt_month = 1, dt_day = 2, dt_hour = 3, dt_minute = 4,
     dt_second = 5, dt_micro = 6\<rparr>"

definition demo_record :: audit_record where
  "demo_record = \<lparr>timestamp = format_datetime demo_time, asset = ''analytics'',
     rec_id = ''a'', action = ''create'', status = ''ok'', sha = ''s'', actor = ''ci'',
     workflow_run = None, message = None, metadata_owner = None, workspace = None,
     snippet_digest = None, prev_hash = ZERO_HASH, record_hash = []\<rparr>"

definition demo_dir :: audit_dir where
  "demo_dir = snd (write_records demo_hash ''2026-01-02'' id [demo_record] None)"

lemma demo_hash_nonempty: "demo_hash x \<noteq> []"
  by (simp add: demo_hash_def)

lemma demo_valid: "valid_datetime demo_time"
  by (simp add: demo_time_def valid_datetime_def days_in_month_def leap_year_def)

lemma demo_canonical: "\<forall>r \<in> set [demo_record, demo_record]. canonical_ts (timestamp r)"
  using demo_valid by (auto simp: canonical_ts_def demo_record_def)

lemma demo_written: "write_records demo_hash ''2026-01-02'' id [demo_record] None =
    (Inr ''2026-01-02.jsonl'', demo_dir)"
  by (simp add: demo_dir_def write_records_unfold files_of_def last_record_tail_def jsonl_files_def
      monotonic_timestamp_def Let_def)

lemma first_write: "\<exists>d'. write_records h today id [r] None = (Inr (today @ ''.jsonl''), d')"
  by (simp add: write_records_unfold files_of_def last_record_tail_def jsonl_files_def monotonic_timestamp_def Let_def)

lemma demo_run: "audit_run demo_hash ''2026-01-02'' 1 demo_dir"
  using audit_run.append[OF audit_run.start _ _ _ demo_written] demo_canonical by simp

section \<open>Properties\<close>

text \<open>
  C1. Whatever batches the writer appends over successive runs (on days that do not go back, with
  timestamps of the pipeline's format), with orphan batches and refused writes between them,
  \<open>verify_chain\<close> finds no break and counts exactly the records written.
\<close>

theorem audit_run_verifies:
  assumes "audit_run h day n d" and "\<And>x. h x \<noteq> []"
  shows "\<exists>k. verify_chain h d = Inr \<lparr>files_checked = k, records_verified = n, breaks = []\<rparr>"
proof (cases d)
  case None
  obtain logs where "log_inv h day (files_of d) logs" "length (log_records logs) = n"
    using audit_run_log[OF assms(2,1)] by blast
  then have "n = 0" by (auto simp: log_inv_def files_of_def None jsonl_files_def)
  then show ?thesis by (simp add: verify_chain_def None)
next
  case (Some fs)
  obtain logs where "log_inv h day fs logs" "length (log_records logs) = n"
    using audit_run_log[OF assms(2,1)] by (auto simp: Some files_of_def)
  then show ?thesis using verify_chain_log by (auto simp: Some)
qed

theorem audit_run_verifies_witness:
  "\<exists>k. verify_chain demo_hash demo_dir = Inr \<lparr>files_checked = k, records_verified = 1, breaks = []\<rparr>"
  by (rule audit_run_verifies[OF demo_run demo_hash_nonempty])

text \<open>
  C2. \<open>verify_chain\<close> is exact on every directory, tampered ones included: it reports no break if
  and only if every non-blank line is an object whose stored hash is the digest of the rest,
  whose \<open>prev_hash\<close> is its predecessor's hash, and whose timestamp does not go back.
\<close>

theorem verify_chain_exact:
  "(\<exists>v. verify_chain h (Some fs) = Inr v \<and> breaks v = []) \<longleftrightarrow>
   chain_ok h (PStr ZERO_HASH) [] (log_entries (jsonl_files fs))"
  using scansD[OF scans_files, where fs1 = "jsonl_files fs" and w = walk_start and h = h]
  by (cases "verify_files h (jsonl_files fs) walk_start")
     (auto simp: verify_chain_def walk_start_def)

text \<open>Another process that makes the first record while the first attempt is under way.\<close>

definition demo_race :: "nat \<Rightarrow> audit_files \<Rightarrow> audit_files" where
  "demo_race i fs = (if i = 0 \<and> fs = [] then files_of demo_dir else fs)"

lemma demo_dir_tail: "\<exists>x old. last_record_tail (Some (files_of demo_dir)) = Inr (x, timestamp demo_record) \<and> x \<noteq> ZERO_HASH \<and>
    files_of demo_dir = [(''2026-01-02.jsonl'', Some old)]"
proof -
  obtain c where c: "chain_records demo_hash [demo_record] ZERO_HASH [] = Inr [c]"
      "timestamp c = timestamp demo_record" "record_hash c = demo_hash (to_json_unhashed (c\<lparr>record_hash := []\<rparr>))"
    by (simp add: monotonic_timestamp_def compute_record_hash_def Let_def)
  have dir: "files_of demo_dir = [(''2026-01-02.jsonl'', Some (lines_text [c]))]"
    using c(1) by (simp add: demo_dir_def write_records_unfold files_of_def last_record_tail_def jsonl_files_def Let_def)
  have "record_hash c \<noteq> []" using c(3) demo_hash_nonempty by simp
  then have "tail_of_lines [to_json c] = Inr (Some (record_hash c, timestamp c))"
    by (intro rec_line.tail_of_enc) (simp_all add: dget_def)
  then have "last_record_tail (Some (files_of demo_dir)) = Inr (record_hash c, timestamp c)"
    unfolding dir by (simp add: last_record_tail_def jsonl_files_def endswith_def suffix_def splitlines_lines_text del: tail_of_lines.simps)
  moreover have "record_hash c \<noteq> ZERO_HASH" by (simp add: c(3) demo_hash_def ZERO_HASH_def numeral_eq_Suc)
  ultimately show ?thesis using c(2) dir by auto
qed

lemma demo_race_later: "demo_race (Suc i) = id"
  by (simp add: demo_race_def fun_eq_iff)

lemma raced_quiet: "files_of (raced (\<lambda>i. id) k d) = files_of d"
  by (induction k arbitrary: d) (simp_all add: files_of_def)

lemma demo_race_moves: "moves_tail (demo_race i)"
proof -
  have "last_record_tail (Some []) = Inr (ZERO_HASH, [])" by (simp add: last_record_tail_def jsonl_files_def)
  then show ?thesis using demo_dir_tail by (auto simp: moves_tail_def demo_race_def last_record_hash_def)
qed

lemma demo_race_recovers:
  "\<exists>d'. write_records_with_retry demo_hash ''2026-01-02'' demo_race (\<lambda>_. id) [demo_record] 3 None = (Inr ''2026-01-02.jsonl'', d')"
proof -
  obtain x where x: "last_record_tail (Some (files_of demo_dir)) = Inr (x, timestamp demo_record)" "x \<noteq> ZERO_HASH"
    using demo_dir_tail by blast
  have empty: "last_record_tail (Some []) = Inr (ZERO_HASH, [])" by (simp add: last_record_tail_def jsonl_files_def)
  have one: "write_records demo_hash ''2026-01-02'' (demo_race 0) [demo_record] None = (Inl ConcurrentWrite, Some (files_of demo_dir))"
    using x by (simp add: write_records_unfold files_of_def[of None] empty monotonic_timestamp_def Let_def demo_race_def)
  obtain old where old: "map_of (files_of demo_dir) ''2026-01-02.jsonl'' = Some (Some old)"
    using demo_dir_tail by auto
  have "timestamp demo_record = format_datetime demo_time" by (simp add: demo_record_def)
  moreover have "\<exists>d. add_microsecond demo_time = Some d" by (simp add: demo_time_def add_microsecond_def)
  ultimately have "\<exists>ts. monotonic_timestamp (timestamp demo_record) (timestamp demo_record) = Inr ts"
    by (auto simp: monotonic_timestamp_def parse_format_datetime[OF demo_valid])
  then obtain cs where "chain_records demo_hash [demo_record] x (timestamp demo_record) = Inr cs"
    by (auto simp: Let_def)
  then have "\<exists>d'. write_records demo_hash ''2026-01-02'' id [demo_record] (Some (files_of demo_dir)) = (Inr ''2026-01-02.jsonl'', d')"
    using x(1) old by (simp add: write_records_unfold files_of_def[of "Some _"] Let_def)
  then show ?thesis using one by (auto simp: write_records_with_retry_def numeral_3_eq_3 demo_race_later)
qed



text \<open>
  C4. The notarised head commits to the whole log: two logs the writer made with the same
  \<open>head_hash\<close> and \<open>records_verified\<close> hold the same records, unless two different records have
  the same digest.
\<close>

theorem head_commits_to_log:
  assumes "log_inv h day fs logs" and "log_inv h day' fs' logs'" and "\<And>x. h x \<noteq> []"
    and "head_summary h (Some fs) = Inr s" and "head_summary h (Some fs') = Inr s'"
    and "head_hash s = head_hash s'" and "head_records_verified s = head_records_verified s'"
  shows "log_records logs = log_records logs' \<or> collision h (log_records logs) (log_records logs')"
proof -
  have c: "chained h ZERO_HASH [] (log_records logs)" "chained h ZERO_HASH [] (log_records logs')"
    using assms(1,2) by (auto simp: log_inv_def)
  have "length (log_records logs) = length (log_records logs')"
    using assms head_summary_log by auto
  moreover have "fst (chain_end ZERO_HASH [] (log_records logs)) =
      fst (chain_end ZERO_HASH [] (log_records logs'))"
    using assms(4-6) head_summary_log[OF assms(1,3)] head_summary_log[OF assms(2,3)]
    by (auto simp: Let_def split: if_splits)
  ultimately show ?thesis using chained_unique[OF c] by blast
qed

theorem head_commits_to_log_witness:
  "\<exists>logs. log_inv demo_hash ''2026-01-02'' (files_of demo_dir) logs \<and> length (log_records logs) = 1 \<and>
     (log_records logs = log_records logs \<or> collision demo_hash (log_records logs) (log_records logs))"
proof -
  obtain logs where l: "log_inv demo_hash ''2026-01-02'' (files_of demo_dir) logs"
    "length (log_records logs) = 1"
    using audit_run_log[OF demo_hash_nonempty demo_run] by auto
  obtain s where "head_summary demo_hash (Some (files_of demo_dir)) = Inr s"
    using head_summary_log[OF l(1) demo_hash_nonempty] by auto
  from head_commits_to_log[OF l(1,1) demo_hash_nonempty this this] l show ?thesis by blast
qed

text \<open>
  A batch is made strictly monotonic: its chained records follow each other's timestamps and
  the log's last one, none is moved back, and hashes link each to its predecessor.
\<close>

theorem batch_is_monotonic:
  assumes "t = [] \<or> canonical_ts t" and "\<forall>r \<in> set rs. canonical_ts (timestamp r)"
    and "chain_records h rs p t = Inr cs"
  shows "length cs = length rs \<and> chained h p t cs \<and> sorted_wrt (<) (map timestamp cs) \<and>
    (t = [] \<or> (\<forall>r \<in> set cs. t < timestamp r))"
  using chain_records_chained[OF assms] chained_later chain_records_length[OF assms(3)] by blast+

theorem batch_is_monotonic_witness:
  "\<exists>cs. chain_records demo_hash [demo_record, demo_record] ZERO_HASH [] = Inr cs \<and> length cs = 2 \<and>
     sorted_wrt (<) (map timestamp cs)"
proof -
  have "\<exists>cs. chain_records demo_hash [demo_record, demo_record] ZERO_HASH [] = Inr cs"
    by (simp add: monotonic_timestamp_def Let_def demo_record_def parse_format_datetime[OF demo_valid])
       (simp add: demo_time_def add_microsecond_def)
  then show ?thesis using batch_is_monotonic[OF _ demo_canonical] by fastforce
qed

end
