(* ===== verification/Assets.thy ===== *)
theory Assets
  imports Py_Value
begin

text \<open>
  The asset taxonomy of \<open>contentops/core/asset.py\<close>: the kinds, their string values, the tables
  keyed by kind, and the two readers of a payload (display name and query body).
\<close>

section \<open>Kinds\<close>

datatype asset_kind =
    SENTINEL_ANALYTIC | SENTINEL_HUNTING | SENTINEL_WATCHLIST | SENTINEL_PARSER
  | SENTINEL_DATA_CONNECTOR | DEFENDER_CUSTOM_DETECTION | SENTINEL_AUTOMATION_RULE
  | SENTINEL_PLAYBOOK

fun asset_value :: "asset_kind \<Rightarrow> string" where
  "asset_value SENTINEL_ANALYTIC = ''sentinel_analytic''"
| "asset_value SENTINEL_HUNTING = ''sentinel_hunting''"
| "asset_value SENTINEL_WATCHLIST = ''sentinel_watchlist''"
| "asset_value SENTINEL_PARSER = ''sentinel_parser''"
| "asset_value SENTINEL_DATA_CONNECTOR = ''sentinel_data_connector''"
| "asset_value DEFENDER_CUSTOM_DETECTION = ''defender_custom_detection''"
| "asset_value SENTINEL_AUTOMATION_RULE = ''sentinel_automation_rule''"
| "asset_value SENTINEL_PLAYBOOK = ''sentinel_playbook''"

definition all_assets :: "asset_kind list" where
  "all_assets = [SENTINEL_ANALYTIC, SENTINEL_HUNTING, SENTINEL_WATCHLIST, SENTINEL_PARSER,
     SENTINEL_DATA_CONNECTOR, DEFENDER_CUSTOM_DETECTION, SENTINEL_AUTOMATION_RULE,
     SENTINEL_PLAYBOOK]"

text \<open>\<open>Asset(s)\<close>; \<open>None\<close> is its \<open>ValueError\<close>.\<close>

definition asset_of :: "string \<Rightarrow> asset_kind option" where
  "asset_of s = find (\<lambda>a. asset_value a = s) all_assets"

lemma all_assets_complete [simp]: "a \<in> set all_assets"
  by (cases a) (simp_all add: all_assets_def)

lemma asset_value_inj [simp]: "asset_value a = asset_value b \<longleftrightarrow> a = b"
  by (cases a; cases b) simp_all

lemma asset_of_value [simp]: "asset_of (asset_value a) = Some a"
  by (cases a) (simp_all add: asset_of_def all_assets_def)

lemma asset_of_Some: "asset_of s = Some a \<longleftrightarrow> s = asset_value a"
  using asset_of_value by (auto simp: asset_of_def find_Some_iff)

text \<open>\<open>Asset\<close> is a \<open>str\<close>, so kinds compare as their values.\<close>

instantiation asset_kind :: linorder
begin

definition less_eq_asset_kind :: "asset_kind \<Rightarrow> asset_kind \<Rightarrow> bool" where
  "a \<le> b \<longleftrightarrow> asset_value a \<le> asset_value b"

definition less_asset_kind :: "asset_kind \<Rightarrow> asset_kind \<Rightarrow> bool" where
  "a < b \<longleftrightarrow> asset_value a < asset_value b"

instance
  by standard (auto simp: less_eq_asset_kind_def less_asset_kind_def less_le)

end

section \<open>Tables\<close>

definition DETECTION_ASSETS :: "asset_kind list" where
  "DETECTION_ASSETS = [SENTINEL_ANALYTIC, SENTINEL_HUNTING, DEFENDER_CUSTOM_DETECTION]"

definition NON_DETECTION_ASSETS :: "asset_kind list" where
  "NON_DETECTION_ASSETS = [SENTINEL_AUTOMATION_RULE, SENTINEL_PLAYBOOK]"

definition COLLECT_BASELINE_VERSION :: string where
  "COLLECT_BASELINE_VERSION = ''1.0.0''"

definition APPLY_ORDER_DEFAULT :: int where
  "APPLY_ORDER_DEFAULT = 50"

definition APPLY_ORDER_BY_ASSET :: "(asset_kind \<times> int) list" where
  "APPLY_ORDER_BY_ASSET = [(SENTINEL_PLAYBOOK, 10), (SENTINEL_AUTOMATION_RULE, 90)]"

datatype asset_mode = Managed | Monitor

definition DEFAULT_ASSET_MODES :: "(asset_kind \<times> asset_mode) list" where
  "DEFAULT_ASSET_MODES =
    [(SENTINEL_ANALYTIC, Managed), (SENTINEL_HUNTING, Managed), (SENTINEL_WATCHLIST, Managed),
     (SENTINEL_PARSER, Managed), (SENTINEL_DATA_CONNECTOR, Managed),
     (DEFENDER_CUSTOM_DETECTION, Managed), (SENTINEL_AUTOMATION_RULE, Monitor),
     (SENTINEL_PLAYBOOK, Monitor)]"

definition KQL_FIELDS_BY_ASSET :: "(asset_kind \<times> string list) list" where
  "KQL_FIELDS_BY_ASSET =
    [(SENTINEL_ANALYTIC, [''query'']), (SENTINEL_HUNTING, [''query'']),
     (SENTINEL_PARSER, [''query'']),
     (DEFENDER_CUSTOM_DETECTION, [''queryText'', ''queryCondition.queryText''])]"

section \<open>Reading a payload\<close>

text \<open>The keys of \<open>d\<close> tried in turn for a non-blank string.\<close>

fun first_text :: "string list \<Rightarrow> pydict \<Rightarrow> string" where
  "first_text [] d = []"
| "first_text (k # ks) d =
    (case dget d k of
       PStr s \<Rightarrow> (if strip s \<noteq> [] then strip s else first_text ks d)
     | _ \<Rightarrow> first_text ks d)"

definition payload_display_name :: "pyval \<Rightarrow> string" where
  "payload_display_name payload = (case payload of
     PDict d \<Rightarrow> first_text [''displayName'', ''DisplayName''] d
   | _ \<Rightarrow> [])"

text \<open>\<open>None\<close> when a part of the dotted path is missing or is looked up in a non-mapping.\<close>

fun walk_path :: "string list \<Rightarrow> pyval \<Rightarrow> pyval option" where
  "walk_path [] v = Some v"
| "walk_path (p # ps) v = (case v of
     PDict d \<Rightarrow> (case map_of d p of None \<Rightarrow> None | Some x \<Rightarrow> walk_path ps x)
   | _ \<Rightarrow> None)"

fun first_query :: "string list \<Rightarrow> pyval \<Rightarrow> string option" where
  "first_query [] payload = None"
| "first_query (f # fs) payload =
    (case walk_path (split_on (CHR ''.'') f) payload of
       Some (PStr s) \<Rightarrow> (if strip s \<noteq> [] then Some s else first_query fs payload)
     | _ \<Rightarrow> first_query fs payload)"

definition kql_body_from_payload :: "asset_kind \<Rightarrow> pyval \<Rightarrow> string option" where
  "kql_body_from_payload a payload =
    (if \<not> is_dict payload then None
     else first_query (case map_of KQL_FIELDS_BY_ASSET a of None \<Rightarrow> [] | Some fs \<Rightarrow> fs) payload)"

lemma first_query_visible: "first_query fs p = Some q \<Longrightarrow> strip q \<noteq> []"
  by (induction fs) (auto split: option.splits pyval.splits if_splits)

lemma kql_body_visible: "kql_body_from_payload a p = Some q \<Longrightarrow> strip q \<noteq> []"
  by (auto simp: kql_body_from_payload_def dest: first_query_visible split: if_splits)

lemma default_modes_cover: "map_of DEFAULT_ASSET_MODES a =
  Some (if a \<in> set NON_DETECTION_ASSETS then Monitor else Managed)"
  by (cases a) (simp_all add: DEFAULT_ASSET_MODES_def NON_DETECTION_ASSETS_def)

lemma detection_disjoint: "a \<in> set DETECTION_ASSETS \<Longrightarrow> a \<notin> set NON_DETECTION_ASSETS"
  by (cases a) (simp_all add: DETECTION_ASSETS_def NON_DETECTION_ASSETS_def)

end
