(* ===== verification/Slug.thy ===== *)
theory Slug
  imports Py_Str
begin

text \<open>
  Envelope ids from display names, \<open>contentops/utils/slug.py\<close>. The id pattern is the regular
  expression \<open>^[a-z0-9][a-z0-9-]*[a-z0-9]$\<close>; Python's \<open>$\<close> also matches before a final newline.
\<close>

section \<open>The id pattern\<close>

definition slug_char :: "char \<Rightarrow> bool" where
  "slug_char c \<longleftrightarrow> is_lower c \<or> is_digit c"

abbreviation dash :: char where "dash \<equiv> CHR ''-''"

text \<open>The pattern as an anchored full match.\<close>

definition id_full :: "string \<Rightarrow> bool" where
  "id_full s \<longleftrightarrow> 2 \<le> length s \<and> slug_char (hd s) \<and> slug_char (last s) \<and>
     (\<forall>c \<in> set s. slug_char c \<or> c = dash)"

definition is_valid_envelope_id :: "string \<Rightarrow> bool" where
  "is_valid_envelope_id s \<longleftrightarrow> id_full s \<or> (s \<noteq> [] \<and> last s = NL \<and> id_full (butlast s))"

section \<open>Slugs\<close>

text \<open>\<open>_NON_SLUG.sub("-", s)\<close>: a maximal run of other characters becomes one dash.\<close>

function sub_non_slug :: "string \<Rightarrow> string" where
  "sub_non_slug [] = []"
| "sub_non_slug (c # s) =
    (if slug_char c then c # sub_non_slug s
     else dash # sub_non_slug (dropWhile (\<lambda>x. \<not> slug_char x) s))"
  by pat_completeness auto
termination
  by (relation "measure length") (auto simp: le_imp_less_Suc length_dropWhile_le)

definition SLUG_MAX_LEN :: nat where "SLUG_MAX_LEN = 80"

text \<open>The slug of one text before it is accepted, and the test for accepting it.\<close>

definition raw_slug :: "string \<Rightarrow> string" where
  "raw_slug s =
    (let slug = strip_by ((=) dash) (sub_non_slug (lower (strip s)))
     in if SLUG_MAX_LEN < length slug then rstrip_by ((=) dash) (take SLUG_MAX_LEN slug) else slug)"

definition displayname_slug :: "string option \<Rightarrow> string option \<Rightarrow> string" where
  "displayname_slug name fallback_id =
    (let slug = raw_slug (case name of None \<Rightarrow> [] | Some s \<Rightarrow> s) in
     if slug \<noteq> [] \<and> is_valid_envelope_id slug then slug
     else case fallback_id of
       None \<Rightarrow> []
     | Some f \<Rightarrow>
         (let fs = raw_slug f in if fs \<noteq> [] \<and> is_valid_envelope_id fs then fs else []))"

definition arm_name_suffix :: "string option \<Rightarrow> string" where
  "arm_name_suffix arm_name = (case arm_name of
     None \<Rightarrow> []
   | Some s \<Rightarrow> take 8 (filter slug_char (lower s)))"

definition disambiguate :: "string \<Rightarrow> string option \<Rightarrow> string" where
  "disambiguate slug arm_name =
    (let suffix = arm_name_suffix arm_name in
     if suffix = [] then slug
     else let base_max = int SLUG_MAX_LEN - int (length suffix) - 1;
              base = (if 0 < base_max then rstrip_by ((=) dash) (take (nat base_max) slug) else slug)
          in if base \<noteq> [] then base @ [dash] @ suffix else suffix)"

section \<open>Lemmas\<close>

lemma slug_char_simps [simp]: "\<not> slug_char dash" "\<not> slug_char NL"
  by (simp_all add: slug_char_def is_lower_def is_digit_def)

lemma sub_non_slug_chars: "c \<in> set (sub_non_slug s) \<Longrightarrow> slug_char c \<or> c = dash"
  by (induction s rule: sub_non_slug.induct) (auto split: if_splits)

lemma sub_non_slug_tail:
  "sub_non_slug (dropWhile (\<lambda>x. \<not> slug_char x) s) = [] \<or>
   hd (sub_non_slug (dropWhile (\<lambda>x. \<not> slug_char x) s)) \<noteq> dash"
proof (cases "dropWhile (\<lambda>x. \<not> slug_char x) s")
  case (Cons a t)
  then have "slug_char a" using dropWhile_hd[of "\<lambda>x. \<not> slug_char x" s] by simp
  then show ?thesis by (auto simp: Cons)
next
  case Nil
  show ?thesis unfolding Nil by simp
qed

lemma raw_slug_chars: "c \<in> set (raw_slug s) \<Longrightarrow> slug_char c \<or> c = dash"
proof -
  have "set (raw_slug s) \<subseteq> set (sub_non_slug (lower (strip s)))"
    unfolding raw_slug_def Let_def strip_by_def lstrip_by_def
    by (auto dest!: set_mp[OF set_rstrip_by] in_set_takeD set_dropWhileD split: if_splits)
  then show "c \<in> set (raw_slug s) \<Longrightarrow> slug_char c \<or> c = dash" using sub_non_slug_chars by blast
qed

lemma raw_slug_length: "length (raw_slug s) \<le> SLUG_MAX_LEN"
proof -
  have "length (rstrip_by P (take n x)) \<le> n" for P n and x :: string
    using prefix_length_le[OF prefix_rstrip_by, of P "take n x"] by simp
  then show ?thesis by (auto simp: raw_slug_def Let_def)
qed

lemma hd_prefix: "prefix t s \<Longrightarrow> t \<noteq> [] \<Longrightarrow> hd t = hd s"
  by (auto simp: prefix_def)

lemma raw_slug_ends:
  assumes "raw_slug s \<noteq> []"
  shows "slug_char (hd (raw_slug s))" and "slug_char (last (raw_slug s))"
proof -
  let ?x = "strip_by ((=) dash) (sub_non_slug (lower (strip s)))"
  have nx: "?x \<noteq> []" using assms by (auto simp: raw_slug_def)
  have p: "prefix (raw_slug s) ?x"
    unfolding raw_slug_def Let_def
    by (auto intro: prefix_order.trans[OF prefix_rstrip_by] take_is_prefix)
  have "hd ?x = hd (lstrip_by ((=) dash) (sub_non_slug (lower (strip s))))"
    using hd_prefix[OF prefix_rstrip_by] nx by (simp add: strip_by_def)
  moreover have "lstrip_by ((=) dash) (sub_non_slug (lower (strip s))) \<noteq> []"
    using nx by (auto simp: strip_by_def rstrip_by_def)
  ultimately have "hd ?x \<noteq> dash"
    unfolding lstrip_by_def using dropWhile_hd by metis
  then have "hd (raw_slug s) \<noteq> dash" using hd_prefix[OF p assms] by simp
  then show "slug_char (hd (raw_slug s))" using raw_slug_chars hd_in_set[OF assms] by blast
  obtain x where "raw_slug s = rstrip_by ((=) dash) x"
    by (simp add: raw_slug_def Let_def strip_by_def) metis
  then have "last (raw_slug s) \<noteq> dash" using assms rstrip_by_last by metis
  then show "slug_char (last (raw_slug s))" using raw_slug_chars last_in_set[OF assms] by blast
qed

lemma raw_slug_valid: "raw_slug s \<noteq> [] \<Longrightarrow> is_valid_envelope_id (raw_slug s) \<longleftrightarrow> id_full (raw_slug s)"
  using raw_slug_ends(2)[of s] by (auto simp: is_valid_envelope_id_def)

text \<open>A slug never has two dashes in a row, which makes slugging a slug the identity.\<close>

definition single_dashes :: "string \<Rightarrow> bool" where
  "single_dashes s \<longleftrightarrow> successively (\<lambda>a b. a \<noteq> dash \<or> b \<noteq> dash) s"

lemma single_dashes_prefix: "single_dashes s \<Longrightarrow> prefix t s \<Longrightarrow> single_dashes t"
  by (auto simp: single_dashes_def prefix_def successively_append_iff)

lemma single_dashes_dropWhile: "single_dashes s \<Longrightarrow> single_dashes (dropWhile P s)"
  unfolding single_dashes_def
  by (metis successively_append_iff takeWhile_dropWhile_id)

lemma single_dashes_Cons: "single_dashes (c # s) \<longleftrightarrow>
  single_dashes s \<and> (c \<noteq> dash \<or> s = [] \<or> hd s \<noteq> dash)"
  by (cases s) (auto simp: single_dashes_def)

lemma single_dashes_sub: "single_dashes (sub_non_slug s)"
proof (induction s rule: sub_non_slug.induct)
  case 1
  then show ?case by (simp add: single_dashes_def)
next
  case (2 c s)
  then show ?case using sub_non_slug_tail[of s] by (auto simp: single_dashes_Cons)
qed

lemma single_dashes_raw: "single_dashes (raw_slug s)"
proof -
  have "prefix (raw_slug s) (lstrip_by ((=) dash) (sub_non_slug (lower (strip s))))"
    unfolding raw_slug_def Let_def strip_by_def
    by (auto intro: prefix_order.trans[OF prefix_rstrip_by] prefix_order.trans[OF take_is_prefix]
        prefix_rstrip_by)
  then show ?thesis
    using single_dashes_prefix single_dashes_dropWhile[OF single_dashes_sub]
    by (auto simp: lstrip_by_def)
qed

lemma sub_non_slug_fix: "single_dashes s \<Longrightarrow> \<forall>c \<in> set s. slug_char c \<or> c = dash \<Longrightarrow> sub_non_slug s = s"
proof (induction s rule: sub_non_slug.induct)
  case (2 c s)
  show ?case
  proof (cases "slug_char c")
    case False
    then have "c = dash" "s = [] \<or> slug_char (hd s)"
      using 2 by (cases s; auto simp: single_dashes_Cons)+
    then have "dropWhile (\<lambda>x. \<not> slug_char x) s = s" by (cases s) auto
    then show ?thesis using 2 \<open>c = dash\<close> by (simp add: single_dashes_Cons)
  qed (use 2 in \<open>simp add: single_dashes_Cons\<close>)
qed simp

lemma slug_char_lower: "slug_char c \<or> c = dash \<Longrightarrow> lower_char c = c \<and> \<not> is_space c"
  by (auto simp: slug_char_def is_lower_def is_digit_def is_space_def lower_char_def is_upper_def)

lemma strip_by_fix: "s = [] \<or> \<not> P (hd s) \<and> \<not> P (last s) \<Longrightarrow> strip_by P s = s"
  by (cases s) (auto simp: strip_by_def lstrip_by_def rstrip_by_fix)

lemma raw_slug_fix:
  assumes "single_dashes s" and "id_full s" and "length s \<le> SLUG_MAX_LEN"
  shows "raw_slug s = s"
proof -
  have c: "\<forall>c \<in> set s. slug_char c \<or> c = dash" and e: "slug_char (hd s)" "slug_char (last s)"
    using assms(2) by (auto simp: id_full_def)
  then have "hd s \<noteq> dash" "last s \<noteq> dash" by (metis slug_char_simps(1))+
  moreover have "strip s = s" using e slug_char_lower by (intro strip_by_fix) blast
  moreover have "lower s = s"
    unfolding lower_def using c slug_char_lower by (intro map_idI) blast
  ultimately show ?thesis
    using assms sub_non_slug_fix[OF assms(1) c] strip_by_fix[of s "(=) dash"]
    by (simp add: raw_slug_def)
qed

lemma displayname_slug_cases:
  "displayname_slug n f = [] \<or>
   (\<exists>s. displayname_slug n f = raw_slug s \<and> id_full (raw_slug s))"
proof -
  have "displayname_slug n f \<in> {x. x = [] \<or> (\<exists>s. x = raw_slug s \<and> raw_slug s \<noteq> [] \<and>
      is_valid_envelope_id (raw_slug s))}"
    unfolding displayname_slug_def Let_def mem_Collect_eq by (simp split: option.split) blast
  then show ?thesis using raw_slug_valid by fastforce
qed

lemma suffix_chars: "c \<in> set (arm_name_suffix a) \<Longrightarrow> slug_char c"
  by (auto simp: arm_name_suffix_def dest: in_set_takeD split: option.splits)

lemma suffix_length: "length (arm_name_suffix a) \<le> 8"
  by (simp add: arm_name_suffix_def split: option.splits)

lemma rstrip_by_nonempty: "s \<noteq> [] \<Longrightarrow> \<not> P (hd s) \<Longrightarrow> rstrip_by P s \<noteq> []"
  by (cases s) (auto simp: rstrip_by_def dropWhile_append)

lemma disambiguate_shape:
  assumes "id_full s" and "arm_name_suffix a \<noteq> []"
  obtains base where "disambiguate s a = base @ dash # arm_name_suffix a" and "base \<noteq> []"
    and "prefix base s" and "slug_char (last base)" and "length base \<le> 79 - length (arm_name_suffix a)"
proof -
  let ?n = "79 - length (arm_name_suffix a)"
  let ?b = "rstrip_by ((=) dash) (take ?n s)"
  have n: "0 < ?n" using suffix_length[of a] by linarith
  have s: "s \<noteq> []" "hd s \<noteq> dash" using assms(1) slug_char_simps by (auto simp: id_full_def)
  have p: "prefix ?b s" by (rule prefix_order.trans[OF prefix_rstrip_by take_is_prefix])
  have b: "?b \<noteq> []" using s n by (intro rstrip_by_nonempty) auto
  have "last ?b \<noteq> dash" using rstrip_by_last[OF b] by simp
  moreover have "last ?b \<in> set s" using last_in_set[OF b] set_mono_prefix[OF p] by blast
  ultimately have l: "slug_char (last ?b)" using assms(1) by (auto simp: id_full_def)
  have "length ?b \<le> ?n" using prefix_length_le[OF prefix_rstrip_by, of "(=) dash" "take ?n s"] by simp
  moreover have "disambiguate s a = ?b @ dash # arm_name_suffix a"
    using b n assms(2) suffix_length[of a]
    by (simp add: disambiguate_def Let_def SLUG_MAX_LEN_def nat_diff_distrib)
  ultimately show thesis using that b p l by blast
qed

section \<open>Properties\<close>

text \<open>
  A display name becomes either nothing or an id the envelope pattern accepts in full, of at
  most 80 characters, and slugging that id again gives the same id.
\<close>

theorem displayname_slug_valid:
  assumes "displayname_slug n f = s" and "s \<noteq> []"
  shows "id_full s \<and> is_valid_envelope_id s \<and> length s \<le> SLUG_MAX_LEN \<and>
    displayname_slug (Some s) g = s"
proof -
  obtain t where t: "s = raw_slug t" "id_full (raw_slug t)"
    using displayname_slug_cases[of n f] assms by auto
  have "raw_slug s = s"
    using raw_slug_fix[OF single_dashes_raw t(2) raw_slug_length] by (simp add: t)
  then show ?thesis
    using t assms(2) raw_slug_length[of t] by (simp add: is_valid_envelope_id_def displayname_slug_def)
qed

theorem displayname_slug_valid_witness:
  "displayname_slug (Some '' Brute  Force!'') None = ''brute-force'' \<and> id_full ''brute-force'' \<and>
   displayname_slug (Some ''brute-force'') (Some ''x'') = ''brute-force''"
proof -
  have "displayname_slug (Some '' Brute  Force!'') None = ''brute-force''" by code_simp
  with displayname_slug_valid[OF this, of "Some ''x''"] show ?thesis by simp
qed

text \<open>
  Disambiguating an id keeps it a valid id of at most 80 characters, and two ids disambiguated
  with different ARM suffixes never coincide.
\<close>

theorem disambiguate_separates:
  assumes "id_full s" and "id_full t" and "length s \<le> SLUG_MAX_LEN"
  shows "id_full (disambiguate s a) \<and> length (disambiguate s a) \<le> SLUG_MAX_LEN \<and>
    (arm_name_suffix a \<noteq> [] \<longrightarrow> arm_name_suffix b \<noteq> [] \<longrightarrow>
     arm_name_suffix a \<noteq> arm_name_suffix b \<longrightarrow> disambiguate s a \<noteq> disambiguate t b)"
proof (intro conjI impI)
  show "id_full (disambiguate s a)"
  proof (cases "arm_name_suffix a = []")
    case False
    then obtain base where "disambiguate s a = base @ dash # arm_name_suffix a" "base \<noteq> []"
      "prefix base s" by (rule disambiguate_shape[OF assms(1)])
    with False assms(1) suffix_chars[of _ a] hd_prefix[of base s] set_mono_prefix[of base s]
    show ?thesis by (cases base) (auto simp: id_full_def)
  qed (use assms(1) in \<open>simp add: disambiguate_def\<close>)
  show "length (disambiguate s a) \<le> SLUG_MAX_LEN"
  proof (cases "arm_name_suffix a = []")
    case False
    then obtain base where "disambiguate s a = base @ dash # arm_name_suffix a"
      "length base \<le> 79 - length (arm_name_suffix a)" by (rule disambiguate_shape[OF assms(1)])
    then show ?thesis using suffix_length[of a] by (simp add: SLUG_MAX_LEN_def)
  qed (use assms(3) in \<open>simp add: disambiguate_def\<close>)
  assume n: "arm_name_suffix a \<noteq> []" "arm_name_suffix b \<noteq> []" and d: "arm_name_suffix a \<noteq> arm_name_suffix b"
  obtain x where x: "disambiguate s a = x @ dash # arm_name_suffix a"
    by (rule disambiguate_shape[OF assms(1) n(1)])
  obtain y where y: "disambiguate t b = y @ dash # arm_name_suffix b"
    by (rule disambiguate_shape[OF assms(2) n(2)])
  have "takeWhile ((\<noteq>) dash) (rev (z @ dash # arm_name_suffix c)) = rev (arm_name_suffix c)" for z c
    using suffix_chars[of dash c] by (auto simp: takeWhile_append intro!: takeWhile_eq_all_conv[THEN iffD2])
  then show "disambiguate s a \<noteq> disambiguate t b"
    using d x y by (metis rev_rev_ident)
qed

theorem disambiguate_separates_witness:
  "id_full (disambiguate ''brute-force'' (Some ''1840B991-a12b'')) \<and>
   disambiguate ''brute-force'' (Some ''1840B991-a12b'') \<noteq> disambiguate ''brute-force'' (Some ''77'')"
proof -
  have "id_full ''brute-force''" "length ''brute-force'' \<le> SLUG_MAX_LEN" by code_simp+
  moreover have "arm_name_suffix (Some ''1840B991-a12b'') = ''1840b991''"
    "arm_name_suffix (Some ''77'') = ''77''" by code_simp+
  ultimately show ?thesis
    using disambiguate_separates[of "''brute-force''" "''brute-force''" "Some ''1840B991-a12b''" "Some ''77''"]
    by simp
qed

end
