(* ===== verification/Envelope.thy ===== *)
theory Envelope
  imports Assets Slug
begin

text \<open>
  The detection envelope: the metadata models and their validators
  (\<open>contentops/core/metadata.py\<close>), the authoring stages (\<open>core/lifecycle_stage.py\<close>), the status
  gate per environment (\<open>core/env_status.py\<close>) and \<open>parse_envelope\<close> (\<open>core/envelope.py\<close>). The field
  types are pydantic's: a \<open>str\<close> field takes a string, a list field a list of strings, a model with
  \<open>extra="forbid"\<close> no other key. Its coercion of a value to \<open>int\<close> is the parameter \<open>to_int\<close>.
\<close>

section \<open>Validators\<close>

definition starts_http :: "string \<Rightarrow> bool" where
  "starts_http v \<longleftrightarrow> startswith v ''http://'' \<or> startswith v ''https://''"

text \<open>A pattern closed by \<open>$\<close> under \<open>re.match\<close>: the whole text, or all of it but a final newline.\<close>

definition dollar :: "(string \<Rightarrow> bool) \<Rightarrow> string \<Rightarrow> bool" where
  "dollar P s \<longleftrightarrow> P s \<or> (s \<noteq> [] \<and> last s = NL \<and> P (butlast s))"

definition technique_full :: "string \<Rightarrow> bool" where
  "technique_full s \<longleftrightarrow> startswith s ''T'' \<and>
     (length s = 5 \<and> (\<forall>c \<in> set (drop 1 s). is_digit c) \<or>
      length s = 9 \<and> (\<forall>c \<in> set (take 4 (drop 1 s)). is_digit c) \<and> s ! 5 = CHR ''.'' \<and>
      (\<forall>c \<in> set (drop 6 s). is_digit c))"

definition technique_id :: "string \<Rightarrow> bool" where
  "technique_id = dollar technique_full"

text \<open>\<open>[^@\s]+@[^@\s]+\.[^@\s]+\<close>: exactly one \<open>@\<close>, with a dot inside what follows it.\<close>

definition email_full :: "string \<Rightarrow> bool" where
  "email_full s = (case split_on (CHR ''@'') s of
     [l, d] \<Rightarrow> l \<noteq> [] \<and> (\<forall>c \<in> set s. \<not> is_space c) \<and> CHR ''.'' \<in> set (butlast (drop 1 d))
   | _ \<Rightarrow> False)"

definition email_like :: "string \<Rightarrow> bool" where
  "email_like = dollar email_full"

definition d3fend_full :: "string \<Rightarrow> bool" where
  "d3fend_full s \<longleftrightarrow> startswith s ''D3-'' \<and> 3 < length s \<and>
     (\<forall>c \<in> set (drop 3 s). is_digit c \<or> (65 \<le> code c \<and> code c \<le> 90))"

definition d3fend_id :: "string \<Rightarrow> bool" where
  "d3fend_id = dollar d3fend_full"

definition TACTICS :: "string list" where
  "TACTICS = [''Reconnaissance'', ''ResourceDevelopment'', ''InitialAccess'', ''Execution'',
     ''Persistence'', ''PrivilegeEscalation'', ''DefenseEvasion'', ''CredentialAccess'',
     ''Discovery'', ''LateralMovement'', ''Collection'', ''CommandAndControl'', ''Exfiltration'',
     ''Impact'']"

definition SEVERITIES :: "string list" where
  "SEVERITIES = [''informational'', ''low'', ''medium'', ''high'']"

definition LIFECYCLE_STAGES :: "string list" where
  "LIFECYCLE_STAGES = [''concept'', ''research'', ''engineering'', ''delivery'', ''optimization'',
     ''feedback'']"

section \<open>Field types\<close>

definition str_field :: "pyval \<Rightarrow> string option" where
  "str_field v = (case v of PStr s \<Rightarrow> Some s | _ \<Rightarrow> None)"

fun str_list_field :: "pyval \<Rightarrow> string list option" where
  "str_list_field (PList xs) =
     (if \<forall>x \<in> set xs. str_field x \<noteq> None then Some (map (\<lambda>x. the (str_field x)) xs) else None)"
| "str_list_field _ = None"

text \<open>
  A field with a reader: \<open>required\<close> without default, \<open>optional\<close> of type \<open>X | None = None\<close>, and
  \<open>defaulted\<close> with a default for the missing key only.
\<close>

definition required :: "(pyval \<Rightarrow> 'a option) \<Rightarrow> pydict \<Rightarrow> string \<Rightarrow> 'a option" where
  "required rd d k = Option.bind (map_of d k) rd"

definition optional :: "(pyval \<Rightarrow> 'a option) \<Rightarrow> pydict \<Rightarrow> string \<Rightarrow> 'a option option" where
  "optional rd d k = (case map_of d k of
     None \<Rightarrow> Some None | Some PNone \<Rightarrow> Some None | Some v \<Rightarrow> map_option Some (rd v))"

definition defaulted :: "(pyval \<Rightarrow> 'a option) \<Rightarrow> 'a \<Rightarrow> pydict \<Rightarrow> string \<Rightarrow> 'a option" where
  "defaulted rd x d k = (case map_of d k of None \<Rightarrow> Some x | Some v \<Rightarrow> rd v)"

text \<open>A reader that also runs a validator of the field.\<close>

definition valid_with :: "('a \<Rightarrow> bool) \<Rightarrow> (pyval \<Rightarrow> 'a option) \<Rightarrow> pyval \<Rightarrow> 'a option" where
  "valid_with P rd v = (case rd v of Some x \<Rightarrow> (if P x then Some x else None) | None \<Rightarrow> None)"

section \<open>The metadata models\<close>

record metadata =
  owner :: string
  runbookUrl :: string
  techniques :: "string list"
  cohort :: "string option"
  lastValidatedAt :: "string option"
  meta_arm_name :: "string option"
  meta_description :: "string option"
  attackDescription :: "string option"
  references :: "string list"
  falsePositives :: "string list"
  blindSpots :: "string list"
  responseActions :: "string list"
  fpExpectedPerWeek :: "string option"
  defensiveTechniques :: "string list"
  severity :: "string option"
  tactics :: "string list"
  expectedAlertsPerDay :: "int option"
  fpHandling :: "string option"

definition METADATA_FIELDS :: "string list" where
  "METADATA_FIELDS = [''owner'', ''runbookUrl'', ''techniques'', ''cohort'', ''lastValidatedAt'',
     ''arm_name'', ''description'', ''attackDescription'', ''references'', ''falsePositives'',
     ''blindSpots'', ''responseActions'', ''fpExpectedPerWeek'', ''defensiveTechniques'',
     ''severity'', ''tactics'', ''expectedAlertsPerDay'', ''fpHandling'']"

definition forbid_extra :: "pydict \<Rightarrow> bool" where
  "forbid_extra d \<longleftrightarrow> (\<forall>k \<in> set (dkeys d). k \<in> set METADATA_FIELDS)"

definition nonblank :: "string \<Rightarrow> bool" where
  "nonblank v \<longleftrightarrow> strip v \<noteq> []"

text \<open>\<open>_MetadataCommon\<close>: the shared fields, with the four of the subclasses still at their defaults.\<close>

definition metadata_common :: "pydict \<Rightarrow> metadata option" where
  "metadata_common d =
    Option.bind (required (valid_with (\<lambda>v. v \<noteq> [] \<and> email_like v) str_field) d ''owner'') (\<lambda>ow.
    Option.bind (required (valid_with (\<lambda>v. v \<noteq> [] \<and> starts_http v) str_field) d ''runbookUrl'') (\<lambda>rb.
    Option.bind (defaulted (valid_with (list_all technique_id) str_list_field) [] d ''techniques'') (\<lambda>te.
    Option.bind (optional str_field d ''cohort'') (\<lambda>co.
    Option.bind (optional str_field d ''lastValidatedAt'') (\<lambda>lv.
    Option.bind (optional str_field d ''arm_name'') (\<lambda>an.
    Option.bind (optional str_field d ''description'') (\<lambda>de.
    Option.bind (optional str_field d ''attackDescription'') (\<lambda>ad.
    Option.bind (defaulted (valid_with (list_all starts_http) str_list_field) [] d ''references'') (\<lambda>rf.
    Option.bind (defaulted str_list_field [] d ''falsePositives'') (\<lambda>fp.
    Option.bind (defaulted str_list_field [] d ''blindSpots'') (\<lambda>bs.
    Option.bind (defaulted str_list_field [] d ''responseActions'') (\<lambda>ra.
    Option.bind (optional (valid_with (\<lambda>v. v \<in> {''low'', ''medium'', ''high''}) str_field) d
                   ''fpExpectedPerWeek'') (\<lambda>fw.
    Option.bind (defaulted (valid_with (list_all d3fend_id) str_list_field) [] d
                   ''defensiveTechniques'') (\<lambda>dt.
      Some \<lparr>owner = ow, runbookUrl = rb, techniques = te, cohort = co, lastValidatedAt = lv,
            meta_arm_name = an, meta_description = de, attackDescription = ad, references = rf,
            falsePositives = fp, blindSpots = bs, responseActions = ra, fpExpectedPerWeek = fw,
            defensiveTechniques = dt, severity = None, tactics = [], expectedAlertsPerDay = None,
            fpHandling = None\<rparr>))))))))))))))"

definition RuleMetadata :: "(pyval \<Rightarrow> int option) \<Rightarrow> pydict \<Rightarrow> metadata option" where
  "RuleMetadata to_int d =
    Option.bind (metadata_common d) (\<lambda>m.
    Option.bind (required (valid_with (\<lambda>v. v \<in> set SEVERITIES) str_field) d ''severity'') (\<lambda>se.
    Option.bind (required (valid_with (\<lambda>v. v \<noteq> [] \<and> list_all (\<lambda>t. t \<in> set TACTICS) v) str_list_field) d
                   ''tactics'') (\<lambda>ta.
    Option.bind (required (valid_with (\<lambda>n. 0 \<le> n) to_int) d ''expectedAlertsPerDay'') (\<lambda>ex.
    Option.bind (required (valid_with (\<lambda>v. v \<noteq> [] \<and> nonblank v) str_field) d ''fpHandling'') (\<lambda>fh.
      if forbid_extra d
      then Some (m\<lparr>severity := Some se, tactics := ta, expectedAlertsPerDay := Some ex,
                   fpHandling := Some fh\<rparr>) else None)))))"

definition SupportAssetMetadata :: "(pyval \<Rightarrow> int option) \<Rightarrow> pydict \<Rightarrow> metadata option" where
  "SupportAssetMetadata to_int d =
    Option.bind (metadata_common d) (\<lambda>m.
    Option.bind (optional (valid_with (\<lambda>v. v \<in> set SEVERITIES) str_field) d ''severity'') (\<lambda>se.
    Option.bind (defaulted (valid_with (list_all (\<lambda>t. t \<in> set TACTICS)) str_list_field) [] d
                   ''tactics'') (\<lambda>ta.
    Option.bind (optional (valid_with (\<lambda>n. 0 \<le> n) to_int) d ''expectedAlertsPerDay'') (\<lambda>ex.
    Option.bind (optional (valid_with nonblank str_field) d ''fpHandling'') (\<lambda>fh.
      if forbid_extra d
      then Some (m\<lparr>severity := se, tactics := ta, expectedAlertsPerDay := ex, fpHandling := fh\<rparr>)
      else None)))))"

section \<open>Parsing an envelope\<close>

record envelope =
  env_id :: string
  version :: string
  kind :: asset_kind
  env_status :: string
  env_metadata :: "metadata option"
  arm_name :: "string option"
  lifecycleStage :: "string option"

datatype envelope_error =
    NotMapping                      \<comment> \<open>\<open>ValueError\<close>: empty, a list or a scalar\<close>
  | NoAsset                         \<comment> \<open>\<open>ValueError\<close>: no \<open>asset\<close> key\<close>
  | UnknownAsset                    \<comment> \<open>\<open>ValueError\<close> of \<open>Asset(..)\<close>\<close>
  | MissingKey string               \<comment> \<open>\<open>KeyError\<close>\<close>
  | Invalid                         \<comment> \<open>pydantic's \<open>ValidationError\<close>\<close>
  | Unhashable                      \<comment> \<open>\<open>TypeError\<close>: the id of a loosely parsed envelope is a list or mapping\<close>

definition model_cls :: "asset_kind \<Rightarrow> (pyval \<Rightarrow> int option) \<Rightarrow> pydict \<Rightarrow> metadata option" where
  "model_cls a = (if a \<in> set NON_DETECTION_ASSETS then SupportAssetMetadata else RuleMetadata)"

definition full_keys :: "asset_kind \<Rightarrow> string list" where
  "full_keys a = (if a \<in> set NON_DETECTION_ASSETS then [''owner'', ''runbookUrl'']
     else [''owner'', ''runbookUrl'', ''severity'', ''tactics'', ''techniques'',
           ''expectedAlertsPerDay'', ''fpHandling''])"

text \<open>
  The metadata block: the parsed model if any, the raw \<open>arm_name\<close> handed to the envelope, and
  whether the loose fallback was taken.
\<close>

definition parse_metadata ::
  "(pyval \<Rightarrow> int option) \<Rightarrow> asset_kind \<Rightarrow> pydict \<Rightarrow>
   envelope_error + (metadata option \<times> pyval \<times> bool)" where
  "parse_metadata to_int a raw = (case dget raw ''metadata'' of
     PDict md \<Rightarrow>
       (if md = [] then Inr (None, PNone, False)
        else if \<forall>k \<in> set (full_keys a). map_of md k \<noteq> None
        then (case model_cls a to_int md of
                None \<Rightarrow> Inl Invalid
              | Some m \<Rightarrow> Inr (Some m, (case meta_arm_name m of None \<Rightarrow> PNone | Some s \<Rightarrow> PStr s), False))
        else if \<forall>k \<in> set (dkeys md). k = ''arm_name''
        then Inr (None, dget md ''arm_name'', False)
        else (case model_cls a to_int md of
                Some m \<Rightarrow> Inr (Some m, (case meta_arm_name m of None \<Rightarrow> PNone | Some s \<Rightarrow> PStr s), False)
              | None \<Rightarrow> (case dget raw ''id'' of
                    PList (x # xs) \<Rightarrow> Inl Unhashable
                  | PDict (x # xs) \<Rightarrow> Inl Unhashable
                  | _ \<Rightarrow> Inr (None, dget md ''arm_name'', True))))
   | _ \<Rightarrow> Inr (None, PNone, False))"

definition getitem :: "pydict \<Rightarrow> string \<Rightarrow> envelope_error + pyval" where
  "getitem d k = (case map_of d k of None \<Rightarrow> Inl (MissingKey k) | Some v \<Rightarrow> Inr v)"

definition EnvelopeV2 ::
  "pyval \<Rightarrow> pyval \<Rightarrow> asset_kind \<Rightarrow> pyval \<Rightarrow> metadata option \<Rightarrow> pyval \<Rightarrow> pyval \<Rightarrow>
   envelope_error + envelope" where
  "EnvelopeV2 i v a st md an lc =
    (case (valid_with id_full str_field i, str_field v, str_field st,
           optional str_field [(''arm_name'', an)] ''arm_name'',
           optional (valid_with (\<lambda>s. s \<in> set LIFECYCLE_STAGES) str_field)
             [(''lifecycleStage'', lc)] ''lifecycleStage'') of
       (Some i', Some v', Some st', Some an', Some lc') \<Rightarrow>
         Inr \<lparr>env_id = i', version = v', kind = a, env_status = st', env_metadata = md,
              arm_name = an', lifecycleStage = lc'\<rparr>
     | _ \<Rightarrow> Inl Invalid)"

text \<open>
  \<open>parse_envelope\<close>, with the tally of ids that fell back to the loose parse threaded through
  (\<open>_loose_parse_fallback_ids\<close>, in the order first seen; only truthy ids are recorded).
\<close>

definition record_loose_parse_fallback :: "pyval \<Rightarrow> pyval list \<Rightarrow> pyval list" where
  "record_loose_parse_fallback i tally =
    (if truthy i \<and> \<not> list_ex (py_eq i) tally then tally @ [i] else tally)"

definition parse_envelope ::
  "(pyval \<Rightarrow> int option) \<Rightarrow> pyval \<Rightarrow> pyval list \<Rightarrow>
   (envelope_error + (envelope \<times> pyval)) \<times> pyval list" where
  "parse_envelope to_int raw tally = (case raw of
     PDict d \<Rightarrow>
       (case map_of d ''asset'' of
          None \<Rightarrow> (Inl NoAsset, tally)
        | Some av \<Rightarrow>
            (case Option.bind (str_field av) asset_of of
               None \<Rightarrow> (Inl UnknownAsset, tally)
             | Some a \<Rightarrow>
                 (case parse_metadata to_int a d of
                    Inl e \<Rightarrow> (Inl e, tally)
                  | Inr (md, an, loose) \<Rightarrow>
                      (rbind (getitem d ''id'') (\<lambda>i. rbind (getitem d ''version'') (\<lambda>v.
                       rbind (getitem d ''status'') (\<lambda>st.
                       rbind (EnvelopeV2 i v a st md an (dget d ''lifecycleStage'')) (\<lambda>e.
                         Inr (e, dget_default d ''payload'' (PDict [])))))),
                       if loose then record_loose_parse_fallback (dget d ''id'') tally else tally))))
   | _ \<Rightarrow> (Inl NotMapping, tally))"

section \<open>Statuses per environment\<close>

datatype status = EXPERIMENTAL | TEST | PRODUCTION | DEPRECATED

fun status_value :: "status \<Rightarrow> string" where
  "status_value EXPERIMENTAL = ''experimental''"
| "status_value TEST = ''test''"
| "status_value PRODUCTION = ''production''"
| "status_value DEPRECATED = ''deprecated''"

definition allowed_statuses_for_env :: "string option \<Rightarrow> status list" where
  "allowed_statuses_for_env env_name =
    (let key = lower (strip (case env_name of None \<Rightarrow> [] | Some s \<Rightarrow> s)) in
     if key \<in> {''dev'', ''development'', ''sandbox'', ''local''}
     then [EXPERIMENTAL, TEST, PRODUCTION, DEPRECATED]
     else if key = ''test'' then [TEST, DEPRECATED]
     else if key \<in> {''integration'', ''staging'', ''stage''} then [TEST, PRODUCTION, DEPRECATED]
     else [PRODUCTION, DEPRECATED])"

section \<open>Lemmas\<close>

lemma valid_with_Some: "valid_with P rd v = Some x \<longleftrightarrow> rd v = Some x \<and> P x"
  by (auto simp: valid_with_def split: option.splits)

lemma str_field_Some [simp]: "str_field v = Some s \<longleftrightarrow> v = PStr s"
  by (auto simp: str_field_def split: pyval.splits)

lemma required_valid: "required (valid_with P rd) d k = Some x \<Longrightarrow> P x"
  by (auto simp: required_def valid_with_Some Option.bind_eq_Some_conv)

lemma defaulted_valid: "defaulted (valid_with (list_all P) rd) [] d k = Some x \<Longrightarrow> list_all P x"
  by (auto simp: defaulted_def valid_with_Some split: option.splits)

lemmas field_dests = required_valid defaulted_valid


text \<open>What every metadata block that parsed satisfies, and what detection metadata adds.\<close>

definition common_ok :: "metadata \<Rightarrow> bool" where
  "common_ok m \<longleftrightarrow> email_like (owner m) \<and> starts_http (runbookUrl m) \<and>
     list_all technique_id (techniques m) \<and> list_all starts_http (references m) \<and>
     list_all d3fend_id (defensiveTechniques m)"

definition detection_ok :: "metadata \<Rightarrow> bool" where
  "detection_ok m \<longleftrightarrow> (\<exists>s \<in> set SEVERITIES. severity m = Some s) \<and> tactics m \<noteq> [] \<and>
     set (tactics m) \<subseteq> set TACTICS \<and> (\<exists>n \<ge> 0. expectedAlertsPerDay m = Some n) \<and>
     (\<exists>h. fpHandling m = Some h \<and> strip h \<noteq> [])"

lemma metadata_common_ok: "metadata_common d = Some m \<Longrightarrow> common_ok m"
  unfolding metadata_common_def Option.bind_eq_Some_conv
  by (elim exE conjE) (auto simp: common_ok_def dest!: field_dests)

lemma common_ok_frame [simp]:
  "common_ok (m\<lparr>severity := a, tactics := b, expectedAlertsPerDay := c, fpHandling := e\<rparr>) = common_ok m"
  by (simp add: common_ok_def)

lemma RuleMetadata_ok: "RuleMetadata to_int d = Some m \<Longrightarrow> common_ok m \<and> detection_ok m"
  unfolding RuleMetadata_def Option.bind_eq_Some_conv
  by (elim exE conjE) (auto simp: detection_ok_def nonblank_def list_all_iff subset_iff
      dest!: metadata_common_ok required_valid split: if_splits)

lemma SupportAssetMetadata_ok: "SupportAssetMetadata to_int d = Some m \<Longrightarrow> common_ok m"
  unfolding SupportAssetMetadata_def Option.bind_eq_Some_conv
  by (elim exE conjE) (auto dest!: metadata_common_ok split: if_splits)

lemma model_cls_ok: "model_cls a to_int d = Some m \<Longrightarrow>
  common_ok m \<and> (a \<notin> set NON_DETECTION_ASSETS \<longrightarrow> detection_ok m)"
  using RuleMetadata_ok SupportAssetMetadata_ok by (auto simp: model_cls_def split: if_splits)

lemma optional_arm: "optional str_field [(k, v)] k = Some x \<longleftrightarrow>
  v = (case x of None \<Rightarrow> PNone | Some s \<Rightarrow> PStr s)"
  by (cases v; cases x) (auto simp: optional_def str_field_def)

lemma EnvelopeV2_Inr: "EnvelopeV2 i v a st md an lc = Inr e \<Longrightarrow>
  i = PStr (env_id e) \<and> id_full (env_id e) \<and> v = PStr (version e) \<and> kind e = a \<and>
  st = PStr (env_status e) \<and> env_metadata e = md \<and>
  an = (case arm_name e of None \<Rightarrow> PNone | Some s \<Rightarrow> PStr s)"
  by (auto simp: EnvelopeV2_def optional_arm valid_with_Some split: option.splits)

lemma parse_metadata_Inr: "parse_metadata to_int a raw = Inr (md, an, loose) \<Longrightarrow> md = Some m \<Longrightarrow>
  an = (case meta_arm_name m of None \<Rightarrow> PNone | Some s \<Rightarrow> PStr s) \<and> common_ok m \<and>
  (a \<notin> set NON_DETECTION_ASSETS \<longrightarrow> detection_ok m)"
  by (auto simp: parse_metadata_def dest: model_cls_ok split: pyval.splits if_splits option.splits list.splits)

lemma arm_val_inj: "(case x of None \<Rightarrow> PNone | Some s \<Rightarrow> PStr s) =
  (case y of None \<Rightarrow> PNone | Some s \<Rightarrow> PStr s) \<longleftrightarrow> x = y"
  by (simp split: option.splits)

section \<open>Properties\<close>

text \<open>
  C5. An envelope that parses has a full-match id and, when its metadata was kept, validated
  metadata of its kind: owner, runbook, techniques, references and defensive techniques pass
  their validators, a detection has severity, tactics, alert volume and guidance, and the
  envelope's ARM name is the metadata's.
\<close>

theorem parse_envelope_sound:
  assumes "parse_envelope to_int raw tally = (Inr (e, payload), tally')"
  shows "id_full (env_id e) \<and> (\<forall>m. env_metadata e = Some m \<longrightarrow> common_ok m \<and>
    (kind e \<notin> set NON_DETECTION_ASSETS \<longrightarrow> detection_ok m) \<and> arm_name e = meta_arm_name m)"
proof -
  obtain d a md an loose i v st where
    pm: "parse_metadata to_int a d = Inr (md, an, loose)"
    and ev: "EnvelopeV2 i v a st md an (dget d ''lifecycleStage'') = Inr e"
    using assms by (auto simp: parse_envelope_def rbind_Inr_iff
        split: pyval.splits option.splits sum.splits prod.splits)
  from EnvelopeV2_Inr[OF ev] have e: "id_full (env_id e)" "kind e = a" "env_metadata e = md"
    "an = (case arm_name e of None \<Rightarrow> PNone | Some s \<Rightarrow> PStr s)" by auto
  show ?thesis using e parse_metadata_Inr[OF pm] arm_val_inj by force
qed

definition demo_envelope_raw :: pyval where
  "demo_envelope_raw = PDict [(''id'', PStr ''brute-force''), (''version'', PStr ''1.0.0''),
     (''asset'', PStr ''sentinel_analytic''), (''status'', PStr ''test''),
     (''metadata'', PDict [(''owner'', PStr ''a@b.c''), (''runbookUrl'', PStr ''https://r''),
        (''severity'', PStr ''high''), (''tactics'', PList [PStr ''Impact'']),
        (''techniques'', PList [PStr ''T1059'']), (''expectedAlertsPerDay'', PInt 3),
        (''fpHandling'', PStr ''x''), (''arm_name'', PStr ''g'')]),
     (''payload'', PDict [])]"

theorem parse_envelope_sound_witness:
  "\<exists>e p t. parse_envelope num_of demo_envelope_raw [] = (Inr (e, p), t) \<and>
     env_metadata e \<noteq> None \<and> id_full (env_id e)"
proof -
  have "case fst (parse_envelope num_of demo_envelope_raw []) of
      Inl _ \<Rightarrow> False | Inr (e, p) \<Rightarrow> env_metadata e \<noteq> None" by code_simp
  then obtain e p t where "parse_envelope num_of demo_envelope_raw [] = (Inr (e, p), t)"
    "env_metadata e \<noteq> None"
    by (cases "parse_envelope num_of demo_envelope_raw []") (auto split: sum.splits prod.splits)
  with parse_envelope_sound[OF this(1)] show ?thesis by blast
qed

text \<open>
  Collected content always parses: a mapping with a known kind, a full-match id, a version, a
  status and no metadata but an ARM name gives an envelope with exactly these values, its payload,
  and no loose-parse record.
\<close>

theorem parse_collected_total:
  assumes "id_full i" and "payload \<noteq> PNone"
  shows "parse_envelope to_int (PDict [(''id'', PStr i), (''version'', PStr v),
      (''asset'', PStr (asset_value a)), (''status'', PStr st),
      (''metadata'', PDict [(''arm_name'', PStr n)]), (''payload'', payload)]) tally =
    (Inr (\<lparr>env_id = i, version = v, kind = a, env_status = st, env_metadata = None,
           arm_name = Some n, lifecycleStage = None\<rparr>, payload), tally)"
  using assms
  by (simp add: parse_envelope_def parse_metadata_def full_keys_def dget_def dget_default_def
      getitem_def EnvelopeV2_def valid_with_def str_field_def optional_def dkeys_def)

theorem parse_collected_total_witness:
  "\<exists>e. parse_envelope num_of (PDict [(''id'', PStr ''ab''), (''version'', PStr ''1.0.0''),
      (''asset'', PStr (asset_value SENTINEL_PARSER)), (''status'', PStr ''production''),
      (''metadata'', PDict [(''arm_name'', PStr ''g'')]), (''payload'', PDict [])]) [] =
    (Inr (e, PDict []), [])"
proof -
  have "id_full ''ab''" by code_simp
  from parse_collected_total[OF this, of "PDict []"] show ?thesis by blast
qed

text \<open>
  The status gate is fail-closed: \<open>experimental\<close> is let through only by a development
  environment, \<open>test\<close> only by a named lower environment, a dedicated test environment never takes
  \<open>production\<close>, an unknown or missing name takes what production takes, and \<open>deprecated\<close> passes
  everywhere.
\<close>

theorem env_gate_fail_closed:
  fixes env
  defines "key \<equiv> lower (strip (case env of None \<Rightarrow> [] | Some s \<Rightarrow> s))"
  defines "allowed \<equiv> allowed_statuses_for_env env"
  shows "(EXPERIMENTAL \<in> set allowed \<longleftrightarrow> key \<in> {''dev'', ''development'', ''sandbox'', ''local''}) \<and>
    (TEST \<in> set allowed \<longleftrightarrow> key \<in> {''dev'', ''development'', ''sandbox'', ''local'', ''test'',
       ''integration'', ''staging'', ''stage''}) \<and>
    (PRODUCTION \<in> set allowed \<longleftrightarrow> key \<noteq> ''test'') \<and> DEPRECATED \<in> set allowed"
  unfolding allowed_def allowed_statuses_for_env_def key_def[symmetric] Let_def by auto

end
