(* ===== verification/Discovery.thy ===== *)
theory Discovery
  imports Envelope Json
begin

text \<open>
  Finding and loading asset files, \<open>contentops/core/discovery.py\<close>. A repository is the list of
  its files below the detections directory, a path being the list of its parts. \<open>yaml.safe_load\<close>
  is the parameter \<open>yload\<close> (\<open>None\<close> is its \<open>YAMLError\<close>) and pydantic's \<open>int\<close> coercion \<open>to_int\<close>.
\<close>

type_synonym path = "string list"
type_synonym repo = "(path \<times> string) list"

record loaded_asset =
  la_path :: path
  la_envelope :: envelope
  la_payload :: pyval
  la_raw :: pyval

datatype load_error =
    BadEnvelope envelope_error
  | BadYaml
  | NoFile
  | BothDefinitions                 \<comment> \<open>\<open>definition\<close> and \<open>definitionFile\<close> together\<close>
  | SidecarName                     \<comment> \<open>not a bare \<open>*.workflow.json\<close> name\<close>
  | SidecarMissing
  | SidecarNotJson
  | SidecarNotObject

section \<open>Walking\<close>

definition is_skipped_path :: "path \<Rightarrow> bool" where
  "is_skipped_path p \<longleftrightarrow>
     (\<exists>seg \<in> set [''templates'', ''samples'']. seg \<in> set (map lower p)) \<or>
     (p \<noteq> [] \<and> lower (last p) \<in> {''dependencies.yml'', ''drift_suppressions.yml''})"

definition discover_assets :: "repo \<Rightarrow> path list" where
  "discover_assets files =
     filter (\<lambda>p. \<not> is_skipped_path p)
       (sort (filter (\<lambda>p. p \<noteq> [] \<and> endswith (last p) ''.yml'') (map fst files)))"

section \<open>Loading\<close>

definition sidecar_name_ok :: "string \<Rightarrow> bool" where
  "sidecar_name_ok name \<longleftrightarrow> CHR ''/'' \<notin> set name \<and> CHR 0x5C \<notin> set name \<and>
     name \<noteq> ''.'' \<and> name \<noteq> ''..'' \<and> endswith name ''.workflow.json''"

definition inline_playbook_sidecar :: "repo \<Rightarrow> path \<Rightarrow> pyval \<Rightarrow> load_error + pyval" where
  "inline_playbook_sidecar files p payload = (case payload of
     PDict d \<Rightarrow>
       (let sidecar = dget d ''definitionFile'' in
        if \<not> truthy sidecar then Inr payload
        else if map_of d ''definition'' \<noteq> None then Inl BothDefinitions
        else let name = py_str sidecar in
          if \<not> sidecar_name_ok name then Inl SidecarName
          else case map_of files (butlast p @ [name]) of
            None \<Rightarrow> Inl SidecarMissing
          | Some text \<Rightarrow>
              (case loads text of
                 None \<Rightarrow> Inl SidecarNotJson
               | Some (PDict def) \<Rightarrow>
                   Inr (PDict (dset ''definition'' (PDict def) (dpop ''definitionFile'' d)))
               | Some _ \<Rightarrow> Inl SidecarNotObject))
   | _ \<Rightarrow> Inr payload)"

text \<open>The payload is the same object as \<open>raw["payload"]\<close>, so inlining shows in both.\<close>

definition with_payload :: "pyval \<Rightarrow> pyval \<Rightarrow> pyval" where
  "with_payload raw payload = (case raw of
     PDict d \<Rightarrow> (if map_of d ''payload'' = None then raw else PDict (dset ''payload'' payload d))
   | _ \<Rightarrow> raw)"

definition load_asset ::
  "(string \<Rightarrow> pyval option) \<Rightarrow> (pyval \<Rightarrow> int option) \<Rightarrow> repo \<Rightarrow> path \<Rightarrow> load_error + loaded_asset" where
  "load_asset yload to_int files p = (case map_of files p of
     None \<Rightarrow> Inl NoFile
   | Some text \<Rightarrow>
       (case yload text of
          None \<Rightarrow> Inl BadYaml
        | Some raw \<Rightarrow>
            (case fst (parse_envelope to_int raw []) of
               Inl e \<Rightarrow> Inl (BadEnvelope e)
             | Inr (e, payload) \<Rightarrow>
                 rbind (if kind e = SENTINEL_PLAYBOOK then inline_playbook_sidecar files p payload
                        else Inr payload) (\<lambda>pl.
                 Inr \<lparr>la_path = p, la_envelope = e, la_payload = pl,
                      la_raw = with_payload raw pl\<rparr>))))"

text \<open>\<open>iter_loaded_assets\<close>: the assets that load, in path order, and the errors handed to \<open>on_error\<close>.\<close>

definition iter_loaded_assets ::
  "(string \<Rightarrow> pyval option) \<Rightarrow> (pyval \<Rightarrow> int option) \<Rightarrow> repo \<Rightarrow>
   loaded_asset list \<times> (path \<times> load_error) list" where
  "iter_loaded_assets yload to_int files =
    (let rs = map (\<lambda>p. (p, load_asset yload to_int files p)) (discover_assets files) in
     (concat (map (\<lambda>(p, r). case r of Inr l \<Rightarrow> [l] | Inl _ \<Rightarrow> []) rs),
      concat (map (\<lambda>(p, r). case r of Inl e \<Rightarrow> [(p, e)] | Inr _ \<Rightarrow> []) rs)))"

definition filter_by_asset :: "loaded_asset list \<Rightarrow> asset_kind \<Rightarrow> loaded_asset list" where
  "filter_by_asset loaded a = filter (\<lambda>l. kind (la_envelope l) = a) loaded"

section \<open>Lemmas\<close>

lemma load_asset_path: "load_asset yload to_int files p = Inr l \<Longrightarrow> la_path l = p"
  by (auto simp: load_asset_def rbind_Inr_iff split: option.splits sum.splits prod.splits)

lemma load_asset_envelope:
  assumes "load_asset yload to_int files p = Inr l"
  obtains contents raw where "map_of files p = Some contents" and "yload contents = Some raw"
    and "\<exists>payload t. parse_envelope to_int raw [] = (Inr (la_envelope l, payload), t)"
  using assms
  by (auto simp: load_asset_def rbind_Inr_iff split: option.splits sum.splits prod.splits)
     (metis prod.collapse)

lemma in_discover_assets: "p \<in> set (discover_assets files) \<longleftrightarrow>
  p \<in> fst ` set files \<and> p \<noteq> [] \<and> endswith (last p) ''.yml'' \<and> \<not> is_skipped_path p"
  by (auto simp: discover_assets_def)

lemma iter_loaded_assets_sound:
  "l \<in> set (fst (iter_loaded_assets yload to_int files)) \<Longrightarrow>
   la_path l \<in> set (discover_assets files) \<and> load_asset yload to_int files (la_path l) = Inr l"
  by (auto simp: iter_loaded_assets_def Let_def dest: load_asset_path[OF sym] split: sum.splits)

section \<open>A concrete asset, for the instances\<close>

definition demo_asset :: "asset_kind \<Rightarrow> string \<Rightarrow> string \<Rightarrow> pyval \<Rightarrow> loaded_asset" where
  "demo_asset k i st payload = \<lparr>la_path = [''detections'', i @ ''.yml''],
     la_envelope = \<lparr>env_id = i, version = ''1.0.0'', kind = k, env_status = st,
       env_metadata = None, arm_name = None, lifecycleStage = None\<rparr>,
     la_payload = payload, la_raw = PDict []\<rparr>"

section \<open>Properties\<close>

text \<open>
  Loading an envelope reads nothing outside its own directory: two repositories that agree on
  the files of that directory load it alike, and a sidecar that is read has a bare name.
\<close>

theorem load_asset_local:
  assumes "p \<noteq> []" and "\<forall>n. map_of files (butlast p @ [n]) = map_of files' (butlast p @ [n])"
  shows "load_asset yload to_int files p = load_asset yload to_int files' p"
proof -
  have "map_of files p = map_of files' p" using assms(2)[rule_format, of "last p"] assms(1) by simp
  moreover have "inline_playbook_sidecar files p = inline_playbook_sidecar files' p"
  proof
    fix v show "inline_playbook_sidecar files p v = inline_playbook_sidecar files' p v"
      using assms(2) by (cases v) (simp_all add: inline_playbook_sidecar_def Let_def)
  qed
  ultimately show ?thesis unfolding load_asset_def by (simp only:)
qed

theorem load_asset_local_witness:
  "load_asset (\<lambda>_. None) num_of [([''a'', ''b.yml''], ''x''), ([''c'', ''d.yml''], ''y'')] [''a'', ''b.yml''] =
   load_asset (\<lambda>_. None) num_of [([''a'', ''b.yml''], ''x'')] [''a'', ''b.yml'']"
  by (rule load_asset_local) simp_all

text \<open>
  Discovery loads each file at most once, in path order, and nothing but \<open>.yml\<close> files that are
  neither control files nor below a templates or samples directory; a file is reported as an
  error exactly when it does not load.
\<close>

theorem discovery_complete:
  assumes "distinct (map fst files)"
  shows "distinct (map la_path (fst (iter_loaded_assets yload to_int files))) \<and>
    sorted (map la_path (fst (iter_loaded_assets yload to_int files))) \<and>
    (\<forall>p. p \<in> set (map la_path (fst (iter_loaded_assets yload to_int files))) \<or>
         p \<in> set (map fst (snd (iter_loaded_assets yload to_int files))) \<longleftrightarrow>
      p \<in> fst ` set files \<and> p \<noteq> [] \<and> endswith (last p) ''.yml'' \<and> \<not> is_skipped_path p)"
proof -
  let ?ps = "discover_assets files"
  let ?ok = "\<lambda>p. case load_asset yload to_int files p of Inr _ \<Rightarrow> True | Inl _ \<Rightarrow> False"
  have "map la_path (concat (map (\<lambda>(p, r). case r of Inr l \<Rightarrow> [l] | Inl _ \<Rightarrow> [])
      (map (\<lambda>p. (p, load_asset yload to_int files p)) ps))) = filter ?ok ps" for ps
    by (induction ps) (auto dest: load_asset_path split: sum.splits)
  then have loaded: "map la_path (fst (iter_loaded_assets yload to_int files)) = filter ?ok ?ps"
    by (simp add: iter_loaded_assets_def Let_def)
  have "map fst (concat (map (\<lambda>(p, r). case r of Inl e \<Rightarrow> [(p, e)] | Inr _ \<Rightarrow> [])
      (map (\<lambda>p. (p, load_asset yload to_int files p)) ps))) = filter (\<lambda>p. \<not> ?ok p) ps" for ps
    by (induction ps) (auto split: sum.splits)
  then have failed: "map fst (snd (iter_loaded_assets yload to_int files)) = filter (\<lambda>p. \<not> ?ok p) ?ps"
    by (simp add: iter_loaded_assets_def Let_def)
  have "sorted ?ps" "distinct ?ps"
    using assms by (simp_all add: discover_assets_def sorted_filter[of id, simplified] distinct_map_filter)
  then show ?thesis
    unfolding loaded failed using in_discover_assets[of _ files]
    by (auto simp: sorted_filter[of id, simplified])
qed

theorem discovery_complete_witness:
  "sorted (map la_path (fst (iter_loaded_assets (\<lambda>_. None) num_of
     [([''b.yml''], ''x''), ([''a.yml''], ''y''), ([''templates'', ''c.yml''], ''z'')])))"
  using discovery_complete[of "[([''b.yml''], ''x''), ([''a.yml''], ''y''), ([''templates'', ''c.yml''], ''z'')]"]
  by simp

end
