(* ===== verification/Normalize.thy ===== *)
theory Normalize
  imports Json
begin

text \<open>
  Comparing payloads: \<open>_normalize\<close>, \<open>_payloads_match\<close>, \<open>_diff_walk\<close> and \<open>field_diff\<close> of
  \<open>contentops/core/drift.py\<close>, and the string representer of \<open>contentops/utils/yaml_io.py\<close> whose
  whitespace rules they mirror.
\<close>

section \<open>Strings\<close>

text \<open>\<open>s.replace("\r\n", "\n").replace("\r", "\n")\<close>\<close>

fun norm_newlines :: "string \<Rightarrow> string" where
  "norm_newlines [] = []"
| "norm_newlines [x] = (if x = CR then [NL] else [x])"
| "norm_newlines (x # y # s) =
     (if x = CR then NL # (if y = NL then norm_newlines s else norm_newlines (y # s))
      else x # norm_newlines (y # s))"

definition strip_lines :: "string \<Rightarrow> string" where
  "strip_lines s = rstrip_by ((=) NL) (join [NL] (map rstrip (split_on NL s)))"

definition normalize_str :: "string \<Rightarrow> string" where
  "normalize_str s = strip_lines (norm_newlines s)"

text \<open>The text \<open>_str_representer\<close> hands to the YAML emitter.\<close>

definition represent_str :: "string \<Rightarrow> string" where
  "represent_str s = (let t = norm_newlines s in
     if NL \<in> set t \<or> 80 < length t then strip_lines t else t)"

section \<open>Values\<close>

fun normalize_val :: "pyval \<Rightarrow> pyval" where
  "normalize_val (PDict d) = PDict (sort_key fst (map (\<lambda>p. (fst p, normalize_val (snd p))) d))"
| "normalize_val (PList xs) = PList (map normalize_val xs)"
| "normalize_val (PStr s) = PStr (normalize_str s)"
| "normalize_val v = v"

definition payloads_match :: "pyval \<Rightarrow> pyval \<Rightarrow> bool" where
  "payloads_match l r = py_eq (normalize_val l) (normalize_val r)"

section \<open>Field differences\<close>

datatype diff_kind = Added | Removed | Modified

record field_change =
  fc_key :: string
  fc_kind :: diff_kind
  local_repr :: string
  remote_repr :: string

definition short_repr :: "pyval \<Rightarrow> string" where
  "short_repr v = (let s = py_repr v in if 80 < length s then take 77 s @ ''...'' else s)"

definition sub_key :: "string \<Rightarrow> string \<Rightarrow> string" where
  "sub_key pre k = (if pre \<noteq> [] then pre @ ''.'' @ k else k)"

definition all_keys :: "pydict \<Rightarrow> pydict \<Rightarrow> string list" where
  "all_keys l r = sort (remdups (dkeys l @ dkeys r))"

lemma size_map_of: "map_of d k = Some v \<Longrightarrow> size v < size (PDict d)"
proof -
  assume "map_of d k = Some v"
  then have "(k, v) \<in> set d" by (rule map_of_SomeD)
  moreover have "size v \<le> size_prod (\<lambda>_. 0) size (k, v)" by simp
  ultimately have "size v \<le> size_list (size_prod (\<lambda>_. 0) size) d"
    by (meson size_list_estimation' le_refl order_trans)
  then show ?thesis by simp
qed

function diff_walk :: "pyval \<Rightarrow> pyval \<Rightarrow> string \<Rightarrow> field_change list" where
  "diff_walk l r pre =
    (if py_eq l r then []
     else case (l, r) of
       (PDict ld, PDict rd) \<Rightarrow>
         concat (map (\<lambda>k. case (map_of ld k, map_of rd k) of
             (None, Some y) \<Rightarrow> [\<lparr>fc_key = sub_key pre k, fc_kind = Added, local_repr = [],
                                remote_repr = short_repr y\<rparr>]
           | (Some x, None) \<Rightarrow> [\<lparr>fc_key = sub_key pre k, fc_kind = Removed,
                                local_repr = short_repr x, remote_repr = []\<rparr>]
           | (Some x, Some y) \<Rightarrow> diff_walk x y (sub_key pre k)
           | (None, None) \<Rightarrow> []) (all_keys ld rd))
     | _ \<Rightarrow> [\<lparr>fc_key = (if pre \<noteq> [] then pre else ''(root)''), fc_kind = Modified,
             local_repr = short_repr l, remote_repr = short_repr r\<rparr>])"
  by pat_completeness auto

termination
  by (relation "measure (\<lambda>(l, _, _). size l)") (auto dest: size_map_of[OF sym])

declare diff_walk.simps [simp del]

definition field_diff :: "pyval \<Rightarrow> pyval \<Rightarrow> field_change list" where
  "field_diff l r = diff_walk (normalize_val l) (normalize_val r) []"

section \<open>Lemmas on strings\<close>

lemma norm_newlines_no_CR: "CR \<notin> set (norm_newlines s)"
  by (induction s rule: norm_newlines.induct) auto

lemma norm_newlines_fix: "CR \<notin> set s \<Longrightarrow> norm_newlines s = s"
  by (induction s rule: norm_newlines.induct) auto

lemma norm_newlines_idem [simp]: "norm_newlines (norm_newlines s) = norm_newlines s"
  using norm_newlines_fix norm_newlines_no_CR by blast

lemma split_on_append: "split_on c (y @ c # t) = split_on c y @ split_on c t"
  by (induction y) (auto split: list.splits)

lemma lines_of_rstrip: "set (split_on c (rstrip_by ((=) c) s)) \<subseteq> set (split_on c s)"
proof (induction s rule: rev_induct)
  case (snoc x s)
  show ?case
  proof (cases "x = c")
    case True
    have "rstrip_by ((=) c) (s @ [c]) = rstrip_by ((=) c) s"
      by (rule rstrip_by_append_all) simp
    then show ?thesis using snoc split_on_append[of c s "[]"] by (auto simp: True)
  qed (simp add: rstrip_by_fix)
qed (simp add: rstrip_by_def)

lemma set_join: "set (join sep ws) \<subseteq> set sep \<union> \<Union> (set ` set ws)"
  by (induction sep ws rule: join.induct) auto

lemma set_split_on: "w \<in> set (split_on c s) \<Longrightarrow> set w \<subseteq> set s"
proof (induction s arbitrary: w)
  case (Cons x s)
  obtain v vs where v: "split_on c s = v # vs" by (cases "split_on c s") auto
  show ?case using Cons.prems Cons.IH[of w] Cons.IH[of v] by (auto simp: v split: if_splits)
qed simp

lemma strip_lines_chars: "set (strip_lines s) \<subseteq> insert NL (set s)"
proof -
  have "set w \<subseteq> set s" if "w \<in> set (map rstrip (split_on NL s))" for w
  proof -
    from that have "w \<in> rstrip ` set (split_on NL s)" by (simp only: set_map)
    then obtain v where v: "v \<in> set (split_on NL s)" "w = rstrip v" by (elim imageE) blast
    show ?thesis unfolding v(2) by (rule order_trans[OF set_rstrip_by set_split_on[OF v(1)]])
  qed
  then have "set (join [NL] (map rstrip (split_on NL s))) \<subseteq> insert NL (set s)"
    by (intro order_trans[OF set_join]) auto
  then show ?thesis unfolding strip_lines_def by (rule order_trans[OF set_rstrip_by])
qed

lemma strip_lines_idem [simp]: "strip_lines (strip_lines s) = strip_lines s"
proof -
  let ?ws = "map rstrip (split_on NL s)"
  have pieces: "\<forall>w \<in> set ?ws. NL \<notin> set w" using split_on_pieces set_rstrip_by by fastforce
  have "set (split_on NL (strip_lines s)) \<subseteq> set (split_on NL (join [NL] ?ws))"
    unfolding strip_lines_def by (rule lines_of_rstrip)
  also have "split_on NL (join [NL] ?ws) = ?ws" using pieces by (intro split_on_join) simp_all
  finally have "map rstrip (split_on NL (strip_lines s)) = split_on NL (strip_lines s)"
    by (intro map_idI) auto
  then have "strip_lines (strip_lines s) = rstrip_by ((=) NL) (strip_lines s)"
    unfolding strip_lines_def[of "strip_lines s"] by simp
  then show ?thesis by (simp add: strip_lines_def)
qed

lemma strip_lines_no_CR: "CR \<notin> set s \<Longrightarrow> CR \<notin> set (strip_lines s)"
  using strip_lines_chars by fastforce

lemma normalize_str_idem [simp]: "normalize_str (normalize_str s) = normalize_str s"
  by (simp add: normalize_str_def norm_newlines_fix strip_lines_no_CR norm_newlines_no_CR)

lemma normalize_represent_str [simp]: "normalize_str (represent_str s) = normalize_str s"
  by (simp add: normalize_str_def represent_str_def Let_def norm_newlines_fix strip_lines_no_CR
      norm_newlines_no_CR)

section \<open>Lemmas on values\<close>

lemma normalize_PDict: "normalize_val (PDict d) = PDict (map (\<lambda>p. (fst p, normalize_val (snd p))) (sort_key fst d))"
proof -
  have "sort_key fst (map (\<lambda>p. (fst p, f (snd p))) xs) = map (\<lambda>p. (fst p, f (snd p))) (sort_key fst xs)"
    for f :: "pyval \<Rightarrow> pyval" and xs :: pydict
  proof (induction xs)
    case (Cons x xs)
    have "insort_key fst (fst x, f (snd x)) (map (\<lambda>p. (fst p, f (snd p))) ys) =
        map (\<lambda>p. (fst p, f (snd p))) (insort_key fst x ys)" for ys :: pydict
      by (induction ys) auto
    then show ?case by (simp add: Cons)
  qed simp
  then show ?thesis by simp
qed

lemma wf_normalize: "wf_val v \<Longrightarrow> wf_val (normalize_val v)"
  by (induction v) (auto simp: list_all_iff comp_def)

lemma map_of_normalize: "distinct (map fst d) \<Longrightarrow>
  map_of (map (\<lambda>p. (fst p, normalize_val (snd p))) (sort_key fst d)) k = map_option normalize_val (map_of d k)"
  using map_of_map_snd[of normalize_val "sort_key fst d"] map_of_sort_key_fst[of d] by simp

lemma normalize_idem: "wf_val v \<Longrightarrow> normalize_val (normalize_val v) = normalize_val v"
proof (induction v)
  case (PDict d)
  then have "normalize_val (normalize_val (snd p)) = normalize_val (snd p)" if "p \<in> set d" for p
    using that by (cases p) (fastforce simp: list_all_iff)
  then have "map (\<lambda>p. (fst p, normalize_val (normalize_val (snd p)))) (sort_key fst d) =
      map (\<lambda>p. (fst p, normalize_val (snd p))) (sort_key fst d)" by simp
  moreover have "sorted (map fst (map (\<lambda>p. (fst p, normalize_val (snd p))) (sort_key fst d)))"
    by (simp add: comp_def)
  ultimately show ?case
    unfolding normalize_PDict by (simp add: sort_key_sorted_id comp_def)
qed (auto simp: list_all_iff)

lemma payloads_match_refl: "wf_val v \<Longrightarrow> payloads_match v v"
  by (simp add: payloads_match_def wf_normalize)

lemma payloads_match_sym: "wf_val v \<Longrightarrow> wf_val w \<Longrightarrow> payloads_match v w \<Longrightarrow> payloads_match w v"
  unfolding payloads_match_def by (rule py_eq_sym) (auto intro: wf_normalize)

lemma payloads_match_trans: "wf_val v \<Longrightarrow> wf_val w \<Longrightarrow> wf_val u \<Longrightarrow>
  payloads_match v w \<Longrightarrow> payloads_match w u \<Longrightarrow> payloads_match v u"
  unfolding payloads_match_def by (meson py_eq_trans wf_normalize)

lemma diff_walk_dicts:
  assumes ne: "\<not> py_eq (PDict ld) (PDict rd)" and nil: "diff_walk (PDict ld) (PDict rd) pre = []"
    and k: "k \<in> set (all_keys ld rd)"
  shows "\<exists>x y. map_of ld k = Some x \<and> map_of rd k = Some y \<and> diff_walk x y (sub_key pre k) = []"
proof -
  let ?f = "\<lambda>k. case (map_of ld k, map_of rd k) of
      (None, Some y) \<Rightarrow> [\<lparr>fc_key = sub_key pre k, fc_kind = Added, local_repr = [], remote_repr = short_repr y\<rparr>]
    | (Some x, None) \<Rightarrow> [\<lparr>fc_key = sub_key pre k, fc_kind = Removed, local_repr = short_repr x, remote_repr = []\<rparr>]
    | (Some x, Some y) \<Rightarrow> diff_walk x y (sub_key pre k)
    | (None, None) \<Rightarrow> []"
  have "diff_walk (PDict ld) (PDict rd) pre = concat (map ?f (all_keys ld rd))"
    by (subst diff_walk.simps) (simp only: ne if_False prod.case pyval.case)
  then have "?f k = []" using nil k by auto
  moreover have "map_of ld k \<noteq> None \<or> map_of rd k \<noteq> None"
    using k by (auto simp: all_keys_def set_dkeys)
  ultimately show ?thesis by (auto split: option.splits)
qed

lemma diff_walk_Nil_eq: "diff_walk l r pre = [] \<Longrightarrow> wf_val l \<Longrightarrow> wf_val r \<Longrightarrow> py_eq l r"
proof (induction l r pre rule: diff_walk.induct)
  case (1 l r pre)
  show ?case
  proof (cases "\<exists>ld rd. l = PDict ld \<and> r = PDict rd")
    case False
    then show ?thesis
      using "1.prems"(1) by (subst (asm) diff_walk.simps) (auto split: pyval.splits if_splits)
  next
    case True
    then obtain ld rd where lr: "l = PDict ld" "r = PDict rd" by blast
    show ?thesis
    proof (rule ccontr)
      assume ne: "\<not> py_eq l r"
      have d: "distinct (map fst ld)" "distinct (map fst rd)" using "1.prems" by (auto simp: lr)
      have keys: "set (all_keys ld rd) = dom (map_of ld) \<union> dom (map_of rd)"
        by (simp add: all_keys_def set_dkeys)
      note all = diff_walk_dicts[OF ne[unfolded lr] "1.prems"(1)[unfolded lr]]
      have "dom (map_of ld) = dom (map_of rd)"
        using all keys by force
      moreover have "py_eq x y" if "map_of ld k = Some x" "map_of rd k = Some y" for k x y
      proof -
        have k: "k \<in> set (all_keys ld rd)" using that keys by blast
        have "diff_walk x y (sub_key pre k) = []" using all[OF k] that by auto
        moreover have "wf_val x" "wf_val y"
          using "1.prems"(2,3) that unfolding lr by (blast intro: wf_val_map_of)+
        ultimately show ?thesis
          using "1.IH"[OF ne refl lr k refl that] by blast
      qed
      ultimately show False using ne unfolding lr py_eq_dict_iff[OF d] by blast
    qed
  qed
qed

section \<open>What the dumper stores\<close>

text \<open>
  The document as it reads back after \<open>dump_envelope_yaml\<close>: every string went through the
  representer. Keys go through it as well, and are unchanged when they are plain.
\<close>

fun represent :: "pyval \<Rightarrow> pyval" where
  "represent (PDict d) = PDict (map (\<lambda>p. (represent_str (fst p), represent (snd p))) d)"
| "represent (PList xs) = PList (map represent xs)"
| "represent (PStr s) = PStr (represent_str s)"
| "represent v = v"

fun plain_keys :: "pyval \<Rightarrow> bool" where
  "plain_keys (PDict d) = list_all (\<lambda>p. represent_str (fst p) = fst p \<and> plain_keys (snd p)) d"
| "plain_keys (PList xs) = list_all plain_keys xs"
| "plain_keys v = True"

lemma normalize_represent: "plain_keys v \<Longrightarrow> normalize_val (represent v) = normalize_val v"
proof (induction v)
  case (PDict d)
  then have "map (\<lambda>p. (fst p, normalize_val (snd p))) (map (\<lambda>p. (represent_str (fst p), represent (snd p))) d) =
      map (\<lambda>p. (fst p, normalize_val (snd p))) d"
    by (fastforce simp: list_all_iff)
  then show ?case by (simp only: represent.simps normalize_val.simps)
qed (auto simp: list_all_iff)

section \<open>Properties\<close>

text \<open>
  C9. The field-level diff is empty exactly when the drift engine takes the two payloads for equal,
  so a reported change always names a field and an in-sync payload never shows one.
\<close>

theorem field_diff_iff_match:
  assumes "wf_val l" and "wf_val r"
  shows "field_diff l r = [] \<longleftrightarrow> payloads_match l r"
proof
  show "field_diff l r = [] \<Longrightarrow> payloads_match l r"
    using diff_walk_Nil_eq wf_normalize assms unfolding field_diff_def payloads_match_def by blast
  show "payloads_match l r \<Longrightarrow> field_diff l r = []"
    unfolding field_diff_def payloads_match_def by (subst diff_walk.simps) simp
qed

theorem field_diff_iff_match_witness:
  "field_diff (PDict [(''q'', PStr ''a  ''), (''n'', PInt 1)]) (PDict [(''n'', PBool True), (''q'', PStr ''a'')]) = []"
proof -
  have "payloads_match (PDict [(''q'', PStr ''a  ''), (''n'', PInt 1)]) (PDict [(''n'', PBool True), (''q'', PStr ''a'')])"
    by code_simp
  then show ?thesis by (subst field_diff_iff_match) simp_all
qed

text \<open>
  A payload written with the block dumper and read back matches the payload collected, whatever
  trailing blanks, carriage returns and long lines it has; normalising is idempotent.
\<close>

theorem dumped_payload_matches:
  assumes "wf_val v" and "plain_keys v"
  shows "payloads_match (represent v) v \<and> payloads_match v (represent v) \<and>
    normalize_val (normalize_val v) = normalize_val v"
  using assms normalize_represent[of v] normalize_idem[of v] wf_normalize[of v]
  by (simp add: payloads_match_def)

theorem dumped_payload_matches_witness:
  "payloads_match (represent (PDict [(''q'', PStr (''a '' @ [NL] @ ''b''))])) (PDict [(''q'', PStr (''a '' @ [NL] @ ''b''))])"
proof -
  have "plain_keys (PDict [(''q'', PStr (''a '' @ [NL] @ ''b''))])" by code_simp
  with dumped_payload_matches[OF _ this] show ?thesis by simp
qed

end
