(* ===== verification/Drift.thy ===== *)
theory Drift
  imports Discovery Normalize
begin

text \<open>
  The drift engine, \<open>contentops/core/drift.py\<close>: the index of local files, the classification of
  remote assets, disambiguation of colliding ids and the write-back that keeps what belongs to the
  repository. Identifiers (\<open>id\<close>, \<open>name\<close>, \<open>arm_name\<close>, \<open>asset\<close>) are strings, as the envelope pattern,
  ARM and Graph give them; a handler is the pair of functions the engine calls. PyYAML is the
  parameters \<open>yload\<close> (\<open>safe_load\<close>, \<open>None\<close> when it raises) and \<open>ydump\<close> (\<open>dump_envelope_yaml\<close>).
\<close>

definition text_of :: "pyval \<Rightarrow> string" where
  "text_of v = (case v of PStr s \<Rightarrow> s | _ \<Rightarrow> [])"

section \<open>The index of local files\<close>

type_synonym local_index = "(string \<times> (path \<times> pyval)) list"

definition index_asset :: "loaded_asset \<Rightarrow> local_index \<Rightarrow> local_index" where
  "index_asset la out =
    (let entry = (la_path la, la_payload la);
         out = dset (env_id (la_envelope la)) entry out
     in case arm_name (la_envelope la) of
          Some n \<Rightarrow> (if n \<noteq> [] then dset n entry out else out)
        | None \<Rightarrow> out)"

text \<open>\<open>_local_index\<close>: files that do not load are skipped with a warning.\<close>

definition local_index ::
  "(string \<Rightarrow> pyval option) \<Rightarrow> (pyval \<Rightarrow> int option) \<Rightarrow> repo \<Rightarrow> asset_kind \<Rightarrow> local_index" where
  "local_index yload to_int files a =
    fold index_asset
      (filter (\<lambda>la. kind (la_envelope la) = a) (fst (iter_loaded_assets yload to_int files))) []"

section \<open>Colliding ids\<close>

definition collision_key :: "pydict \<Rightarrow> string \<times> string" where
  "collision_key e = (text_of (dget_default e ''asset'' (PStr [])),
                      text_of (dget_default e ''id'' (PStr [])))"

definition env_arm_name :: "pydict \<Rightarrow> string" where
  "env_arm_name e = (case dget e ''metadata'' of
     PDict md \<Rightarrow> (if truthy (dget md ''arm_name'') then py_str (dget md ''arm_name'') else [])
   | _ \<Rightarrow> [])"

definition disambiguated_id :: "pydict \<Rightarrow> string" where
  "disambiguated_id e = disambiguate (snd (collision_key e)) (Some (env_arm_name e))"

definition disambiguate_envelope_ids :: "pydict list \<Rightarrow> pydict list" where
  "disambiguate_envelope_ids envs =
    map (\<lambda>e. if 1 < count_list (map collision_key envs) (collision_key e)
             then dset ''id'' (PStr (disambiguated_id e)) e else e) envs"

section \<open>Detecting drift\<close>

datatype drift_kind = Drift_new | Drift_changed | Drift_in_sync | Drift_error

record drift_entry =
  de_asset :: asset_kind
  de_id :: string
  de_kind :: drift_kind
  de_envelope :: "pydict option"
  de_path :: "path option"
  de_error :: "string option"

record handler =
  h_asset :: asset_kind
  list_remote :: "string + pydict list"
  to_envelope :: "pydict \<Rightarrow> pydict option"

definition pair_key :: "pydict \<times> pydict \<Rightarrow> string \<times> string" where
  "pair_key p = (text_of (dget (fst p) ''id''), text_of (dget (snd p) ''name''))"

text \<open>The envelopes with their remotes, sorted, each with the id it will get.\<close>

definition drift_pairs :: "handler \<Rightarrow> pydict list \<Rightarrow> (pydict \<times> pydict \<times> string) list" where
  "drift_pairs h remotes =
    (let pairs = sort_key pair_key
           (concat (map (\<lambda>r. case to_envelope h r of None \<Rightarrow> [] | Some e \<Rightarrow> [(e, r)]) remotes));
         ids = map (\<lambda>e. text_of (dget e ''id'')) (disambiguate_envelope_ids (map fst pairs))
     in map (\<lambda>(p, i). (fst p, snd p, if i \<noteq> [] then i else text_of (dget (fst p) ''id'')))
          (zip pairs ids))"

definition remote_key :: "pydict \<Rightarrow> string" where
  "remote_key r = (if text_of (dget r ''name'') \<noteq> [] then text_of (dget r ''name'')
                   else text_of (dget r ''id''))"

definition find_local :: "local_index \<Rightarrow> pydict \<Rightarrow> string \<Rightarrow> (path \<times> pyval) option" where
  "find_local local r asset_id =
    (case (if remote_key r \<noteq> [] then map_of local (remote_key r) else None) of
       Some m \<Rightarrow> Some m
     | None \<Rightarrow> map_of local asset_id)"

definition classify_pair :: "asset_kind \<Rightarrow> local_index \<Rightarrow> pydict \<times> pydict \<times> string \<Rightarrow> drift_entry list" where
  "classify_pair a local = (\<lambda>(e, r, asset_id).
    if asset_id = [] then []
    else let e = dset ''id'' (PStr asset_id) e;
             payload = dget_default e ''payload'' (PDict []) in
      case find_local local r asset_id of
        None \<Rightarrow> [\<lparr>de_asset = a, de_id = asset_id, de_kind = Drift_new, de_envelope = Some e,
                 de_path = None, de_error = None\<rparr>]
      | Some (p, local_payload) \<Rightarrow>
          if payloads_match local_payload payload
          then [\<lparr>de_asset = a, de_id = asset_id, de_kind = Drift_in_sync, de_envelope = None,
                 de_path = Some p, de_error = None\<rparr>]
          else [\<lparr>de_asset = a, de_id = asset_id, de_kind = Drift_changed, de_envelope = Some e,
                 de_path = Some p, de_error = None\<rparr>])"

definition detect_one ::
  "(string \<Rightarrow> pyval option) \<Rightarrow> (pyval \<Rightarrow> int option) \<Rightarrow> repo \<Rightarrow> handler \<Rightarrow> drift_entry list" where
  "detect_one yload to_int files h =
    (let local = local_index yload to_int files (h_asset h) in
     case list_remote h of
       Inl msg \<Rightarrow> [\<lparr>de_asset = h_asset h, de_id = ''*'', de_kind = Drift_error, de_envelope = None,
                   de_path = None, de_error = Some msg\<rparr>]
     | Inr remotes \<Rightarrow> concat (map (classify_pair (h_asset h) local) (drift_pairs h remotes)))"

definition detect_drift ::
  "(string \<Rightarrow> pyval option) \<Rightarrow> (pyval \<Rightarrow> int option) \<Rightarrow> repo \<Rightarrow> handler list \<Rightarrow> drift_entry list" where
  "detect_drift yload to_int files handlers =
     concat (map (detect_one yload to_int files) handlers)"

definition entries_of :: "drift_kind \<Rightarrow> drift_entry list \<Rightarrow> drift_entry list" where
  "entries_of k report = filter (\<lambda>e. de_kind e = k) report"

definition has_drift :: "drift_entry list \<Rightarrow> bool" where
  "has_drift report \<longleftrightarrow> entries_of Drift_new report \<noteq> [] \<or> entries_of Drift_changed report \<noteq> []"

definition has_errors :: "drift_entry list \<Rightarrow> bool" where
  "has_errors report \<longleftrightarrow> entries_of Drift_error report \<noteq> []"

section \<open>Keeping what belongs to the repository\<close>

text \<open>The file as \<open>yaml.safe_load(local_path.read_text())\<close>; \<open>None\<close> when reading or parsing raises.\<close>

definition local_doc :: "(string \<Rightarrow> pyval option) \<Rightarrow> repo \<Rightarrow> path \<Rightarrow> pyval option" where
  "local_doc yload files p = Option.bind (map_of files p) yload"

definition preserve_local_metadata ::
  "(string \<Rightarrow> pyval option) \<Rightarrow> repo \<Rightarrow> path \<Rightarrow> pydict \<Rightarrow> pydict" where
  "preserve_local_metadata yload files p e = (case local_doc yload files p of
     Some (PDict d) \<Rightarrow>
       (case dget d ''metadata'' of
          PDict lm \<Rightarrow>
            (if lm = [] then e
             else dset ''metadata'' (PDict (case dget e ''metadata'' of
                    PDict rm \<Rightarrow> fold (\<lambda>(k, v). dset k v) rm lm | _ \<Rightarrow> lm)) e)
        | _ \<Rightarrow> e)
   | _ \<Rightarrow> e)"

definition preserve_local_id ::
  "(string \<Rightarrow> pyval option) \<Rightarrow> repo \<Rightarrow> path \<Rightarrow> pydict \<Rightarrow> pydict" where
  "preserve_local_id yload files p e = (case local_doc yload files p of
     Some (PDict d) \<Rightarrow> (if truthy (dget d ''id'') then dset ''id'' (dget d ''id'') e else e)
   | _ \<Rightarrow> e)"

definition body_without_version ::
  "(string \<Rightarrow> pyval option) \<Rightarrow> (pydict \<Rightarrow> string) \<Rightarrow> pydict \<Rightarrow> pydict" where
  "body_without_version yload ydump e =
    (case (case yload (ydump e) of None \<Rightarrow> PDict e | Some v \<Rightarrow> v) of
       PDict d \<Rightarrow> dpop ''version'' d | _ \<Rightarrow> [])"

text \<open>\<open>str.isdigit\<close> takes the three superscript digits of Latin-1, which \<open>int\<close> refuses.\<close>

definition py_isdigit :: "string \<Rightarrow> bool" where
  "py_isdigit s \<longleftrightarrow> s \<noteq> [] \<and> (\<forall>c \<in> set s. is_digit c \<or> code c \<in> {178, 179, 185})"

text \<open>\<open>_bump_patch\<close>; \<open>None\<close> is the \<open>ValueError\<close> of \<open>int\<close>.\<close>

definition bump_patch :: "pyval \<Rightarrow> pyval option" where
  "bump_patch v = (case split_on (CHR ''.'') (py_str v) of
     [a, b, c] \<Rightarrow>
       (if py_isdigit a \<and> py_isdigit b \<and> py_isdigit c
        then (if \<forall>x \<in> set c. is_digit x
              then Some (PStr (a @ ''.'' @ b @ ''.'' @ show_nat (Suc (digits_val c)))) else None)
        else Some v)
   | _ \<Rightarrow> Some v)"

definition preserve_local_version ::
  "(string \<Rightarrow> pyval option) \<Rightarrow> (pydict \<Rightarrow> string) \<Rightarrow> repo \<Rightarrow> path \<Rightarrow> pydict \<Rightarrow> pydict option" where
  "preserve_local_version yload ydump files p e = (case local_doc yload files p of
     Some (PDict d) \<Rightarrow>
       (let lv = dget d ''version'' in
        if truthy lv
        then (let e' = dset ''version'' lv e in
              if py_eq (PDict (body_without_version yload ydump e'))
                       (PDict (body_without_version yload ydump d))
              then Some e' else map_option (\<lambda>v. dset ''version'' v e') (bump_patch lv))
        else Some e)
   | _ \<Rightarrow> Some e)"

section \<open>Playbook sidecars\<close>

text \<open>\<open>json.dumps(.., indent=2, sort_keys=True, ensure_ascii=False)\<close>: as \<open>dumps_indent\<close> with only
  the escapes JSON requires.\<close>

definition esc_char_raw :: "char \<Rightarrow> string" where
  "esc_char_raw c = (if 127 \<le> code c then [c] else esc_char c)"

fun pretty_raw :: "nat \<Rightarrow> pyval \<Rightarrow> string" where
  "pretty_raw n (PList xs) =
     (if xs = [] then ''[]''
      else ''['' @ newline_indent (Suc n) @
           join (CHR '','' # newline_indent (Suc n)) (map (pretty_raw (Suc n)) xs) @
           newline_indent n @ '']'')"
| "pretty_raw n (PDict d) =
     (if d = [] then ''{}''
      else ''{'' @ newline_indent (Suc n) @
           join (CHR '','' # newline_indent (Suc n))
             (map (\<lambda>p. CHR 0x22 # concat (map esc_char_raw (fst p)) @ CHR 0x22 # '': '' @
                        pretty_raw (Suc n) (snd p)) d) @
           newline_indent n @ ''}'')"
| "pretty_raw n (PStr s) = CHR 0x22 # concat (map esc_char_raw s) @ [CHR 0x22]"
| "pretty_raw n v = dumps v"

definition sidecar_text :: "pydict \<Rightarrow> string" where
  "sidecar_text d = pretty_raw 0 (sort_keys (PDict d)) @ [NL]"

text \<open>\<open>split_sidecars\<close>; a payload that is neither falsy nor a mapping makes \<open>dict(..)\<close> raise.\<close>

definition split_sidecars :: "pydict \<Rightarrow> (pydict \<times> (string \<times> string) list) option" where
  "split_sidecars e =
    (let pv = dget e ''payload'' in
     case (if \<not> truthy pv then Some [] else case pv of PDict d \<Rightarrow> Some d | _ \<Rightarrow> None) of
       None \<Rightarrow> None
     | Some payload \<Rightarrow>
         (let rest = dpop ''definition'' payload in
          case dget payload ''definition'' of
            PDict def \<Rightarrow>
              (let name = (if truthy (dget rest ''definitionFile'') then py_str (dget rest ''definitionFile'')
                           else py_str (dget_default e ''id'' (PStr [])) @ ''.workflow.json'')
               in Some (dset ''payload'' (PDict (dset ''definitionFile'' (PStr name) rest)) e,
                        [(name, sidecar_text def)]))
          | _ \<Rightarrow> Some (dset ''payload'' (PDict rest) e, [])))"

definition split_sidecar_files :: "pydict \<Rightarrow> (pydict \<times> (string \<times> string) list) option" where
  "split_sidecar_files e =
    (if py_eq (dget e ''asset'') (PStr (asset_value SENTINEL_PLAYBOOK)) then split_sidecars e
     else Some (e, []))"

definition bump_for_changed_sidecars ::
  "(string \<Rightarrow> pyval option) \<Rightarrow> repo \<Rightarrow> path \<Rightarrow> (string \<times> string) list \<Rightarrow> pydict \<Rightarrow> pydict option" where
  "bump_for_changed_sidecars yload files p sidecars e =
    (if sidecars = [] then Some e
     else case local_doc yload files p of
       None \<Rightarrow> Some e
     | Some doc \<Rightarrow>
         (let lv = (case doc of PDict d \<Rightarrow> dget d ''version'' | _ \<Rightarrow> PNone) in
          if \<not> truthy lv \<or> \<not> py_eq (dget e ''version'') lv then Some e
          else if list_ex (\<lambda>(n, t). map_of files (butlast p @ [n]) \<noteq> Some t) sidecars
          then map_option (\<lambda>v. dset ''version'' v e) (bump_patch lv)
          else Some e))"

section \<open>Writing\<close>

definition write_sidecar ::
  "path \<Rightarrow> string \<times> string \<Rightarrow> repo \<times> path list \<Rightarrow> repo \<times> path list" where
  "write_sidecar dir s st =
    (let p = dir @ [fst s] in
     if map_of (fst st) p = Some (snd s) then st else (dset p (snd s) (fst st), snd st @ [p]))"

definition write_entry ::
  "(string \<Rightarrow> pyval option) \<Rightarrow> (pydict \<Rightarrow> string) \<Rightarrow> path \<Rightarrow> drift_entry \<Rightarrow>
   repo \<times> path list \<Rightarrow> (repo \<times> path list) option" where
  "write_entry yload ydump out_dir en st = (case de_envelope en of
     None \<Rightarrow> Some st
   | Some e0 \<Rightarrow>
       Option.bind (split_sidecar_files e0) (\<lambda>(e, sidecars).
       Option.bind (case de_path en of
           Some p \<Rightarrow>
             (let e = preserve_local_id yload (fst st) p
                        (preserve_local_metadata yload (fst st) p e) in
              map_option (Pair p)
                (Option.bind (preserve_local_version yload ydump (fst st) p e)
                  (bump_for_changed_sidecars yload (fst st) p sidecars)))
         | None \<Rightarrow> Some (out_dir @ [asset_value (de_asset en), de_id en @ ''.yml''], e))
       (\<lambda>(target, e).
         Some (fold (write_sidecar (butlast target)) sidecars
                (dset target (ydump e) (fst st), snd st @ [target])))))"

fun write_entries ::
  "(string \<Rightarrow> pyval option) \<Rightarrow> (pydict \<Rightarrow> string) \<Rightarrow> path \<Rightarrow> drift_entry list \<Rightarrow>
   repo \<times> path list \<Rightarrow> (repo \<times> path list) option" where
  "write_entries yload ydump out_dir [] st = Some st"
| "write_entries yload ydump out_dir (en # ens) st =
     Option.bind (write_entry yload ydump out_dir en st) (write_entries yload ydump out_dir ens)"

definition write_drift ::
  "(string \<Rightarrow> pyval option) \<Rightarrow> (pydict \<Rightarrow> string) \<Rightarrow> drift_entry list \<Rightarrow> path \<Rightarrow> repo \<Rightarrow>
   (repo \<times> path list) option" where
  "write_drift yload ydump report out_dir files =
     write_entries yload ydump out_dir
       (entries_of Drift_new report @ entries_of Drift_changed report) (files, [])"

section \<open>Lemmas\<close>

text \<open>What the index says of a key: a file of the kind that loads, under its id or ARM name.\<close>

definition indexed_as :: "loaded_asset \<Rightarrow> string \<Rightarrow> bool" where
  "indexed_as la k \<longleftrightarrow> k = env_id (la_envelope la) \<or> (k \<noteq> [] \<and> arm_name (la_envelope la) = Some k)"

lemma index_asset_lookup:
  "map_of (index_asset la out) k =
     (if indexed_as la k then Some (la_path la, la_payload la) else map_of out k)"
  by (auto simp: index_asset_def indexed_as_def Let_def split: option.splits)

lemma index_fold_lookup:
  "map_of (fold index_asset las out) k = Some x \<Longrightarrow>
   (\<exists>la \<in> set las. indexed_as la k \<and> x = (la_path la, la_payload la)) \<or> map_of out k = Some x"
  by (induction las arbitrary: out) (fastforce simp: index_asset_lookup split: if_splits)+

lemma index_fold_present:
  "(\<exists>la \<in> set las. indexed_as la k) \<or> map_of out k \<noteq> None \<Longrightarrow> map_of (fold index_asset las out) k \<noteq> None"
proof (induction las arbitrary: out)
  case (Cons la las)
  then show ?case using Cons.IH[of "index_asset la out"] by (auto simp: index_asset_lookup)
qed simp

lemma local_index_sound:
  assumes "map_of (local_index yload to_int files a) k = Some (p, pl)"
  obtains la where "load_asset yload to_int files p = Inr la" and "p \<in> set (discover_assets files)"
    and "kind (la_envelope la) = a" and "indexed_as la k" and "la_payload la = pl"
proof -
  from index_fold_lookup[OF assms[unfolded local_index_def]]
  obtain la where la: "la \<in> set (fst (iter_loaded_assets yload to_int files))" "kind (la_envelope la) = a"
    "indexed_as la k" "p = la_path la" "pl = la_payload la" by auto
  from iter_loaded_assets_sound[OF la(1)] la show thesis by (intro that[of la]) auto
qed

lemma local_index_complete:
  assumes "la \<in> set (fst (iter_loaded_assets yload to_int files))" and "indexed_as la k"
  shows "map_of (local_index yload to_int files (kind (la_envelope la))) k \<noteq> None"
  unfolding local_index_def using assms by (intro index_fold_present) auto

text \<open>One remote's verdict, and the verdicts of a handler.\<close>

definition in_sync_with :: "local_index \<Rightarrow> pydict \<times> pydict \<times> string \<Rightarrow> bool" where
  "in_sync_with local = (\<lambda>(e, r, i). \<exists>p lp. find_local local r i = Some (p, lp) \<and>
     payloads_match lp (dget_default e ''payload'' (PDict [])))"

lemma payload_of_renamed [simp]: "dget_default (dset ''id'' v e) ''payload'' d = dget_default e ''payload'' d"
  by (simp add: dget_default_def)

lemma classify_pair_kinds:
  "en \<in> set (classify_pair a local x) \<Longrightarrow>
     (de_kind en = Drift_in_sync \<longleftrightarrow> in_sync_with local x) \<and> de_kind en \<noteq> Drift_error"
  by (cases x) (auto simp: classify_pair_def in_sync_with_def Let_def split: if_splits option.splits)

lemma classify_pair_Nil: "classify_pair a local (e, r, i) = [] \<longleftrightarrow> i = []"
  by (auto simp: classify_pair_def Let_def split: option.splits)

lemma clean_report: "\<not> has_drift report \<and> \<not> has_errors report \<longleftrightarrow> (\<forall>en \<in> set report. de_kind en = Drift_in_sync)"
proof -
  have "k = Drift_in_sync \<longleftrightarrow> k \<noteq> Drift_new \<and> k \<noteq> Drift_changed \<and> k \<noteq> Drift_error" for k
    by (cases k) simp_all
  then show ?thesis
    unfolding has_drift_def has_errors_def entries_of_def filter_empty_conv by blast
qed

lemma detect_one_clean:
  "(\<forall>en \<in> set (detect_one yload to_int files h). de_kind en = Drift_in_sync) \<longleftrightarrow>
   (\<exists>remotes. list_remote h = Inr remotes \<and> (\<forall>(e, r, i) \<in> set (drift_pairs h remotes).
      i \<noteq> [] \<longrightarrow> in_sync_with (local_index yload to_int files (h_asset h)) (e, r, i)))"
proof (cases "list_remote h")
  case (Inr remotes)
  let ?l = "local_index yload to_int files (h_asset h)"
  have "(\<forall>en \<in> set (classify_pair (h_asset h) ?l x). de_kind en = Drift_in_sync) \<longleftrightarrow>
      (snd (snd x) \<noteq> [] \<longrightarrow> in_sync_with ?l x)" for x
    using classify_pair_kinds[of _ "h_asset h" ?l x] classify_pair_Nil[of "h_asset h" ?l "fst x" "fst (snd x)" "snd (snd x)"]
    by (cases "classify_pair (h_asset h) ?l x") auto
  then show ?thesis by (simp add: detect_one_def Let_def Inr case_prod_unfold ball_Un)
qed (simp add: detect_one_def Let_def)

section \<open>Write-back\<close>

lemma map_of_fold_dset: "map_of (fold (\<lambda>(k, v). dset k v) rm lm) = map_of lm ++ map_of (rev rm)"
  by (induction rm arbitrary: lm) (auto simp: map_add_def fun_eq_iff split: option.splits)

lemma dget_dset [simp]: "dget (dset k v d) k = v"
  by (simp add: dget_def)

lemma metadata_preserved:
  assumes "local_doc yload files p = Some (PDict d)" and "dget d ''metadata'' = PDict lm" and "lm \<noteq> []"
  shows "\<exists>md. dget (preserve_local_metadata yload files p e) ''metadata'' = PDict md \<and>
    (\<forall>k v. map_of lm k = Some v \<longrightarrow> map_of md k \<noteq> None \<and>
       ((\<forall>rm. dget e ''metadata'' = PDict rm \<longrightarrow> map_of rm k = None) \<longrightarrow> map_of md k = Some v))"
proof (cases "\<exists>rm. dget e ''metadata'' = PDict rm")
  case True
  then obtain rm where rm: "dget e ''metadata'' = PDict rm" by blast
  have m: "map_of (fold (\<lambda>(k, v). dset k v) rm lm) k = (case map_of (rev rm) k of None \<Rightarrow> map_of lm k | Some v \<Rightarrow> Some v)" for k
    by (simp add: map_of_fold_dset map_add_def)
  have "map_of rm k = None \<longleftrightarrow> map_of (rev rm) k = None" for k by (simp add: map_of_eq_None_iff)
  then have "map_of lm k = Some v \<longrightarrow> map_of (fold (\<lambda>(k, v). dset k v) rm lm) k \<noteq> None \<and>
      (map_of rm k = None \<longrightarrow> map_of (fold (\<lambda>(k, v). dset k v) rm lm) k = Some v)" for k v
    unfolding m by (simp split: option.split)
  moreover have "dget (preserve_local_metadata yload files p e) ''metadata'' =
      PDict (fold (\<lambda>(k, v). dset k v) rm lm)"
    using assms rm by (simp add: preserve_local_metadata_def)
  ultimately show ?thesis using rm by auto
next
  case False
  then have "(case dget e ''metadata'' of PDict rm \<Rightarrow> fold (\<lambda>(k, v). dset k v) rm lm | _ \<Rightarrow> lm) = lm"
    by (auto split: pyval.splits)
  then have "dget (preserve_local_metadata yload files p e) ''metadata'' = PDict lm"
    using assms by (simp add: preserve_local_metadata_def)
  then show ?thesis by simp
qed

lemma preserve_frame:
  "k \<noteq> ''metadata'' \<Longrightarrow> map_of (preserve_local_metadata yload files p e) k = map_of e k"
  "k \<noteq> ''id'' \<Longrightarrow> map_of (preserve_local_id yload files p e) k = map_of e k"
  "k \<noteq> ''version'' \<Longrightarrow> preserve_local_version yload ydump files p e = Some e' \<Longrightarrow> map_of e' k = map_of e k"
  "k \<noteq> ''version'' \<Longrightarrow> bump_for_changed_sidecars yload files p sc e = Some e' \<Longrightarrow> map_of e' k = map_of e k"
  by (auto simp: preserve_local_metadata_def preserve_local_id_def preserve_local_version_def
      bump_for_changed_sidecars_def Let_def split: option.splits pyval.splits if_splits)

lemma version_preserved:
  assumes "local_doc yload files p = Some (PDict d)" and "truthy (dget d ''version'')"
    and "preserve_local_version yload ydump files p e = Some e'"
  shows "dget e' ''version'' = dget d ''version'' \<or> bump_patch (dget d ''version'') = Some (dget e' ''version'')"
  using assms by (auto simp: preserve_local_version_def Let_def dget_def split: if_splits)

lemma sidecar_version:
  assumes "local_doc yload files p = Some (PDict d)" and "bump_for_changed_sidecars yload files p sc e = Some e'"
  shows "dget e' ''version'' = dget e ''version'' \<or>
    (py_eq (dget e ''version'') (dget d ''version'') \<and> bump_patch (dget d ''version'') = Some (dget e' ''version''))"
  using assms by (auto simp: bump_for_changed_sidecars_def Let_def dget_def split: if_splits)

section \<open>Colliding ids\<close>

lemma length_disambiguate_ids [simp]: "length (disambiguate_envelope_ids envs) = length envs"
  by (simp add: disambiguate_envelope_ids_def)

lemma count_two: "i < j \<Longrightarrow> j < length xs \<Longrightarrow> xs ! i = xs ! j \<Longrightarrow> 1 < count_list xs (xs ! i)"
proof (induction xs arbitrary: i j)
  case (Cons x xs)
  have "0 < count_list xs y" if "y \<in> set xs" for y using that by (metis count_list_0_iff gr0I)
  with Cons show ?case by (cases i; cases j) (fastforce simp: in_set_conv_nth)+
qed simp

lemma disambiguate_ids_nth:
  assumes "i < length envs"
  shows "disambiguate_envelope_ids envs ! i =
    (if 1 < count_list (map collision_key envs) (collision_key (envs ! i))
     then dset ''id'' (PStr (disambiguated_id (envs ! i))) (envs ! i) else envs ! i)"
  using assms by (simp add: disambiguate_envelope_ids_def)

section \<open>What a run of writes touches\<close>

text \<open>The paths an entry is written to: its file and its sidecars.\<close>

definition write_targets :: "path \<Rightarrow> drift_entry \<Rightarrow> path list" where
  "write_targets out_dir en = (case Option.bind (de_envelope en) split_sidecar_files of
     None \<Rightarrow> []
   | Some (e, sidecars) \<Rightarrow>
       (let t = (case de_path en of Some p \<Rightarrow> p | None \<Rightarrow> out_dir @ [asset_value (de_asset en), de_id en @ ''.yml''])
        in t # map (\<lambda>s. butlast t @ [fst s]) sidecars))"

lemma write_sidecars_frame:
  "q \<notin> (\<lambda>s. dir @ [fst s]) ` set ss \<Longrightarrow> map_of (fst (fold (write_sidecar dir) ss st)) q = map_of (fst st) q"
  by (induction ss arbitrary: st) (auto simp: write_sidecar_def Let_def)

lemma write_entry_untouched:
  assumes "write_entry yload ydump out_dir en st = Some st'" and "q \<notin> set (write_targets out_dir en)"
  shows "map_of (fst st') q = map_of (fst st) q"
proof (cases "de_envelope en")
  case (Some e0)
  obtain e ss where s: "split_sidecar_files e0 = Some (e, ss)"
    using assms(1) Some by (auto simp: write_entry_def bind_eq_Some_conv)
  define t where "t = (case de_path en of Some p \<Rightarrow> p | None \<Rightarrow> out_dir @ [asset_value (de_asset en), de_id en @ ''.yml''])"
  obtain e' where w: "st' = fold (write_sidecar (butlast t)) ss (dset t (ydump e') (fst st), snd st @ [t])"
    using assms(1) Some s unfolding t_def by (cases "de_path en") (auto simp: write_entry_def bind_eq_Some_conv Let_def)
  have q: "q \<noteq> t" "q \<notin> (\<lambda>s. butlast t @ [fst s]) ` set ss"
    using assms(2) Some s by (auto simp: write_targets_def t_def Let_def)
  show ?thesis unfolding w write_sidecars_frame[OF q(2)] using q(1) by simp
qed (use assms(1) in \<open>simp add: write_entry_def\<close>)

lemma write_entries_untouched:
  assumes "write_entries yload ydump out_dir ens st = Some st'" and "q \<notin> set (concat (map (write_targets out_dir) ens))"
  shows "map_of (fst st') q = map_of (fst st) q"
  using assms
  by (induction ens arbitrary: st) (auto simp: bind_eq_Some_conv dest: write_entry_untouched)

lemma write_entries_append:
  "write_entries yload ydump out_dir (xs @ ys) st =
     Option.bind (write_entries yload ydump out_dir xs st) (write_entries yload ydump out_dir ys)"
  by (induction xs arbitrary: st) (auto split: bind_split simp: Option.bind_assoc)

text \<open>One write of a path among the entries: the entry before and after which nothing touches it.\<close>

lemma written_once:
  assumes "write_entries yload ydump out_dir ens (files, ps) = Some (files', ps')" and "en \<in> set ens"
    and "p \<in> set (write_targets out_dir en)" and "count_list (concat (map (write_targets out_dir) ens)) p = 1"
  obtains st st' where "write_entry yload ydump out_dir en st = Some st'" "map_of (fst st) p = map_of files p"
    "map_of files' p = map_of (fst st') p" "count_list (write_targets out_dir en) p = 1"
proof -
  obtain xs ys where ens: "ens = xs @ en # ys" using assms(2) by (meson split_list)
  have c: "count_list (concat (map (write_targets out_dir) xs)) p + count_list (write_targets out_dir en) p +
      count_list (concat (map (write_targets out_dir) ys)) p = 1"
    using assms(4) by (simp add: ens)
  moreover have "count_list (write_targets out_dir en) p \<noteq> 0" using assms(3) by (simp add: count_list_0_iff)
  ultimately have z: "count_list (concat (map (write_targets out_dir) xs)) p = 0"
      "count_list (concat (map (write_targets out_dir) ys)) p = 0" "count_list (write_targets out_dir en) p = 1"
    by linarith+
  obtain st st' where w: "write_entries yload ydump out_dir xs (files, ps) = Some st"
      "write_entry yload ydump out_dir en st = Some st'" "write_entries yload ydump out_dir ys st' = Some (files', ps')"
    using assms(1) by (auto simp: ens write_entries_append bind_eq_Some_conv)
  show thesis
    by (rule that[OF w(2) _ _ z(3)])
      (use write_entries_untouched[OF w(1), of p] write_entries_untouched[OF w(3), of p] z(1,2) in
        \<open>simp_all add: count_list_0_iff\<close>)
qed

section \<open>The version line\<close>

text \<open>The next patch version: the first two numbers as they are, the third one more.\<close>

definition next_patch :: "pyval \<Rightarrow> pyval \<Rightarrow> bool" where
  "next_patch v v' \<longleftrightarrow> (\<exists>a b c. py_str v = a @ ''.'' @ b @ ''.'' @ c \<and> c \<noteq> [] \<and> (\<forall>x \<in> set c. is_digit x) \<and>
     v' = PStr (a @ ''.'' @ b @ ''.'' @ show_nat (Suc (digits_val c))))"

lemma bump_patch_next:
  assumes "bump_patch v = Some v'"
  shows "v' = v \<or> next_patch v v'"
proof (cases "v' = v")
  case False
  then obtain a b c where s: "split_on (CHR ''.'') (py_str v) = [a, b, c]" "py_isdigit c" "\<forall>x \<in> set c. is_digit x"
      "v' = PStr (a @ ''.'' @ b @ ''.'' @ show_nat (Suc (digits_val c)))"
    using assms by (auto simp: bump_patch_def split: list.splits if_splits)
  have "py_str v = a @ ''.'' @ b @ ''.'' @ c"
    using join_split_on[of "CHR ''.''" "py_str v"] s(1) by simp
  then show ?thesis using s by (auto simp: next_patch_def py_isdigit_def)
qed simp

text \<open>One written entry with a file on disk: what the file then holds.\<close>

lemma write_entry_back:
  assumes w: "write_entry yload ydump out_dir en st = Some st'" and en: "de_envelope en = Some e0" "de_path en = Some p"
    and split: "split_sidecar_files e0 = Some (e, ss)" and once: "count_list (write_targets out_dir en) p = 1"
    and doc: "local_doc yload (fst st) p = Some (PDict d)" "truthy (dget d ''id'')" "truthy (dget d ''version'')"
  shows "\<exists>e2. map_of (fst st') p = Some (ydump e2) \<and> dget e2 ''id'' = dget d ''id'' \<and>
    (dget e2 ''version'' = dget d ''version'' \<or> next_patch (dget d ''version'') (dget e2 ''version'')) \<and>
    dget e2 ''payload'' = dget e ''payload'' \<and>
    (\<forall>lm k v. dget d ''metadata'' = PDict lm \<longrightarrow> map_of lm k = Some v \<longrightarrow>
       (\<exists>md. dget e2 ''metadata'' = PDict md \<and> map_of md k \<noteq> None \<and>
          ((\<forall>rm. dget e ''metadata'' = PDict rm \<longrightarrow> map_of rm k = None) \<longrightarrow> map_of md k = Some v)))"
proof -
  let ?m = "preserve_local_metadata yload (fst st) p e"
  obtain e1 e2 where e: "preserve_local_version yload ydump (fst st) p (preserve_local_id yload (fst st) p ?m) = Some e1"
      "bump_for_changed_sidecars yload (fst st) p ss e1 = Some e2"
    and st': "st' = fold (write_sidecar (butlast p)) ss (dset p (ydump e2) (fst st), snd st @ [p])"
    using w en split by (auto simp: write_entry_def bind_eq_Some_conv Let_def)
  have "p \<notin> (\<lambda>s. butlast p @ [fst s]) ` set ss"
    using once en split by (force simp: write_targets_def Let_def count_list_0_iff image_iff)
  then have content: "map_of (fst st') p = Some (ydump e2)" unfolding st' by (subst write_sidecars_frame) auto
  have frame: "map_of e2 k = map_of (preserve_local_id yload (fst st) p ?m) k" if "k \<noteq> ''version''" for k
    using preserve_frame(3)[OF that e(1)] preserve_frame(4)[OF that e(2)] by simp
  have "dget e2 ''id'' = dget d ''id''"
    using frame[of "''id''"] doc(1,2) by (simp add: dget_def preserve_local_id_def)
  moreover have "dget e2 ''payload'' = dget e ''payload''"
    using frame[of "''payload''"] by (simp add: dget_def preserve_frame)
  moreover have "dget e2 ''version'' = dget d ''version'' \<or> next_patch (dget d ''version'') (dget e2 ''version'')"
    using version_preserved[OF doc(1,3) e(1)] sidecar_version[OF doc(1) e(2)] bump_patch_next by metis
  moreover have "\<exists>md. dget e2 ''metadata'' = PDict md \<and> map_of md k \<noteq> None \<and>
      ((\<forall>rm. dget e ''metadata'' = PDict rm \<longrightarrow> map_of rm k = None) \<longrightarrow> map_of md k = Some v)"
    if "dget d ''metadata'' = PDict lm" "map_of lm k = Some v" for lm k v
  proof -
    have "lm \<noteq> []" using that(2) by auto
    from metadata_preserved[OF doc(1) that(1) this, of e] that(2) show ?thesis
      using frame[of "''metadata''"] by (auto simp: dget_def preserve_frame)
  qed
  ultimately show ?thesis using content by blast
qed

section \<open>Instances\<close>

definition demo_files :: repo where
  "demo_files = [([''a.yml''], ''doc'')]"

definition demo_yload :: "string \<Rightarrow> pyval option" where
  "demo_yload t = Some (PDict [(''id'', PStr ''ab''), (''version'', PStr ''1.2.3''),
     (''asset'', PStr ''sentinel_parser''), (''status'', PStr ''test''),
     (''metadata'', PDict [(''arm_name'', PStr ''g1''), (''owner'', PStr ''me'')]),
     (''payload'', PDict [(''query'', PStr ''q'')])])"

definition demo_handler :: handler where
  "demo_handler = \<lparr>h_asset = SENTINEL_PARSER, list_remote = Inr [[(''name'', PStr ''g1'')]],
     to_envelope = (\<lambda>_. Some [(''id'', PStr ''zz''), (''payload'', PDict [(''query'', PStr ''q'')])])\<rparr>"

section \<open>Properties\<close>

text \<open>
  C10. A drift report is clean (no drift, no error) exactly when every handler's remote listing
  succeeded and every remote asset that translates to an envelope with an id has a local file
  whose payload matches: a listing failure is never reported as the absence of drift.
\<close>

theorem clean_report_exact:
  "\<not> has_drift (detect_drift yload to_int files hs) \<and> \<not> has_errors (detect_drift yload to_int files hs) \<longleftrightarrow>
   (\<forall>h \<in> set hs. \<exists>remotes. list_remote h = Inr remotes \<and>
      (\<forall>(e, r, i) \<in> set (drift_pairs h remotes). i \<noteq> [] \<longrightarrow>
         in_sync_with (local_index yload to_int files (h_asset h)) (e, r, i)))"
  unfolding clean_report using detect_one_clean[of yload to_int files]
  by (auto simp: detect_drift_def ball_Un)

theorem clean_report_exact_witness:
  "\<not> has_drift (detect_drift demo_yload num_of demo_files [demo_handler]) \<and>
   \<not> has_errors (detect_drift demo_yload num_of demo_files [demo_handler])"
proof -
  let ?e = "[(''id'', PStr ''zz''), (''payload'', PDict [(''query'', PStr ''q'')])]"
  let ?r = "[(''name'', PStr ''g1'')]"
  have "drift_pairs demo_handler [?r] = [(?e, ?r, ''zz'')]"
    "find_local (local_index demo_yload num_of demo_files SENTINEL_PARSER) ?r ''zz'' =
       Some ([''a.yml''], PDict [(''query'', PStr ''q'')])"
    "payloads_match (PDict [(''query'', PStr ''q'')]) (dget_default ?e ''payload'' (PDict []))"
    by code_simp+
  then have "\<forall>h \<in> set [demo_handler]. \<exists>remotes. list_remote h = Inr remotes \<and>
      (\<forall>(e, r, i) \<in> set (drift_pairs h remotes). i \<noteq> [] \<longrightarrow>
         in_sync_with (local_index demo_yload num_of demo_files (h_asset h)) (e, r, i))"
    by (auto simp: in_sync_with_def demo_handler_def[THEN arg_cong, of list_remote]
        demo_handler_def[THEN arg_cong, of h_asset])
  then show ?thesis unfolding clean_report_exact .
qed

text \<open>
  The local match drift compares with is a loaded file of the handler's kind that names the
  remote by its ARM name or id, and every such file is found under both keys.
\<close>

theorem local_match_sound:
  assumes "find_local (local_index yload to_int files a) r i = Some (p, pl)"
  shows "\<exists>la. load_asset yload to_int files p = Inr la \<and> kind (la_envelope la) = a \<and> la_payload la = pl \<and>
    (indexed_as la (remote_key r) \<or> indexed_as la i) \<and> \<not> is_skipped_path p"
proof -
  let ?l = "local_index yload to_int files a"
  from assms have "map_of ?l (remote_key r) = Some (p, pl) \<or> map_of ?l i = Some (p, pl)"
    by (auto simp: find_local_def split: if_splits option.splits)
  then show ?thesis by (auto elim!: local_index_sound simp: in_discover_assets)
qed

theorem local_match_sound_witness:
  "\<exists>p pl la. find_local (local_index demo_yload num_of demo_files SENTINEL_PARSER) [(''name'', PStr ''g1'')] ''zz'' = Some (p, pl) \<and>
     load_asset demo_yload num_of demo_files p = Inr la \<and> la_payload la = pl"
proof -
  have "find_local (local_index demo_yload num_of demo_files SENTINEL_PARSER) [(''name'', PStr ''g1'')] ''zz'' =
      Some ([''a.yml''], PDict [(''query'', PStr ''q'')])"
    by code_simp
  from local_match_sound[OF this] this show ?thesis by blast
qed

text \<open>A renamed rule with the collect baseline as its version, and the file it is written to.\<close>

definition renamed_entry :: drift_entry where
  "renamed_entry = \<lparr>de_asset = SENTINEL_PARSER, de_id = ''renamed'', de_kind = Drift_changed,
     de_envelope = Some [(''id'', PStr ''renamed''), (''version'', PStr ''1.0.0''), (''asset'', PStr ''sentinel_parser''),
       (''metadata'', PDict [(''arm_name'', PStr ''g1'')]), (''payload'', PDict [(''query'', PStr ''new'')])],
     de_path = Some [''a.yml''], de_error = None\<rparr>"

text \<open>
  C11. Writing drift back keeps what belongs to the repository. After \<open>write_drift\<close>, the file of a changed asset
  that the run writes once holds an envelope with the on-disk id, every authored metadata key (with its value
  unless the remote carries the key), the remote payload, and a version that is the on-disk one or the next patch
  of it, never the collect baseline; and no path is touched but the files and sidecars of the entries.
\<close>

theorem write_back_preserves:
  assumes "write_drift yload ydump report out_dir files = Some (files', written)"
    and "en \<in> set report" "de_kind en = Drift_changed" "de_path en = Some p" "de_envelope en = Some e0"
    and "split_sidecar_files e0 = Some (e, sidecars)"
    and "targets = concat (map (write_targets out_dir) (entries_of Drift_new report @ entries_of Drift_changed report))"
    and "count_list targets p = 1"
    and "local_doc yload files p = Some (PDict d)" "truthy (dget d ''id'')" "truthy (dget d ''version'')"
  shows "(\<exists>e2. map_of files' p = Some (ydump e2) \<and> dget e2 ''id'' = dget d ''id'' \<and>
    (dget e2 ''version'' = dget d ''version'' \<or> next_patch (dget d ''version'') (dget e2 ''version'')) \<and>
    dget e2 ''payload'' = dget e ''payload'' \<and>
    (\<forall>lm k v. dget d ''metadata'' = PDict lm \<longrightarrow> map_of lm k = Some v \<longrightarrow>
       (\<exists>md. dget e2 ''metadata'' = PDict md \<and> map_of md k \<noteq> None \<and>
          ((\<forall>rm. dget e ''metadata'' = PDict rm \<longrightarrow> map_of rm k = None) \<longrightarrow> map_of md k = Some v)))) \<and>
    (\<forall>q. q \<notin> set targets \<longrightarrow> map_of files' q = map_of files q)"
proof
  let ?ens = "entries_of Drift_new report @ entries_of Drift_changed report"
  have w: "write_entries yload ydump out_dir ?ens (files, []) = Some (files', written)"
    using assms(1) by (simp add: write_drift_def)
  have "p \<in> set (write_targets out_dir en)" using assms(4-6) by (simp add: write_targets_def Let_def)
  moreover have "en \<in> set ?ens" using assms(2,3) by (simp add: entries_of_def)
  ultimately obtain st st' where o: "write_entry yload ydump out_dir en st = Some st'" "map_of (fst st) p = map_of files p"
      "map_of files' p = map_of (fst st') p" "count_list (write_targets out_dir en) p = 1"
    using written_once[OF w] assms(7,8) by metis
  have "local_doc yload (fst st) p = Some (PDict d)" using assms(9) o(2) by (simp add: local_doc_def)
  from write_entry_back[OF o(1) assms(5,4,6) o(4) this assms(10,11)]
  show "\<exists>e2. map_of files' p = Some (ydump e2) \<and> dget e2 ''id'' = dget d ''id'' \<and>
    (dget e2 ''version'' = dget d ''version'' \<or> next_patch (dget d ''version'') (dget e2 ''version'')) \<and>
    dget e2 ''payload'' = dget e ''payload'' \<and>
    (\<forall>lm k v. dget d ''metadata'' = PDict lm \<longrightarrow> map_of lm k = Some v \<longrightarrow>
       (\<exists>md. dget e2 ''metadata'' = PDict md \<and> map_of md k \<noteq> None \<and>
          ((\<forall>rm. dget e ''metadata'' = PDict rm \<longrightarrow> map_of rm k = None) \<longrightarrow> map_of md k = Some v)))"
    unfolding o(3) .
  show "\<forall>q. q \<notin> set targets \<longrightarrow> map_of files' q = map_of files q"
    using write_entries_untouched[OF w] assms(7) by auto
qed

theorem write_back_preserves_witness:
  "\<exists>files' written e2. write_drift demo_yload (\<lambda>e. dumps (PDict e)) [renamed_entry] [] demo_files = Some (files', written) \<and>
     map_of files' [''a.yml''] = Some (dumps (PDict e2)) \<and> dget e2 ''id'' = PStr ''ab'' \<and>
     dget e2 ''payload'' = PDict [(''query'', PStr ''new'')] \<and> dget e2 ''version'' \<noteq> PStr ''1.0.0''"
proof -
  let ?d = "[(''id'', PStr ''ab''), (''version'', PStr ''1.2.3''), (''asset'', PStr ''sentinel_parser''),
     (''status'', PStr ''test''), (''metadata'', PDict [(''arm_name'', PStr ''g1''), (''owner'', PStr ''me'')]),
     (''payload'', PDict [(''query'', PStr ''q'')])]"
  let ?dump = "\<lambda>e. dumps (PDict e)"
  have d: "local_doc demo_yload demo_files [''a.yml''] = Some (PDict ?d)"
    by (simp add: local_doc_def demo_files_def demo_yload_def)
  have t: "truthy (dget ?d ''id'')" "truthy (dget ?d ''version'')" by (simp_all add: dget_def)
  have e0: "de_envelope renamed_entry = Some (the (de_envelope renamed_entry))" "de_path renamed_entry = Some [''a.yml'']"
      "de_kind renamed_entry = Drift_changed" "renamed_entry \<in> set [renamed_entry]"
    by (simp_all add: renamed_entry_def)
  have s: "split_sidecar_files (the (de_envelope renamed_entry)) = Some (the (de_envelope renamed_entry), [])" by code_simp
  have one: "count_list (concat (map (write_targets []) (entries_of Drift_new [renamed_entry] @
      entries_of Drift_changed [renamed_entry]))) [''a.yml''] = 1" by code_simp
  have "write_drift demo_yload ?dump [renamed_entry] [] demo_files \<noteq> None" by code_simp
  then obtain files' written where w: "write_drift demo_yload ?dump [renamed_entry] [] demo_files = Some (files', written)" by auto
  from write_back_preserves[OF w e0(4,3,2,1) s refl one d t, THEN conjunct1] obtain e2 where
    e2: "map_of files' [''a.yml''] = Some (?dump e2)" "dget e2 ''id'' = dget ?d ''id''"
      "dget e2 ''version'' = dget ?d ''version'' \<or> next_patch (dget ?d ''version'') (dget e2 ''version'')"
      "dget e2 ''payload'' = dget (the (de_envelope renamed_entry)) ''payload''" by blast
  have "\<not> next_patch (PStr ''1.2.3'') (PStr ''1.0.0'')"
  proof
    assume "next_patch (PStr ''1.2.3'') (PStr ''1.0.0'')"
    then obtain a b c where "''1.2.3'' = a @ ''.'' @ b @ ''.'' @ c" "''1.0.0'' = a @ ''.'' @ b @ ''.'' @ show_nat (Suc (digits_val c))"
      by (auto simp: next_patch_def py_str_def)
    then show False by (auto simp: Cons_eq_append_conv)
  qed
  then have "dget e2 ''version'' \<noteq> PStr ''1.0.0''" using e2(3) by (auto simp: dget_def)
  moreover have "dget (the (de_envelope renamed_entry)) ''payload'' = PDict [(''query'', PStr ''new'')]"
    by (simp add: renamed_entry_def dget_def)
  ultimately show ?thesis using w e2 by (auto simp: dget_def)
qed

text \<open>
  Two envelopes that collide on kind and id leave disambiguation with different ids whenever
  their ARM names give different suffixes, and an envelope that collides with none is untouched.
\<close>

theorem disambiguate_ids_separate:
  assumes "i < j" and "j < length envs" and "collision_key (envs ! i) = collision_key (envs ! j)"
    and "id_full (snd (collision_key (envs ! i)))" and "length (snd (collision_key (envs ! i))) \<le> SLUG_MAX_LEN"
    and "arm_name_suffix (Some (env_arm_name (envs ! i))) \<noteq> []"
    and "arm_name_suffix (Some (env_arm_name (envs ! j))) \<noteq> []"
    and "arm_name_suffix (Some (env_arm_name (envs ! i))) \<noteq> arm_name_suffix (Some (env_arm_name (envs ! j)))"
  shows "dget (disambiguate_envelope_ids envs ! i) ''id'' \<noteq> dget (disambiguate_envelope_ids envs ! j) ''id'' \<and>
    (\<forall>k < length envs. count_list (map collision_key envs) (collision_key (envs ! k)) = 1 \<longrightarrow>
       disambiguate_envelope_ids envs ! k = envs ! k)"
proof -
  have c: "1 < count_list (map collision_key envs) (collision_key (envs ! i))"
    using count_two[of i j "map collision_key envs"] assms(1-3) by simp
  have "disambiguated_id (envs ! i) \<noteq> disambiguated_id (envs ! j)"
    using disambiguate_separates[OF assms(4,4,5)] assms(3,6-8) by (simp add: disambiguated_id_def)
  then show ?thesis
    using disambiguate_ids_nth[of _ envs] c assms(1-3) by simp
qed

theorem disambiguate_ids_separate_witness:
  "let envs = [[(''asset'', PStr ''a''), (''id'', PStr ''test''), (''metadata'', PDict [(''arm_name'', PStr ''11'')])],
               [(''asset'', PStr ''a''), (''id'', PStr ''test''), (''metadata'', PDict [(''arm_name'', PStr ''22'')])]]
   in dget (disambiguate_envelope_ids envs ! 0) ''id'' \<noteq> dget (disambiguate_envelope_ids envs ! 1) ''id''"
proof -
  let ?envs = "[[(''asset'', PStr ''a''), (''id'', PStr ''test''), (''metadata'', PDict [(''arm_name'', PStr ''11'')])],
               [(''asset'', PStr ''a''), (''id'', PStr ''test''), (''metadata'', PDict [(''arm_name'', PStr ''22'')])]]"
  have "id_full ''test''" "length ''test'' \<le> SLUG_MAX_LEN" "arm_name_suffix (Some ''11'') = ''11''"
    "arm_name_suffix (Some ''22'') = ''22''" by code_simp+
  then show ?thesis
    using disambiguate_ids_separate[of 0 1 ?envs, THEN conjunct1]
    unfolding Let_def
    by (simp add: collision_key_def env_arm_name_def dget_def dget_default_def text_of_def py_str_def)
qed

text \<open>Disambiguation is not idempotent when two remotes share their suffix as well.\<close>

lemma disambiguate_ids_not_idempotent:
  "let e = [(''asset'', PStr ''a''), (''id'', PStr ''test''), (''metadata'', PDict [(''arm_name'', PStr ''11'')])];
       once = disambiguate_envelope_ids [e, e]
   in disambiguate_envelope_ids once \<noteq> once"
  by code_simp

end
