(* ===== verification/Snippets.thy ===== *)
theory Snippets
  imports Discovery Normalize
begin

text \<open>
  Snippet substitution, \<open>contentops/snippets/loader.py\<close> and \<open>contentops/snippets/apply.py\<close>: the
  three-tier lookup of a placeholder below the overrides directory, the line rewriting and
  \<open>apply_snippets\<close>. Files are given by absolute path, a path being the list of its parts, with no
  symbolic links; \<open>yload\<close> is \<open>yaml.safe_load\<close>. The process-wide cache of file contents is not
  visible while the files do not change.
\<close>

section \<open>Paths\<close>

text \<open>The segments of a POSIX path text, \<open>.\<close> and empty ones dropped as \<open>pathlib\<close> does.\<close>

definition path_segments :: "string \<Rightarrow> path" where
  "path_segments s = filter (\<lambda>p. p \<noteq> [] \<and> p \<noteq> ''.'') (split_on (CHR ''/'') s)"

text \<open>\<open>base / s\<close>: an absolute text replaces the base.\<close>

definition path_join :: "path \<Rightarrow> string \<Rightarrow> path" where
  "path_join base s = (if startswith s ''/'' then path_segments s else base @ path_segments s)"

text \<open>\<open>resolve()\<close>: \<open>..\<close> removes the segment before it, and nothing at the root.\<close>

fun resolve_onto :: "path \<Rightarrow> path \<Rightarrow> path" where
  "resolve_onto acc [] = acc"
| "resolve_onto acc (p # ps) = resolve_onto (if p = ''..'' then butlast acc else acc @ [p]) ps"

definition resolve_path :: "path \<Rightarrow> path" where
  "resolve_path p = resolve_onto [] p"

section \<open>Loading a snippet\<close>

datatype snippet_error =
    Escapes_root
  | Not_yaml
  | Not_a_mapping
  | No_content
  | Content_not_text

definition read_snippet :: "(string \<Rightarrow> pyval option) \<Rightarrow> string \<Rightarrow> snippet_error + string" where
  "read_snippet yload raw = (case yload raw of
     None \<Rightarrow> Inl Not_yaml
   | Some (PDict d) \<Rightarrow>
       (case map_of d ''content'' of
          None \<Rightarrow> Inl No_content
        | Some (PStr s) \<Rightarrow> Inr (norm_newlines s)
        | Some _ \<Rightarrow> Inl Content_not_text)
   | Some _ \<Rightarrow> Inl Not_a_mapping)"

definition under_root :: "path \<Rightarrow> path \<Rightarrow> bool" where
  "under_root candidate root = prefix root (resolve_path candidate)"

text \<open>
  \<open>resolve_snippet\<close> for the resolved root \<open>root\<close>, a directory that exists when some file lies below
  it: a checkout holds no empty directories.
\<close>

definition resolve_snippet ::
  "(string \<Rightarrow> pyval option) \<Rightarrow> repo \<Rightarrow> path \<Rightarrow> string \<Rightarrow> string option \<Rightarrow>
   snippet_error + string option" where
  "resolve_snippet yload files root rel ws =
    (let generic = path_join root rel;
         tier2 = (if \<not> under_root generic root then Inl Escapes_root
                  else case map_of files (resolve_path generic) of
                    Some raw \<Rightarrow> rbind (read_snippet yload raw) (\<lambda>c. Inr (Some c))
                  | None \<Rightarrow> Inr None)
     in if \<not> (\<exists>f \<in> set files. prefix root (fst f)) then Inr None
        else case ws of
          Some (c # cs) \<Rightarrow>
            (let p = path_join (path_join root (c # cs)) rel in
             if \<not> under_root p root then Inl Escapes_root
             else case map_of files (resolve_path p) of
               Some raw \<Rightarrow> rbind (read_snippet yload raw) (\<lambda>c. Inr (Some c))
             | None \<Rightarrow> tier2)
        | _ \<Rightarrow> tier2)"

section \<open>Placeholders\<close>

definition placeholder_char :: "char \<Rightarrow> bool" where
  "placeholder_char c \<longleftrightarrow> is_lower c \<or> is_digit c \<or> (65 \<le> code c \<and> code c \<le> 90) \<or>
     c \<in> {CHR ''_'', CHR ''-'', CHR ''.'', CHR ''/'', CHR 0x5C}"

text \<open>
  A match of \<open>PLACEHOLDER_RE\<close> at the head of the text: two braces, the maximal run of path
  characters, which must end in \<open>.yml\<close> after at least one other, and two closing braces.
\<close>

definition match_here :: "string \<Rightarrow> string option" where
  "match_here s =
    (if \<not> startswith s ''{{'' then None
     else let run = takeWhile placeholder_char (drop 2 s);
              rest = dropWhile placeholder_char (drop 2 s)
          in if endswith run ''.yml'' \<and> 5 \<le> length run \<and> startswith rest ''}}'' then Some run else None)"

text \<open>\<open>finditer\<close>: the runs of the matches, left to right, not overlapping.\<close>

function find_runs :: "string \<Rightarrow> string list" where
  "find_runs [] = []"
| "find_runs (c # s) = (case match_here (c # s) of
     Some run \<Rightarrow> run # find_runs (drop (length run + 4) (c # s))
   | None \<Rightarrow> find_runs s)"
  by pat_completeness auto
termination by (relation "measure length") auto

definition normalised_placeholder :: "string \<Rightarrow> string" where
  "normalised_placeholder s = map (\<lambda>c. if c = CHR 0x5C then CHR ''/'' else c) s"

definition find_placeholders :: "string \<Rightarrow> string list" where
  "find_placeholders t = rev (remdups (rev (map normalised_placeholder (find_runs t))))"

definition literal_of :: "string \<Rightarrow> string" where
  "literal_of run = ''{{'' @ run @ ''}}''"

text \<open>\<open>s.replace(old, new)\<close> for a non-empty \<open>old\<close>.\<close>

function replace_all :: "string \<Rightarrow> string \<Rightarrow> string \<Rightarrow> string" where
  "replace_all old new [] = []"
| "replace_all old new (c # s) =
     (if old \<noteq> [] \<and> startswith (c # s) old then new @ replace_all old new (drop (length old) (c # s))
      else c # replace_all old new s)"
  by pat_completeness auto
termination
  by (relation "measure (\<lambda>(old, new, s). length s)") (auto simp: neq_Nil_conv)

section \<open>Substitution\<close>

definition has_braces :: "string \<Rightarrow> bool" where
  "has_braces s = sublist ''{{'' s"

text \<open>One line: \<open>Inr None\<close> drops it.\<close>

fun substitute_runs ::
  "(string \<Rightarrow> snippet_error + string option) \<Rightarrow> string list \<Rightarrow> string \<Rightarrow> snippet_error + string option" where
  "substitute_runs look [] line = Inr (Some line)"
| "substitute_runs look (r # rs) line =
     rbind (look (normalised_placeholder r)) (\<lambda>res. case res of
       None \<Rightarrow> Inr None
     | Some t \<Rightarrow> substitute_runs look rs (replace_all (literal_of r) t line))"

fun substitute_lines ::
  "(string \<Rightarrow> snippet_error + string option) \<Rightarrow> string list \<Rightarrow> snippet_error + string list" where
  "substitute_lines look [] = Inr []"
| "substitute_lines look (l # ls) =
     (if \<not> has_braces l then rbind (substitute_lines look ls) (\<lambda>r. Inr (l # r))
      else rbind (substitute_runs look (find_runs l) l) (\<lambda>x.
           rbind (substitute_lines look ls) (\<lambda>r.
             Inr (case x of None \<Rightarrow> r | Some l' \<Rightarrow> l' # r))))"

definition substitute_text ::
  "(string \<Rightarrow> snippet_error + string option) \<Rightarrow> string \<Rightarrow> snippet_error + string" where
  "substitute_text look t =
    (if \<not> has_braces t then Inr t
     else rbind (substitute_lines look (split_on NL t)) (\<lambda>ls. Inr (join [NL] ls)))"

text \<open>\<open>_set_dotted\<close>: the value as it is after the call, changed only where the path resolves.\<close>

fun set_dotted :: "string list \<Rightarrow> string \<Rightarrow> pyval \<Rightarrow> pyval" where
  "set_dotted [] v x = x"
| "set_dotted (p # ps) v x = (case x of
     PDict d \<Rightarrow> (case map_of d p of
         None \<Rightarrow> x
       | Some y \<Rightarrow> PDict (dset p (if ps = [] then PStr v else set_dotted ps v y) d))
   | _ \<Rightarrow> x)"

fun substitute_fields ::
  "(string \<Rightarrow> snippet_error + string option) \<Rightarrow> string list \<Rightarrow> pyval \<Rightarrow> snippet_error + pyval" where
  "substitute_fields look [] payload = Inr payload"
| "substitute_fields look (f # fs) payload =
     (case walk_path (split_on (CHR ''.'') f) payload of
        Some (PStr cur) \<Rightarrow>
          (if \<not> has_braces cur then substitute_fields look fs payload
           else rbind (substitute_text look cur) (\<lambda>t.
             substitute_fields look fs
               (if t \<noteq> cur then set_dotted (split_on (CHR ''.'') f) t payload else payload)))
      | _ \<Rightarrow> substitute_fields look fs payload)"

definition effective_ws :: "asset_kind \<Rightarrow> string option \<Rightarrow> string option" where
  "effective_ws a ws = (if startswith (asset_value a) ''defender_'' then None else ws)"

definition apply_snippets ::
  "(string \<Rightarrow> pyval option) \<Rightarrow> repo \<Rightarrow> path \<Rightarrow> loaded_asset \<Rightarrow> string option \<Rightarrow>
   snippet_error + loaded_asset" where
  "apply_snippets yload files root la ws =
    (case map_of KQL_FIELDS_BY_ASSET (kind (la_envelope la)) of
       None \<Rightarrow> Inr la
     | Some fs \<Rightarrow>
         rbind (substitute_fields
                  (\<lambda>rel. resolve_snippet yload files root rel (effective_ws (kind (la_envelope la)) ws))
                  fs (la_payload la))
           (\<lambda>p. Inr (la\<lparr>la_payload := p\<rparr>)))"

section \<open>Lemmas\<close>

text \<open>Lines without braces hold no match, so the fast path is the general one.\<close>

lemma has_braces_line: "\<not> has_braces t \<Longrightarrow> l \<in> set (split_on NL t) \<Longrightarrow> \<not> has_braces l"
proof -
  have "sublist l t" if "l \<in> set (split_on NL t)"
    using that
  proof (induction t arbitrary: l)
    case (Cons c t)
    obtain w ws where w: "split_on NL t = w # ws" by (cases "split_on NL t") auto
    have tail: "sublist v t" if "v \<in> set ws" for v using Cons.IH that by (simp add: w)
    have "prefix w t"
      using join_split_on[of NL t] by (cases ws) (auto simp: w prefix_def)
    then have "sublist (c # w) (c # t)" by (intro prefix_imp_sublist) simp
    with Cons show ?case using tail by (auto simp: w split: if_splits intro: sublist_Cons_right[THEN iffD2])
  qed simp
  then show "\<not> has_braces t \<Longrightarrow> l \<in> set (split_on NL t) \<Longrightarrow> \<not> has_braces l"
    unfolding has_braces_def by (meson sublist_altdef sublist_def sublist_appendI sublist_append_rightI sublist_order.order.trans)
qed

lemma substitute_lines_plain: "\<forall>l \<in> set ls. \<not> has_braces l \<Longrightarrow> substitute_lines look ls = Inr ls"
  by (induction ls) auto

lemma substitute_text_general: "substitute_text look t =
    rbind (substitute_lines look (split_on NL t)) (\<lambda>ls. Inr (join [NL] ls))"
  using substitute_lines_plain[of "split_on NL t" look] has_braces_line[of t]
  by (auto simp: substitute_text_def)

lemma rbind_cong: "x = y \<Longrightarrow> (\<And>a. y = Inr a \<Longrightarrow> f a = g a) \<Longrightarrow> rbind x f = rbind y g"
  by (cases y) auto

lemma resolve_snippet_reads:
  assumes "\<forall>p. prefix root p \<longrightarrow> map_of files p = map_of files' p"
  shows "resolve_snippet yload files root rel ws = resolve_snippet yload files' root rel ws"
proof -
  have dom: "(\<exists>f \<in> set fs. prefix root (fst f)) \<longleftrightarrow> (\<exists>p. prefix root p \<and> map_of fs p \<noteq> None)"
    for fs :: repo
    by (auto simp: map_of_eq_None_iff)
  have e: "(\<exists>f \<in> set files. prefix root (fst f)) \<longleftrightarrow> (\<exists>f \<in> set files'. prefix root (fst f))"
    unfolding dom using assms by auto
  have "under_root q root \<Longrightarrow> map_of files (resolve_path q) = map_of files' (resolve_path q)" for q
    using assms by (simp add: under_root_def)
  then show ?thesis
    unfolding resolve_snippet_def Let_def e by (auto split: option.split list.split)
qed

text \<open>Paths without \<open>..\<close> resolve to themselves.\<close>

lemma resolve_onto_plain: "''..'' \<notin> set p \<Longrightarrow> resolve_onto acc p = acc @ p"
  by (induction acc p rule: resolve_onto.induct) auto

lemma resolve_path_plain: "''..'' \<notin> set p \<Longrightarrow> resolve_path p = p"
  by (simp add: resolve_path_def resolve_onto_plain)

text \<open>A plain relative path: no leading separator and no \<open>..\<close>.\<close>

definition plain_rel :: "string \<Rightarrow> bool" where
  "plain_rel s \<longleftrightarrow> \<not> startswith s ''/'' \<and> ''..'' \<notin> set (split_on (CHR ''/'') s)"

lemma path_join_plain:
  assumes "plain_rel s" and "''..'' \<notin> set base"
  shows "path_join base s = base @ path_segments s" "''..'' \<notin> set (path_join base s)"
  using assms by (auto simp: path_join_def plain_rel_def path_segments_def)

lemma under_root_plain: "''..'' \<notin> set (root @ q) \<Longrightarrow> under_root (root @ q) root"
  unfolding under_root_def by (subst resolve_path_plain) auto

text \<open>Writing at one path leaves every path that does not pass through it alone.\<close>

lemma walk_set_dotted:
  "\<not> prefix p q \<Longrightarrow> \<not> prefix q p \<Longrightarrow> walk_path q (set_dotted p v x) = walk_path q x"
proof (induction p arbitrary: q x)
  case (Cons a p)
  then obtain b q' where q: "q = b # q'" by (cases q) auto
  show ?case
  proof (cases x)
    case (PDict d)
    have "walk_path q' (set_dotted p v y) = walk_path q' y" if "b = a" for y
      using Cons that by (simp add: q)
    then show ?thesis using Cons.prems by (auto simp: PDict q split: option.splits)
  qed (simp_all add: q)
qed simp

lemma substitute_fields_frame:
  "substitute_fields look fs x = Inr y \<Longrightarrow>
   \<forall>f \<in> set fs. \<not> prefix (split_on (CHR ''.'') f) q \<and> \<not> prefix q (split_on (CHR ''.'') f) \<Longrightarrow>
   walk_path q y = walk_path q x"
proof (induction fs arbitrary: x)
  case (Cons f fs)
  show ?case
  proof (cases "walk_path (split_on (CHR ''.'') f) x")
    case (Some c)
    then show ?thesis
      using Cons by (cases c) (auto simp: rbind_Inr_iff walk_set_dotted split: if_splits)
  qed (use Cons in simp)
qed simp

lemma substitute_fields_cong:
  "(\<And>r. look r = look' r) \<Longrightarrow> substitute_fields look fs x = substitute_fields look' fs x"
  by (simp add: ext[of look look'])

section \<open>Instances\<close>

definition demo_root :: path where
  "demo_root = [''w'', ''overrides'']"

definition demo_overrides :: repo where
  "demo_overrides = [([''w'', ''overrides'', ''Main'', ''u.yml''], ''m''), ([''w'', ''overrides'', ''u.yml''], ''g'')]"

definition demo_snippet_yaml :: "string \<Rightarrow> pyval option" where
  "demo_snippet_yaml s = Some (PDict [(''content'', PStr s)])"

definition demo_query :: string where
  "demo_query = ''T'' @ [NL] @ ''| {{u.yml}}'' @ [NL] @ ''{{x.yml}}''"

lemma demo_lines: "norm_newlines ''m'' = ''m''" "norm_newlines ''g'' = ''g''"
  by code_simp+

section \<open>Properties\<close>

text \<open>
  Three tiers: for a placeholder and workspace without \<open>..\<close> the workspace's own file is read
  when there is one, otherwise the generic file, and otherwise the lookup is empty.
\<close>

theorem resolve_snippet_tiers:
  assumes "plain_rel rel" and "plain_rel ws" and "ws \<noteq> []" and "''..'' \<notin> set root"
  shows "resolve_snippet yload files root rel (Some ws) =
    (case map_of files (root @ path_segments ws @ path_segments rel) of
       Some raw \<Rightarrow> rbind (read_snippet yload raw) (\<lambda>c. Inr (Some c))
     | None \<Rightarrow> (case map_of files (root @ path_segments rel) of
         Some raw \<Rightarrow> rbind (read_snippet yload raw) (\<lambda>c. Inr (Some c))
       | None \<Rightarrow> Inr None))"
proof -
  have r: "''..'' \<notin> set (path_segments rel)" "''..'' \<notin> set (path_segments ws)"
    using assms by (auto simp: plain_rel_def path_segments_def)
  then have u: "under_root (root @ q) root" "resolve_path (root @ q) = root @ q"
    if "q \<in> {path_segments rel, path_segments ws @ path_segments rel}" for q
    using that assms(4) by (auto intro!: under_root_plain resolve_path_plain)
  have none: "map_of files (root @ q) = None" if "\<not> (\<exists>f \<in> set files. prefix root (fst f))" for q
    using that by (force simp: map_of_eq_None_iff)
  have j: "path_join root rel = root @ path_segments rel"
      "path_join (path_join root ws) rel = root @ path_segments ws @ path_segments rel"
    using assms by (auto simp: path_join_def plain_rel_def)
  obtain c cs where ws: "ws = c # cs" using assms(3) by (cases ws) auto
  show ?thesis
    using j none u by (simp add: resolve_snippet_def Let_def ws split: option.split)
qed

theorem resolve_snippet_tiers_witness:
  "resolve_snippet demo_snippet_yaml demo_overrides demo_root ''u.yml'' (Some ''Main'') = Inr (Some ''m'') \<and>
   resolve_snippet demo_snippet_yaml demo_overrides demo_root ''u.yml'' (Some ''Other'') = Inr (Some ''g'')"
proof -
  have p: "plain_rel ''u.yml''" "plain_rel ''Main''" "plain_rel ''Other''" "''..'' \<notin> set demo_root"
    by code_simp+
  show ?thesis
    using resolve_snippet_tiers[OF p(1) p(2) _ p(4), of demo_snippet_yaml demo_overrides]
      resolve_snippet_tiers[OF p(1) p(3) _ p(4), of demo_snippet_yaml demo_overrides]
    by (simp add: demo_root_def demo_overrides_def path_segments_def read_snippet_def demo_snippet_yaml_def
        demo_lines del: norm_newlines.simps)
qed

text \<open>
  C12. Substitution is confined: its result depends on no file outside the overrides directory, for
  a Defender asset not on the workspace either, and it changes nothing of the asset but the KQL
  fields of its kind.
\<close>

theorem apply_snippets_confined:
  assumes "apply_snippets yload files root la ws = Inr la'"
  shows "(\<forall>files'. (\<forall>p. prefix root p \<longrightarrow> map_of files p = map_of files' p) \<longrightarrow>
      apply_snippets yload files' root la ws = Inr la') \<and>
    (startswith (asset_value (kind (la_envelope la))) ''defender_'' \<longrightarrow>
      (\<forall>ws'. apply_snippets yload files root la ws' = Inr la')) \<and>
    la' = la\<lparr>la_payload := la_payload la'\<rparr> \<and>
    (\<forall>q. (\<forall>fs f. map_of KQL_FIELDS_BY_ASSET (kind (la_envelope la)) = Some fs \<longrightarrow> f \<in> set fs \<longrightarrow>
        \<not> prefix (split_on (CHR ''.'') f) q \<and> \<not> prefix q (split_on (CHR ''.'') f)) \<longrightarrow>
      walk_path q (la_payload la') = walk_path q (la_payload la))"
proof (intro conjI allI impI)
  fix files' :: repo assume "\<forall>p. prefix root p \<longrightarrow> map_of files p = map_of files' p"
  then have "resolve_snippet yload files' root rel w = resolve_snippet yload files root rel w" for rel w
    by (metis resolve_snippet_reads)
  then show "apply_snippets yload files' root la ws = Inr la'"
    using assms by (simp add: apply_snippets_def cong: option.case_cong)
next
  fix ws' assume "startswith (asset_value (kind (la_envelope la))) ''defender_''"
  then show "apply_snippets yload files root la ws' = Inr la'"
    using assms by (simp add: apply_snippets_def effective_ws_def cong: option.case_cong)
next
  show "la' = la\<lparr>la_payload := la_payload la'\<rparr>"
    using assms by (auto simp: apply_snippets_def rbind_Inr_iff split: option.splits)
next
  fix q assume "\<forall>fs f. map_of KQL_FIELDS_BY_ASSET (kind (la_envelope la)) = Some fs \<longrightarrow> f \<in> set fs \<longrightarrow>
      \<not> prefix (split_on (CHR ''.'') f) q \<and> \<not> prefix q (split_on (CHR ''.'') f)"
  then show "walk_path q (la_payload la') = walk_path q (la_payload la)"
    using assms
    by (auto simp: apply_snippets_def rbind_Inr_iff dest: substitute_fields_frame[where q = q] split: option.splits)
qed

theorem apply_snippets_confined_witness:
  "\<exists>la'. apply_snippets demo_snippet_yaml demo_overrides demo_root
      (demo_asset SENTINEL_HUNTING ''h'' ''production''
        (PDict [(''query'', PStr demo_query), (''name'', PStr ''n'')])) (Some ''Main'') = Inr la' \<and>
    walk_path [''query''] (la_payload la') = Some (PStr (''T'' @ [NL] @ ''| m'')) \<and>
    walk_path [''name''] (la_payload la') = Some (PStr ''n'')"
proof -
  let ?la = "demo_asset SENTINEL_HUNTING ''h'' ''production''
        (PDict [(''query'', PStr demo_query), (''name'', PStr ''n'')])"
  let ?la' = "?la\<lparr>la_payload := PDict [(''query'', PStr (''T'' @ [NL] @ ''| m'')), (''name'', PStr ''n'')]\<rparr>"
  have h: "apply_snippets demo_snippet_yaml demo_overrides demo_root ?la (Some ''Main'') = Inr ?la'"
    by code_simp
  have "\<forall>fs f. map_of KQL_FIELDS_BY_ASSET (kind (la_envelope ?la)) = Some fs \<longrightarrow> f \<in> set fs \<longrightarrow>
      \<not> prefix (split_on (CHR ''.'') f) [''name''] \<and> \<not> prefix [''name''] (split_on (CHR ''.'') f)"
    by (simp add: KQL_FIELDS_BY_ASSET_def demo_asset_def)
  with apply_snippets_confined[OF h] have "walk_path [''name''] (la_payload ?la') = walk_path [''name''] (la_payload ?la)"
    by blast
  then have "walk_path [''name''] (la_payload ?la') = Some (PStr ''n'')" by (simp add: demo_asset_def)
  then show ?thesis using h by (intro exI[of _ ?la']) simp
qed

end
