(* ===== verification/Results.thy ===== *)
theory Results
  imports Audit_Log Snippets
begin

text \<open>
  The result of one plan or apply step (\<open>contentops/core/result.py\<close>) and what is recorded of it:
  the audit record and the snippet digest (\<open>_build_audit_record\<close> and \<open>_compute_snippet_digest\<close> of
  \<open>contentops/cli/commands/apply_support.py\<close>) and the JSON report (\<open>contentops/apply_report.py\<close>).
  The commit, actor, workflow run and clock are arguments, the digest function is the parameter
  \<open>h\<close>; \<open>extra\<close>, which nothing here reads, is left out of the result.
\<close>

section \<open>Action results\<close>

datatype plan_action = CREATE | UPDATE | DISABLE | SKIP | NOOP | DELETE

fun action_value :: "plan_action \<Rightarrow> string" where
  "action_value CREATE = ''create''"
| "action_value UPDATE = ''update''"
| "action_value DISABLE = ''disable''"
| "action_value SKIP = ''skip''"
| "action_value NOOP = ''noop''"
| "action_value DELETE = ''delete''"

record action_result =
  r_id :: string
  r_kind :: string
  r_action :: plan_action
  r_status :: string
  r_detail :: string
  r_verified :: "bool option"
  r_error :: "string option"

definition is_error :: "action_result \<Rightarrow> bool" where
  "is_error r \<longleftrightarrow> r_status r = ''error'' \<or> startswith (r_status r) ''error-''"

definition is_failure :: "action_result \<Rightarrow> bool" where
  "is_failure r \<longleftrightarrow> is_error r \<or> r_verified r = Some False"

text \<open>The result the pipeline makes itself, with the defaults of the dataclass.\<close>

definition own_result :: "string \<Rightarrow> asset_kind \<Rightarrow> plan_action \<Rightarrow> string \<Rightarrow> string \<Rightarrow> action_result" where
  "own_result i k act st detail = \<lparr>r_id = i, r_kind = asset_value k, r_action = act, r_status = st,
     r_detail = detail, r_verified = None, r_error = None\<rparr>"

section \<open>Audit records\<close>

record provenance =
  p_sha :: string
  p_actor :: string
  p_run :: "string option"

definition non_empty :: "string \<Rightarrow> string option" where
  "non_empty s = (if s = [] then None else Some s)"

definition audit_status :: "action_result \<Rightarrow> string \<Rightarrow> string option \<Rightarrow> string \<times> string option" where
  "audit_status r failure success_detail =
    (if is_failure r then (''failed'', Some failure)
     else if r_action r = SKIP then (''skipped'', non_empty (r_detail r))
     else (''success'', success_detail))"

text \<open>The failure message: \<open>result.error or result.detail or result.status\<close>.\<close>

definition failure_message :: "action_result \<Rightarrow> string" where
  "failure_message r = (case r_error r of Some (c # cs) \<Rightarrow> c # cs
     | _ \<Rightarrow> (if r_detail r \<noteq> [] then r_detail r else r_status r))"

text \<open>\<open>who\<close> is the id, kind and metadata owner: of the loaded asset, or as prune passes them.\<close>

definition build_audit_record ::
  "provenance \<Rightarrow> string \<Rightarrow> action_result \<Rightarrow> string \<times> string \<times> string option \<Rightarrow>
   string option \<Rightarrow> string option \<Rightarrow> string option \<Rightarrow> audit_record" where
  "build_audit_record prov now r who ws dig success_detail =
    (let (i, a, own) = who;
         (st, msg) = audit_status r (failure_message r) success_detail
     in \<lparr>timestamp = now, asset = a, rec_id = i, action = action_value (r_action r), status = st,
         sha = p_sha prov, actor = p_actor prov,
         workflow_run = Option.bind (p_run prov) non_empty, message = msg, metadata_owner = own,
         workspace = ws, snippet_digest = dig, prev_hash = [], record_hash = []\<rparr>)"

definition who_of :: "loaded_asset \<Rightarrow> string \<times> string \<times> string option" where
  "who_of la = (env_id (la_envelope la), asset_value (kind (la_envelope la)),
     map_option owner (env_metadata (la_envelope la)))"

section \<open>The snippet digest\<close>

definition get_dotted :: "pyval \<Rightarrow> string \<Rightarrow> pyval" where
  "get_dotted p dotted = (case walk_path (split_on (CHR ''.'') dotted) p of None \<Rightarrow> PNone | Some v \<Rightarrow> v)"

definition kql_snapshot :: "asset_kind \<Rightarrow> pyval \<Rightarrow> pydict" where
  "kql_snapshot k p = concat (map (\<lambda>f. case get_dotted p f of PStr s \<Rightarrow> [(f, PStr s)] | _ \<Rightarrow> [])
     (case map_of KQL_FIELDS_BY_ASSET k of None \<Rightarrow> [] | Some fs \<Rightarrow> fs))"

definition compute_snippet_digest ::
  "(string \<Rightarrow> string) \<Rightarrow> loaded_asset \<Rightarrow> loaded_asset \<Rightarrow> string option" where
  "compute_snippet_digest h original resolved =
    (let k = kind (la_envelope original);
         fs = (case map_of KQL_FIELDS_BY_ASSET k of None \<Rightarrow> [] | Some fs \<Rightarrow> fs)
     in if resolved = original then None
        else if \<forall>f \<in> set fs. py_eq (get_dotted (la_payload original) f) (get_dotted (la_payload resolved) f)
        then None
        else Some (h (dumps (sort_keys (PDict (kql_snapshot k (la_payload resolved)))))))"

section \<open>The report\<close>

record asset_row =
  row_asset :: string
  row_id :: string
  row_action :: string
  row_status :: string
  row_verified :: "bool option"
  audit_pointer :: "string option"
  row_detail :: "string option"
  row_error :: "string option"

record totals =
  t_total :: nat
  t_success :: nat
  t_failed :: nat
  t_skipped :: nat
  t_verified :: nat
  t_unverified :: nat

definition classify_result :: "action_result \<Rightarrow> string" where
  "classify_result r = (if is_failure r then ''failed''
     else if r_action r = SKIP then ''skipped'' else ''success'')"

definition result_to_row :: "loaded_asset \<Rightarrow> action_result \<Rightarrow> asset_row" where
  "result_to_row la r =
    \<lparr>row_asset = asset_value (kind (la_envelope la)), row_id = env_id (la_envelope la),
     row_action = action_value (r_action r), row_status = classify_result r,
     row_verified = r_verified r, audit_pointer = None, row_detail = non_empty (r_detail r),
     row_error = Option.bind (r_error r) non_empty\<rparr>"

type_synonym audit_pair = "loaded_asset \<times> action_result \<times> string option \<times> string option"

definition count_row :: "asset_row \<Rightarrow> totals \<Rightarrow> totals" where
  "count_row row t =
    (let t = (if row_status row = ''success'' then t\<lparr>t_success := Suc (t_success t)\<rparr>
              else if row_status row = ''failed'' then t\<lparr>t_failed := Suc (t_failed t)\<rparr>
              else if row_status row = ''skipped'' then t\<lparr>t_skipped := Suc (t_skipped t)\<rparr> else t)
     in if row_verified row = Some True then t\<lparr>t_verified := Suc (t_verified t)\<rparr>
        else if row_verified row = Some False then t\<lparr>t_unverified := Suc (t_unverified t)\<rparr> else t)"

text \<open>The loop of \<open>build_report\<close>; \<open>audit\<close> is the relative path and first line when both are known.\<close>

fun report_loop ::
  "(string \<times> nat) option \<Rightarrow> nat \<Rightarrow> audit_pair list \<Rightarrow> totals \<Rightarrow> asset_row list \<times> totals" where
  "report_loop audit offset [] t = ([], t)"
| "report_loop audit offset ((la, r, x) # ps) t =
    (let row = (result_to_row la r)\<lparr>audit_pointer :=
           (case audit of None \<Rightarrow> None
            | Some (p, first) \<Rightarrow> Some (p @ ''#L'' @ show_nat (first + offset)))\<rparr>;
         (rows, t') = report_loop audit (Suc offset) ps (count_row row t)
     in (row # rows, t'))"

definition build_report :: "(string \<times> nat) option \<Rightarrow> audit_pair list \<Rightarrow> asset_row list \<times> totals" where
  "build_report audit pairs = report_loop audit 0 pairs
     \<lparr>t_total = length pairs, t_success = 0, t_failed = 0, t_skipped = 0, t_verified = 0, t_unverified = 0\<rparr>"

text \<open>\<open>apply_cmd\<close> counts the lines of today's file before it appends.\<close>

definition existing_lines :: "string \<Rightarrow> audit_dir \<Rightarrow> nat" where
  "existing_lines today d = (case map_of (files_of d) (today @ ''.jsonl'') of
     Some (Some c) \<Rightarrow> length (filter (\<lambda>l. strip l \<noteq> []) (splitlines c)) | _ \<Rightarrow> 0)"

section \<open>Lemmas\<close>

lemma audit_status_classify: "fst (audit_status r m s) = classify_result r"
  by (simp add: audit_status_def classify_result_def)

lemma count_row_total: "t_success (count_row row t) + t_failed (count_row row t) + t_skipped (count_row row t) =
    t_success t + t_failed t + t_skipped t +
    (if row_status row \<in> {''success'', ''failed'', ''skipped''} then 1 else 0)"
  "t_total (count_row row t) = t_total t"
  "t_failed (count_row row t) = t_failed t + (if row_status row = ''failed'' then 1 else 0)"
  by (auto simp: count_row_def Let_def)

lemma classify_range: "classify_result r \<in> {''success'', ''failed'', ''skipped''}"
  by (simp add: classify_result_def)

lemma classify_failed: "classify_result r = ''failed'' \<longleftrightarrow> is_failure r"
  by (simp add: classify_result_def)

lemma report_loop_rows: "report_loop au off ps t = (rows, t') \<Longrightarrow>
    length rows = length ps \<and>
    (\<forall>i < length ps. rows ! i = (result_to_row (fst (ps ! i)) (fst (snd (ps ! i))))\<lparr>audit_pointer :=
        map_option (\<lambda>(p, first). p @ ''#L'' @ show_nat (first + off + i)) au\<rparr>) \<and>
    t_total t' = t_total t \<and>
    t_success t' + t_failed t' + t_skipped t' = t_success t + t_failed t + t_skipped t + length ps \<and>
    t_failed t' = t_failed t + length (filter (\<lambda>p. is_failure (fst (snd p))) ps)"
proof (induction ps arbitrary: off t rows)
  case (Cons p ps)
  obtain la r x where p: "p = (la, r, x)" by (cases p)
  let ?row = "(result_to_row la r)\<lparr>audit_pointer := (case au of None \<Rightarrow> None
      | Some (p, first) \<Rightarrow> Some (p @ ''#L'' @ show_nat (first + off)))\<rparr>"
  obtain rows' where rows': "report_loop au (Suc off) ps (count_row ?row t) = (rows', t')" "rows = ?row # rows'"
    using Cons.prems by (auto simp: p Let_def split: prod.splits)
  have st: "row_status ?row = classify_result r" by (simp add: result_to_row_def)
  note ih = Cons.IH[OF rows'(1)]
  note c = count_row_total[of ?row t, unfolded st classify_failed]
  have "\<forall>i < length (p # ps). rows ! i = (result_to_row (fst ((p # ps) ! i)) (fst (snd ((p # ps) ! i))))
      \<lparr>audit_pointer := map_option (\<lambda>(p, first). p @ ''#L'' @ show_nat (first + off + i)) au\<rparr>"
    using ih by (auto simp: rows' p nth_Cons split: nat.split option.split)
  moreover have "length rows = length (p # ps)" "t_total t' = t_total t"
    using ih c(2) by (simp_all add: rows')
  moreover have "t_failed t' = t_failed t + length (filter (\<lambda>p. is_failure (fst (snd p))) (p # ps))"
    using ih c(3) by (simp add: p)
  moreover have "t_success t' + t_failed t' + t_skipped t' =
      t_success t + t_failed t + t_skipped t + length (p # ps)"
    using ih c(1) classify_range[of r] by simp
  ultimately show ?case by blast
qed simp

lemma lines_visible: "\<forall>l \<in> set (map to_json rs). strip l \<noteq> []"
  using rec_line.enc_visible by auto

lemma log_inv_map_of:
  assumes "log_inv h day fs logs" and "map_of fs (d @ ''.jsonl'') = Some c"
  shows "\<exists>rs. c = Some (lines_text rs)"
proof -
  have "(d @ ''.jsonl'', c) \<in> set (jsonl_files fs)"
    using assms(2) by (auto simp: jsonl_files_def endswith_def suffix_def dest: map_of_SomeD)
  then show ?thesis using assms(1) by (auto simp: log_inv_def log_file_def)
qed

lemma kql_snapshot_texts: "x \<in> set (kql_snapshot k p) \<Longrightarrow> \<exists>s. snd x = PStr s"
  by (auto simp: kql_snapshot_def split: pyval.splits option.splits) metis

lemma wf_kql_snapshot: "wf_val (PDict (kql_snapshot k p))"
proof -
  have d: "distinct (map fst (concat (map (\<lambda>f. case get_dotted p f of PStr s \<Rightarrow> [(f, PStr s)] | _ \<Rightarrow> []) fs)))"
    if "distinct fs" for fs
    using that by (induction fs) (auto split: pyval.splits)
  have "distinct (case map_of KQL_FIELDS_BY_ASSET k of None \<Rightarrow> [] | Some fs \<Rightarrow> fs)"
    by (cases k) (simp_all add: KQL_FIELDS_BY_ASSET_def)
  from d[OF this] have "distinct (map fst (kql_snapshot k p))" by (simp add: kql_snapshot_def)
  then show ?thesis using kql_snapshot_texts[of _ k p] by (fastforce simp: list_all_iff)
qed

lemma map_of_kql_snapshot:
  assumes "f \<in> set (case map_of KQL_FIELDS_BY_ASSET k of None \<Rightarrow> [] | Some fs \<Rightarrow> fs)"
  shows "map_of (kql_snapshot k p) f = Some v \<longleftrightarrow> (\<exists>s. v = PStr s \<and> get_dotted p f = PStr s)"
proof -
  have "map_of (concat (map (\<lambda>f. case get_dotted p f of PStr s \<Rightarrow> [(f, PStr s)] | _ \<Rightarrow> []) fs)) f = Some v \<longleftrightarrow>
      f \<in> set fs \<and> (\<exists>s. v = PStr s \<and> get_dotted p f = PStr s)" for fs
    by (induction fs) (auto split: pyval.splits)
  with assms show ?thesis by (simp add: kql_snapshot_def)
qed

lemma wf_sort_flat:
  assumes "distinct (map fst d)" and "\<forall>x \<in> set d. \<exists>s. snd x = PStr s"
  shows "sort_keys (PDict d) = PDict (sort_key fst d)"
proof -
  have "map (\<lambda>p. (fst p, sort_keys (snd p))) d = d"
    using assms(2) by (induction d) auto
  then show ?thesis by simp
qed

lemma write_records_dir: "write_records h today race rs d = (x, y) \<Longrightarrow> \<exists>fs. y = Some fs"
  by (auto simp: write_records_unfold Let_def split: sum.splits option.splits if_splits prod.splits)

section \<open>Properties\<close>

text \<open>
  The report and the audit trail agree: for the same pairs every row carries the asset, id,
  action and status of its audit record, the three status counts partition the rows, and the
  failed count is the number of failed results, which decides the exit code.
\<close>

theorem report_mirrors_audit:
  assumes "build_report au pairs = (rows, t)"
  shows "length rows = length pairs \<and> t_total t = length pairs \<and>
    t_success t + t_failed t + t_skipped t = length pairs \<and>
    t_failed t = length (filter (\<lambda>p. is_failure (fst (snd p))) pairs) \<and>
    (\<forall>i < length pairs. \<forall>prov now s. let (la, r, ws, dig) = pairs ! i;
        rec = build_audit_record prov now r (who_of la) ws dig s in
      row_asset (rows ! i) = asset rec \<and> row_id (rows ! i) = rec_id rec \<and>
      row_action (rows ! i) = action rec \<and> row_status (rows ! i) = status rec)"
proof -
  note l = report_loop_rows[OF assms[unfolded build_report_def], simplified]
  have "let (la, r, ws, dig) = pairs ! i; rec = build_audit_record prov now r (who_of la) ws dig s in
      row_asset (rows ! i) = asset rec \<and> row_id (rows ! i) = rec_id rec \<and>
      row_action (rows ! i) = action rec \<and> row_status (rows ! i) = status rec"
    if "i < length pairs" for i prov now s
  proof -
    obtain la r ws dig where p: "pairs ! i = (la, r, ws, dig)" by (cases "pairs ! i")
    show ?thesis
      using l that
      by (simp add: p result_to_row_def build_audit_record_def who_of_def audit_status_classify[symmetric]
          case_prod_beta Let_def audit_status_def classify_result_def)
  qed
  then show ?thesis using l by blast
qed

theorem report_mirrors_audit_witness:
  "\<exists>rows t. build_report None [(demo_asset SENTINEL_HUNTING ''h'' ''production'' PNone,
      own_result ''h'' SENTINEL_HUNTING NOOP ''error-apply'' ''x'', None, None)] = (rows, t) \<and>
     t_failed t = 1"
proof -
  let ?ps = "[(demo_asset SENTINEL_HUNTING ''h'' ''production'' PNone,
      own_result ''h'' SENTINEL_HUNTING NOOP ''error-apply'' ''x'', None, None)]"
  obtain rows t where r: "build_report None ?ps = (rows, t)" by fastforce
  from report_mirrors_audit[OF r] have "t_failed t = 1"
    by (simp add: is_failure_def is_error_def own_result_def startswith_def)
  with r show ?thesis by blast
qed

text \<open>
  The audit pointers are right when no other writer intervenes: appending the batch of the
  pairs to a directory that holds a chain, the line that pointer \<open>i\<close> names in today's file is the
  JSON of the \<open>i\<close>-th chained record of the batch.
\<close>

theorem audit_pointers_exact:
  assumes "log_inv h day (files_of d) logs"
    and "write_records h today id rs d = (Inr f, Some fs')"
    and "last_record_tail (Some (files_of d)) = Inr (p, ts)" and "chain_records h rs p ts = Inr ch"
    and "i < length rs"
  shows "\<exists>c. map_of fs' (today @ ''.jsonl'') = Some (Some c) \<and>
    existing_lines today d + i < length (splitlines c) \<and>
    splitlines c ! (existing_lines today d + i) = to_json (ch ! i)"
proof -
  let ?c = "case map_of (files_of d) (today @ ''.jsonl'') of None \<Rightarrow> Some [] | Some c \<Rightarrow> c"
  obtain old where old: "?c = Some (lines_text old)" "existing_lines today d = length old"
  proof (cases "map_of (files_of d) (today @ ''.jsonl'')")
    case None
    then show ?thesis using that[of "[]"] by (simp add: existing_lines_def lines_text_def)
  next
    case (Some c)
    with log_inv_map_of[OF assms(1)] obtain os where "c = Some (lines_text os)" by blast
    with Some that[of os] show ?thesis
      using lines_visible by (simp add: existing_lines_def splitlines_lines_text)
  qed
  have "fs' = dset (today @ ''.jsonl'') (Some (lines_text (old @ ch))) (files_of d)"
    using assms(2-4) old(1)
    by (auto simp: write_records_unfold Let_def lines_text_append split: option.splits if_splits)
  then show ?thesis
    using assms(5) chain_records_length[OF assms(4)] old(2)
    by (simp add: splitlines_lines_text nth_append)
qed

theorem audit_pointers_exact_witness:
  "\<exists>c r. map_of (files_of demo_dir) ''2026-01-02.jsonl'' = Some (Some c) \<and>
     splitlines c ! existing_lines ''2026-01-02'' None = to_json r"
proof -
  obtain ch where ch: "chain_records demo_hash [demo_record] ZERO_HASH [] = Inr ch"
    using demo_written
    by (auto simp: write_records_unfold files_of_def last_record_tail_def jsonl_files_def Let_def split: sum.splits)
  obtain fs where fs: "demo_dir = Some fs"
    using write_records_dir[OF demo_written] by blast
  have "log_inv demo_hash ''2026-01-02'' (files_of None) []"
    by (simp add: log_inv_def files_of_def jsonl_files_def)
  moreover have "last_record_tail (Some (files_of None)) = Inr (ZERO_HASH, [])"
    by (simp add: last_record_tail_def files_of_def jsonl_files_def)
  ultimately have "\<exists>c. map_of fs ''2026-01-02.jsonl'' = Some (Some c) \<and>
      splitlines c ! (existing_lines ''2026-01-02'' None + 0) = to_json (ch ! 0)"
    using audit_pointers_exact[OF _ demo_written[unfolded fs] _ ch, of _ _ 0] by auto
  then show ?thesis by (auto simp: fs files_of_def)
qed

text \<open>
  The snippet digest is absent exactly when no KQL field of the asset was changed by
  substitution, and otherwise it commits to the deployed text: equal digests of two assets of a
  kind mean equal texts in every KQL field, up to an explicit collision of the digest function.
\<close>

theorem snippet_digest_commits:
  assumes "kind (la_envelope a') = kind (la_envelope a)"
  shows "(compute_snippet_digest h a b = None \<longleftrightarrow>
      b = a \<or> (\<forall>fs. map_of KQL_FIELDS_BY_ASSET (kind (la_envelope a)) = Some fs \<longrightarrow>
        (\<forall>f \<in> set fs. py_eq (get_dotted (la_payload a) f) (get_dotted (la_payload b) f)))) \<and>
    (\<forall>d. compute_snippet_digest h a b = Some d \<longrightarrow> compute_snippet_digest h a' b' = Some d \<longrightarrow>
      (\<forall>fs f s. map_of KQL_FIELDS_BY_ASSET (kind (la_envelope a)) = Some fs \<longrightarrow> f \<in> set fs \<longrightarrow>
        (get_dotted (la_payload b) f = PStr s \<longleftrightarrow> get_dotted (la_payload b') f = PStr s)) \<or>
      (\<exists>x y. x \<noteq> y \<and> h x = h y))"
proof (intro conjI allI impI)
  show "compute_snippet_digest h a b = None \<longleftrightarrow>
      b = a \<or> (\<forall>fs. map_of KQL_FIELDS_BY_ASSET (kind (la_envelope a)) = Some fs \<longrightarrow>
        (\<forall>f \<in> set fs. py_eq (get_dotted (la_payload a) f) (get_dotted (la_payload b) f)))"
    by (cases "map_of KQL_FIELDS_BY_ASSET (kind (la_envelope a))")
       (auto simp: compute_snippet_digest_def Let_def)
next
  fix d assume d: "compute_snippet_digest h a b = Some d" "compute_snippet_digest h a' b' = Some d"
  let ?k = "kind (la_envelope a)"
  let ?t = "\<lambda>x. dumps (sort_keys (PDict (kql_snapshot ?k (la_payload x))))"
  have eq: "h (?t b) = h (?t b')"
    using d assms by (auto simp: compute_snippet_digest_def Let_def split: if_splits)
  show "(\<forall>fs f s. map_of KQL_FIELDS_BY_ASSET ?k = Some fs \<longrightarrow> f \<in> set fs \<longrightarrow>
        (get_dotted (la_payload b) f = PStr s \<longleftrightarrow> get_dotted (la_payload b') f = PStr s)) \<or>
      (\<exists>x y. x \<noteq> y \<and> h x = h y)"
  proof (cases "?t b = ?t b'")
    case True
    have sk: "sort_keys (PDict (kql_snapshot ?k p)) = PDict (sort_key fst (kql_snapshot ?k p))" for p
      using wf_kql_snapshot[of ?k p] kql_snapshot_texts[of _ ?k p] by (intro wf_sort_flat) auto
    have wf: "wf_val (PDict (sort_key fst (kql_snapshot ?k p)))" for p
      using wf_kql_snapshot[of ?k p] by (simp add: list_all_iff)
    have "sort_key fst (kql_snapshot ?k (la_payload b)) = sort_key fst (kql_snapshot ?k (la_payload b'))"
      using True dumps_inj[OF wf wf] unfolding sk by blast
    then have "set (kql_snapshot ?k (la_payload b)) = set (kql_snapshot ?k (la_payload b'))"
      by (metis set_sort)
    then have "map_of (kql_snapshot ?k (la_payload b)) = map_of (kql_snapshot ?k (la_payload b'))"
      using wf_kql_snapshot by (intro map_of_inject_set[THEN iffD2]) auto
    then show ?thesis using map_of_kql_snapshot[of _ ?k] by (metis option.simps(5))
  next
    case False
    with eq show ?thesis by blast
  qed
qed

theorem snippet_digest_commits_witness:
  "\<exists>d. compute_snippet_digest demo_hash
      (demo_asset SENTINEL_HUNTING ''h'' ''production'' (PDict [(''query'', PStr ''{{u.yml}}'')]))
      (demo_asset SENTINEL_HUNTING ''h'' ''production'' (PDict [(''query'', PStr ''m'')])) = Some d"
proof -
  let ?a = "\<lambda>q. demo_asset SENTINEL_HUNTING ''h'' ''production'' (PDict [(''query'', PStr q)])"
  have "(?a ''m'' = ?a ''{{u.yml}}'' \<or> (\<forall>fs. map_of KQL_FIELDS_BY_ASSET SENTINEL_HUNTING = Some fs \<longrightarrow>
        (\<forall>f \<in> set fs. py_eq (get_dotted (la_payload (?a ''{{u.yml}}'')) f) (get_dotted (la_payload (?a ''m'')) f)))) = False"
    by (simp add: demo_asset_def KQL_FIELDS_BY_ASSET_def get_dotted_def)
  then have "compute_snippet_digest demo_hash (?a ''{{u.yml}}'') (?a ''m'') \<noteq> None"
    using snippet_digest_commits[of "?a ''{{u.yml}}''" "?a ''{{u.yml}}''" demo_hash "?a ''m''"]
    by (simp add: demo_asset_def)
  then show ?thesis by blast
qed

end
