(* ===== verification/Config.thy ===== *)
theory Config
  imports Assets
begin

text \<open>
  The tenant configuration, \<open>contentops/config.py\<close>, and what the commands decide from it
  (\<open>contentops/cli/commands/_shared.py\<close>): workspace selection, the per-kind management mode, the
  filter on disabled engines and the resolution of a single workspace. Loading the file has one
  of the outcomes of \<open>load_outcome\<close>; the environment variable \<open>PIPELINE_WORKSPACE_NAME\<close> is an
  explicit argument.
\<close>

section \<open>Configuration\<close>

datatype role = Prod | Integration | Dev | Test

fun role_value :: "role \<Rightarrow> string" where
  "role_value Prod = ''prod''"
| "role_value Integration = ''integration''"
| "role_value Dev = ''dev''"
| "role_value Test = ''test''"

record safeguards =
  writeAllowed :: bool
  purgeAllowed :: bool
  maxDelete :: int
  assetModes :: "(string \<times> asset_mode) list"

definition default_safeguards :: safeguards where
  "default_safeguards = \<lparr>writeAllowed = True, purgeAllowed = False, maxDelete = 25, assetModes = []\<rparr>"

record workspace = safeguards +
  ws_role :: role
  primary :: bool
  subscriptionId :: string
  resourceGroup :: string
  workspaceName :: string
  location :: string
  playbooksResourceGroup :: "string option"

record defender = safeguards +
  enabled :: bool

record tenant =
  tenant_name :: string
  tenantId :: string
  tenant_defender :: "defender option"
  sentinelWorkspaces :: "workspace list"
  scaffoldStrict :: "bool option"
  alerts_block :: "bool option"

text \<open>\<open>s.casefold()\<close>. The micro sign folds to a letter outside Latin-1 that no other letter of
  Latin-1 folds to, so it stands for itself here.\<close>

definition casefold :: "string \<Rightarrow> string" where
  "casefold s = concat (map (\<lambda>c. if code c = 223 then ''ss'' else [lower_char c]) s)"

section \<open>Validation\<close>

definition valid_asset_modes :: "(string \<times> asset_mode) list \<Rightarrow> string \<Rightarrow> bool" where
  "valid_asset_modes modes pre \<longleftrightarrow>
     (\<forall>k \<in> set (dkeys modes). asset_of k \<noteq> None \<and> startswith k pre)"

definition valid_max_delete :: "'a safeguards_scheme \<Rightarrow> bool" where
  "valid_max_delete sg \<longleftrightarrow> 0 \<le> maxDelete sg \<and> maxDelete sg \<le> 9999"

definition valid_workspaces :: "workspace list \<Rightarrow> bool" where
  "valid_workspaces ws \<longleftrightarrow>
     distinct (map (\<lambda>w. casefold (workspaceName w)) ws) \<and>
     distinct (map (\<lambda>w. (subscriptionId w, resourceGroup w, workspaceName w)) ws) \<and>
     length (filter primary ws) \<le> 1"

definition valid_tenant :: "tenant \<Rightarrow> bool" where
  "valid_tenant t \<longleftrightarrow> valid_workspaces (sentinelWorkspaces t) \<and>
     (\<forall>w \<in> set (sentinelWorkspaces t). valid_asset_modes (assetModes w) ''sentinel_'' \<and> valid_max_delete w) \<and>
     (\<forall>d. tenant_defender t = Some d \<longrightarrow> valid_asset_modes (assetModes d) ''defender_'' \<and> valid_max_delete d)"

section \<open>Lookups\<close>

definition mode_of :: "'a safeguards_scheme \<Rightarrow> asset_kind \<Rightarrow> asset_mode" where
  "mode_of sg a = (case map_of (assetModes sg) (asset_value a) of
     Some m \<Rightarrow> m
   | None \<Rightarrow> (case map_of DEFAULT_ASSET_MODES a of Some m \<Rightarrow> m | None \<Rightarrow> Managed))"

definition is_scaffold_strict :: "tenant \<Rightarrow> bool" where
  "is_scaffold_strict t = (case scaffoldStrict t of None \<Rightarrow> False | Some b \<Rightarrow> b)"

definition is_alerts_enabled :: "tenant \<Rightarrow> bool" where
  "is_alerts_enabled t = (case alerts_block t of None \<Rightarrow> False | Some b \<Rightarrow> b)"

definition workspaces_for_role :: "tenant \<Rightarrow> role \<Rightarrow> workspace list" where
  "workspaces_for_role t r = filter (\<lambda>w. ws_role w = r) (sentinelWorkspaces t)"

datatype config_error =
    Mutually_exclusive
  | No_workspace_named string
  | Ambiguous
  | No_workspace_for_role

definition workspace_by_name :: "tenant \<Rightarrow> string \<Rightarrow> config_error + workspace" where
  "workspace_by_name t name =
    (case find (\<lambda>w. casefold (workspaceName w) = casefold name) (sentinelWorkspaces t) of
       Some w \<Rightarrow> Inr w
     | None \<Rightarrow> Inl (No_workspace_named name))"

definition defender_safeguards :: "tenant \<Rightarrow> safeguards" where
  "defender_safeguards t = (case tenant_defender t of
     None \<Rightarrow> default_safeguards
   | Some d \<Rightarrow> safeguards.truncate d)"

definition select_primary_workspace :: "tenant \<Rightarrow> role \<Rightarrow> config_error + workspace" where
  "select_primary_workspace t r =
    (case workspaces_for_role t r of
       [] \<Rightarrow> Inl No_workspace_for_role
     | c # cs \<Rightarrow> (case filter primary (c # cs) of p # _ \<Rightarrow> Inr p | [] \<Rightarrow> Inr c))"

definition select_workspaces :: "tenant \<Rightarrow> role option \<Rightarrow> string option \<Rightarrow> config_error + workspace list" where
  "select_workspaces t r name =
    (case (r, name) of
       (Some _, Some _) \<Rightarrow> Inl Mutually_exclusive
     | (None, Some n) \<Rightarrow> rbind (workspace_by_name t n) (\<lambda>w. Inr [w])
     | (Some x, None) \<Rightarrow> Inr (workspaces_for_role t x)
     | (None, None) \<Rightarrow>
         (if length (sentinelWorkspaces t) = 1 then Inr (sentinelWorkspaces t)
          else if sentinelWorkspaces t = [] then Inr []
          else Inl Ambiguous))"

section \<open>Decisions of the commands\<close>

datatype load_outcome =
    No_config                       \<comment> \<open>\<open>FileNotFoundError\<close>\<close>
  | Bad_config                      \<comment> \<open>any other exception of loading or validating\<close>
  | Loaded tenant

definition SENTINEL_ASSET_VALUES :: "string list" where
  "SENTINEL_ASSET_VALUES = filter (\<lambda>v. startswith v ''sentinel_'') (map asset_value all_assets)"

definition DEFENDER_ASSET_VALUES :: "string list" where
  "DEFENDER_ASSET_VALUES = filter (\<lambda>v. startswith v ''defender_'') (map asset_value all_assets)"

text \<open>\<open>asset_mode_for\<close>; \<open>None\<close> is a malformed configuration, whose exception propagates.\<close>

definition asset_mode_for ::
  "load_outcome \<Rightarrow> string option \<Rightarrow> asset_kind \<Rightarrow> string option \<Rightarrow> asset_mode option" where
  "asset_mode_for outcome env_name a name =
    (let fallback = (case map_of DEFAULT_ASSET_MODES a of Some m \<Rightarrow> m | None \<Rightarrow> Managed) in
     case outcome of
       No_config \<Rightarrow> Some fallback
     | Bad_config \<Rightarrow> None
     | Loaded t \<Rightarrow>
         (if asset_value a \<in> set DEFENDER_ASSET_VALUES then Some (mode_of (defender_safeguards t) a)
          else case (case name of Some n \<Rightarrow> (if n \<noteq> [] then Some n else env_name) | None \<Rightarrow> env_name) of
            Some (c # cs) \<Rightarrow>
              (case workspace_by_name t (c # cs) of
                 Inr w \<Rightarrow> Some (mode_of w a) | Inl _ \<Rightarrow> Some fallback)
          | _ \<Rightarrow>
              (case sentinelWorkspaces t of [w] \<Rightarrow> Some (mode_of w a) | _ \<Rightarrow> Some fallback)))"

definition engine_enabled :: "tenant \<Rightarrow> asset_kind \<Rightarrow> bool" where
  "engine_enabled t a \<longleftrightarrow>
     \<not> (sentinelWorkspaces t = [] \<and> asset_value a \<in> set SENTINEL_ASSET_VALUES) \<and>
     \<not> ((case tenant_defender t of None \<Rightarrow> True | Some d \<Rightarrow> \<not> enabled d) \<and>
        asset_value a \<in> set DEFENDER_ASSET_VALUES)"

text \<open>\<open>_filter_disabled_engines\<close> over anything that has a kind.\<close>

definition filter_disabled_engines :: "load_outcome \<Rightarrow> ('a \<Rightarrow> asset_kind) \<Rightarrow> 'a list \<Rightarrow> 'a list option" where
  "filter_disabled_engines outcome kind_of loaded =
    (case outcome of
       No_config \<Rightarrow> Some loaded
     | Bad_config \<Rightarrow> None
     | Loaded t \<Rightarrow> Some (filter (\<lambda>la. engine_enabled t (kind_of la)) loaded))"

text \<open>\<open>_resolve_single_workspace_or_exit\<close>: the exit code, or the variable left behind.\<close>

datatype resolution = Exit nat | Crash | Env "string option"

definition resolve_single_workspace ::
  "load_outcome \<Rightarrow> string option \<Rightarrow> role option \<Rightarrow> string option \<Rightarrow> role option \<Rightarrow> resolution" where
  "resolve_single_workspace outcome env_name r name default_role =
    (if r = None \<and> name = None \<and> default_role = None then Env env_name
     else let explicit = (r \<noteq> None \<or> name \<noteq> None) in
     case outcome of
       No_config \<Rightarrow> (if explicit then Exit 2 else Env env_name)
     | Bad_config \<Rightarrow> Crash
     | Loaded t \<Rightarrow>
         (if sentinelWorkspaces t = [] then Env env_name
          else let eff = (if \<not> explicit \<and> default_role \<noteq> None \<and> 1 < length (sentinelWorkspaces t)
                          then default_role else r) in
          case select_workspaces t eff name of
            Inl _ \<Rightarrow> Exit 2
          | Inr [] \<Rightarrow> (if explicit then Exit 2 else Env env_name)
          | Inr [w] \<Rightarrow> Env (Some (workspaceName w))
          | Inr _ \<Rightarrow> Exit 2))"

definition skip_if_integration_role_absent ::
  "load_outcome \<Rightarrow> role option \<Rightarrow> string option \<Rightarrow> bool" where
  "skip_if_integration_role_absent outcome r name =
    (if r \<noteq> Some Integration \<or> (name \<noteq> None \<and> name \<noteq> Some []) then False
     else case outcome of Loaded t \<Rightarrow> workspaces_for_role t Integration = [] | _ \<Rightarrow> False)"

section \<open>Lemmas\<close>

lemma engine_partition:
  "asset_value a \<in> set SENTINEL_ASSET_VALUES \<longleftrightarrow> asset_value a \<notin> set DEFENDER_ASSET_VALUES"
  by (cases a) (simp_all add: SENTINEL_ASSET_VALUES_def DEFENDER_ASSET_VALUES_def all_assets_def
      startswith_def)

lemma find_distinct:
  "distinct (map f xs) \<Longrightarrow> x \<in> set xs \<Longrightarrow> find (\<lambda>y. f y = f x) xs = Some x"
  by (induction xs) auto

lemma workspace_by_name_own:
  "valid_tenant t \<Longrightarrow> w \<in> set (sentinelWorkspaces t) \<Longrightarrow> casefold n = casefold (workspaceName w) \<Longrightarrow>
   workspace_by_name t n = Inr w"
  using find_distinct[of "\<lambda>w. casefold (workspaceName w)" "sentinelWorkspaces t" w]
  by (simp add: workspace_by_name_def valid_tenant_def valid_workspaces_def)

lemma workspace_by_name_Inr:
  "workspace_by_name t n = Inr w \<Longrightarrow> w \<in> set (sentinelWorkspaces t) \<and> casefold (workspaceName w) = casefold n"
  by (auto simp: workspace_by_name_def find_Some_iff split: option.splits)

lemma select_workspaces_cases:
  assumes "select_workspaces t r name = Inr ws"
  obtains
    (role) x where "r = Some x" "name = None" "ws = workspaces_for_role t x"
  | (named) n w where "r = None" "name = Some n" "ws = [w]" "w \<in> set (sentinelWorkspaces t)"
      "casefold (workspaceName w) = casefold n"
  | (implicit) "r = None" "name = None" "ws = sentinelWorkspaces t" "length ws \<le> 1"
  using assms workspace_by_name_Inr[of t]
  by (cases r; cases name) (auto simp: select_workspaces_def rbind_Inr_iff split: if_splits)

section \<open>Instances\<close>

definition demo_workspace :: workspace where
  "demo_workspace = \<lparr>writeAllowed = True, purgeAllowed = False, maxDelete = 25,
     assetModes = [(''sentinel_playbook'', Managed)], ws_role = Prod, primary = False,
     subscriptionId = ''s'', resourceGroup = ''g'', workspaceName = ''Main'', location = ''l'',
     playbooksResourceGroup = None\<rparr>"

definition demo_tenant :: tenant where
  "demo_tenant = \<lparr>tenant_name = ''t'', tenantId = ''i'', tenant_defender = None,
     sentinelWorkspaces = [demo_workspace], scaffoldStrict = None, alerts_block = None\<rparr>"

lemma demo_tenant_valid: "valid_tenant demo_tenant"
  by (simp add: valid_tenant_def valid_workspaces_def valid_asset_modes_def valid_max_delete_def
      demo_tenant_def demo_workspace_def dkeys_def asset_of_def all_assets_def startswith_def)

section \<open>Properties\<close>

text \<open>
  In a validated tenant a workspace is found by its name in any case and by nothing else, the
  selection of a run holds only configured workspaces of the asked role or name, and a run without
  a selector never picks among several.
\<close>

theorem select_workspaces_exact:
  assumes "valid_tenant t"
  shows "(\<forall>w \<in> set (sentinelWorkspaces t). \<forall>n. casefold n = casefold (workspaceName w) \<longrightarrow>
      select_workspaces t None (Some n) = Inr [w]) \<and>
    (\<forall>r name ws. select_workspaces t r name = Inr ws \<longrightarrow> set ws \<subseteq> set (sentinelWorkspaces t) \<and>
      (\<forall>x. r = Some x \<longrightarrow> ws = filter (\<lambda>w. ws_role w = x) (sentinelWorkspaces t)) \<and>
      (r = None \<longrightarrow> name = None \<longrightarrow> length ws \<le> 1 \<and> ws = sentinelWorkspaces t))"
proof (intro conjI ballI allI impI)
  fix w n assume "w \<in> set (sentinelWorkspaces t)" "casefold n = casefold (workspaceName w)"
  then show "select_workspaces t None (Some n) = Inr [w]"
    using workspace_by_name_own[OF assms] by (simp add: select_workspaces_def)
next
  fix r name ws assume s: "select_workspaces t r name = Inr ws"
  show "set ws \<subseteq> set (sentinelWorkspaces t)"
    using s by (cases rule: select_workspaces_cases) (auto simp: workspaces_for_role_def)
  show "ws = filter (\<lambda>w. ws_role w = x) (sentinelWorkspaces t)" if "r = Some x" for x
    using s that by (cases rule: select_workspaces_cases) (auto simp: workspaces_for_role_def)
  assume "r = None" "name = None"
  then show "length ws \<le> 1" "ws = sentinelWorkspaces t"
    using s by (auto elim: select_workspaces_cases)
qed

theorem select_workspaces_exact_witness:
  "select_workspaces demo_tenant None (Some ''MAIN'') = Inr [demo_workspace]"
proof -
  have "casefold ''MAIN'' = casefold (workspaceName demo_workspace)" "demo_workspace \<in> set (sentinelWorkspaces demo_tenant)"
    by (code_simp, simp add: demo_tenant_def)
  then show ?thesis using select_workspaces_exact[OF demo_tenant_valid] by blast
qed

text \<open>
  The single-workspace commands never guess: when the resolution binds a workspace the operator
  named it, or its role has exactly one workspace, or a caller's default role does, or it is the
  only one, and otherwise the variable is left as it was.
\<close>

theorem resolve_single_workspace_sound:
  assumes "resolve_single_workspace (Loaded t) env_name r name default_role = Env e"
  shows "e = env_name \<or> (\<exists>w \<in> set (sentinelWorkspaces t). e = Some (workspaceName w) \<and>
    (sentinelWorkspaces t = [w] \<or> (\<exists>n. name = Some n \<and> casefold (workspaceName w) = casefold n) \<or>
     (\<exists>x. (r = Some x \<or> (r = None \<and> default_role = Some x)) \<and> workspaces_for_role t x = [w])))"
proof -
  let ?eff = "if r = None \<and> name = None \<and> default_role \<noteq> None \<and> 1 < length (sentinelWorkspaces t)
    then default_role else r"
  have "e = env_name \<or> (\<exists>w. select_workspaces t ?eff name = Inr [w] \<and> e = Some (workspaceName w))"
    using assms
    by (auto simp: resolve_single_workspace_def Let_def split: if_splits sum.splits list.splits)
  then show ?thesis
  proof
    assume "\<exists>w. select_workspaces t ?eff name = Inr [w] \<and> e = Some (workspaceName w)"
    then obtain w where w: "select_workspaces t ?eff name = Inr [w]" "e = Some (workspaceName w)" by blast
    from w(1) show ?thesis
    proof (cases rule: select_workspaces_cases)
      case (role x)
      then have "w \<in> set (workspaces_for_role t x)" by (metis list.set_intros(1))
      then have "w \<in> set (sentinelWorkspaces t)" by (simp add: workspaces_for_role_def)
      moreover have "r = Some x \<or> (r = None \<and> default_role = Some x)"
        using role(1) by (simp split: if_splits)
      ultimately show ?thesis using w(2) role(3)[symmetric] by blast
    next
      case (named n v)
      then show ?thesis using w(2) by auto
    next
      case implicit
      then have "sentinelWorkspaces t = [w]" by simp
      then show ?thesis using w(2) by simp
    qed
  qed blast
qed

theorem resolve_single_workspace_sound_witness:
  "resolve_single_workspace (Loaded demo_tenant) None (Some Prod) None None = Env (Some ''Main'') \<and>
   (\<exists>w \<in> set (sentinelWorkspaces demo_tenant). workspaceName w = ''Main'')"
proof -
  have r: "resolve_single_workspace (Loaded demo_tenant) None (Some Prod) None None = Env (Some ''Main'')"
    by (simp add: resolve_single_workspace_def select_workspaces_def workspaces_for_role_def
        demo_tenant_def demo_workspace_def)
  with resolve_single_workspace_sound[OF r] show ?thesis by auto
qed

text \<open>
  A kind that the configuration does not name is only ever managed if it is detection content:
  without an explicit entry, whatever the configuration and the selected workspace, automation
  rules and playbooks are in monitor mode.
\<close>

theorem support_kinds_default_to_monitor:
  assumes "a \<in> set NON_DETECTION_ASSETS" and "asset_mode_for outcome env_name a name = Some Managed"
  shows "\<exists>t w. outcome = Loaded t \<and> w \<in> set (sentinelWorkspaces t) \<and>
    map_of (assetModes w) (asset_value a) = Some Managed"
proof -
  have d: "map_of DEFAULT_ASSET_MODES a = Some Monitor" using assms(1) by (simp add: default_modes_cover)
  have nd: "asset_value a \<notin> set DEFENDER_ASSET_VALUES"
    using assms(1) by (auto simp: NON_DETECTION_ASSETS_def DEFENDER_ASSET_VALUES_def all_assets_def startswith_def)
  have mode: "mode_of w a = Managed \<Longrightarrow> map_of (assetModes w) (asset_value a) = Some Managed" for w :: workspace
    by (auto simp: mode_of_def d split: option.splits)
  from assms(2) nd d obtain t w where "outcome = Loaded t" "mode_of w a = Managed"
      "w \<in> set (sentinelWorkspaces t)"
    by (auto simp: asset_mode_for_def Let_def dest: workspace_by_name_Inr
        split: load_outcome.splits option.splits list.splits sum.splits if_splits)
  with mode show ?thesis by blast
qed

theorem support_kinds_default_to_monitor_witness:
  "asset_mode_for (Loaded demo_tenant) None SENTINEL_PLAYBOOK (Some ''main'') = Some Managed \<and>
   (\<exists>w \<in> set (sentinelWorkspaces demo_tenant). map_of (assetModes w) ''sentinel_playbook'' = Some Managed)"
proof -
  have m: "asset_mode_for (Loaded demo_tenant) None SENTINEL_PLAYBOOK (Some ''main'') = Some Managed" by code_simp
  have "SENTINEL_PLAYBOOK \<in> set NON_DETECTION_ASSETS" by (simp add: NON_DETECTION_ASSETS_def)
  from support_kinds_default_to_monitor[OF this m] m show ?thesis by auto
qed

end
