(* ===== verification/Dependencies.thy ===== *)
theory Dependencies
  imports Discovery
begin

text \<open>
  Prerequisites between assets, \<open>contentops/core/dependencies.py\<close>, with the references an
  automation rule makes implicitly (\<open>analytic_refs\<close> and \<open>playbook_refs\<close> of
  \<open>handlers/sentinel_automation_rule_models.py\<close>). \<open>None\<close> is the \<open>AttributeError\<close> or \<open>TypeError\<close>
  that a payload of the wrong shape raises.
\<close>

section \<open>References in an automation rule\<close>

text \<open>\<open>d.get(k) or {}\<close> used as a mapping, and \<open>d.get(k) or []\<close> used in a loop.\<close>

definition sub_dict :: "pydict \<Rightarrow> string \<Rightarrow> pydict option" where
  "sub_dict d k = (let v = dget d k in
     if \<not> truthy v then Some [] else case v of PDict e \<Rightarrow> Some e | _ \<Rightarrow> None)"

definition sub_items :: "pydict \<Rightarrow> string \<Rightarrow> pyval list option" where
  "sub_items d k = (let v = dget d k in
     if \<not> truthy v then Some []
     else case v of
       PList xs \<Rightarrow> Some xs
     | PDict e \<Rightarrow> Some (map (\<lambda>p. PStr (fst p)) e)
     | PStr s \<Rightarrow> Some (map (\<lambda>c. PStr [c]) s)
     | _ \<Rightarrow> None)"

definition ANALYTIC_REF_PREFIX :: string where
  "ANALYTIC_REF_PREFIX = ''analytic:''"

definition ANALYTIC_RULE_ID_PROPERTIES :: "string list" where
  "ANALYTIC_RULE_ID_PROPERTIES = [''IncidentRelatedAnalyticRuleIds'', ''AlertAnalyticRuleIds'']"

text \<open>\<open>v in frozenset\<close>: unhashable values raise.\<close>

definition names_rule_ids :: "pyval \<Rightarrow> bool option" where
  "names_rule_ids v = (case v of
     PStr s \<Rightarrow> Some (s \<in> set ANALYTIC_RULE_ID_PROPERTIES)
   | PList _ \<Rightarrow> None | PDict _ \<Rightarrow> None | _ \<Rightarrow> Some False)"

definition ref_of :: "string \<Rightarrow> pyval \<Rightarrow> string list" where
  "ref_of pre v = (case v of
     PStr s \<Rightarrow> (if startswith s pre then [drop (length pre) s] else []) | _ \<Rightarrow> [])"

text \<open>
  \<open>_walk\<close>: a condition's own references, then those of its nested conditions. The nesting
  strictly descends into the value, so the fuel \<open>size cond\<close> is enough.
\<close>

fun walk_cond :: "nat \<Rightarrow> pydict \<Rightarrow> string list option"
and walk_conds :: "nat \<Rightarrow> pyval list \<Rightarrow> string list option" where
  "walk_cond 0 cond = None"
| "walk_cond (Suc n) cond =
    (let pv = dget cond ''conditionProperties'' in
     if \<not> truthy pv then Some []
     else case pv of
       PDict props \<Rightarrow>
         Option.bind (names_rule_ids (dget props ''propertyName'')) (\<lambda>own.
         Option.bind (if own then sub_items props ''propertyValues'' else Some []) (\<lambda>vs.
         Option.bind (sub_items props ''innerConditions'') (\<lambda>inner.
         Option.bind (walk_conds n inner) (\<lambda>r1.
         Option.bind (sub_items props ''itemConditions'') (\<lambda>items.
         Option.bind (walk_conds n items) (\<lambda>r2.
           Some (concat (map (ref_of ANALYTIC_REF_PREFIX) vs) @ r1 @ r2)))))))
     | _ \<Rightarrow> Some [])"
| "walk_conds n [] = Some []"
| "walk_conds n (c # cs) =
    (case c of
       PDict d \<Rightarrow> Option.bind (walk_cond n d) (\<lambda>r. map_option ((@) r) (walk_conds n cs))
     | _ \<Rightarrow> walk_conds n cs)"

definition analytic_refs :: "pydict \<Rightarrow> string list option" where
  "analytic_refs payload =
    Option.bind (sub_dict payload ''triggeringLogic'') (\<lambda>tl.
    Option.bind (sub_items tl ''conditions'') (\<lambda>cs. walk_conds (Suc (size (PDict payload))) cs))"

fun playbook_refs_of :: "pyval list \<Rightarrow> string list" where
  "playbook_refs_of [] = []"
| "playbook_refs_of (a # as) = (case a of
     PDict action \<Rightarrow>
       (if py_eq (dget action ''actionType'') (PStr ''RunPlaybook'')
        then (case dget action ''actionConfiguration'' of
                PDict cfg \<Rightarrow> (if truthy (dget cfg ''playbook'')
                             then [py_str (dget cfg ''playbook'')] else [])
              | _ \<Rightarrow> []) @ playbook_refs_of as
        else playbook_refs_of as)
   | _ \<Rightarrow> playbook_refs_of as)"

definition playbook_refs :: "pydict \<Rightarrow> string list option" where
  "playbook_refs payload = map_option playbook_refs_of (sub_items payload ''actions'')"

section \<open>The graph and the validator\<close>

record asset_deps =
  d_tables :: "string list"
  d_watchlists :: "string list"
  d_parsers :: "string list"
  d_detections :: "string list"
  d_playbooks :: "string list"
  d_external :: "string list"

definition no_deps :: asset_deps where
  "no_deps = \<lparr>d_tables = [], d_watchlists = [], d_parsers = [], d_detections = [],
     d_playbooks = [], d_external = []\<rparr>"

type_synonym dep_graph = "(string \<times> asset_deps) list"

definition for_asset :: "dep_graph \<Rightarrow> string \<Rightarrow> asset_deps" where
  "for_asset g i = (case map_of g i of None \<Rightarrow> no_deps | Some d \<Rightarrow> d)"

datatype missing_kind = M_watchlist | M_parser | M_detection | M_playbook | M_analytic

record violation =
  v_asset :: string
  v_kind :: missing_kind
  v_name :: string

record dep_report =
  violations :: "violation list"
  info_tables :: "(string \<times> string list) list"
  info_external :: "(string \<times> string list) list"

definition report_ok :: "dep_report \<Rightarrow> bool" where
  "report_ok r \<longleftrightarrow> violations r = []"

text \<open>The five indexes built in one pass: watchlists, parsers, all ids, playbooks, analytics.\<close>

record dep_index =
  ix_watchlists :: "string list"
  ix_parsers :: "string list"
  ix_all :: "string list"
  ix_playbooks :: "string list"
  ix_analytics :: "string list"

definition index_step :: "loaded_asset \<Rightarrow> dep_index \<Rightarrow> dep_index" where
  "index_step la ix =
    (let i = env_id (la_envelope la); k = kind (la_envelope la);
         ix = ix\<lparr>ix_all := List.insert i (ix_all ix)\<rparr>
     in if k = SENTINEL_WATCHLIST then ix\<lparr>ix_watchlists := List.insert i (ix_watchlists ix)\<rparr>
        else if k = SENTINEL_PARSER then ix\<lparr>ix_parsers := List.insert i (ix_parsers ix)\<rparr>
        else if k = SENTINEL_PLAYBOOK then ix\<lparr>ix_playbooks := List.insert i (ix_playbooks ix)\<rparr>
        else if k = SENTINEL_ANALYTIC then ix\<lparr>ix_analytics := List.insert i (ix_analytics ix)\<rparr>
        else ix)"

definition index_by_asset :: "loaded_asset list \<Rightarrow> dep_index" where
  "index_by_asset loaded = fold index_step loaded
     \<lparr>ix_watchlists = [], ix_parsers = [], ix_all = [], ix_playbooks = [], ix_analytics = []\<rparr>"

definition missing :: "string \<Rightarrow> missing_kind \<Rightarrow> string list \<Rightarrow> string list \<Rightarrow> violation list" where
  "missing i k names known =
     map (\<lambda>n. \<lparr>v_asset = i, v_kind = k, v_name = n\<rparr>) (filter (\<lambda>n. n \<notin> set known) names)"

definition asset_violations :: "dep_graph \<Rightarrow> dep_index \<Rightarrow> loaded_asset \<Rightarrow> violation list option" where
  "asset_violations g ix la =
    (let i = env_id (la_envelope la); deps = for_asset g i;
         declared = missing i M_watchlist (d_watchlists deps) (ix_watchlists ix) @
           missing i M_parser (d_parsers deps) (ix_parsers ix) @
           missing i M_detection (d_detections deps) (ix_all ix) @
           missing i M_playbook (d_playbooks deps) (ix_playbooks ix)
     in if kind (la_envelope la) \<noteq> SENTINEL_AUTOMATION_RULE then Some declared
        else case la_payload la of
          PDict p \<Rightarrow>
            Option.bind (playbook_refs p) (\<lambda>pbs. Option.bind (analytic_refs p) (\<lambda>ans.
              Some (declared @ missing i M_playbook pbs (ix_playbooks ix) @
                    missing i M_analytic ans (ix_analytics ix))))
        | _ \<Rightarrow> None)"

fun validate_loop ::
  "dep_graph \<Rightarrow> dep_index \<Rightarrow> loaded_asset list \<Rightarrow> dep_report \<Rightarrow> dep_report option" where
  "validate_loop g ix [] r = Some r"
| "validate_loop g ix (la # las) r =
    (let i = env_id (la_envelope la); deps = for_asset g i in
     Option.bind (asset_violations g ix la) (\<lambda>vs.
       validate_loop g ix las
         \<lparr>violations = violations r @ vs,
          info_tables = (if d_tables deps \<noteq> [] then dset i (d_tables deps) (info_tables r)
                         else info_tables r),
          info_external = (if d_external deps \<noteq> [] then dset i (d_external deps) (info_external r)
                           else info_external r)\<rparr>))"

definition validate :: "loaded_asset list \<Rightarrow> dep_graph \<Rightarrow> dep_report option" where
  "validate loaded g = validate_loop g (index_by_asset loaded) loaded
     \<lparr>violations = [], info_tables = [], info_external = []\<rparr>"

section \<open>The fuel is enough\<close>

lemma size_PList: "x \<in> set xs \<Longrightarrow> size x < size (PList xs)"
  by (auto dest!: size_list_estimation'[of _ _ _ size, OF _ le_refl])

lemma size_dget: "dget d k = v \<Longrightarrow> v \<noteq> PNone \<Longrightarrow> size v < size (PDict d)"
proof -
  assume "dget d k = v" "v \<noteq> PNone"
  then have "(k, v) \<in> set d" by (auto simp: dget_def dest: map_of_SomeD split: option.splits)
  moreover have "size v \<le> size_prod (\<lambda>_. 0) size (k, v)" by simp
  ultimately have "size v \<le> size_list (size_prod (\<lambda>_. 0) size) d"
    by (meson size_list_estimation' le_refl order_trans)
  then show ?thesis by simp
qed

lemma sub_items_size:
  assumes "sub_items d k = Some xs" and "PDict e \<in> set xs"
  shows "size (PDict e) < size (PDict d)"
proof -
  from assms have v: "dget d k = PList xs"
    by (auto simp: sub_items_def Let_def split: if_splits pyval.splits)
  then have "size (PList xs) < size (PDict d)" by (rule size_dget) simp
  then show ?thesis using size_PList[OF assms(2)] by linarith
qed

lemma walk_conds_cong:
  "(\<And>d. PDict d \<in> set cs \<Longrightarrow> walk_cond m d = walk_cond n d) \<Longrightarrow> walk_conds m cs = walk_conds n cs"
  by (induction cs) (auto split: pyval.splits)

lemma walk_cond_fuel: "size (PDict cond) \<le> n \<Longrightarrow> walk_cond (Suc n) cond = walk_cond n cond"
proof (induction n arbitrary: cond)
  case (Suc n)
  show ?case
  proof (cases "dget cond ''conditionProperties''")
    case (PDict props)
    have p: "size (PDict props) < size (PDict cond)" using PDict by (rule size_dget) simp
    have "walk_conds (Suc n) xs = walk_conds n xs" if "sub_items props k = Some xs" for xs k
    proof (rule walk_conds_cong)
      fix d assume "PDict d \<in> set xs"
      then have "size (PDict d) \<le> n" using sub_items_size[OF that] p Suc.prems by fastforce
      then show "walk_cond (Suc n) d = walk_cond n d" by (rule Suc.IH)
    qed
    then show ?thesis
      unfolding walk_cond.simps(2) PDict
      by (auto simp: Let_def split: option.splits intro!: Option.bind_cong)
  qed (simp_all add: Let_def)
qed simp

text \<open>With the fuel given by \<open>analytic_refs\<close>, more fuel changes nothing.\<close>

lemma analytic_refs_fuel:
  assumes "size (PDict payload) \<le> m"
  shows "analytic_refs payload = Option.bind (sub_dict payload ''triggeringLogic'') (\<lambda>tl.
    Option.bind (sub_items tl ''conditions'') (\<lambda>cs. walk_conds m cs))"
proof -
  have more: "walk_cond (n + k) d = walk_cond n d" if "size (PDict d) \<le> n" for n k d
    proof (induction k)
    case (Suc k)
    have "walk_cond (Suc (n + k)) d = walk_cond (n + k) d" using that by (intro walk_cond_fuel) simp
    with Suc show ?case by (simp only: add_Suc_right)
  qed (simp only: add_0_right)
  have "walk_conds (Suc (size (PDict payload))) cs = walk_conds m cs"
    if "sub_dict payload ''triggeringLogic'' = Some tl" "sub_items tl ''conditions'' = Some cs" for tl cs
  proof (rule walk_conds_cong)
    fix d assume d: "PDict d \<in> set cs"
    have "tl = [] \<or> dget payload ''triggeringLogic'' = PDict tl"
      using that(1) by (auto simp: sub_dict_def Let_def split: if_splits pyval.splits)
    then have "size (PDict tl) \<le> size (PDict payload)"
      using size_dget[of payload _ "PDict tl"] by (auto intro: less_imp_le)
    then have "size (PDict d) \<le> size (PDict payload)" using sub_items_size[OF that(2) d] by linarith
    note le = this
    obtain k where "m = size (PDict payload) + k" using assms le_Suc_ex by blast
    then show "walk_cond (Suc (size (PDict payload))) d = walk_cond m d"
      using more[OF le, of k] walk_cond_fuel[OF le] by (simp only:)
  qed
  then show ?thesis unfolding analytic_refs_def by (intro Option.bind_cong refl)
qed

section \<open>What the report says\<close>

definition ids_of :: "asset_kind \<Rightarrow> loaded_asset list \<Rightarrow> string set" where
  "ids_of k loaded = {i. \<exists>la \<in> set loaded. kind (la_envelope la) = k \<and> env_id (la_envelope la) = i}"

lemma index_fold:
  "set (ix_watchlists (fold index_step loaded ix)) = set (ix_watchlists ix) \<union> ids_of SENTINEL_WATCHLIST loaded"
  "set (ix_parsers (fold index_step loaded ix)) = set (ix_parsers ix) \<union> ids_of SENTINEL_PARSER loaded"
  "set (ix_playbooks (fold index_step loaded ix)) = set (ix_playbooks ix) \<union> ids_of SENTINEL_PLAYBOOK loaded"
  "set (ix_analytics (fold index_step loaded ix)) = set (ix_analytics ix) \<union> ids_of SENTINEL_ANALYTIC loaded"
  "set (ix_all (fold index_step loaded ix)) = set (ix_all ix) \<union> (\<lambda>la. env_id (la_envelope la)) ` set loaded"
  by (induction loaded arbitrary: ix) (auto simp: index_step_def ids_of_def Let_def)

lemmas index_sets = index_fold[of _ "\<lparr>ix_watchlists = [], ix_parsers = [], ix_all = [],
  ix_playbooks = [], ix_analytics = []\<rparr>", folded index_by_asset_def, simplified]

lemma missing_Nil: "missing i k names known = [] \<longleftrightarrow> set names \<subseteq> set known"
  by (auto simp: missing_def filter_empty_conv)

text \<open>The prerequisites of an asset are all met by the load set.\<close>

definition prerequisites_met :: "dep_graph \<Rightarrow> loaded_asset list \<Rightarrow> loaded_asset \<Rightarrow> bool" where
  "prerequisites_met g loaded la \<longleftrightarrow>
    (let deps = for_asset g (env_id (la_envelope la)) in
     set (d_watchlists deps) \<subseteq> ids_of SENTINEL_WATCHLIST loaded \<and>
     set (d_parsers deps) \<subseteq> ids_of SENTINEL_PARSER loaded \<and>
     set (d_detections deps) \<subseteq> (\<lambda>l. env_id (la_envelope l)) ` set loaded \<and>
     set (d_playbooks deps) \<subseteq> ids_of SENTINEL_PLAYBOOK loaded \<and>
     (kind (la_envelope la) = SENTINEL_AUTOMATION_RULE \<longrightarrow>
       (\<exists>p pbs ans. la_payload la = PDict p \<and> playbook_refs p = Some pbs \<and> analytic_refs p = Some ans \<and>
          set pbs \<subseteq> ids_of SENTINEL_PLAYBOOK loaded \<and> set ans \<subseteq> ids_of SENTINEL_ANALYTIC loaded)))"

lemma asset_violations_Nil:
  "asset_violations g (index_by_asset loaded) la = Some [] \<longleftrightarrow> prerequisites_met g loaded la"
  by (auto simp: asset_violations_def prerequisites_met_def Let_def missing_Nil index_sets
      bind_eq_Some_conv split: pyval.splits)

lemma validate_loop_violations:
  "validate_loop g ix las r = Some r' \<Longrightarrow>
    violations r' = violations r @ concat (map (\<lambda>la. the (asset_violations g ix la)) las) \<and>
    (\<forall>la \<in> set las. asset_violations g ix la \<noteq> None)"
proof (induction g ix las r rule: validate_loop.induct)
  case (2 g ix la las r)
  then show ?case by (auto simp: Let_def bind_eq_Some_conv)
qed simp

section \<open>Properties\<close>

text \<open>
  C8. The dependency report is clean exactly when every declared watchlist, parser, detection and
  playbook, and every playbook and analytic an automation rule refers to, is an id of the right
  kind in the load set.
\<close>

theorem validate_exact:
  assumes "validate loaded g = Some r"
  shows "report_ok r \<longleftrightarrow> (\<forall>la \<in> set loaded. prerequisites_met g loaded la)"
proof -
  let ?v = "asset_violations g (index_by_asset loaded)"
  have "violations r = concat (map (\<lambda>la. the (?v la)) loaded)" "\<forall>la \<in> set loaded. ?v la \<noteq> None"
    using validate_loop_violations assms unfolding validate_def by force+
  then have "report_ok r \<longleftrightarrow> (\<forall>la \<in> set loaded. ?v la = Some [])"
    by (fastforce simp: report_ok_def)
  then show ?thesis by (simp add: asset_violations_Nil)
qed

theorem validate_exact_witness:
  "\<exists>r. validate [demo_asset SENTINEL_ANALYTIC ''a'' ''test'' (PDict [])]
        [(''a'', no_deps\<lparr>d_watchlists := [''w'']\<rparr>)] = Some r \<and> \<not> report_ok r"
proof -
  let ?l = "[demo_asset SENTINEL_ANALYTIC ''a'' ''test'' (PDict [])]"
  let ?g = "[(''a'', no_deps\<lparr>d_watchlists := [''w'']\<rparr>)]"
  obtain r where r: "validate ?l ?g = Some r"
    by (simp add: validate_def asset_violations_def demo_asset_def Let_def)
  have "\<not> prerequisites_met ?g ?l (hd ?l)"
    by (simp add: prerequisites_met_def demo_asset_def for_asset_def ids_of_def)
  then have "\<not> report_ok r" using validate_exact[OF r] by simp
  with r show ?thesis by blast
qed

end
