(* ===== verification/Apply_Support.thy ===== *)
theory Apply_Support
  imports Results Config Dependencies Envelope
begin

text \<open>
  The shared parts of plan and apply, \<open>contentops/cli/commands/apply_support.py\<close>, with the handler
  registration of \<open>contentops/cli/handler_factories.py\<close>: loading and filtering the assets, the
  write safeguard, the gates, and the loop over workspaces. A handler is what the registry holds
  for a kind: its \<open>validate\<close>, \<open>plan\<close> and \<open>apply\<close> are parameters, for the workspace they are bound
  to, and \<open>apply\<close> acts on a \<open>world\<close> (the tenant) of any type. Messages printed to the terminal are
  not modelled; a text that an exception carries is a parameter.
\<close>

section \<open>Handlers and the run\<close>

record 'w handler_ops =
  h_validate :: "loaded_asset \<Rightarrow> string option"
  h_plan :: "loaded_asset \<Rightarrow> string + action_result"
  h_apply :: "loaded_asset \<Rightarrow> bool \<Rightarrow> 'w \<Rightarrow> (string + action_result) \<times> 'w"

record 'w apply_env =
  e_outcome :: load_outcome
  e_registered :: "asset_kind list"
  e_ops :: "string option \<Rightarrow> asset_kind \<Rightarrow> 'w handler_ops"
  e_yload :: "string \<Rightarrow> pyval option"
  e_to_int :: "pyval \<Rightarrow> int option"
  e_detections :: repo
  e_overrides :: repo
  e_root :: path
  e_changed :: "string \<Rightarrow> path list option"
  e_graph :: dep_graph
  e_hash :: "string \<Rightarrow> string"
  e_snippet_msg :: "snippet_error \<Rightarrow> string"
  e_mode_msg :: "asset_kind \<Rightarrow> string"
  e_config_msg :: string

record 'w run_ctx =
  results :: "action_result list"
  audit_pairs :: "audit_pair list"
  mode_cache :: "((string option \<times> asset_kind) \<times> asset_mode) list"
  pipeline_ws :: "string option"
  world :: 'w

section \<open>Registration\<close>

definition disabled_kinds :: "string \<Rightarrow> asset_kind list option" where
  "disabled_kinds raw = those (map asset_of (filter (\<lambda>t. t \<noteq> []) (map strip (split_on (CHR '','') raw))))"

text \<open>The kinds a fresh process registers; \<open>None\<close> is a configuration error.\<close>

definition register_default_handlers :: "load_outcome \<Rightarrow> string \<Rightarrow> asset_kind list option" where
  "register_default_handlers outcome raw =
    (case outcome of
       Bad_config \<Rightarrow> None
     | _ \<Rightarrow>
       (let sen = (case outcome of Loaded t \<Rightarrow> sentinelWorkspaces t \<noteq> [] | _ \<Rightarrow> True);
            def = (case outcome of Loaded t \<Rightarrow>
                     (case tenant_defender t of None \<Rightarrow> False | Some d \<Rightarrow> enabled d) | _ \<Rightarrow> True)
        in map_option (\<lambda>off.
             (if sen then [SENTINEL_ANALYTIC] else []) @
             (if def then [DEFENDER_CUSTOM_DETECTION] else []) @
             (if sen then [SENTINEL_HUNTING, SENTINEL_WATCHLIST, SENTINEL_PARSER, SENTINEL_DATA_CONNECTOR]
              else []) @
             (if sen \<and> SENTINEL_PLAYBOOK \<notin> set off then [SENTINEL_PLAYBOOK] else []) @
             (if sen \<and> SENTINEL_AUTOMATION_RULE \<notin> set off then [SENTINEL_AUTOMATION_RULE] else []))
           (disabled_kinds raw)))"

section \<open>Loading and gates\<close>

definition la_kind :: "loaded_asset \<Rightarrow> asset_kind" where
  "la_kind la = kind (la_envelope la)"

definition la_id :: "loaded_asset \<Rightarrow> string" where
  "la_id la = env_id (la_envelope la)"

definition is_defender :: "loaded_asset \<Rightarrow> bool" where
  "is_defender la = startswith (asset_value (la_kind la)) ''defender_''"

text \<open>\<open>None\<close>: the git look-up or the configuration raised.\<close>

definition load_assets_for_run ::
  "'w apply_env \<Rightarrow> asset_kind option \<Rightarrow> string option \<Rightarrow> loaded_asset list option" where
  "load_assets_for_run E target since =
    (let loaded = fst (iter_loaded_assets (e_yload E) (e_to_int E) (e_detections E));
         loaded = (case target of None \<Rightarrow> loaded | Some k \<Rightarrow> filter_by_asset loaded k)
     in Option.bind
          (case since of
             Some (c # cs) \<Rightarrow> map_option (\<lambda>diff. filter (\<lambda>la. la_path la \<in> set diff) loaded) (e_changed E (c # cs))
           | _ \<Rightarrow> Some loaded)
          (filter_disabled_engines (e_outcome E) la_kind))"

text \<open>\<open>Inl\<close> is the exit code; a missing \<open>tenant.yml\<close> gives no tenant and no workspaces.\<close>

definition resolve_workspaces_for_run ::
  "load_outcome \<Rightarrow> role option \<Rightarrow> string option \<Rightarrow> nat + tenant option \<times> workspace list" where
  "resolve_workspaces_for_run outcome r name = (case outcome of
     No_config \<Rightarrow> Inr (None, [])
   | Bad_config \<Rightarrow> Inl 2
   | Loaded t \<Rightarrow> (case select_workspaces t r name of
       Inl _ \<Rightarrow> Inl 2
     | Inr ws \<Rightarrow> Inr (Some t, ws)))"

definition apply_write_refused ::
  "tenant option \<Rightarrow> workspace list \<Rightarrow> asset_kind option \<Rightarrow> bool \<Rightarrow> bool" where
  "apply_write_refused cfg ws target dry_run =
    (case cfg of
       None \<Rightarrow> False
     | Some t \<Rightarrow> \<not> dry_run \<and>
         ((\<exists>w \<in> set ws. \<not> writeAllowed w) \<or>
          ((case target of None \<Rightarrow> True | Some k \<Rightarrow> startswith (asset_value k) ''defender_'') \<and>
           (case tenant_defender t of None \<Rightarrow> False | Some d \<Rightarrow> \<not> writeAllowed d))))"

definition gate_key :: "tenant \<Rightarrow> workspace list \<Rightarrow> string" where
  "gate_key t ws = (case ws of w # _ \<Rightarrow> role_value (ws_role w) | [] \<Rightarrow> tenant_name t)"

definition status_allowed :: "tenant \<Rightarrow> workspace list \<Rightarrow> loaded_asset \<Rightarrow> bool" where
  "status_allowed t ws la \<longleftrightarrow>
     \<not> (is_defender la \<and> ws \<noteq> [] \<and> gate_key t ws \<notin> {''prod'', ''production''}) \<and>
     env_status (la_envelope la) \<in> status_value ` set (allowed_statuses_for_env (Some (gate_key t ws)))"

text \<open>Without a tenant the function's own look-up of the configuration fails the same way.\<close>

definition filter_loaded_by_env_status ::
  "loaded_asset list \<Rightarrow> tenant option \<Rightarrow> workspace list \<Rightarrow> loaded_asset list" where
  "filter_loaded_by_env_status loaded cfg ws = (case cfg of
     None \<Rightarrow> loaded
   | Some t \<Rightarrow> filter (status_allowed t ws) loaded)"

definition is_locked :: "(string \<Rightarrow> pyval option) \<Rightarrow> repo \<Rightarrow> loaded_asset \<Rightarrow> bool" where
  "is_locked yload files la = (case Option.bind (map_of files (la_path la)) yload of
     Some (PDict d) \<Rightarrow> dget d ''localCustomization'' = PBool True
   | _ \<Rightarrow> False)"

definition filter_locked_loaded_assets :: "'w apply_env \<Rightarrow> loaded_asset list \<Rightarrow> bool \<Rightarrow> loaded_asset list" where
  "filter_locked_loaded_assets E loaded force_overwrite =
    (if force_overwrite then loaded
     else filter (\<lambda>la. \<not> is_locked (e_yload E) (e_detections E) la) loaded)"

text \<open>\<open>_emit_dependency_report\<close>; \<open>None\<close> when the validation raises.\<close>

definition dependency_violations :: "'w apply_env \<Rightarrow> loaded_asset list \<Rightarrow> bool option" where
  "dependency_violations E loaded = map_option (\<lambda>r. violations r \<noteq> []) (validate loaded (e_graph E))"

section \<open>One asset\<close>

text \<open>The mode is looked up once per workspace and kind; \<open>Inl\<close> is the exception of a bad configuration.\<close>

definition monitor_mode_result ::
  "'w apply_env \<Rightarrow> string \<Rightarrow> loaded_asset \<Rightarrow> string option \<Rightarrow> 'w run_ctx \<Rightarrow>
   (string + action_result option) \<times> 'w run_ctx" where
  "monitor_mode_result E st la ws c =
    (let key = (ws, la_kind la);
         hit = map_of (mode_cache c) key
     in case (case hit of Some m \<Rightarrow> Some m
              | None \<Rightarrow> asset_mode_for (e_outcome E) (pipeline_ws c) (la_kind la) ws) of
          None \<Rightarrow> (Inl (e_config_msg E), c)
        | Some m \<Rightarrow>
            (Inr (if m \<noteq> Monitor then None
                  else Some (own_result (la_id la) (la_kind la) SKIP st (e_mode_msg E (la_kind la)))),
             if hit = None then c\<lparr>mode_cache := dset key m (mode_cache c)\<rparr> else c))"

definition add_result :: "action_result \<Rightarrow> 'w run_ctx \<Rightarrow> 'w run_ctx" where
  "add_result r c = c\<lparr>results := results c @ [r]\<rparr>"

definition add_pair :: "loaded_asset \<Rightarrow> action_result \<Rightarrow> string option \<Rightarrow> string option \<Rightarrow>
    'w run_ctx \<Rightarrow> 'w run_ctx" where
  "add_pair la r ws dig c = (add_result r c)\<lparr>audit_pairs := audit_pairs c @ [(la, r, ws, dig)]\<rparr>"

definition snippets_of :: "'w apply_env \<Rightarrow> loaded_asset \<Rightarrow> string option \<Rightarrow> snippet_error + loaded_asset" where
  "snippets_of E la ws = apply_snippets (e_yload E) (e_overrides E) (e_root E) la ws"

definition snippet_failure :: "'w apply_env \<Rightarrow> loaded_asset \<Rightarrow> snippet_error \<Rightarrow> action_result" where
  "snippet_failure E la e = own_result (la_id la) (la_kind la) NOOP ''error-validate''
     (''snippet substitution failed: '' @ e_snippet_msg E e)"

definition process_plan_asset ::
  "'w apply_env \<Rightarrow> loaded_asset \<Rightarrow> string option \<Rightarrow> 'w run_ctx \<Rightarrow> 'w run_ctx" where
  "process_plan_asset E la ws c =
    (let failed = (\<lambda>msg. own_result (la_id la) (la_kind la) NOOP ''error-validate'' msg);
         ops = e_ops E (pipeline_ws c) (la_kind la)
     in if la_kind la \<notin> set (e_registered E) then c
        else case snippets_of E la ws of
          Inl e \<Rightarrow> add_result (snippet_failure E la e) c
        | Inr res \<Rightarrow>
            (case h_validate ops res of
               Some msg \<Rightarrow> add_result (failed msg) c
             | None \<Rightarrow>
                 (case monitor_mode_result E ''planned'' la ws c of
                    (Inl msg, c) \<Rightarrow> add_result (failed msg) c
                  | (Inr (Some r), c) \<Rightarrow> add_result r c
                  | (Inr None, c) \<Rightarrow>
                      add_result (case h_plan ops res of Inl msg \<Rightarrow> failed msg | Inr r \<Rightarrow> r) c)))"

definition process_apply_asset ::
  "'w apply_env \<Rightarrow> bool \<Rightarrow> loaded_asset \<Rightarrow> string option \<Rightarrow> 'w run_ctx \<Rightarrow> 'w run_ctx" where
  "process_apply_asset E dry_run la ws c =
    (let failed = (\<lambda>msg. own_result (la_id la) (la_kind la) NOOP ''error-apply'' msg);
         ops = e_ops E (pipeline_ws c) (la_kind la)
     in if la_kind la \<notin> set (e_registered E) then c
        else case snippets_of E la ws of
          Inl e \<Rightarrow> add_pair la (snippet_failure E la e) ws None c
        | Inr res \<Rightarrow>
            (let dig = compute_snippet_digest (e_hash E) la res in
             case h_validate ops res of
               Some msg \<Rightarrow> add_pair res (failed msg) ws dig c
             | None \<Rightarrow>
                 (case monitor_mode_result E ''monitor'' la ws c of
                    (Inl msg, c) \<Rightarrow> add_pair res (failed msg) ws dig c
                  | (Inr (Some r), c) \<Rightarrow> add_pair res r ws dig c
                  | (Inr None, c) \<Rightarrow>
                      (case h_apply ops res dry_run (world c) of
                         (Inl msg, w) \<Rightarrow> add_pair res (failed msg) ws dig (c\<lparr>world := w\<rparr>)
                       | (Inr r, w) \<Rightarrow> add_pair res r ws dig (c\<lparr>world := w\<rparr>)))))"

section \<open>The loop over workspaces\<close>

definition apply_rank :: "loaded_asset \<Rightarrow> int" where
  "apply_rank la = (case map_of APPLY_ORDER_BY_ASSET (la_kind la) of
     None \<Rightarrow> APPLY_ORDER_DEFAULT | Some i \<Rightarrow> i)"

definition ordered_for_apply :: "loaded_asset list \<Rightarrow> loaded_asset list" where
  "ordered_for_apply loaded = sort_key (\<lambda>la. (apply_rank la, join ''/'' (la_path la))) loaded"

definition assets_of_pass :: "loaded_asset list \<Rightarrow> nat \<Rightarrow> loaded_asset list" where
  "assets_of_pass loaded idx =
     ordered_for_apply (if idx = 0 then loaded else filter (\<lambda>la. \<not> is_defender la) loaded)"

definition workspace_pass ::
  "(loaded_asset \<Rightarrow> string option \<Rightarrow> 'w run_ctx \<Rightarrow> 'w run_ctx) \<Rightarrow> loaded_asset list \<Rightarrow>
   nat \<times> workspace option \<Rightarrow> 'w run_ctx \<Rightarrow> 'w run_ctx" where
  "workspace_pass process loaded = (\<lambda>(idx, ws) c.
     fold (\<lambda>la. process la (map_option workspaceName ws)) (assets_of_pass loaded idx)
       (case ws of None \<Rightarrow> c | Some w \<Rightarrow> c\<lparr>pipeline_ws := Some (workspaceName w)\<rparr>))"

definition run_workspace_iteration ::
  "(loaded_asset \<Rightarrow> string option \<Rightarrow> 'w run_ctx \<Rightarrow> 'w run_ctx) \<Rightarrow> loaded_asset list \<Rightarrow>
   workspace option list \<Rightarrow> 'w run_ctx \<Rightarrow> 'w run_ctx" where
  "run_workspace_iteration process loaded iter c =
     fold (workspace_pass process loaded) (enumerate 0 iter) c"

section \<open>What a step leaves behind\<close>

definition pair_key :: "audit_pair \<Rightarrow> string \<times> asset_kind \<times> string option" where
  "pair_key p = (la_id (fst p), la_kind (fst p), fst (snd (snd p)))"

lemma ctx_frames [simp, frame_simps]:
  "audit_pairs (add_result r c) = audit_pairs c" "results (add_result r c) = results c @ [r]"
  "world (add_result r c) = world c" "pipeline_ws (add_result r c) = pipeline_ws c"
  "mode_cache (add_result r c) = mode_cache c"
  "audit_pairs (add_pair la r ws dig c) = audit_pairs c @ [(la, r, ws, dig)]"
  "results (add_pair la r ws dig c) = results c @ [r]"
  "world (add_pair la r ws dig c) = world c" "pipeline_ws (add_pair la r ws dig c) = pipeline_ws c"
  "mode_cache (add_pair la r ws dig c) = mode_cache c"
  by (simp_all add: add_result_def add_pair_def)

lemma snippets_of_envelope: "snippets_of E la ws = Inr res \<Longrightarrow> la_envelope res = la_envelope la"
  by (auto simp: snippets_of_def apply_snippets_def rbind_Inr_iff split: option.splits)

lemma snippets_of_key [simp]: "snippets_of E la ws = Inr res \<Longrightarrow> la_id res = la_id la"
  "snippets_of E la ws = Inr res \<Longrightarrow> la_kind res = la_kind la"
  by (simp_all add: la_id_def la_kind_def snippets_of_envelope)

lemma monitor_mode_result_frame:
  "monitor_mode_result E st la ws c = (r, c') \<Longrightarrow>
   audit_pairs c' = audit_pairs c \<and> results c' = results c \<and> world c' = world c \<and>
   pipeline_ws c' = pipeline_ws c"
  by (auto simp: monitor_mode_result_def Let_def split: option.splits if_splits)

lemma process_apply_asset_log:
  "\<exists>ps. audit_pairs (process_apply_asset E dry la ws c) = audit_pairs c @ ps \<and>
     results (process_apply_asset E dry la ws c) = results c @ map (\<lambda>p. fst (snd p)) ps \<and>
     map pair_key ps = (if la_kind la \<in> set (e_registered E) then [(la_id la, la_kind la, ws)] else [])"
  by (auto simp: process_apply_asset_def Let_def pair_key_def dest!: monitor_mode_result_frame
      split: sum.split option.split prod.split)

text \<open>The mode that decides for a workspace: \<open>p\<close> is the variable before the loop.\<close>

definition mode_in :: "'w apply_env \<Rightarrow> string option \<Rightarrow> string option \<Rightarrow> asset_kind \<Rightarrow> asset_mode option" where
  "mode_in E p ws k = asset_mode_for (e_outcome E) (if ws = None then p else ws) k ws"

definition cache_ok :: "'w apply_env \<Rightarrow> string option \<Rightarrow> 'w run_ctx \<Rightarrow> bool" where
  "cache_ok E p c \<longleftrightarrow> (\<forall>ws k m. map_of (mode_cache c) (ws, k) = Some m \<longrightarrow> mode_in E p ws k = Some m)"

definition bound_to :: "string option \<Rightarrow> string option \<Rightarrow> 'w run_ctx \<Rightarrow> bool" where
  "bound_to p ws c \<longleftrightarrow> pipeline_ws c = (if ws = None then p else ws)"

lemma monitor_mode_result_mode:
  assumes c: "cache_ok E p c" and b: "bound_to p ws c" and m: "monitor_mode_result E st la ws c = (r, c')"
  shows "cache_ok E p c'" "r = Inr None \<Longrightarrow> mode_in E p ws (la_kind la) = Some Managed"
proof -
  let ?hit = "map_of (mode_cache c) (ws, la_kind la)"
  have "(case ?hit of Some m \<Rightarrow> Some m
      | None \<Rightarrow> asset_mode_for (e_outcome E) (pipeline_ws c) (la_kind la) ws) = mode_in E p ws (la_kind la)"
  proof (cases ?hit)
    case (Some m)
    then have "mode_in E p ws (la_kind la) = Some m" using c unfolding cache_ok_def by blast
    with Some show ?thesis by simp
  qed (use b in \<open>simp add: bound_to_def mode_in_def\<close>)
  then have eq: "(r, c') = (case mode_in E p ws (la_kind la) of
      None \<Rightarrow> (Inl (e_config_msg E), c)
    | Some m \<Rightarrow> (Inr (if m \<noteq> Monitor then None
                  else Some (own_result (la_id la) (la_kind la) SKIP st (e_mode_msg E (la_kind la)))),
             if ?hit = None then c\<lparr>mode_cache := dset (ws, la_kind la) m (mode_cache c)\<rparr> else c))"
    using m by (simp add: monitor_mode_result_def Let_def)
  show "cache_ok E p c'"
  proof (cases "mode_in E p ws (la_kind la)")
    case (Some m)
    then show ?thesis using eq c by (simp add: cache_ok_def split: if_splits)
  qed (use eq c in simp)
  show "mode_in E p ws (la_kind la) = Some Managed" if "r = Inr None"
  proof (cases "mode_in E p ws (la_kind la)")
    case (Some m)
    then show ?thesis using eq that by (cases m) auto
  qed (use eq that in simp)
qed

text \<open>What has to hold for the handler's \<open>apply\<close> to be called.\<close>

definition dispatched ::
  "'w apply_env \<Rightarrow> string option \<Rightarrow> loaded_asset \<Rightarrow> string option \<Rightarrow> loaded_asset \<Rightarrow> bool" where
  "dispatched E p la ws res \<longleftrightarrow> la_kind la \<in> set (e_registered E) \<and> snippets_of E la ws = Inr res \<and>
     h_validate (e_ops E (if ws = None then p else ws) (la_kind la)) res = None \<and>
     mode_in E p ws (la_kind la) = Some Managed"

lemma process_apply_asset_cases:
  obtains (local) res r dig c1 where
      "process_apply_asset E dry la ws c = c \<or> process_apply_asset E dry la ws c = add_pair res r ws dig c1"
      "c1 = c \<or> (\<exists>r'. monitor_mode_result E ''monitor'' la ws c = (r', c1))"
  | (sent) res r dig c1 where "la_kind la \<in> set (e_registered E)" "snippets_of E la ws = Inr res"
      "h_validate (e_ops E (pipeline_ws c) (la_kind la)) res = None"
      "monitor_mode_result E ''monitor'' la ws c = (Inr None, c1)"
      "process_apply_asset E dry la ws c = add_pair res r ws dig (c1\<lparr>world :=
         snd (h_apply (e_ops E (pipeline_ws c) (la_kind la)) res dry (world c1))\<rparr>)"
proof (cases "la_kind la \<in> set (e_registered E)")
  case False
  then show thesis using local[of _ _ _ c] by (simp add: process_apply_asset_def)
next
  case reg: True
  show thesis
  proof (cases "snippets_of E la ws")
    case (Inl e)
    then show thesis using local reg by (simp add: process_apply_asset_def) blast
  next
    case res: (Inr res)
    show thesis
    proof (cases "h_validate (e_ops E (pipeline_ws c) (la_kind la)) res")
      case (Some msg)
      then show thesis using local reg res by (simp add: process_apply_asset_def) blast
    next
      case val: None
      obtain m c1 where m: "monitor_mode_result E ''monitor'' la ws c = (m, c1)" by fastforce
      show thesis
      proof (cases "m = Inr None")
        case True
        then show thesis using sent[OF reg res val m[unfolded True]]
          by (cases "h_apply (e_ops E (pipeline_ws c) (la_kind la)) res dry (world c1)")
             (fastforce simp: process_apply_asset_def reg res val m Let_def split: sum.splits)
      next
        case False
        then obtain r dig where "process_apply_asset E dry la ws c = add_pair res r ws dig c1"
          using m reg res val by (cases m) (auto simp: process_apply_asset_def Let_def split: option.splits)
        then show thesis using local[of res r dig c1] m by blast
      qed
    qed
  qed
qed

lemma process_apply_asset_world:
  assumes c: "cache_ok E p c" and b: "bound_to p ws c"
  shows "cache_ok E p (process_apply_asset E dry la ws c) \<and> bound_to p ws (process_apply_asset E dry la ws c) \<and>
    (world (process_apply_asset E dry la ws c) = world c \<or>
     (\<exists>res. dispatched E p la ws res \<and> world (process_apply_asset E dry la ws c) =
        snd (h_apply (e_ops E (if ws = None then p else ws) (la_kind la)) res dry (world c))))"
proof (cases rule: process_apply_asset_cases[of E dry la ws c])
  case (local res r dig c1)
  from local(2) have "cache_ok E p c1 \<and> bound_to p ws c1 \<and> world c1 = world c"
  proof
    assume "\<exists>r'. monitor_mode_result E ''monitor'' la ws c = (r', c1)"
    then obtain r' where r': "monitor_mode_result E ''monitor'' la ws c = (r', c1)" ..
    show ?thesis
      using monitor_mode_result_mode(1)[OF c b r'] monitor_mode_result_frame[OF r'] b
      by (simp add: bound_to_def)
  qed (use c b in simp)
  with local(1) c b show ?thesis by (auto simp: cache_ok_def bound_to_def)
next
  case (sent res r dig c1)
  note f = monitor_mode_result_frame[OF sent(4)]
  have "dispatched E p la ws res"
    using sent monitor_mode_result_mode(2)[OF c b sent(4)] b by (simp add: dispatched_def bound_to_def)
  then show ?thesis
    using sent(5) f b monitor_mode_result_mode(1)[OF c b sent(4)]
    by (auto simp: cache_ok_def bound_to_def)
qed

section \<open>The contract of a dispatch loop\<close>

text \<open>
  Both commands run their step over the same loop; what the loop owes is the list of steps it
  makes. A step reports its key exactly when a handler is registered for the kind.
\<close>

locale dispatcher =
  fixes process :: "loaded_asset \<Rightarrow> string option \<Rightarrow> 'w run_ctx \<Rightarrow> 'w run_ctx"
    and registered :: "asset_kind list"
    and key :: "loaded_asset \<Rightarrow> string option \<Rightarrow> 'k"
    and emitted :: "'w run_ctx \<Rightarrow> 'k list"
  assumes emits: "emitted (process la ws c) =
      emitted c @ (if la_kind la \<in> set registered then [key la ws] else [])"
    and emitted_frame: "emitted (c\<lparr>pipeline_ws := x\<rparr>) = emitted c"
begin

lemma emitted_fold: "emitted (fold (\<lambda>la. process la ws) las c) =
    emitted c @ map (\<lambda>la. key la ws) (filter (\<lambda>la. la_kind la \<in> set registered) las)"
  by (induction las arbitrary: c) (simp_all add: emits)

lemma emitted_pass: "emitted (workspace_pass process loaded (i, ws) c) = emitted c @
    map (\<lambda>la. key la (map_option workspaceName ws))
      (filter (\<lambda>la. la_kind la \<in> set registered) (assets_of_pass loaded i))"
  by (simp add: workspace_pass_def emitted_fold emitted_frame split: option.split)

lemma emitted_iteration: "emitted (run_workspace_iteration process loaded iter c) = emitted c @
    concat (map (\<lambda>(i, ws). map (\<lambda>la. key la (map_option workspaceName ws))
      (filter (\<lambda>la. la_kind la \<in> set registered) (assets_of_pass loaded i))) (enumerate 0 iter))"
proof -
  have "emitted (fold (workspace_pass process loaded) xs c) = emitted c @
    concat (map (\<lambda>(i, ws). map (\<lambda>la. key la (map_option workspaceName ws))
      (filter (\<lambda>la. la_kind la \<in> set registered) (assets_of_pass loaded i))) xs)" for xs
    by (induction xs arbitrary: c) (auto simp: emitted_pass)
  then show ?thesis by (simp add: run_workspace_iteration_def)
qed

end

interpretation apply_loop: dispatcher "process_apply_asset E dry" "e_registered E"
    "\<lambda>la ws. (la_id la, la_kind la, ws)" "\<lambda>c. map pair_key (audit_pairs c)" for E dry
proof
  fix la ws c
  obtain ps where "audit_pairs (process_apply_asset E dry la ws c) = audit_pairs c @ ps"
    "map pair_key ps = (if la_kind la \<in> set (e_registered E) then [(la_id la, la_kind la, ws)] else [])"
    using process_apply_asset_log[of E dry la ws c] by blast
  then show "map pair_key (audit_pairs (process_apply_asset E dry la ws c)) = map pair_key (audit_pairs c) @
      (if la_kind la \<in> set (e_registered E) then [(la_id la, la_kind la, ws)] else [])"
    by simp
qed simp

lemma process_plan_asset_frame:
  "world (process_plan_asset E la ws c) = world c"
  "audit_pairs (process_plan_asset E la ws c) = audit_pairs c"
  "length (results (process_plan_asset E la ws c)) =
     length (results c) + (if la_kind la \<in> set (e_registered E) then 1 else 0)"
  by (auto simp: process_plan_asset_def Let_def dest!: monitor_mode_result_frame
      split: sum.split option.split prod.split)

interpretation plan_loop: dispatcher "process_plan_asset E" "e_registered E" "\<lambda>la ws. ()"
    "\<lambda>c. replicate (length (results c)) ()" for E
  by unfold_locales (simp_all add: process_plan_asset_frame flip: replicate_append_same)

text \<open>An invariant of the loop, from one of its steps.\<close>

lemma run_workspace_iteration_inv:
  assumes "\<And>i ws. (i, ws) \<in> set (enumerate 0 iter) \<Longrightarrow> (\<And>c. I c \<Longrightarrow> I (workspace_pass process loaded (i, ws) c))"
    and "I c"
  shows "I (run_workspace_iteration process loaded iter c)"
proof -
  have "I (fold (workspace_pass process loaded) xs c)" if "set xs \<subseteq> set (enumerate 0 iter)" for xs
    using that assms by (induction xs rule: rev_induct) auto
  then show ?thesis by (simp add: run_workspace_iteration_def)
qed

lemma set_assets_of_pass: "set (assets_of_pass loaded i) =
    {la \<in> set loaded. i = 0 \<or> \<not> is_defender la}"
  by (auto simp: assets_of_pass_def ordered_for_apply_def)

text \<open>
  What the apply loop can do to the world: only the calls of handlers that \<open>dispatched\<close> describes,
  each on an asset of its pass.
\<close>

lemma workspace_pass_world:
  assumes inv: "cache_ok E p c" "ws = None \<Longrightarrow> pipeline_ws c = p" "P (world c)"
    and step: "\<And>la res w. la \<in> set (assets_of_pass loaded i) \<Longrightarrow>
      dispatched E p la (map_option workspaceName ws) res \<Longrightarrow> P w \<Longrightarrow>
      P (snd (h_apply (e_ops E (if ws = None then p else map_option workspaceName ws) (la_kind la)) res dry w))"
  shows "cache_ok E p (workspace_pass (process_apply_asset E dry) loaded (i, ws) c) \<and>
    (ws = None \<longrightarrow> pipeline_ws (workspace_pass (process_apply_asset E dry) loaded (i, ws) c) = p) \<and>
    P (world (workspace_pass (process_apply_asset E dry) loaded (i, ws) c))"
proof -
  let ?n = "map_option workspaceName ws"
  let ?c = "case ws of None \<Rightarrow> c | Some w \<Rightarrow> c\<lparr>pipeline_ws := Some (workspaceName w)\<rparr>"
  have "cache_ok E p ?c \<and> bound_to p ?n ?c \<and> P (world ?c)"
    using inv by (auto simp: cache_ok_def bound_to_def split: option.split)
  moreover have "cache_ok E p (fold (\<lambda>la. process_apply_asset E dry la ?n) las d) \<and>
      bound_to p ?n (fold (\<lambda>la. process_apply_asset E dry la ?n) las d) \<and>
      P (world (fold (\<lambda>la. process_apply_asset E dry la ?n) las d))"
    if "cache_ok E p d \<and> bound_to p ?n d \<and> P (world d)" "set las \<subseteq> set (assets_of_pass loaded i)" for d las
    using that
  proof (induction las arbitrary: d)
    case (Cons la las)
    note w = process_apply_asset_world[of E p d ?n dry la]
    have "P (world (process_apply_asset E dry la ?n d))"
      using w Cons.prems step[of la] by (cases ws) auto
    with w Cons show ?case by simp
  qed simp
  ultimately show ?thesis by (auto simp: workspace_pass_def bound_to_def)
qed

lemma run_workspace_iteration_world:
  assumes start: "mode_cache c = []" "pipeline_ws c = p" "P (world c)"
    and iter: "iter = [None] \<or> None \<notin> set iter"
    and step: "\<And>i ws la res w. (i, ws) \<in> set (enumerate 0 iter) \<Longrightarrow> la \<in> set (assets_of_pass loaded i) \<Longrightarrow>
      dispatched E p la (map_option workspaceName ws) res \<Longrightarrow> P w \<Longrightarrow>
      P (snd (h_apply (e_ops E (if ws = None then p else map_option workspaceName ws) (la_kind la)) res dry w))"
  shows "P (world (run_workspace_iteration (process_apply_asset E dry) loaded iter c))"
proof -
  let ?I = "\<lambda>c. cache_ok E p c \<and> (None \<in> set iter \<longrightarrow> pipeline_ws c = p) \<and> P (world c)"
  have "?I (run_workspace_iteration (process_apply_asset E dry) loaded iter c)"
  proof (rule run_workspace_iteration_inv)
    fix i ws d assume e: "(i, ws) \<in> set (enumerate 0 iter)" and d: "?I d"
    then have mem: "ws \<in> set iter" by (auto simp: in_set_enumerate_eq)
    then have none: "ws = None \<Longrightarrow> pipeline_ws d = p" using d by blast
    have c: "cache_ok E p d" and w: "P (world d)" using d by blast+
    have "cache_ok E p (workspace_pass (process_apply_asset E dry) loaded (i, ws) d) \<and>
      (ws = None \<longrightarrow> pipeline_ws (workspace_pass (process_apply_asset E dry) loaded (i, ws) d) = p) \<and>
      P (world (workspace_pass (process_apply_asset E dry) loaded (i, ws) d))"
      by (rule workspace_pass_world[where P = P, OF c none w]) (assumption, rule step[OF e])
    moreover have "None \<in> set iter \<Longrightarrow> ws = None" using iter mem by auto
    ultimately show "?I (workspace_pass (process_apply_asset E dry) loaded (i, ws) d)" by blast
  qed (use start in \<open>simp add: cache_ok_def\<close>)
  then show ?thesis by blast
qed

lemma ordered_for_apply_sorted: "sorted (map apply_rank (ordered_for_apply loaded))"
proof -
  have "sorted (map (\<lambda>la. (apply_rank la, join ''/'' (la_path la))) (ordered_for_apply loaded))"
    by (simp add: ordered_for_apply_def)
  then show ?thesis
    by (auto simp: sorted_wrt_map less_eq_prod_def intro: sorted_wrt_mono_rel[rotated])
qed

lemma apply_rank_kind: "apply_rank la = (if la_kind la = SENTINEL_PLAYBOOK then 10
    else if la_kind la = SENTINEL_AUTOMATION_RULE then 90 else 50)"
  by (simp add: apply_rank_def APPLY_ORDER_BY_ASSET_def APPLY_ORDER_DEFAULT_def)

lemma apply_rank_le: "apply_rank a \<le> apply_rank b \<Longrightarrow>
    (la_kind b = SENTINEL_PLAYBOOK \<longrightarrow> la_kind a = SENTINEL_PLAYBOOK) \<and>
    (la_kind a = SENTINEL_AUTOMATION_RULE \<longrightarrow> la_kind b = SENTINEL_AUTOMATION_RULE)"
  unfolding apply_rank_kind
  by (cases "la_kind a = SENTINEL_PLAYBOOK"; cases "la_kind b = SENTINEL_PLAYBOOK";
      cases "la_kind a = SENTINEL_AUTOMATION_RULE"; cases "la_kind b = SENTINEL_AUTOMATION_RULE") simp_all

end
