(* ===== verification/State.thy ===== *)
theory State
  imports Json
begin

text \<open>
  The per-environment state file, \<open>contentops/state.py\<close>: what the pipeline applied, by asset kind
  and envelope id. The field values are JSON values, since \<open>load_state\<close> takes whatever the file
  holds; the clock is a parameter, read once per call as the code does.
\<close>

section \<open>An interface: a store of entries under keys\<close>

text \<open>
  What the clients of a keyed store use: looking a key up, putting a value under a key and
  removing a key, each changing that key only.
\<close>

locale keyed_store =
  fixes lookup :: "'s \<Rightarrow> 'k \<Rightarrow> 'v option" and put :: "'k \<Rightarrow> 'v \<Rightarrow> 's \<Rightarrow> 's" and del :: "'k \<Rightarrow> 's \<Rightarrow> 's"
    and valid :: "'s \<Rightarrow> bool"
  assumes lookup_put: "valid s \<Longrightarrow> lookup (put k v s) = (lookup s)(k \<mapsto> v)"
    and lookup_del: "valid s \<Longrightarrow> lookup (del k s) = (lookup s)(k := None)"
    and valid_put: "valid s \<Longrightarrow> valid (put k v s)"
    and valid_del: "valid s \<Longrightarrow> valid (del k s)"
begin

definition put_all :: "('k \<times> 'v) list \<Rightarrow> 's \<Rightarrow> 's" where
  "put_all kvs s = fold (\<lambda>(k, v). put k v) kvs s"

lemma valid_put_all: "valid s \<Longrightarrow> valid (put_all kvs s)"
  by (induction kvs arbitrary: s) (auto simp: put_all_def valid_put)

text \<open>After a batch, a key holds its last value in the batch, or what it held before.\<close>

lemma lookup_put_all: "valid s \<Longrightarrow> lookup (put_all kvs s) = lookup s ++ map_of (rev kvs)"
proof (induction kvs arbitrary: s)
  case (Cons p kvs)
  then show ?case
    by (cases p) (simp add: put_all_def lookup_put valid_put map_add_upd_left map_add_assoc
        map_add_def fun_eq_iff split: option.splits)
qed (simp add: put_all_def)

lemma lookup_other: "valid s \<Longrightarrow> k \<notin> fst ` set kvs \<Longrightarrow> lookup (put_all kvs s) k = lookup s k"
  by (simp add: lookup_put_all map_add_def map_of_eq_None_iff[THEN iffD2])

lemma put_del: "valid s \<Longrightarrow> lookup s k = None \<Longrightarrow> lookup (del k (put k v s)) = lookup s"
  by (auto simp: lookup_del lookup_put valid_put)

end

section \<open>The state and its operations\<close>

record state_entry =
  remote_id :: pyval
  last_applied_at :: pyval
  last_applied_sha :: pyval
  entry_status :: pyval

record env_state =
  schema_version :: pyval
  env :: pyval
  last_apply_sha :: pyval
  last_apply_at :: pyval
  managed_assets :: "(string \<times> (string \<times> state_entry) list) list"

definition SCHEMA_VERSION :: string where
  "SCHEMA_VERSION = ''1.0''"

definition empty_state :: "string \<Rightarrow> env_state" where
  "empty_state e = \<lparr>schema_version = PStr SCHEMA_VERSION, env = PStr e, last_apply_sha = PStr [],
     last_apply_at = PStr [], managed_assets = []\<rparr>"

definition bucket :: "env_state \<Rightarrow> string \<Rightarrow> (string \<times> state_entry) list" where
  "bucket s k = (case map_of (managed_assets s) k of None \<Rightarrow> [] | Some b \<Rightarrow> b)"

definition is_managed :: "env_state \<Rightarrow> string \<Rightarrow> string \<Rightarrow> bool" where
  "is_managed s asset_kind envelope_id = (envelope_id \<in> set (dkeys (bucket s asset_kind)))"

definition put_entry :: "string \<times> string \<Rightarrow> state_entry \<Rightarrow> env_state \<Rightarrow> env_state" where
  "put_entry key e s = s\<lparr>managed_assets :=
     dset (fst key) (dset (snd key) e (bucket s (fst key))) (managed_assets s)\<rparr>"

definition remember ::
  "string \<Rightarrow> string \<Rightarrow> string \<Rightarrow> string \<Rightarrow> string \<Rightarrow> string \<Rightarrow> env_state \<Rightarrow> env_state" where
  "remember asset_kind envelope_id rid sha st now s = put_entry (asset_kind, envelope_id)
     \<lparr>remote_id = PStr rid, last_applied_at = PStr now, last_applied_sha = PStr sha,
      entry_status = PStr st\<rparr> s"

definition forget :: "string \<Rightarrow> string \<Rightarrow> env_state \<Rightarrow> env_state" where
  "forget asset_kind envelope_id s = (case map_of (managed_assets s) asset_kind of
     None \<Rightarrow> s
   | Some b \<Rightarrow>
       (let b' = dpop envelope_id b in
        s\<lparr>managed_assets := (if b' = [] then dpop asset_kind (dset asset_kind b' (managed_assets s))
                            else dset asset_kind b' (managed_assets s))\<rparr>))"

definition asset_count :: "env_state \<Rightarrow> nat" where
  "asset_count s = sum_list (map (\<lambda>b. length (snd b)) (managed_assets s))"

text \<open>\<open>merge_apply_results\<close>: \<open>clock i\<close> is the \<open>i\<close>-th reading of the clock during the call.\<close>

fun merge_loop ::
  "string \<Rightarrow> (nat \<Rightarrow> string) \<Rightarrow> nat \<Rightarrow> (string \<times> string \<times> string \<times> string) list \<Rightarrow>
   env_state \<Rightarrow> env_state" where
  "merge_loop sha clock i [] s = s"
| "merge_loop sha clock i ((k, eid, rid, st) # rs) s =
    (if st = ''skipped'' then merge_loop sha clock i rs s
     else merge_loop sha clock (Suc i) rs (remember k eid rid sha st (clock i) s))"

definition merge_apply_results ::
  "string \<Rightarrow> (nat \<Rightarrow> string) \<Rightarrow> (string \<times> string \<times> string \<times> string) list \<Rightarrow>
   env_state \<Rightarrow> env_state" where
  "merge_apply_results sha clock results s =
    (let s = (if sha \<noteq> [] then s\<lparr>last_apply_sha := PStr sha\<rparr> else s)
     in merge_loop sha clock 1 results (s\<lparr>last_apply_at := PStr (clock 0)\<rparr>))"

datatype remote_class = In_sync | New_local | Orphan | Unmanaged

definition classify_remote :: "env_state \<Rightarrow> string \<Rightarrow> string \<Rightarrow> bool \<Rightarrow> remote_class" where
  "classify_remote s asset_kind envelope_id in_local =
    (let in_state = is_managed s asset_kind envelope_id in
     if in_local \<and> in_state then In_sync
     else if in_local \<and> \<not> in_state then New_local
     else if \<not> in_local \<and> in_state then Orphan
     else Unmanaged)"

section \<open>The file\<close>

definition asdict_entry :: "state_entry \<Rightarrow> pyval" where
  "asdict_entry e = PDict [(''remote_id'', remote_id e), (''last_applied_at'', last_applied_at e),
     (''last_applied_sha'', last_applied_sha e), (''status'', entry_status e)]"

definition state_payload :: "env_state \<Rightarrow> pyval" where
  "state_payload s = PDict
    [(''schema_version'', schema_version s), (''env'', env s),
     (''last_apply_sha'', last_apply_sha s), (''last_apply_at'', last_apply_at s),
     (''managed_assets'', PDict (map (\<lambda>(k, es).
        (k, PDict (map (\<lambda>(i, e). (i, asdict_entry e)) es))) (managed_assets s)))]"

definition save_state :: "env_state \<Rightarrow> string" where
  "save_state s = dumps_indent (state_payload s)"

datatype state_error = AttributeError | TypeError

text \<open>\<open>x or {}\<close> followed by \<open>.items()\<close>.\<close>

definition items_or_empty :: "pyval \<Rightarrow> state_error + pydict" where
  "items_or_empty v = (if \<not> truthy v then Inr []
     else case v of PDict d \<Rightarrow> Inr d | _ \<Rightarrow> Inl AttributeError)"

definition entry_of :: "pydict \<Rightarrow> state_error + state_entry" where
  "entry_of d =
    (if \<forall>k \<in> set (dkeys d). k \<in> {''remote_id'', ''last_applied_at'', ''last_applied_sha'', ''status''}
     then Inr \<lparr>remote_id = dget_default d ''remote_id'' (PStr []),
               last_applied_at = dget_default d ''last_applied_at'' (PStr []),
               last_applied_sha = dget_default d ''last_applied_sha'' (PStr []),
               entry_status = dget_default d ''status'' (PStr ''success'')\<rparr>
     else Inl TypeError)"

fun load_entries :: "pydict \<Rightarrow> state_error + (string \<times> state_entry) list" where
  "load_entries [] = Inr []"
| "load_entries ((i, v) # es) = (case v of
     PDict d \<Rightarrow> rbind (entry_of d) (\<lambda>e. rbind (load_entries es) (\<lambda>r. Inr ((i, e) # r)))
   | _ \<Rightarrow> load_entries es)"

fun load_managed :: "pydict \<Rightarrow> state_error + (string \<times> (string \<times> state_entry) list) list" where
  "load_managed [] = Inr []"
| "load_managed ((k, v) # ms) =
     rbind (items_or_empty v) (\<lambda>d. rbind (load_entries d) (\<lambda>es.
     rbind (load_managed ms) (\<lambda>r. Inr ((k, es) # r))))"

text \<open>\<open>load_state\<close>; the file is \<open>None\<close> when absent or unreadable.\<close>

definition load_state :: "string \<Rightarrow> string option \<Rightarrow> state_error + env_state" where
  "load_state e file = (case Option.bind file loads of
     None \<Rightarrow> Inr (empty_state e)
   | Some (PDict raw) \<Rightarrow>
       rbind (items_or_empty (dget raw ''managed_assets'')) (\<lambda>ms. rbind (load_managed ms) (\<lambda>m.
         Inr \<lparr>schema_version = dget_default raw ''schema_version'' (PStr SCHEMA_VERSION),
              env = dget_default raw ''env'' (PStr e),
              last_apply_sha = dget_default raw ''last_apply_sha'' (PStr []),
              last_apply_at = dget_default raw ''last_apply_at'' (PStr []),
              managed_assets = m\<rparr>))
   | Some _ \<Rightarrow> Inl AttributeError)"

section \<open>The state as a keyed store\<close>

definition entry_at :: "env_state \<Rightarrow> string \<times> string \<Rightarrow> state_entry option" where
  "entry_at s key = map_of (bucket s (fst key)) (snd key)"

definition state_ok :: "env_state \<Rightarrow> bool" where
  "state_ok s \<longleftrightarrow> distinct (dkeys (managed_assets s)) \<and>
     (\<forall>x \<in> set (managed_assets s). snd x \<noteq> [] \<and> distinct (dkeys (snd x)))"

lemma ball_dset: "\<forall>x \<in> set d. P (snd x) \<Longrightarrow> P v \<Longrightarrow> \<forall>x \<in> set (dset k v d). P (snd x)"
  by (induction k v d rule: dset.induct) auto

lemma ball_dpop_dset: "\<forall>x \<in> set d. P (snd x) \<Longrightarrow> \<forall>x \<in> set (dpop k (dset k v d)). P (snd x)"
  by (induction k v d rule: dset.induct) (auto simp: dpop_def)

lemma dset_nonempty [simp]: "dset k v d \<noteq> []"
  by (cases d) (auto split: if_splits)

lemma bucket_distinct: "state_ok s \<Longrightarrow> distinct (map fst (bucket s k))"
  by (auto simp: bucket_def state_ok_def dkeys_def split: option.splits dest!: map_of_SomeD)

lemma is_managed_iff: "is_managed s k i \<longleftrightarrow> entry_at s (k, i) \<noteq> None"
  by (auto simp: is_managed_def entry_at_def set_dkeys)

lemma state_ok_put: "state_ok s \<Longrightarrow> state_ok (put_entry key e s)"
proof -
  assume ok: "state_ok s"
  let ?b = "dset (snd key) e (bucket s (fst key))"
  have "distinct (dkeys ?b)" using bucket_distinct[OF ok] by (simp add: dkeys_def)
  then have "\<forall>x \<in> set (dset (fst key) ?b (managed_assets s)). snd x \<noteq> [] \<and> distinct (dkeys (snd x))"
    using ok by (intro ball_dset[where P = "\<lambda>b. b \<noteq> [] \<and> distinct (dkeys b)"]) (simp_all add: state_ok_def)
  moreover have "distinct (map fst (dset (fst key) ?b (managed_assets s)))"
    using ok by (intro distinct_dset) (simp add: state_ok_def dkeys_def)
  ultimately show ?thesis by (simp add: state_ok_def put_entry_def dkeys_def)
qed

lemma state_ok_forget: "state_ok s \<Longrightarrow> state_ok (forget k i s)"
proof (cases "map_of (managed_assets s) k")
  case (Some b)
  assume ok: "state_ok s"
  have d: "distinct (map fst (managed_assets s))" using ok by (simp add: state_ok_def dkeys_def)
  have "distinct (dkeys b)" using ok map_of_SomeD[OF Some] by (force simp: state_ok_def)
  then have b: "distinct (dkeys (dpop i b))" by (simp add: dkeys_def)
  let ?P = "\<lambda>b. b \<noteq> [] \<and> distinct (dkeys b)"
  have all: "\<forall>x \<in> set (managed_assets s). ?P (snd x)" using ok by (simp add: state_ok_def)
  show ?thesis
  proof (cases "dpop i b = []")
    case True
    then show ?thesis
      using ball_dpop_dset[OF all, of k "[]"] d
      by (simp add: forget_def Some Let_def state_ok_def dkeys_def)
  next
    case False
    then show ?thesis
      using ball_dset[OF all, of "dpop i b" k] d b
      by (simp add: forget_def Some Let_def state_ok_def dkeys_def)
  qed
qed (simp add: forget_def)

lemma entry_at_put: "entry_at (put_entry key e s) = (entry_at s)(key \<mapsto> e)"
  by (cases key) (auto simp: entry_at_def put_entry_def bucket_def fun_eq_iff split: option.splits)

lemma dpop_Nil: "dpop i b = [] \<Longrightarrow> j \<noteq> i \<Longrightarrow> map_of b j = None"
  using map_of_dpop[of i b] by (metis fun_upd_other map_of.simps(1))

lemma entry_at_forget: "entry_at (forget k i s) = (entry_at s)((k, i) := None)"
proof (cases "map_of (managed_assets s) k")
  case (Some b)
  then show ?thesis
    by (auto simp: entry_at_def forget_def bucket_def fun_eq_iff Let_def dpop_Nil split: option.splits)
qed (auto simp: entry_at_def forget_def bucket_def fun_eq_iff)

interpretation store: keyed_store entry_at put_entry "\<lambda>(k, i). forget k i" state_ok
  by unfold_locales (auto simp: entry_at_put entry_at_forget state_ok_put state_ok_forget)

section \<open>Merging results\<close>

text \<open>The entries a batch of results puts, with the clock reading each gets.\<close>

fun recorded ::
  "string \<Rightarrow> (nat \<Rightarrow> string) \<Rightarrow> nat \<Rightarrow> (string \<times> string \<times> string \<times> string) list \<Rightarrow>
   ((string \<times> string) \<times> state_entry) list" where
  "recorded sha clock i [] = []"
| "recorded sha clock i ((k, eid, rid, st) # rs) =
    (if st = ''skipped'' then recorded sha clock i rs
     else ((k, eid), \<lparr>remote_id = PStr rid, last_applied_at = PStr (clock i),
                      last_applied_sha = PStr sha, entry_status = PStr st\<rparr>)
          # recorded sha clock (Suc i) rs)"

lemma merge_loop_put_all: "merge_loop sha clock i rs s = store.put_all (recorded sha clock i rs) s"
  by (induction sha clock i rs s rule: merge_loop.induct)
     (auto simp: store.put_all_def remember_def)

lemma entry_at_header [simp]:
  "entry_at (s\<lparr>last_apply_sha := a\<rparr>) = entry_at s" "entry_at (s\<lparr>last_apply_at := b\<rparr>) = entry_at s"
  "state_ok (s\<lparr>last_apply_sha := a\<rparr>) = state_ok s" "state_ok (s\<lparr>last_apply_at := b\<rparr>) = state_ok s"
  by (simp_all add: fun_eq_iff entry_at_def bucket_def state_ok_def)

lemma recorded_keys: "fst ` set (recorded sha clock i rs) =
  {(k, e). \<exists>rid st. (k, e, rid, st) \<in> set rs \<and> st \<noteq> ''skipped''}"
  by (induction sha clock i rs rule: recorded.induct) (auto split: if_splits)

section \<open>Saving and loading\<close>

definition text_entry :: "state_entry \<Rightarrow> bool" where
  "text_entry e \<longleftrightarrow> (\<forall>v \<in> {remote_id e, last_applied_at e, last_applied_sha e, entry_status e}.
     \<exists>s. v = PStr s)"

definition text_state :: "env_state \<Rightarrow> bool" where
  "text_state s \<longleftrightarrow> state_ok s \<and>
     (\<forall>v \<in> {schema_version s, env s, last_apply_sha s, last_apply_at s}. \<exists>x. v = PStr x) \<and>
     (\<forall>x \<in> set (managed_assets s). \<forall>y \<in> set (snd x). text_entry (snd y))"

text \<open>The state with its dictionaries in key order, which is what comes back.\<close>

definition key_order :: "env_state \<Rightarrow> env_state" where
  "key_order s = s\<lparr>managed_assets :=
     sort_key fst (map (\<lambda>(k, b). (k, sort_key fst b)) (managed_assets s))\<rparr>"

lemma entry_at_key_order: "state_ok s \<Longrightarrow> entry_at (key_order s) = entry_at s"
proof -
  assume ok: "state_ok s"
  have d: "distinct (map fst (managed_assets s))" using ok by (simp add: state_ok_def dkeys_def)
  have "map_of (map (\<lambda>(k, b). (k, sort_key fst b)) m) k = map_option (sort_key fst) (map_of m k)"
    for m :: "(string \<times> (string \<times> state_entry) list) list" and k by (induction m) auto
  moreover have "map_of (sort_key fst (map (\<lambda>(k, b). (k, sort_key fst b)) (managed_assets s))) =
      map_of (map (\<lambda>(k, b). (k, sort_key fst b)) (managed_assets s))"
    using d by (intro map_of_sort_key_fst) (simp add: comp_def case_prod_unfold)
  ultimately have "map_of (bucket (key_order s) k) = map_of (sort_key fst (bucket s k))" for k
    by (simp add: bucket_def key_order_def split: option.split)
  then show ?thesis
    using bucket_distinct[OF ok] by (simp add: entry_at_def fun_eq_iff map_of_sort_key_fst)
qed

lemma sort_key_map: "sort_key f (map g xs) = map g (sort_key (\<lambda>x. f (g x)) xs)"
proof (induction xs)
  case (Cons x xs)
  have "insort_key f (g x) (map g ys) = map g (insort_key (\<lambda>x. f (g x)) x ys)" for ys
    by (induction ys) auto
  then show ?case by (simp add: Cons)
qed simp

lemma sort_key_eq_Nil [simp]: "sort_key f xs = [] \<longleftrightarrow> xs = []"
  by (metis length_0_conv length_sort)

lemma sort_keys_PDict: "sort_keys (PDict d) = PDict (map (\<lambda>(k, v). (k, sort_keys v)) (sort_key fst d))"
  by (simp add: sort_key_map case_prod_unfold)

lemma dget_sorted: "distinct (map fst d) \<Longrightarrow>
  map_of (map (\<lambda>(k, v). (k, sort_keys v)) (sort_key fst d)) k = map_option sort_keys (map_of d k)"
  using map_of_map_snd[of sort_keys "sort_key fst d"] map_of_sort_key_fst[of d]
  by (simp add: case_prod_unfold)

lemma text_entry_fields:
  "text_entry e \<Longrightarrow> sort_keys (remote_id e) = remote_id e \<and> sort_keys (last_applied_at e) = last_applied_at e \<and>
     sort_keys (last_applied_sha e) = last_applied_sha e \<and> sort_keys (entry_status e) = entry_status e"
  by (auto simp: text_entry_def)

lemma entry_of_saved:
  assumes "text_entry e" and "sort_keys (asdict_entry e) = PDict d"
  shows "entry_of d = Inr e"
proof -
  let ?d = "[(''remote_id'', remote_id e), (''last_applied_at'', last_applied_at e),
     (''last_applied_sha'', last_applied_sha e), (''status'', entry_status e)]"
  have d: "d = map (\<lambda>(k, v). (k, sort_keys v)) (sort_key fst ?d)"
    using assms(2) unfolding asdict_entry_def sort_keys_PDict by simp
  have "map_of d k = map_option sort_keys (map_of ?d k)" for k
    unfolding d by (rule dget_sorted) simp
  moreover have "set (dkeys d) = fst ` set ?d"
    unfolding d by (simp only: dkeys_def map_map comp_def case_prod_unfold fst_conv set_map set_sort)
  ultimately show ?thesis
    using text_entry_fields[OF assms(1)] by (simp add: entry_of_def dget_default_def)
qed

lemma load_entries_saved: "\<forall>x \<in> set es. text_entry (snd x) \<Longrightarrow>
  load_entries (map (\<lambda>(i, e). (i, sort_keys (asdict_entry e))) es) = Inr es"
proof (induction es)
  case (Cons x es)
  obtain d where "sort_keys (asdict_entry (snd x)) = PDict d"
    by (simp add: asdict_entry_def)
  with Cons entry_of_saved[of "snd x" d] show ?case by (cases x) simp
qed simp

lemma load_managed_saved:
  "\<forall>x \<in> set m. snd x \<noteq> [] \<and> (\<forall>y \<in> set (snd x). text_entry (snd y)) \<Longrightarrow>
   load_managed (map (\<lambda>(k, es). (k, PDict (map (\<lambda>(i, e). (i, sort_keys (asdict_entry e))) es))) m) = Inr m"
proof (induction m)
  case (Cons x m)
  then have "items_or_empty (PDict (map (\<lambda>(i, e). (i, sort_keys (asdict_entry e))) (snd x))) =
      Inr (map (\<lambda>(i, e). (i, sort_keys (asdict_entry e))) (snd x))"
    by (simp add: items_or_empty_def)
  with Cons load_entries_saved[of "snd x"] show ?case by (cases x) simp
qed simp

lemma sort_keys_managed:
  "sort_keys (PDict (map (\<lambda>(k, es). (k, PDict (map (\<lambda>(i, e). (i, asdict_entry e)) es))) m)) =
   PDict (map (\<lambda>(k, es). (k, PDict (map (\<lambda>(i, e). (i, sort_keys (asdict_entry e))) es)))
     (sort_key fst (map (\<lambda>(k, b). (k, sort_key fst b)) m)))"
  by (simp add: sort_key_map case_prod_unfold comp_def)

lemma wf_state_payload: "text_state s \<Longrightarrow> wf_val (state_payload s)"
proof -
  assume t: "text_state s"
  then obtain a b c d where h: "schema_version s = PStr a" "env s = PStr b" "last_apply_sha s = PStr c"
    "last_apply_at s = PStr d" by (auto simp: text_state_def)
  have "wf_val (asdict_entry e)" if "text_entry e" for e
    using that by (auto simp: text_entry_def asdict_entry_def)
  then have "wf_val (PDict (map (\<lambda>(k, es). (k, PDict (map (\<lambda>(i, e). (i, asdict_entry e)) es)))
      (managed_assets s)))"
    using t by (auto simp: text_state_def state_ok_def dkeys_def case_prod_unfold comp_def list_all_iff)
  then show ?thesis by (simp add: state_payload_def h)
qed

lemma load_save: "text_state s \<Longrightarrow> load_state e (Some (save_state s)) = Inr (key_order s)"
proof -
  assume t: "text_state s"
  obtain raw where raw: "sort_keys (state_payload s) = PDict raw" by (simp add: state_payload_def)
  have l: "loads (save_state s) = Some (PDict raw)"
    unfolding save_state_def raw[symmetric] by (rule loads_dumps_indent[OF wf_state_payload[OF t]])
  obtain pd where pd: "state_payload s = PDict pd" "distinct (map fst pd)" by (simp add: state_payload_def)
  have look: "map_of raw k = map_option sort_keys (map_of pd k)" for k
    using raw dget_sorted[OF pd(2)] unfolding pd(1) sort_keys_PDict by simp
  let ?m = "sort_key fst (map (\<lambda>(k, b). (k, sort_key fst b)) (managed_assets s))"
  let ?v = "map (\<lambda>(k, es). (k, PDict (map (\<lambda>(i, e). (i, sort_keys (asdict_entry e))) es))) ?m"
  have "\<forall>x \<in> set ?m. snd x \<noteq> [] \<and> (\<forall>y \<in> set (snd x). text_entry (snd y))"
    using t by (auto simp: text_state_def state_ok_def case_prod_unfold)
  then have m: "load_managed ?v = Inr ?m" by (rule load_managed_saved)
  have "map_of raw ''managed_assets'' = Some (PDict ?v)"
  proof -
    have "map_of pd ''managed_assets'' = Some (PDict (map (\<lambda>(k, es).
        (k, PDict (map (\<lambda>(i, e). (i, asdict_entry e)) es))) (managed_assets s)))"
      using pd(1) by (auto simp: state_payload_def)
    then show ?thesis by (simp only: look option.map sort_keys_managed)
  qed
  then have "items_or_empty (dget raw ''managed_assets'') = Inr ?v"
    by (simp add: dget_def items_or_empty_def)
  moreover have "map_of raw ''schema_version'' = Some (schema_version s)" "map_of raw ''env'' = Some (env s)"
    "map_of raw ''last_apply_sha'' = Some (last_apply_sha s)"
    "map_of raw ''last_apply_at'' = Some (last_apply_at s)"
    using pd(1) t by (auto simp: look state_payload_def text_state_def)
  ultimately show ?thesis
    using l m by (simp add: load_state_def dget_default_def key_order_def)
qed

section \<open>Properties\<close>

text \<open>
  C6. After \<open>merge_apply_results\<close> every asset of the batch that was not skipped is managed, with
  its last result in the batch (failed ones included), every other asset has the entry it had,
  and the store keeps its form.
\<close>

theorem merge_apply_results_spec:
  assumes "state_ok s" and s'_def: "s' = merge_apply_results sha clock results s"
  shows "state_ok s' \<and> entry_at s' = entry_at s ++ map_of (rev (recorded sha clock 1 results)) \<and>
    (\<forall>k i. is_managed s' k i \<longleftrightarrow> is_managed s k i \<or>
       (\<exists>rid st. (k, i, rid, st) \<in> set results \<and> st \<noteq> ''skipped''))"
proof -
  let ?s = "(if sha \<noteq> [] then s\<lparr>last_apply_sha := PStr sha\<rparr> else s)\<lparr>last_apply_at := PStr (clock 0)\<rparr>"
  have ok: "state_ok ?s" and same: "entry_at ?s = entry_at s" using assms(1) by auto
  have s': "s' = store.put_all (recorded sha clock 1 results) ?s"
    by (simp add: assms(2) merge_apply_results_def merge_loop_put_all Let_def)
  have e: "entry_at s' = entry_at s ++ map_of (rev (recorded sha clock 1 results))"
    unfolding s' by (simp add: store.lookup_put_all[OF ok] same)
  have "is_managed s' k i \<longleftrightarrow> is_managed s k i \<or> (k, i) \<in> fst ` set (recorded sha clock 1 results)" for k i
    unfolding is_managed_iff e map_add_None by (auto simp: map_of_eq_None_iff)
  then show ?thesis
    using e store.valid_put_all[OF ok] s' by (simp add: recorded_keys)
qed

theorem merge_apply_results_spec_witness:
  "is_managed (merge_apply_results ''c1'' (\<lambda>_. ''t'') [(''k'', ''a'', ''r'', ''failed''), (''k'', ''b'', ''r'', ''skipped'')]
     (empty_state ''dev'')) ''k'' ''a'' \<and>
   \<not> is_managed (merge_apply_results ''c1'' (\<lambda>_. ''t'') [(''k'', ''a'', ''r'', ''failed''), (''k'', ''b'', ''r'', ''skipped'')]
     (empty_state ''dev'')) ''k'' ''b''"
proof -
  have "state_ok (empty_state ''dev'')" by (simp add: state_ok_def empty_state_def dkeys_def)
  from merge_apply_results_spec[OF this refl] show ?thesis
    by (simp add: is_managed_def bucket_def empty_state_def dkeys_def)
qed

text \<open>
  C7. What is saved is what is loaded: reading the saved file gives the state with its keys in
  order, which has the same header (schema version, environment, last commit and time) and the same entry for
  every asset.
\<close>

theorem save_load_roundtrip:
  assumes "text_state s"
  shows "\<exists>s'. load_state e (Some (save_state s)) = Inr s' \<and> entry_at s' = entry_at s \<and>
    schema_version s' = schema_version s \<and> env s' = env s \<and>
    last_apply_sha s' = last_apply_sha s \<and> last_apply_at s' = last_apply_at s"
  using load_save[OF assms] entry_at_key_order[of s] assms
  by (auto simp: text_state_def key_order_def)

theorem save_load_roundtrip_witness:
  "\<exists>s'. load_state ''x'' (Some (save_state ((remember ''k'' ''a'' ''r'' ''c1'' ''success'' ''t'' (empty_state ''dev''))
       \<lparr>schema_version := PStr ''2''\<rparr>))) = Inr s' \<and> entry_at s' (''k'', ''a'') \<noteq> None \<and> schema_version s' = PStr ''2''"
proof -
  let ?s = "(remember ''k'' ''a'' ''r'' ''c1'' ''success'' ''t'' (empty_state ''dev''))\<lparr>schema_version := PStr ''2''\<rparr>"
  have "text_state ?s"
    by (simp add: text_state_def text_entry_def state_ok_def empty_state_def dkeys_def remember_def
        put_entry_def bucket_def)
  from save_load_roundtrip[OF this, of "''x''"] obtain s' where
    "load_state ''x'' (Some (save_state ?s)) = Inr s'" "entry_at s' = entry_at ?s" "schema_version s' = schema_version ?s"
    by blast
  moreover have "entry_at ?s (''k'', ''a'') \<noteq> None" by (simp add: entry_at_def bucket_def remember_def put_entry_def)
  ultimately show ?thesis by simp
qed

text \<open>
  An applied asset whose file is then removed is an orphan, and forgetting it makes it
  unmanaged without touching any other asset, down to dropping an emptied kind.
\<close>

theorem forget_after_remember:
  assumes "state_ok s" and "s1 = remember k i rid sha st now s" and "s2 = forget k i s1"
  shows "classify_remote s1 k i False = Orphan \<and> classify_remote s2 k i False = Unmanaged \<and>
    (\<forall>key. key \<noteq> (k, i) \<longrightarrow> entry_at s2 key = entry_at s key) \<and> state_ok s2"
  using assms
  by (auto simp: classify_remote_def is_managed_iff remember_def entry_at_put entry_at_forget
      state_ok_put state_ok_forget)

theorem forget_after_remember_witness:
  "classify_remote (forget ''k'' ''a'' (remember ''k'' ''a'' ''r'' ''c1'' ''success'' ''t'' (empty_state ''dev'')))
     ''k'' ''a'' False = Unmanaged"
proof -
  have "state_ok (empty_state ''dev'')" by (simp add: state_ok_def empty_state_def dkeys_def)
  from forget_after_remember[OF this refl refl] show ?thesis by blast
qed

end
