(* ===== verification/Apply.thy ===== *)
theory Apply
  imports Apply_Support State
begin

text \<open>
  The plan and apply commands, \<open>contentops/cli/commands/apply.py\<close>: the gates in their order, the
  dispatch, then the audit trail, the state file, the report and the exit code. What the command
  reads from its surroundings (clock, commit, environment variables, the other writers of the
  audit directory) is the record \<open>run_inputs\<close>. An uncaught exception is the exit \<open>None\<close>. Not
  modelled: the printed tables, the tenant overlay of plan and \<open>--push-state\<close>.
\<close>

section \<open>Inputs and outcome\<close>

record apply_opts =
  a_target :: "asset_kind option"
  a_since :: "string option"
  a_role :: "role option"
  a_workspace :: "string option"
  a_dry_run :: bool
  a_no_audit :: bool
  a_skip_deps :: bool
  a_force :: bool
  a_continue :: bool

record run_inputs =
  i_pipeline_ws :: "string option"
  i_disabled :: string
  i_prov :: provenance
  i_now :: "nat \<Rightarrow> string"
  i_today :: string
  i_race :: "nat \<Rightarrow> audit_files \<Rightarrow> audit_files"
  i_clock :: "nat \<Rightarrow> string"

type_synonym report = "asset_row list \<times> totals"

record 'w apply_final =
  f_exit :: "nat option"
  f_ctx :: "'w run_ctx"
  f_audit :: audit_dir
  f_state :: "string option"
  f_report :: "report option"

definition start_ctx :: "string option \<Rightarrow> 'w \<Rightarrow> 'w run_ctx" where
  "start_ctx ws w = \<lparr>results = [], audit_pairs = [], mode_cache = [], pipeline_ws = ws, world = w\<rparr>"

section \<open>Selection\<close>

definition loop_entries :: "tenant option \<Rightarrow> workspace list \<Rightarrow> workspace option list" where
  "loop_entries cfg ws = (if cfg \<noteq> None \<and> ws \<noteq> [] then map Some ws else [None])"

definition seed_workspace :: "tenant option \<Rightarrow> workspace list \<Rightarrow> string option \<Rightarrow> string option" where
  "seed_workspace cfg ws cur = (if cfg \<noteq> None \<and> ws \<noteq> [] then Some (workspaceName (hd ws)) else cur)"

text \<open>
  Everything \<open>apply_cmd\<close> does before the first handler call: \<open>Inl\<close> is its exit code with the
  report it still writes, \<open>Inr\<close> the registered kinds, the assets, the loop and the variable.
\<close>

definition select_run ::
  "'w apply_env \<Rightarrow> run_inputs \<Rightarrow> apply_opts \<Rightarrow>
   (nat option \<times> report option) +
   (asset_kind list \<times> loaded_asset list \<times> workspace option list \<times> string option)" where
  "select_run E inp opt =
    (case resolve_workspaces_for_run (e_outcome E) (a_role opt) (a_workspace opt) of
       Inl n \<Rightarrow> Inl (Some n, None)
     | Inr (cfg, ws) \<Rightarrow>
         (if apply_write_refused cfg ws (a_target opt) (a_dry_run opt) then Inl (Some 2, None)
          else if \<not> (cfg \<noteq> None \<and> ws \<noteq> []) \<and> a_role opt = Some Integration then Inl (Some 0, None)
          else case register_default_handlers (e_outcome E) (i_disabled inp) of
            None \<Rightarrow> Inl (None, None)
          | Some kinds \<Rightarrow>
              (case load_assets_for_run E (a_target opt) (a_since opt) of
                 None \<Rightarrow> Inl (None, None)
               | Some all \<Rightarrow>
                   (let loaded = filter_loaded_by_env_status all cfg ws in
                    if loaded = [] then Inl (Some 0, Some (build_report None []))
                    else case (if a_skip_deps opt then Some False else dependency_violations E loaded) of
                      None \<Rightarrow> Inl (None, None)
                    | Some True \<Rightarrow> Inl (Some 1, None)
                    | Some False \<Rightarrow>
                        Inr (kinds, filter_locked_loaded_assets E loaded (a_force opt),
                             loop_entries cfg ws, seed_workspace cfg ws (i_pipeline_ws inp))))))"

section \<open>After the dispatch\<close>

definition audit_batch :: "run_inputs \<Rightarrow> audit_pair list \<Rightarrow> audit_record list" where
  "audit_batch inp pairs = map (\<lambda>(i, la, r, ws, dig).
     build_audit_record (i_prov inp) (i_now inp i) r (who_of la) ws dig None) (enumerate 0 pairs)"

text \<open>The append with its three attempts and the orphan sink; \<open>Inr\<close> is the file that was extended.\<close>

definition write_audit ::
  "(string \<Rightarrow> string) \<Rightarrow> run_inputs \<Rightarrow> audit_record list \<Rightarrow> audit_dir \<Rightarrow>
   (audit_error + string option) \<times> audit_dir" where
  "write_audit h inp records d =
    (case write_records_with_retry h (i_today inp) (i_race inp) (\<lambda>_. id) records 3 d of
       (Inr f, d') \<Rightarrow> (Inr (Some f), d')
     | (Inl ConcurrentWrite, d') \<Rightarrow>
         (case write_orphan_records (i_today inp) records d' of
            (Inr _, d'') \<Rightarrow> (Inr None, d'') | (Inl e, d'') \<Rightarrow> (Inl e, d''))
     | (Inl e, d') \<Rightarrow> (Inl e, d'))"

definition state_inputs :: "audit_pair list \<Rightarrow> (string \<times> string \<times> string \<times> string) list" where
  "state_inputs pairs = map (\<lambda>(la, r, _).
     (asset_value (la_kind la), la_id la, [], classify_result r)) pairs"

text \<open>Best effort: whatever raises leaves the file as it was.\<close>

definition update_state ::
  "load_outcome \<Rightarrow> run_inputs \<Rightarrow> audit_pair list \<Rightarrow> string option \<Rightarrow> string option" where
  "update_state outcome inp pairs file = (case outcome of
     Loaded t \<Rightarrow> (case load_state (tenant_name t) file of
         Inl _ \<Rightarrow> file
       | Inr s \<Rightarrow> Some (save_state
           (merge_apply_results (p_sha (i_prov inp)) (i_clock inp) (state_inputs pairs) s)))
   | _ \<Rightarrow> file)"

definition exit_code :: "bool \<Rightarrow> action_result list \<Rightarrow> nat" where
  "exit_code continue_on_error rs = (if filter is_failure rs = [] \<or> continue_on_error then 0 else 1)"

definition apply_cmd ::
  "'w apply_env \<Rightarrow> run_inputs \<Rightarrow> apply_opts \<Rightarrow> 'w \<Rightarrow> audit_dir \<Rightarrow> string option \<Rightarrow> 'w apply_final" where
  "apply_cmd E inp opt w d file =
    (case select_run E inp opt of
       Inl (ex, rep) \<Rightarrow> \<lparr>f_exit = ex, f_ctx = start_ctx (i_pipeline_ws inp) w, f_audit = d,
           f_state = file, f_report = rep\<rparr>
     | Inr (kinds, loaded, iter, seed) \<Rightarrow>
         (let c = run_workspace_iteration
                (process_apply_asset (E\<lparr>e_registered := kinds\<rparr>) (a_dry_run opt)) loaded iter (start_ctx seed w);
              pairs = audit_pairs c;
              first = Suc (existing_lines (i_today inp) d);
              final = (\<lambda>d' file' au. \<lparr>f_exit = Some (exit_code (a_continue opt) (results c)), f_ctx = c,
                 f_audit = d', f_state = file', f_report = Some (build_report au pairs)\<rparr>)
          in if a_dry_run opt \<or> a_no_audit opt \<or> pairs = [] then final d file None
             else case write_audit (e_hash E) inp (audit_batch inp pairs) d of
               (Inl _, d') \<Rightarrow> \<lparr>f_exit = None, f_ctx = c, f_audit = d', f_state = file, f_report = None\<rparr>
             | (Inr written, d') \<Rightarrow>
                 final d' (update_state (e_outcome E) inp pairs file)
                   (map_option (\<lambda>f. (''audit/'' @ f, first)) written)))"

section \<open>Plan\<close>

definition plan_cmd ::
  "'w apply_env \<Rightarrow> run_inputs \<Rightarrow> apply_opts \<Rightarrow> 'w \<Rightarrow> nat option \<times> 'w run_ctx" where
  "plan_cmd E inp opt w =
    (let c0 = start_ctx (i_pipeline_ws inp) w in
     if skip_if_integration_role_absent (e_outcome E) (a_role opt) (a_workspace opt) then (Some 0, c0)
     else case resolve_single_workspace (e_outcome E) (i_pipeline_ws inp) (a_role opt) (a_workspace opt) None of
       Exit n \<Rightarrow> (Some n, c0)
     | Crash \<Rightarrow> (None, c0)
     | Env ws1 \<Rightarrow>
         (case resolve_workspaces_for_run (e_outcome E) (a_role opt) (a_workspace opt) of
            Inl n \<Rightarrow> (Some n, c0)
          | Inr (cfg, ws) \<Rightarrow>
              (case (register_default_handlers (e_outcome E) (i_disabled inp),
                     load_assets_for_run E (a_target opt) (a_since opt)) of
                 (Some kinds, Some loaded) \<Rightarrow>
                   (case (if a_skip_deps opt then Some False else dependency_violations E loaded) of
                      None \<Rightarrow> (None, c0)
                    | Some bad \<Rightarrow>
                        (let c = run_workspace_iteration (process_plan_asset (E\<lparr>e_registered := kinds\<rparr>))
                               loaded (loop_entries cfg ws) (start_ctx (seed_workspace cfg ws ws1) w)
                         in (Some (if filter is_error (results c) \<noteq> [] \<or> bad then 1 else 0), c)))
               | _ \<Rightarrow> (None, c0))))"

section \<open>Lemmas\<close>

lemma select_run_cases:
  assumes "select_run E inp opt = Inr (kinds, loaded, iter, seed)"
  obtains cfg ws all where
    "resolve_workspaces_for_run (e_outcome E) (a_role opt) (a_workspace opt) = Inr (cfg, ws)"
    "\<not> apply_write_refused cfg ws (a_target opt) (a_dry_run opt)"
    "register_default_handlers (e_outcome E) (i_disabled inp) = Some kinds"
    "load_assets_for_run E (a_target opt) (a_since opt) = Some all"
    "loaded = filter_locked_loaded_assets E (filter_loaded_by_env_status all cfg ws) (a_force opt)"
    "iter = loop_entries cfg ws" "seed = seed_workspace cfg ws (i_pipeline_ws inp)"
    "a_skip_deps opt \<or> dependency_violations E (filter_loaded_by_env_status all cfg ws) = Some False"
    "\<not> ((cfg = None \<or> ws = []) \<and> a_role opt = Some Integration)"
  using assms
  by (auto simp: select_run_def Let_def split: sum.splits option.splits if_splits bool.splits)

lemma resolve_workspaces_cases:
  assumes "resolve_workspaces_for_run outcome r name = Inr (cfg, ws)"
  shows "(outcome = No_config \<and> cfg = None \<and> ws = []) \<or>
    (\<exists>t. outcome = Loaded t \<and> cfg = Some t \<and> select_workspaces t r name = Inr ws)"
  using assms by (auto simp: resolve_workspaces_for_run_def split: load_outcome.splits sum.splits)

lemma loop_entries_shape: "loop_entries cfg ws = [None] \<or> None \<notin> set (loop_entries cfg ws)"
  by (auto simp: loop_entries_def)

lemma load_assets_for_run_sub:
  assumes "load_assets_for_run E target since = Some all" and "la \<in> set all"
  shows "la \<in> set (fst (iter_loaded_assets (e_yload E) (e_to_int E) (e_detections E)))"
    "target = Some k \<Longrightarrow> la_kind la = k" "e_outcome E = Loaded t \<Longrightarrow> engine_enabled t (la_kind la)"
proof -
  let ?all = "fst (iter_loaded_assets (e_yload E) (e_to_int E) (e_detections E))"
  let ?sel = "case target of None \<Rightarrow> ?all | Some k \<Rightarrow> filter_by_asset ?all k"
  obtain cut where "Option.bind (map_option (\<lambda>P. filter P ?sel) cut)
      (filter_disabled_engines (e_outcome E) la_kind) = Some all"
  proof (cases since)
    case (Some s)
    then show thesis
      using assms(1) that[of "Some (\<lambda>_. True)"]
        that[of "map_option (\<lambda>diff la. la_path la \<in> set diff) (e_changed E s)"]
      by (cases s) (simp_all add: load_assets_for_run_def Let_def option.map_comp comp_def)
  qed (use assms(1) that[of "Some (\<lambda>_. True)"] in \<open>simp add: load_assets_for_run_def Let_def\<close>)
  then obtain P where P: "filter_disabled_engines (e_outcome E) la_kind (filter P ?sel) = Some all"
    by (cases cut) simp_all
  define mid where "mid = filter P ?sel"
  have mid: "set mid \<subseteq> set ?sel" "filter_disabled_engines (e_outcome E) la_kind mid = Some all"
    unfolding mid_def by (rule filter_subseq, rule P)
  have "set all \<subseteq> set mid" "\<And>t. e_outcome E = Loaded t \<Longrightarrow> \<forall>la \<in> set all. engine_enabled t (la_kind la)"
    using mid(2) by (auto simp: filter_disabled_engines_def split: load_outcome.splits)
  with assms(2) mid(1) have "la \<in> set ?sel" "e_outcome E = Loaded t \<Longrightarrow> engine_enabled t (la_kind la)" by auto
  then show "la \<in> set ?all" "target = Some k \<Longrightarrow> la_kind la = k"
      "e_outcome E = Loaded t \<Longrightarrow> engine_enabled t (la_kind la)"
    by (auto simp: filter_by_asset_def la_kind_def split: option.splits)
qed

lemma apply_cmd_stop: "select_run E inp opt = Inl x \<Longrightarrow> world (f_ctx (apply_cmd E inp opt w d file)) = w"
  by (cases x) (simp add: apply_cmd_def start_ctx_def)

lemma apply_cmd_ctx: "select_run E inp opt = Inr (kinds, loaded, iter, seed) \<Longrightarrow>
    f_ctx (apply_cmd E inp opt w d file) = run_workspace_iteration
      (process_apply_asset (E\<lparr>e_registered := kinds\<rparr>) (a_dry_run opt)) loaded iter (start_ctx seed w)"
  by (auto simp: apply_cmd_def Let_def split: sum.splits prod.splits)

text \<open>
  The specification of the write path: an asset may be sent to a workspace when every gate of the
  command lets it through.
\<close>

definition authorised ::
  "'w apply_env \<Rightarrow> run_inputs \<Rightarrow> apply_opts \<Rightarrow> loaded_asset \<Rightarrow> string option \<Rightarrow> loaded_asset \<Rightarrow> bool" where
  "authorised E inp opt la ws res \<longleftrightarrow>
     la \<in> set (fst (iter_loaded_assets (e_yload E) (e_to_int E) (e_detections E))) \<and>
     (a_force opt \<or> \<not> is_locked (e_yload E) (e_detections E) la) \<and>
     (\<forall>k. a_target opt = Some k \<longrightarrow> la_kind la = k) \<and>
     mode_in E (i_pipeline_ws inp) ws (la_kind la) = Some Managed \<and>
     snippets_of E la ws = Inr res \<and>
     h_validate (e_ops E (if ws = None then i_pipeline_ws inp else ws) (la_kind la)) res = None \<and>
     (\<forall>t. e_outcome E = Loaded t \<longrightarrow> engine_enabled t (la_kind la) \<and>
       (\<exists>sel. select_workspaces t (a_role opt) (a_workspace opt) = Inr sel \<and> status_allowed t sel la \<and>
         (if sel = [] then ws = None
          else \<exists>v \<in> set sel. ws = Some (workspaceName v) \<and> (a_dry_run opt \<or> writeAllowed v) \<and>
            (is_defender la \<longrightarrow> v = hd sel))) \<and>
       (is_defender la \<longrightarrow> a_dry_run opt \<or> (\<forall>d. tenant_defender t = Some d \<longrightarrow> writeAllowed d)))"

lemma enumerate_loop_entries:
  assumes "(i, ws) \<in> set (enumerate 0 (loop_entries cfg sel))"
  shows "if cfg = None \<or> sel = [] then ws = None
         else \<exists>v \<in> set sel. ws = Some v \<and> (i = 0 \<longrightarrow> v = hd sel)"
  using assms by (auto simp: loop_entries_def in_set_enumerate_eq hd_conv_nth)

lemma dispatched_authorised:
  assumes s: "select_run E inp opt = Inr (kinds, loaded, iter, seed)"
    and e: "(i, ws) \<in> set (enumerate 0 iter)" and la: "la \<in> set (assets_of_pass loaded i)"
    and d: "dispatched (E\<lparr>e_registered := kinds\<rparr>) seed la (map_option workspaceName ws) res"
  shows "authorised E inp opt la (map_option workspaceName ws) res"
    and "ws = None \<Longrightarrow> seed = i_pipeline_ws inp"
proof -
  let ?n = "map_option workspaceName ws"
  obtain cfg sel all where r: "resolve_workspaces_for_run (e_outcome E) (a_role opt) (a_workspace opt) = Inr (cfg, sel)"
    and w: "\<not> apply_write_refused cfg sel (a_target opt) (a_dry_run opt)"
    and l: "load_assets_for_run E (a_target opt) (a_since opt) = Some all"
    and ld: "loaded = filter_locked_loaded_assets E (filter_loaded_by_env_status all cfg sel) (a_force opt)"
    and it: "iter = loop_entries cfg sel" and sd: "seed = seed_workspace cfg sel (i_pipeline_ws inp)"
    using s by (rule select_run_cases)
  note ent = enumerate_loop_entries[OF e[unfolded it]]
  show none: "ws = None \<Longrightarrow> seed = i_pipeline_ws inp"
    using ent by (auto simp: sd seed_workspace_def split: if_splits)
  have mem: "la \<in> set all" "i = 0 \<or> \<not> is_defender la" "a_force opt \<or> \<not> is_locked (e_yload E) (e_detections E) la"
      "\<And>t. cfg = Some t \<Longrightarrow> status_allowed t sel la"
    using la by (auto simp: set_assets_of_pass ld filter_locked_loaded_assets_def filter_loaded_by_env_status_def
        split: option.splits if_splits)
  note sub = load_assets_for_run_sub[OF l mem(1)]
  have same: "snippets_of (E\<lparr>e_registered := kinds\<rparr>) = snippets_of E"
    "mode_in (E\<lparr>e_registered := kinds\<rparr>) = mode_in E"
    by (simp_all add: fun_eq_iff snippets_of_def mode_in_def)
  have "mode_in E (i_pipeline_ws inp) ?n (la_kind la) = Some Managed"
    using d none by (cases ws) (auto simp: dispatched_def same mode_in_def)
  moreover have "h_validate (e_ops E (if ?n = None then i_pipeline_ws inp else ?n) (la_kind la)) res = None"
    using d none by (cases ws) (auto simp: dispatched_def)
  moreover have "snippets_of E la ?n = Inr res" using d by (simp add: dispatched_def same)
  moreover have "engine_enabled t (la_kind la) \<and>
       (\<exists>sel. select_workspaces t (a_role opt) (a_workspace opt) = Inr sel \<and> status_allowed t sel la \<and>
         (if sel = [] then ?n = None
          else \<exists>v \<in> set sel. ?n = Some (workspaceName v) \<and> (a_dry_run opt \<or> writeAllowed v) \<and>
            (is_defender la \<longrightarrow> v = hd sel))) \<and>
       (is_defender la \<longrightarrow> a_dry_run opt \<or> (\<forall>d. tenant_defender t = Some d \<longrightarrow> writeAllowed d))"
    if t: "e_outcome E = Loaded t" for t
  proof (intro conjI)
    have c: "cfg = Some t" "select_workspaces t (a_role opt) (a_workspace opt) = Inr sel"
      using resolve_workspaces_cases[OF r] t by auto
    show "engine_enabled t (la_kind la)" using sub(3) t by blast
    have wr: "a_dry_run opt \<or> writeAllowed v" if "v \<in> set sel" for v
      using w that by (auto simp: apply_write_refused_def c)
    show "\<exists>sel. select_workspaces t (a_role opt) (a_workspace opt) = Inr sel \<and> status_allowed t sel la \<and>
         (if sel = [] then ?n = None
          else \<exists>v \<in> set sel. ?n = Some (workspaceName v) \<and> (a_dry_run opt \<or> writeAllowed v) \<and>
            (is_defender la \<longrightarrow> v = hd sel))"
      using c(2) mem(4)[OF c(1)] mem(2) ent wr by (intro exI[of _ sel]) (auto simp: c(1) split: if_splits)
    show "is_defender la \<longrightarrow> a_dry_run opt \<or> (\<forall>d. tenant_defender t = Some d \<longrightarrow> writeAllowed d)"
      using w sub(2) by (auto simp: apply_write_refused_def c is_defender_def split: option.splits)
  qed
  ultimately show "authorised E inp opt la ?n res"
    unfolding authorised_def using sub(1,2) mem(3) by blast
qed

lemma apply_cmd_final:
  assumes s: "select_run E inp opt = Inr (kinds, loaded, iter, seed)"
    and e: "f_exit (apply_cmd E inp opt w d file) \<noteq> None"
  obtains au where
    "f_report (apply_cmd E inp opt w d file) =
       Some (build_report au (audit_pairs (f_ctx (apply_cmd E inp opt w d file))))"
    "f_exit (apply_cmd E inp opt w d file) =
       Some (exit_code (a_continue opt) (results (f_ctx (apply_cmd E inp opt w d file))))"
proof -
  let ?c = "run_workspace_iteration (process_apply_asset (E\<lparr>e_registered := kinds\<rparr>) (a_dry_run opt))
    loaded iter (start_ctx seed w)"
  note u = apply_cmd_def s sum.case prod.case Let_def
  show thesis
  proof (cases "a_dry_run opt \<or> a_no_audit opt \<or> audit_pairs ?c = []")
    case True
    then show thesis by (intro that[of None]) (simp_all only: u if_True apply_final.simps)
  next
    case False
    obtain r d' where w: "write_audit (e_hash E) inp (audit_batch inp (audit_pairs ?c)) d = (r, d')" by fastforce
    show thesis
    proof (cases r)
      case (Inl x)
      with e have False by (simp add: u False w)
      then show thesis ..
    next
      case (Inr f)
      then show thesis
        by (intro that[of "map_option (\<lambda>f. (''audit/'' @ f, Suc (existing_lines (i_today inp) d))) f"])
           (simp_all only: u False w if_False apply_final.simps)
    qed
  qed
qed

lemma results_of_pairs:
  assumes "select_run E inp opt = Inr (kinds, loaded, iter, seed)"
  shows "results (f_ctx (apply_cmd E inp opt w d file)) =
    map (\<lambda>p. fst (snd p)) (audit_pairs (f_ctx (apply_cmd E inp opt w d file)))"
proof -
  let ?E = "E\<lparr>e_registered := kinds\<rparr>"
  let ?I = "\<lambda>c. results c = map (\<lambda>p. fst (snd p)) (audit_pairs c)"
  have step: "?I (fold (\<lambda>la. process_apply_asset ?E dry la n) las c)" if "?I c" for las c n dry
    using that
  proof (induction las arbitrary: c)
    case (Cons la las)
    have "?I (process_apply_asset ?E dry la n c)"
      using process_apply_asset_log[of ?E dry la n c] Cons.prems by auto
    from Cons.IH[OF this] show ?case by simp
  qed simp
  have "?I (run_workspace_iteration (process_apply_asset ?E (a_dry_run opt)) loaded iter (start_ctx seed w))"
    by (rule run_workspace_iteration_inv)
       (auto simp: workspace_pass_def start_ctx_def intro!: step split: option.split)
  then show ?thesis by (simp add: apply_cmd_ctx[OF assms])
qed

lemma dispatch_keys:
  assumes "select_run E inp opt = Inr (kinds, loaded, iter, seed)"
  shows "map pair_key (audit_pairs (f_ctx (apply_cmd E inp opt w d file))) =
    concat (map (\<lambda>(i, ws). map (\<lambda>la. (la_id la, la_kind la, map_option workspaceName ws))
      (filter (\<lambda>la. la_kind la \<in> set kinds) (assets_of_pass loaded i))) (enumerate 0 iter))"
  unfolding apply_cmd_ctx[OF assms]
  using apply_loop.emitted_iteration[of "E\<lparr>e_registered := kinds\<rparr>" "a_dry_run opt" loaded iter "start_ctx seed w"]
  by (simp add: start_ctx_def)

lemma iter_nonempty: "select_run E inp opt = Inr (kinds, loaded, iter, seed) \<Longrightarrow> iter \<noteq> []"
  by (erule select_run_cases) (auto simp: loop_entries_def)

text \<open>The later passes leave the Defender assets out.\<close>

lemma defender_once:
  assumes "iter \<noteq> []"
  shows "length (filter (\<lambda>k. startswith (asset_value (fst (snd k))) ''defender_'')
      (concat (map (\<lambda>(i, ws). map (\<lambda>la. (la_id la, la_kind la, map_option workspaceName ws))
        (filter (\<lambda>la. la_kind la \<in> set kinds) (assets_of_pass loaded i))) (enumerate 0 iter)))) =
    length (filter (\<lambda>la. is_defender la \<and> la_kind la \<in> set kinds) loaded)"
proof -
  let ?D = "\<lambda>k. startswith (asset_value (fst (snd k))) ''defender_''"
  let ?f = "\<lambda>(i, ws). map (\<lambda>la. (la_id la, la_kind la, map_option workspaceName ws))
        (filter (\<lambda>la. la_kind la \<in> set kinds) (assets_of_pass loaded i))"
  have later: "filter ?D (concat (map ?f (enumerate (Suc n) xs))) = []" for n xs
  proof (induction xs arbitrary: n)
    case (Cons x xs)
    have "filter ?D (?f (Suc n, x)) = []"
      using set_assets_of_pass[of loaded "Suc n"] by (auto simp: filter_empty_conv is_defender_def)
    with Cons show ?case by simp
  qed simp
  obtain x xs where iter: "iter = x # xs" using assms by (cases iter) auto
  have "length (filter ?D (?f (0, x))) =
      length (filter (\<lambda>la. is_defender la \<and> la_kind la \<in> set kinds) (assets_of_pass loaded 0))"
    by (simp add: filter_map comp_def is_defender_def conj_commute)
  also have "\<dots> = length (filter (\<lambda>la. is_defender la \<and> la_kind la \<in> set kinds) loaded)"
  proof -
    have "mset (assets_of_pass loaded 0) = mset loaded" by (simp add: assets_of_pass_def ordered_for_apply_def)
    then show ?thesis by (metis mset_filter size_mset)
  qed
  finally show ?thesis using later[of 0 xs] by (simp add: iter)
qed

lemma write_records_id_no_race: "write_records h today id rs d = (Inl e, d') \<Longrightarrow> e \<noteq> ConcurrentWrite"
  by (auto simp: write_records_unfold Let_def split: sum.splits option.splits prod.splits if_splits)

lemma no_audit_frame:
  "a_role (opt\<lparr>a_no_audit := b\<rparr>) = a_role opt" "a_workspace (opt\<lparr>a_no_audit := b\<rparr>) = a_workspace opt"
  "a_target (opt\<lparr>a_no_audit := b\<rparr>) = a_target opt" "a_since (opt\<lparr>a_no_audit := b\<rparr>) = a_since opt"
  "a_dry_run (opt\<lparr>a_no_audit := b\<rparr>) = a_dry_run opt" "a_force (opt\<lparr>a_no_audit := b\<rparr>) = a_force opt"
  "a_skip_deps (opt\<lparr>a_no_audit := b\<rparr>) = a_skip_deps opt"
  by simp_all

lemma select_run_no_audit [simp]: "select_run E inp (opt\<lparr>a_no_audit := b\<rparr>) = select_run E inp opt"
  unfolding select_run_def no_audit_frame by (rule refl)

lemma f_ctx_no_audit: "f_ctx (apply_cmd E inp (opt\<lparr>a_no_audit := b\<rparr>) w d st) = f_ctx (apply_cmd E inp opt w d' st')"
proof (cases "select_run E inp opt")
  case (Inl x)
  then show ?thesis by (cases x) (simp add: apply_cmd_def)
next
  case (Inr x)
  obtain a b' c e where x: "x = (a, b', c, e)" by (cases x)
  show ?thesis
    using apply_cmd_ctx[OF Inr[unfolded x]]
      apply_cmd_ctx[of E inp "opt\<lparr>a_no_audit := b\<rparr>", unfolded select_run_no_audit, OF Inr[unfolded x]]
    by simp
qed

text \<open>A first batch of one record is always written.\<close>

lemma first_write_exits:
  assumes s: "select_run E inp opt = Inr sel" and one: "length (audit_pairs (f_ctx (apply_cmd E inp opt w None st))) = 1"
    and r: "i_race inp = (\<lambda>_. id)"
  shows "f_exit (apply_cmd E inp opt w None st) \<noteq> None"
proof -
  obtain kinds loaded iter seed where sel: "sel = (kinds, loaded, iter, seed)" by (cases sel)
  let ?c = "run_workspace_iteration (process_apply_asset (E\<lparr>e_registered := kinds\<rparr>) (a_dry_run opt))
    loaded iter (start_ctx seed w)"
  note c = apply_cmd_ctx[OF s[unfolded sel], of w None st]
  obtain x where "audit_batch inp (audit_pairs ?c) = [x]"
    using one unfolding c by (auto simp: length_Suc_conv audit_batch_def)
  then obtain d' where "write_audit (e_hash E) inp (audit_batch inp (audit_pairs ?c)) None =
      (Inr (Some (i_today inp @ ''.jsonl'')), d')"
    using first_write[of "e_hash E" "i_today inp" x]
    by (auto simp: write_audit_def write_records_with_retry_def numeral_3_eq_3 r)
  then show ?thesis
    by (cases "a_dry_run opt \<or> a_no_audit opt \<or> audit_pairs ?c = []")
       (simp_all only: apply_cmd_def s sel sum.case prod.case Let_def if_True if_False apply_final.simps
         option.simps not_False_eq_True)
qed

text \<open>What the record of a dispatched step has to say.\<close>

definition records_step :: "provenance \<Rightarrow> audit_pair \<Rightarrow> audit_record \<Rightarrow> bool" where
  "records_step prov step c = (case step of (la, r, ws, dig) \<Rightarrow>
     asset c = asset_value (la_kind la) \<and> rec_id c = la_id la \<and>
     metadata_owner c = map_option owner (env_metadata (la_envelope la)) \<and>
     action c = action_value (r_action r) \<and> workspace c = ws \<and> snippet_digest c = dig \<and>
     (if is_failure r then status c = ''failed'' \<and> message c = Some (failure_message r)
      else if r_action r = SKIP then status c = ''skipped'' \<and> message c = non_empty (r_detail r)
      else status c = ''success'' \<and> message c = None) \<and>
     sha c = p_sha prov \<and> actor c = p_actor prov \<and> workflow_run c = Option.bind (p_run prov) non_empty)"

lemma audit_batch_length: "length (audit_batch inp pairs) = length pairs"
  by (simp add: audit_batch_def)

lemma audit_batch_canonical: "\<forall>i. canonical_ts (i_now inp i) \<Longrightarrow> \<forall>r \<in> set (audit_batch inp pairs). canonical_ts (timestamp r)"
  by (auto simp: audit_batch_def build_audit_record_def Let_def audit_status_def who_of_def)

lemma audit_batch_content:
  assumes "list_all2 same_content (audit_batch inp pairs) cs"
  shows "list_all2 (records_step (i_prov inp)) pairs cs"
proof -
  have "records_step (i_prov inp) (pairs ! i) (cs ! i)" if "i < length pairs" for i
  proof -
    obtain la r ws dig where p: "pairs ! i = (la, r, ws, dig)" by (cases "pairs ! i")
    have "same_content (audit_batch inp pairs ! i) (cs ! i)"
      using assms that by (simp add: list_all2_conv_all_nth audit_batch_length)
    then have "same_content (build_audit_record (i_prov inp) (i_now inp i) r (who_of la) ws dig None) (cs ! i)"
      using that p by (simp add: audit_batch_def nth_enumerate_eq)
    then show ?thesis
      by (auto simp: p records_step_def same_content_def build_audit_record_def Let_def audit_status_def who_of_def la_kind_def la_id_def)
  qed
  then show ?thesis using assms by (simp add: list_all2_conv_all_nth audit_batch_length)
qed

section \<open>Instances\<close>

definition demo_detections :: repo where
  "demo_detections = [([''h.yml''], ''hunt''), ([''p.yml''], ''play'')]"

definition demo_documents :: "string \<Rightarrow> pyval option" where
  "demo_documents s = (if s = ''hunt''
     then Some (PDict [(''id'', PStr ''hunt''), (''version'', PStr ''1.0.0''),
       (''asset'', PStr ''sentinel_hunting''), (''status'', PStr ''production''),
       (''metadata'', PDict [(''arm_name'', PStr ''g'')]), (''payload'', PDict [(''query'', PStr ''T'')])])
     else Some (PDict [(''id'', PStr ''play''), (''version'', PStr ''1.0.0''),
       (''asset'', PStr ''sentinel_playbook''), (''status'', PStr ''production''),
       (''metadata'', PDict [(''arm_name'', PStr ''g'')]), (''payload'', PDict [])]))"

text \<open>A tenant whose world is the list of ids that were sent to it.\<close>

definition demo_ops :: "string list handler_ops" where
  "demo_ops = \<lparr>h_validate = (\<lambda>_. None),
     h_plan = (\<lambda>la. Inr (own_result (la_id la) (la_kind la) UPDATE ''planned'' [])),
     h_apply = (\<lambda>la dry w. (Inr (own_result (la_id la) (la_kind la) UPDATE ''ok'' []),
                            if dry then w else w @ [la_id la]))\<rparr>"

definition demo_env :: "load_outcome \<Rightarrow> string list apply_env" where
  "demo_env outcome = \<lparr>e_outcome = outcome, e_registered = [], e_ops = (\<lambda>_ _. demo_ops),
     e_yload = demo_documents, e_to_int = num_of, e_detections = demo_detections, e_overrides = [],
     e_root = [''overrides''], e_changed = (\<lambda>_. None), e_graph = [], e_hash = demo_hash,
     e_snippet_msg = (\<lambda>_. ''snippet''), e_mode_msg = (\<lambda>_. ''monitor''), e_config_msg = ''config''\<rparr>"

definition demo_inputs :: run_inputs where
  "demo_inputs = \<lparr>i_pipeline_ws = None, i_disabled = [],
     i_prov = \<lparr>p_sha = ''abc'', p_actor = ''ci'', p_run = None\<rparr>, i_now = (\<lambda>_. timestamp demo_record),
     i_today = ''2026-01-02'', i_race = (\<lambda>_. id), i_clock = (\<lambda>_. ''t'')\<rparr>"

definition demo_opts :: "role option \<Rightarrow> apply_opts" where
  "demo_opts r = \<lparr>a_target = None, a_since = None, a_role = r, a_workspace = None, a_dry_run = False,
     a_no_audit = True, a_skip_deps = False, a_force = False, a_continue = False\<rparr>"

definition plain_workspace :: workspace where
  "plain_workspace = demo_workspace\<lparr>assetModes := []\<rparr>"

definition plain_tenant :: tenant where
  "plain_tenant = demo_tenant\<lparr>sentinelWorkspaces := [plain_workspace]\<rparr>"

definition closed_tenant :: tenant where
  "closed_tenant = demo_tenant\<lparr>sentinelWorkspaces := [plain_workspace\<lparr>writeAllowed := False\<rparr>]\<rparr>"

lemma demo_selected: "\<exists>loaded. select_run (demo_env (Loaded plain_tenant)) demo_inputs (demo_opts None) =
    Inr (filter (\<lambda>k. k \<noteq> DEFENDER_CUSTOM_DETECTION) [SENTINEL_ANALYTIC, DEFENDER_CUSTOM_DETECTION, SENTINEL_HUNTING,
      SENTINEL_WATCHLIST, SENTINEL_PARSER, SENTINEL_DATA_CONNECTOR, SENTINEL_PLAYBOOK, SENTINEL_AUTOMATION_RULE],
      loaded, [Some plain_workspace], Some ''Main'') \<and>
    map la_id loaded = [''hunt'', ''play'']"
proof -
  have "case select_run (demo_env (Loaded plain_tenant)) demo_inputs (demo_opts None) of
      Inr (k, l, i, s) \<Rightarrow> k = [SENTINEL_ANALYTIC, SENTINEL_HUNTING,
        SENTINEL_WATCHLIST, SENTINEL_PARSER, SENTINEL_DATA_CONNECTOR, SENTINEL_PLAYBOOK, SENTINEL_AUTOMATION_RULE] \<and>
        map la_id l = [''hunt'', ''play''] \<and> i = [Some plain_workspace] \<and> s = Some ''Main'' | _ \<Rightarrow> False"
    by code_simp
  then show ?thesis by (auto split: sum.splits prod.splits)
qed

lemma gated_world:
  assumes "\<And>la ws res w. authorised E inp opt la ws res \<Longrightarrow> P w \<Longrightarrow>
      P (snd (h_apply (e_ops E (if ws = None then i_pipeline_ws inp else ws) (la_kind la)) res (a_dry_run opt) w))"
    and "P w"
  shows "P (world (f_ctx (apply_cmd E inp opt w d file)))"
proof (cases "select_run E inp opt")
  case (Inl x)
  then show ?thesis using assms(2) by (simp add: apply_cmd_stop)
next
  case (Inr sel)
  obtain kinds loaded iter seed where sel: "sel = (kinds, loaded, iter, seed)" by (cases sel)
  note s = Inr[unfolded sel]
  let ?E = "E\<lparr>e_registered := kinds\<rparr>"
  have iter: "iter = [None] \<or> None \<notin> set iter"
    using s by (rule select_run_cases) (metis loop_entries_shape)
  have "P (world (run_workspace_iteration (process_apply_asset ?E (a_dry_run opt)) loaded iter (start_ctx seed w)))"
  proof (rule run_workspace_iteration_world[where p = seed, OF _ _ _ iter])
    fix i ws la res v
    assume e: "(i, ws) \<in> set (enumerate 0 iter)" "la \<in> set (assets_of_pass loaded i)"
      "dispatched ?E seed la (map_option workspaceName ws) res" and v: "P v"
    note a = dispatched_authorised[OF s e]
    show "P (snd (h_apply (e_ops ?E (if ws = None then seed else map_option workspaceName ws) (la_kind la))
        res (a_dry_run opt) v))"
      using assms(1)[OF a(1) v] a(2) by (cases ws) auto
  qed (use assms(2) in \<open>simp_all add: start_ctx_def\<close>)
  then show ?thesis by (simp add: apply_cmd_ctx[OF s])
qed

section \<open>Properties\<close>



text \<open>
  C14. The dispatch is exact: the audited steps are, workspace by workspace and in deploy order, the
  selected assets with a registered handler; each gives one result; and a Defender asset is
  dispatched once however many workspaces there are.
\<close>

theorem apply_dispatch_exact:
  assumes "select_run E inp opt = Inr (kinds, loaded, iter, seed)"
    and pairs: "pairs = audit_pairs (f_ctx (apply_cmd E inp opt w d st))"
  shows "map pair_key pairs = concat (map (\<lambda>(i, ws).
      map (\<lambda>la. (la_id la, la_kind la, map_option workspaceName ws))
        (filter (\<lambda>la. la_kind la \<in> set kinds) (assets_of_pass loaded i))) (enumerate 0 iter)) \<and>
    results (f_ctx (apply_cmd E inp opt w d st)) = map (\<lambda>p. fst (snd p)) pairs \<and>
    length (filter (\<lambda>p. is_defender (fst p)) pairs) =
      length (filter (\<lambda>la. is_defender la \<and> la_kind la \<in> set kinds) loaded)"
proof (intro conjI)
  note k = dispatch_keys[OF assms(1), of w d st, folded pairs]
  then show "map pair_key pairs = concat (map (\<lambda>(i, ws).
      map (\<lambda>la. (la_id la, la_kind la, map_option workspaceName ws))
        (filter (\<lambda>la. la_kind la \<in> set kinds) (assets_of_pass loaded i))) (enumerate 0 iter))" .
  show "results (f_ctx (apply_cmd E inp opt w d st)) = map (\<lambda>p. fst (snd p)) pairs"
    unfolding pairs by (rule results_of_pairs[OF assms(1)])
  have "length (filter (\<lambda>p. is_defender (fst p)) pairs) =
      length (filter (\<lambda>k. startswith (asset_value (fst (snd k))) ''defender_'') (map pair_key pairs))"
    by (simp add: filter_map comp_def pair_key_def is_defender_def)
  then show "length (filter (\<lambda>p. is_defender (fst p)) pairs) =
      length (filter (\<lambda>la. is_defender la \<and> la_kind la \<in> set kinds) loaded)"
    unfolding k using defender_once[OF iter_nonempty[OF assms(1)]] by simp
qed

theorem apply_dispatch_exact_witness:
  "map (\<lambda>p. la_id (fst p)) (audit_pairs (f_ctx (apply_cmd (demo_env (Loaded plain_tenant)) demo_inputs
     (demo_opts None) [] None None))) = [''play'', ''hunt'']"
proof -
  let ?p = "audit_pairs (f_ctx (apply_cmd (demo_env (Loaded plain_tenant)) demo_inputs (demo_opts None) [] None None))"
  obtain k l i s where r: "select_run (demo_env (Loaded plain_tenant)) demo_inputs (demo_opts None) = Inr (k, l, i, s)"
    using demo_selected by blast
  have e: "case select_run (demo_env (Loaded plain_tenant)) demo_inputs (demo_opts None) of
      Inl _ \<Rightarrow> False
    | Inr (k, l, i, s) \<Rightarrow> map fst (concat (map (\<lambda>(i, ws). map (\<lambda>la. (la_id la, la_kind la, map_option workspaceName ws))
        (filter (\<lambda>la. la_kind la \<in> set k) (assets_of_pass l i))) (enumerate 0 i))) = [''play'', ''hunt'']"
    by code_simp
  have "map (\<lambda>p. la_id (fst p)) ?p = map fst (map pair_key ?p)" by (simp add: pair_key_def)
  also have "\<dots> = [''play'', ''hunt'']"
    using e unfolding apply_dispatch_exact[OF r refl, of "[]" None None, THEN conjunct1] r by simp
  finally show ?thesis .
qed

text \<open>
  Deploy order: a pass deploys the same assets, playbooks before everything else and automation
  rules after everything else, so a rule never precedes the playbook it runs.
\<close>

theorem ordered_for_apply_order:
  assumes "i < j" and "j < length loaded"
  shows "mset (ordered_for_apply loaded) = mset loaded \<and>
    (la_kind (ordered_for_apply loaded ! j) = SENTINEL_PLAYBOOK \<longrightarrow>
      la_kind (ordered_for_apply loaded ! i) = SENTINEL_PLAYBOOK) \<and>
    (la_kind (ordered_for_apply loaded ! i) = SENTINEL_AUTOMATION_RULE \<longrightarrow>
      la_kind (ordered_for_apply loaded ! j) = SENTINEL_AUTOMATION_RULE)"
proof -
  have len: "length (ordered_for_apply loaded) = length loaded" by (simp add: ordered_for_apply_def)
  have r: "apply_rank (ordered_for_apply loaded ! i) \<le> apply_rank (ordered_for_apply loaded ! j)"
    using sorted_nth_mono[OF ordered_for_apply_sorted[of loaded], of i j] assms by (simp add: len)
  have "mset (ordered_for_apply loaded) = mset loaded" by (simp add: ordered_for_apply_def)
  with apply_rank_le[OF r] show ?thesis by (intro conjI) simp_all
qed

theorem ordered_for_apply_order_witness:
  "let las = [demo_asset SENTINEL_AUTOMATION_RULE ''a'' ''production'' PNone,
              demo_asset SENTINEL_PLAYBOOK ''b'' ''production'' PNone] in
   la_kind (ordered_for_apply las ! 1) = SENTINEL_AUTOMATION_RULE \<and> mset (ordered_for_apply las) = mset las"
proof -
  define las where "las = [demo_asset SENTINEL_AUTOMATION_RULE ''a'' ''production'' PNone,
              demo_asset SENTINEL_PLAYBOOK ''b'' ''production'' PNone]"
  have "map la_kind (ordered_for_apply las) = [SENTINEL_PLAYBOOK, SENTINEL_AUTOMATION_RULE]"
    unfolding las_def by code_simp
  then have "la_kind (ordered_for_apply las ! 1) = SENTINEL_AUTOMATION_RULE"
    by (auto simp: map_eq_Cons_conv)
  moreover have "0 < (1::nat)" "1 < length las" by (simp_all add: las_def)
  from ordered_for_apply_order[OF this] have "mset (ordered_for_apply las) = mset las" by (rule conjunct1)
  ultimately show ?thesis unfolding Let_def las_def by (rule conjI)
qed

text \<open>
  Exit code: once assets were dispatched, a run that ends normally reports every step, and it
  exits with 0 exactly when the report counts no failure or failures were declared acceptable.
\<close>

theorem apply_exit_code:
  assumes "select_run E inp opt = Inr sel"
    and "f_exit (apply_cmd E inp opt w d file) \<noteq> None"
  shows "\<exists>rows t. f_report (apply_cmd E inp opt w d file) = Some (rows, t) \<and>
    t_total t = length (audit_pairs (f_ctx (apply_cmd E inp opt w d file))) \<and>
    f_exit (apply_cmd E inp opt w d file) = Some (if t_failed t = 0 \<or> a_continue opt then 0 else 1)"
proof -
  obtain kinds loaded iter seed where sel: "sel = (kinds, loaded, iter, seed)" by (cases sel)
  note s = assms(1)[unfolded sel]
  let ?out = "apply_cmd E inp opt w d file"
  obtain au where rep: "f_report ?out = Some (build_report au (audit_pairs (f_ctx ?out)))"
    and ex: "f_exit ?out = Some (exit_code (a_continue opt) (results (f_ctx ?out)))"
    using assms(2) by (rule apply_cmd_final[OF s])
  obtain rows t where r: "build_report au (audit_pairs (f_ctx ?out)) = (rows, t)" by fastforce
  note l = report_loop_rows[OF r[unfolded build_report_def], simplified]
  have "filter is_failure (results (f_ctx ?out)) = [] \<longleftrightarrow> t_failed t = 0"
    using l by (simp add: results_of_pairs[OF s] filter_map comp_def)
  then show ?thesis using rep ex r l by (auto simp: exit_code_def)
qed

text \<open>
  C15. Without other writers the audit trail of a run is the run. A run that wrote and ended normally appends to
  the log exactly one record for each dispatched step, in their order, each with the asset, id, owner, action,
  outcome, message, workspace and snippet digest of its own step and the commit and actor of the run; every other
  run leaves the log as it was, and a writing run is left without an exit code only if the clock of the chained
  timestamps overflows. What is left is again a directory that the writer builds.
\<close>

theorem apply_extends_trail:
  assumes "audit_run (e_hash E) day n d" and "day \<le> i_today inp" and "length (i_today inp) = 10"
    and "\<forall>i. canonical_ts (i_now inp i)" and "i_race inp = (\<lambda>_. id)" and "\<And>x. e_hash E x \<noteq> []"
    and "out = apply_cmd E inp opt w d st" and "pairs = audit_pairs (f_ctx out)"
  shows "(f_exit out \<noteq> None \<and> \<not> a_dry_run opt \<and> \<not> a_no_audit opt \<and> pairs \<noteq> [] \<longrightarrow>
      audit_run (e_hash E) (i_today inp) (n + length pairs) (f_audit out) \<and>
      (\<exists>cs. extended_by (i_today inp) cs d (f_audit out) \<and> list_all2 (records_step (i_prov inp)) pairs cs)) \<and>
    (f_exit out = None \<or> a_dry_run opt \<or> a_no_audit opt \<or> pairs = [] \<longrightarrow>
      audit_run (e_hash E) day n (f_audit out) \<and> files_of (f_audit out) = files_of d) \<and>
    (f_exit out = None \<and> pairs \<noteq> [] \<longrightarrow> (\<exists>p t. last_record_tail (Some (files_of d)) = Inr (p, t) \<and>
      chain_records (e_hash E) (audit_batch inp pairs) p t = Inl Overflow))"
proof (cases "select_run E inp opt")
  case (Inl x)
  then show ?thesis using assms(1,7,8) by (cases x) (simp add: apply_cmd_def start_ctx_def)
next
  case (Inr sel)
  obtain kinds loaded iter seed where sel: "sel = (kinds, loaded, iter, seed)" by (cases sel)
  note s = Inr[unfolded sel]
  have c: "pairs = audit_pairs (run_workspace_iteration
      (process_apply_asset (E\<lparr>e_registered := kinds\<rparr>) (a_dry_run opt)) loaded iter (start_ctx seed w))"
    using assms(7,8) by (simp only: apply_cmd_ctx[OF s])
  note u = assms(7) apply_cmd_def s sum.case prod.case Let_def c[symmetric]
  show ?thesis
  proof (cases "a_dry_run opt \<or> a_no_audit opt \<or> pairs = []")
    case True
    then have "f_audit out = d" "f_exit out \<noteq> None" by (simp_all only: u if_True apply_final.simps not_False_eq_True option.simps)
    then show ?thesis using True assms(1) by auto
  next
    case False
    obtain x d' where w: "write_audit (e_hash E) inp (audit_batch inp pairs) d = (x, d')" by fastforce
    obtain y d1 where wr: "write_records (e_hash E) (i_today inp) id (audit_batch inp pairs) d = (y, d1)" by fastforce
    have wa: "(x, d') = (case y of Inr f \<Rightarrow> Inr (Some f) | Inl e \<Rightarrow> Inl e, d1)"
      using w wr write_records_id_no_race[of "e_hash E" "i_today inp" "audit_batch inp pairs" d _ d1] assms(5)
      by (cases y) (auto simp: write_audit_def write_records_with_retry_def numeral_3_eq_3 split: audit_error.splits)
    have out: "f_audit out = d'" "f_exit out = None \<longleftrightarrow> (\<exists>e. x = Inl e)"
      by (cases x; simp add: u False w)+
    show ?thesis
    proof (rule write_records_exact[OF assms(1,6) wr])
      fix cs assume "y = Inr (i_today inp @ ''.jsonl'')" "extended_by (i_today inp) cs d d1"
        "list_all2 same_content (audit_batch inp pairs) cs"
      then show ?thesis
        using audit_run.append[OF assms(1,2,3) audit_batch_canonical[OF assms(4)] wr[unfolded \<open>y = _\<close>]] wa out False
        by (auto simp: audit_batch_length intro: audit_batch_content)
    next
      fix p t assume "y = Inl Overflow" "d1 = Some (files_of d)" "last_record_tail (Some (files_of d)) = Inr (p, t)"
        "chain_records (e_hash E) (audit_batch inp pairs) p t = Inl Overflow"
      then show ?thesis
        using audit_run.write_fails[OF assms(1)] wr wa out False by (auto simp: files_of_def)
    qed
  qed
qed

theorem apply_extends_trail_witness:
  "\<exists>c. extended_by ''2026-01-02'' [c] None (f_audit (apply_cmd (demo_env (Loaded plain_tenant)) demo_inputs
     (demo_opts None\<lparr>a_target := Some SENTINEL_HUNTING, a_no_audit := False\<rparr>) [] None None)) \<and>
     asset c = asset_value SENTINEL_HUNTING"
proof -
  let ?E = "demo_env (Loaded plain_tenant)"
  define opt where "opt = demo_opts None\<lparr>a_target := Some SENTINEL_HUNTING\<rparr>"
  define out where "out = apply_cmd ?E demo_inputs (opt\<lparr>a_no_audit := False\<rparr>) [] None None"
  have "map (\<lambda>p. la_kind (fst p)) (audit_pairs (f_ctx (apply_cmd ?E demo_inputs opt [] None None))) = [SENTINEL_HUNTING]"
    unfolding opt_def by code_simp
  then have kinds: "map (\<lambda>p. la_kind (fst p)) (audit_pairs (f_ctx out)) = [SENTINEL_HUNTING]"
    unfolding out_def by (subst f_ctx_no_audit)
  then have one: "length (audit_pairs (f_ctx out)) = 1" by (metis length_map list.size(3,4) One_nat_def add_0)
  have "isl (select_run ?E demo_inputs opt) = False" unfolding opt_def by code_simp
  then obtain sel where "select_run ?E demo_inputs opt = Inr sel" by (cases "select_run ?E demo_inputs opt") auto
  then have s: "select_run ?E demo_inputs (opt\<lparr>a_no_audit := False\<rparr>) = Inr sel" by (simp add: select_run_no_audit)
  have in_: "[] \<le> i_today demo_inputs" "length (i_today demo_inputs) = 10" "i_race demo_inputs = (\<lambda>_. id)"
    "\<forall>i. canonical_ts (i_now demo_inputs i)"
    using demo_canonical by (simp_all add: demo_inputs_def)
  have "f_exit out \<noteq> None"
    unfolding out_def by (rule first_write_exits[OF s one[unfolded out_def] in_(3)])
  moreover have "\<not> a_dry_run (opt\<lparr>a_no_audit := False\<rparr>)" "\<not> a_no_audit (opt\<lparr>a_no_audit := False\<rparr>)"
    by (simp_all add: opt_def demo_opts_def)
  moreover have "audit_pairs (f_ctx out) \<noteq> []" using one by auto
  moreover have h: "e_hash ?E x \<noteq> []" for x using demo_hash_nonempty by (simp add: demo_env_def)
  ultimately obtain cs where cs: "extended_by (i_today demo_inputs) cs None (f_audit out)"
      "list_all2 (records_step (i_prov demo_inputs)) (audit_pairs (f_ctx out)) cs"
    using apply_extends_trail[OF audit_run.start in_(1,2,4,3) h out_def refl] by blast
  obtain p where "audit_pairs (f_ctx out) = [p]" "la_kind (fst p) = SENTINEL_HUNTING" using kinds by auto
  then obtain c where "cs = [c]" "asset c = asset_value SENTINEL_HUNTING"
    using cs(2) by (cases p) (auto simp: list_all2_Cons1 records_step_def)
  then show ?thesis using cs(1) unfolding out_def opt_def by (auto simp: demo_inputs_def)
qed

text \<open>
  C16. The write safeguard does not see a role without a workspace: asked for a role other than
  integration that no workspace has, apply neither stops nor refuses, whatever the
  \<open>writeAllowed\<close> of the workspaces, and dispatches once, unbound, to the workspace that the inherited
  variable or the single-workspace default names.
\<close>

theorem role_without_workspace_proceeds:
  assumes "e_outcome E = Loaded t" and "a_role opt = Some r" and "r \<noteq> Integration" and "a_workspace opt = None"
    and "workspaces_for_role t r = []" and "\<forall>d. tenant_defender t = Some d \<longrightarrow> writeAllowed d"
    and "register_default_handlers (Loaded t) (i_disabled inp) = Some kinds"
    and "load_assets_for_run E (a_target opt) (a_since opt) = Some all"
    and "loaded = filter (status_allowed t []) all" and "loaded \<noteq> []"
    and "a_skip_deps opt \<or> dependency_violations E loaded = Some False"
  shows "select_run E inp opt =
    Inr (kinds, filter_locked_loaded_assets E loaded (a_force opt), [None], i_pipeline_ws inp)"
  using assms
  by (auto simp: select_run_def resolve_workspaces_for_run_def select_workspaces_def apply_write_refused_def
      filter_loaded_by_env_status_def loop_entries_def seed_workspace_def Let_def split: option.split)

theorem role_without_workspace_proceeds_witness:
  "filter writeAllowed (sentinelWorkspaces closed_tenant) = [] \<and>
   world (f_ctx (apply_cmd (demo_env (Loaded closed_tenant)) demo_inputs (demo_opts (Some Dev)) [] None None)) = [''hunt''] \<and>
   (\<exists>kinds loaded. select_run (demo_env (Loaded closed_tenant)) demo_inputs (demo_opts (Some Dev)) =
     Inr (kinds, loaded, [None], None))"
proof (intro conjI)
  show "filter writeAllowed (sentinelWorkspaces closed_tenant) = []" by code_simp
  show "world (f_ctx (apply_cmd (demo_env (Loaded closed_tenant)) demo_inputs (demo_opts (Some Dev)) [] None None)) = [''hunt'']"
    by code_simp
  let ?E = "demo_env (Loaded closed_tenant)" and ?o = "demo_opts (Some Dev)"
  have f: "e_outcome ?E = Loaded closed_tenant" "a_role ?o = Some Dev" "a_workspace ?o = None" "a_skip_deps ?o = False"
    by (simp_all add: demo_env_def demo_opts_def)
  have w: "workspaces_for_role closed_tenant Dev = []" "tenant_defender closed_tenant = None" by code_simp+
  have "case (register_default_handlers (Loaded closed_tenant) (i_disabled demo_inputs),
      load_assets_for_run ?E (a_target ?o) (a_since ?o)) of
      (Some _, Some all) \<Rightarrow> filter (status_allowed closed_tenant []) all \<noteq> [] \<and>
        dependency_violations ?E (filter (status_allowed closed_tenant []) all) = Some False
    | _ \<Rightarrow> False" by code_simp
  then obtain kinds all where k: "register_default_handlers (Loaded closed_tenant) (i_disabled demo_inputs) = Some kinds"
      "load_assets_for_run ?E (a_target ?o) (a_since ?o) = Some all"
      "filter (status_allowed closed_tenant []) all \<noteq> []"
      "dependency_violations ?E (filter (status_allowed closed_tenant []) all) = Some False"
    by (auto split: option.splits)
  have "select_run ?E demo_inputs ?o = Inr (kinds,
      filter_locked_loaded_assets ?E (filter (status_allowed closed_tenant []) all) (a_force ?o), [None], i_pipeline_ws demo_inputs)"
    by (rule role_without_workspace_proceeds[OF f(1,2) _ f(3) w(1) _ k(1,2) refl k(3)])
       (use w(2) k(4) in simp_all)
  then show "\<exists>kinds loaded. select_run ?E demo_inputs ?o = Inr (kinds, loaded, [None], None)"
    by (simp add: demo_inputs_def)
qed

text \<open>
  Plan is read-only, and it plans one workspace at most: it never changes the world nor queues an
  audit record, and for a role that several workspaces share it exits with 2 before planning
  anything, where apply goes on to deploy to each of them.
\<close>

theorem plan_is_read_only:
  assumes "plan_cmd E inp opt w = (ex, c)"
  shows "world c = w \<and> audit_pairs c = [] \<and>
    (\<forall>t r. e_outcome E = Loaded t \<longrightarrow> a_role opt = Some r \<longrightarrow> a_workspace opt = None \<longrightarrow>
      1 < length (workspaces_for_role t r) \<longrightarrow> ex = Some 2 \<and> results c = [])"
proof (intro conjI allI impI)
  let ?I = "\<lambda>c :: _ run_ctx. world c = w \<and> audit_pairs c = []"
  have "?I (run_workspace_iteration (process_plan_asset E') loaded iter (start_ctx seed w))" for E' loaded iter seed
  proof (rule run_workspace_iteration_inv)
    fix i ws d assume d: "?I d"
    have "?I (fold (\<lambda>la. process_plan_asset E' la n) las b)" if "?I b" for las n b
      using that by (induction las arbitrary: b) (simp_all add: process_plan_asset_frame)
    then show "?I (workspace_pass (process_plan_asset E') loaded (i, ws) d)"
      using d by (simp add: workspace_pass_def split: option.split)
  qed (simp add: start_ctx_def)
  then have "?I c"
    using assms
    by (auto simp: plan_cmd_def Let_def start_ctx_def split: if_splits resolution.splits sum.splits option.splits)
  then show "world c = w" "audit_pairs c = []" by auto
next
  fix t r assume a: "e_outcome E = Loaded t" "a_role opt = Some r" "a_workspace opt = None"
    and two: "1 < length (workspaces_for_role t r)"
  have ne: "sentinelWorkspaces t \<noteq> []" using two by (auto simp: workspaces_for_role_def)
  obtain x y zs where z: "workspaces_for_role t r = x # y # zs"
    using two by (cases "workspaces_for_role t r" rule: remdups_adj.cases) auto
  then have "resolve_single_workspace (Loaded t) (i_pipeline_ws inp) (Some r) None None = Exit 2"
    using ne by (simp add: resolve_single_workspace_def select_workspaces_def)
  moreover have "\<not> skip_if_integration_role_absent (Loaded t) (Some r) None"
    using z by (auto simp: skip_if_integration_role_absent_def)
  ultimately have "plan_cmd E inp opt w = (Some 2, start_ctx (i_pipeline_ws inp) w)"
    by (simp add: plan_cmd_def a Let_def)
  then show "ex = Some 2" "results c = []" using assms by (auto simp: start_ctx_def)
qed

theorem plan_is_read_only_witness:
  "fst (plan_cmd (demo_env (Loaded (plain_tenant\<lparr>sentinelWorkspaces := [plain_workspace,
      plain_workspace\<lparr>workspaceName := ''Other''\<rparr>]\<rparr>))) demo_inputs (demo_opts (Some Prod)) []) = Some 2"
proof -
  let ?t = "plain_tenant\<lparr>sentinelWorkspaces := [plain_workspace, plain_workspace\<lparr>workspaceName := ''Other''\<rparr>]\<rparr>"
  obtain ex c where p: "plan_cmd (demo_env (Loaded ?t)) demo_inputs (demo_opts (Some Prod)) [] = (ex, c)" by fastforce
  have "1 < length (workspaces_for_role ?t Prod)" by code_simp
  moreover have "e_outcome (demo_env (Loaded ?t)) = Loaded ?t" "a_role (demo_opts (Some Prod)) = Some Prod"
    "a_workspace (demo_opts (Some Prod)) = None" by (simp_all add: demo_env_def demo_opts_def)
  ultimately have "ex = Some 2" using plan_is_read_only[OF p] by blast
  then show ?thesis by (simp add: p)
qed

end
