(* ===== verification/Prune.thy ===== *)
theory Prune
  imports Apply_Support Drift
begin

text \<open>
  The prune command, \<open>contentops/cli/commands/prune.py\<close>: the safeguards and their clamp, the plan
  (remote assets without a local file), the refusals, the deletions and their audit records. The
  drift-capable handler of a kind and its \<open>delete\<close> are parameters; \<open>delete\<close> acts on the world. Not
  modelled: the printed tables and the JSON summary.
\<close>

section \<open>Inputs and outcome\<close>

datatype delete_outcome =
    Deleted action_result
  | Not_supported string          \<comment> \<open>\<open>NotSupportedError\<close>\<close>
  | Delete_raised string

record 'w prune_env =
  pe_outcome :: load_outcome
  pe_drift :: "asset_kind \<Rightarrow> handler option"
  pe_delete :: "asset_kind \<Rightarrow> string \<Rightarrow> 'w \<Rightarrow> delete_outcome \<times> 'w"
  pe_yload :: "string \<Rightarrow> pyval option"
  pe_to_int :: "pyval \<Rightarrow> int option"
  pe_detections :: repo
  pe_hash :: "string \<Rightarrow> string"
  pe_pipeline_ws :: "string option"
  pe_disabled :: string
  pe_prov :: provenance
  pe_now :: "nat \<Rightarrow> string"
  pe_today :: string
  pe_race :: "audit_files \<Rightarrow> audit_files"

record prune_opts =
  p_target :: "asset_kind option"
  p_role :: "role option"
  p_workspace :: "string option"
  p_dry_run :: bool
  p_yes :: bool
  p_max_deletes :: int
  p_include_locked :: bool
  p_allow_empty_kind :: bool

record orphan =
  o_asset :: asset_kind
  o_id :: string
  o_remote :: string

section \<open>Safeguards\<close>

text \<open>\<open>_resolve_safeguards_for_target\<close>; \<open>None\<close> is a malformed configuration.\<close>

definition resolve_safeguards_for_target ::
  "load_outcome \<Rightarrow> string option \<Rightarrow> asset_kind option \<Rightarrow> safeguards list option" where
  "resolve_safeguards_for_target outcome active target =
    (case outcome of
       No_config \<Rightarrow> Some []
     | Bad_config \<Rightarrow> None
     | Loaded t \<Rightarrow>
         (let want = (\<lambda>values. case target of None \<Rightarrow> True | Some k \<Rightarrow> asset_value k \<in> set values);
              sen = (if want SENTINEL_ASSET_VALUES \<and> sentinelWorkspaces t \<noteq> []
                     then case active of
                         Some (c # cs) \<Rightarrow>
                           (case workspace_by_name t (c # cs) of
                              Inr w \<Rightarrow> [safeguards.truncate w] | Inl _ \<Rightarrow> [])
                       | _ \<Rightarrow>
                           (case sentinelWorkspaces t of [w] \<Rightarrow> [safeguards.truncate w] | _ \<Rightarrow> [])
                     else []);
              def = (if want DEFENDER_ASSET_VALUES
                     then case tenant_defender t of None \<Rightarrow> [] | Some d \<Rightarrow> [safeguards.truncate d]
                     else [])
          in Some (sen @ def)))"

text \<open>The loop over the safeguards: \<open>None\<close> refuses, \<open>Some\<close> is the cap that is left.\<close>

fun clamp_deletes :: "bool \<Rightarrow> safeguards list \<Rightarrow> int \<Rightarrow> int option" where
  "clamp_deletes will [] cap = Some cap"
| "clamp_deletes will (sg # sgs) cap =
     (if will \<and> \<not> purgeAllowed sg then None else clamp_deletes will sgs (min cap (maxDelete sg)))"

section \<open>Handlers\<close>

definition collect_drift_handlers ::
  "(asset_kind \<Rightarrow> handler option) \<Rightarrow> asset_kind list \<Rightarrow> asset_kind option \<Rightarrow> handler list" where
  "collect_drift_handlers drift kinds target =
    concat (map (\<lambda>k. if (case target of None \<Rightarrow> False | Some t \<Rightarrow> k \<noteq> t) then []
                     else case drift k of None \<Rightarrow> [] | Some h \<Rightarrow> [h]) kinds)"

text \<open>The kinds in monitor mode are taken out; \<open>None\<close> when looking a mode up raises.\<close>

definition managed_handlers ::
  "load_outcome \<Rightarrow> string option \<Rightarrow> handler list \<Rightarrow> handler list option" where
  "managed_handlers outcome ws hs =
    (if \<exists>h \<in> set hs. asset_mode_for outcome ws (h_asset h) None = None then None
     else Some (filter (\<lambda>h. asset_mode_for outcome ws (h_asset h) None \<noteq> Some Monitor) hs))"

section \<open>The plan\<close>

record prune_plan =
  orphans :: "orphan list"
  skipped_locked :: "orphan list"
  empty_kinds :: "asset_kind list"
  list_errors :: "asset_kind list"
  listed_ok :: nat

definition empty_plan :: prune_plan where
  "empty_plan = \<lparr>orphans = [], skipped_locked = [], empty_kinds = [], list_errors = [], listed_ok = 0\<rparr>"

definition locked_ids ::
  "(string \<Rightarrow> pyval option) \<Rightarrow> (pyval \<Rightarrow> int option) \<Rightarrow> repo \<Rightarrow> (asset_kind \<times> string) list" where
  "locked_ids yload to_int files = map (\<lambda>la. (la_kind la, la_id la))
     (filter (is_locked yload files) (fst (iter_loaded_assets yload to_int files)))"

definition plan_remote ::
  "handler \<Rightarrow> local_index \<Rightarrow> (asset_kind \<times> string) list \<Rightarrow> bool \<Rightarrow> pydict \<Rightarrow> prune_plan \<Rightarrow> prune_plan" where
  "plan_remote h local locked include_locked r p =
    (case to_envelope h r of
       None \<Rightarrow> p
     | Some e \<Rightarrow>
         (let i = text_of (dget e ''id''); rid = remote_key r;
              x = \<lparr>o_asset = h_asset h, o_id = i, o_remote = rid\<rparr>
          in if i = [] \<or> rid = [] then p
             else if map_of local rid \<noteq> None \<or> map_of local i \<noteq> None then p
             else if (h_asset h, i) \<in> set locked \<and> \<not> include_locked
             then p\<lparr>skipped_locked := skipped_locked p @ [x]\<rparr>
             else p\<lparr>orphans := orphans p @ [x]\<rparr>))"

definition plan_handler ::
  "'w prune_env \<Rightarrow> prune_opts \<Rightarrow> handler \<Rightarrow> prune_plan \<Rightarrow> prune_plan" where
  "plan_handler E opt h p =
    (let local = local_index (pe_yload E) (pe_to_int E) (pe_detections E) (h_asset h) in
     case list_remote h of
       Inl _ \<Rightarrow> p\<lparr>list_errors := list_errors p @ [h_asset h]\<rparr>
     | Inr remotes \<Rightarrow>
         (let p = p\<lparr>listed_ok := Suc (listed_ok p)\<rparr>;
              bare = (remotes \<noteq> [] \<and> local = []);
              p = (if bare then p\<lparr>empty_kinds := empty_kinds p @ [h_asset h]\<rparr> else p)
          in if bare \<and> \<not> p_allow_empty_kind opt then p
             else fold (plan_remote h local (locked_ids (pe_yload E) (pe_to_int E) (pe_detections E))
                    (p_include_locked opt)) remotes p))"

definition prune_plan_of :: "'w prune_env \<Rightarrow> prune_opts \<Rightarrow> handler list \<Rightarrow> prune_plan" where
  "prune_plan_of E opt hs = fold (plan_handler E opt) hs empty_plan"

section \<open>Deleting\<close>

type_synonym prune_pair = "string \<times> asset_kind \<times> action_result"

definition delete_orphan :: "'w prune_env \<Rightarrow> orphan \<Rightarrow> prune_pair list \<times> 'w \<Rightarrow> prune_pair list \<times> 'w" where
  "delete_orphan E x = (\<lambda>(pairs, w).
    let (out, w') = pe_delete E (o_asset x) (o_remote x) w;
        r = (case out of
               Deleted r \<Rightarrow> r
             | Not_supported m \<Rightarrow> own_result (o_id x) (o_asset x) SKIP ''skipped'' (take 200 m)
             | Delete_raised m \<Rightarrow> (own_result (o_id x) (o_asset x) DELETE ''error-exception'' (take 200 m))
                 \<lparr>r_error := Some (take 200 m)\<rparr>)
    in (pairs @ [(o_id x, o_asset x, r)], w'))"

definition delete_orphans :: "'w prune_env \<Rightarrow> orphan list \<Rightarrow> 'w \<Rightarrow> prune_pair list \<times> 'w" where
  "delete_orphans E xs w = fold (delete_orphan E) xs ([], w)"

definition prune_batch :: "'w prune_env \<Rightarrow> string option \<Rightarrow> prune_pair list \<Rightarrow> audit_record list" where
  "prune_batch E ws pairs = map (\<lambda>(i, eid, k, r).
     build_audit_record (pe_prov E) (pe_now E i) r (eid, asset_value k, None) ws None (Some ''pruned''))
     (enumerate 0 pairs)"

section \<open>The command\<close>

record 'w prune_final =
  pf_exit :: "nat option"
  pf_pairs :: "prune_pair list"
  pf_world :: 'w
  pf_audit :: audit_dir

text \<open>
  Everything before the first deletion: \<open>Inl\<close> is the exit code (\<open>None\<close> an exception), \<open>Inr\<close> the
  orphans to delete and the workspace they are deleted in.
\<close>

definition prune_select ::
  "'w prune_env \<Rightarrow> prune_opts \<Rightarrow> nat option + orphan list \<times> string option" where
  "prune_select E opt =
    (let will = (\<not> p_dry_run opt \<and> p_yes opt) in
     if skip_if_integration_role_absent (pe_outcome E) (p_role opt) (p_workspace opt) then Inl (Some 0)
     else case resolve_single_workspace (pe_outcome E) (pe_pipeline_ws E) (p_role opt) (p_workspace opt) None of
       Exit n \<Rightarrow> Inl (Some n)
     | Crash \<Rightarrow> Inl None
     | Env ws \<Rightarrow>
         (case resolve_safeguards_for_target (pe_outcome E) ws (p_target opt) of
            None \<Rightarrow> Inl None
          | Some sgs \<Rightarrow>
              (case clamp_deletes will sgs (p_max_deletes opt) of
                 None \<Rightarrow> Inl (Some 2)
               | Some cap \<Rightarrow>
                   (case register_default_handlers (pe_outcome E) (pe_disabled E) of
                      None \<Rightarrow> Inl None
                    | Some kinds \<Rightarrow>
                        (case managed_handlers (pe_outcome E) ws
                                (collect_drift_handlers (pe_drift E) kinds (p_target opt)) of
                           None \<Rightarrow> Inl None
                         | Some hs \<Rightarrow>
                             (let p = prune_plan_of E opt hs in
                              if hs = [] then Inl (Some 0)
                              else if list_errors p \<noteq> [] \<and> listed_ok p = 0 then Inl (Some 2)
                              else if empty_kinds p \<noteq> [] \<and> \<not> p_allow_empty_kind opt \<and> will then Inl (Some 2)
                              else if orphans p = [] then Inl (Some 0)
                              else if cap < int (length (orphans p)) then Inl (Some 1)
                              else if \<not> will then Inl (Some 0)
                              else Inr (orphans p, ws)))))))"

definition prune_cmd :: "'w prune_env \<Rightarrow> prune_opts \<Rightarrow> 'w \<Rightarrow> audit_dir \<Rightarrow> 'w prune_final" where
  "prune_cmd E opt w d =
    (case prune_select E opt of
       Inl ex \<Rightarrow> \<lparr>pf_exit = ex, pf_pairs = [], pf_world = w, pf_audit = d\<rparr>
     | Inr (xs, ws) \<Rightarrow>
         (let (pairs, w') = delete_orphans E xs w in
          case write_records (pe_hash E) (pe_today E) (pe_race E) (prune_batch E ws pairs) d of
            (Inl _, d') \<Rightarrow> \<lparr>pf_exit = None, pf_pairs = pairs, pf_world = w', pf_audit = d'\<rparr>
          | (Inr _, d') \<Rightarrow>
              \<lparr>pf_exit = Some (if filter (\<lambda>p. is_failure (snd (snd p))) pairs = [] then 0 else 1),
               pf_pairs = pairs, pf_world = w', pf_audit = d'\<rparr>))"

section \<open>Lemmas\<close>

text \<open>The specification: a remote is an orphan when neither its key nor its id names a local file.\<close>

definition orphan_of :: "handler \<Rightarrow> local_index \<Rightarrow> pydict \<Rightarrow> orphan list" where
  "orphan_of h local r = (case to_envelope h r of None \<Rightarrow> [] | Some e \<Rightarrow>
     (let i = text_of (dget e ''id''); rid = remote_key r
      in if i = [] \<or> rid = [] \<or> map_of local rid \<noteq> None \<or> map_of local i \<noteq> None then []
         else [\<lparr>o_asset = h_asset h, o_id = i, o_remote = rid\<rparr>]))"

abbreviation index_for :: "'w prune_env \<Rightarrow> handler \<Rightarrow> local_index" where
  "index_for E h \<equiv> local_index (pe_yload E) (pe_to_int E) (pe_detections E) (h_asset h)"

definition orphans_in :: "'w prune_env \<Rightarrow> bool \<Rightarrow> handler \<Rightarrow> orphan list" where
  "orphans_in E allow h = (case list_remote h of Inl _ \<Rightarrow> [] | Inr rs \<Rightarrow>
     (if index_for E h = [] \<and> \<not> allow then [] else concat (map (orphan_of h (index_for E h)) rs)))"

text \<open>The kinds with remotes and no local file.\<close>

definition bare_kind :: "'w prune_env \<Rightarrow> handler \<Rightarrow> bool" where
  "bare_kind E h \<longleftrightarrow> (\<exists>r rs. list_remote h = Inr (r # rs)) \<and> index_for E h = []"

lemma locked_indexed:
  assumes "(a, i) \<in> set (locked_ids yload to_int files)"
  shows "map_of (local_index yload to_int files a) i \<noteq> None"
proof -
  obtain la where "la \<in> set (fst (iter_loaded_assets yload to_int files))" "a = la_kind la" "i = la_id la"
    using assms by (auto simp: locked_ids_def)
  then show ?thesis
    using local_index_complete[of la yload to_int files i] by (simp add: la_kind_def la_id_def indexed_as_def)
qed

lemma plan_remote_exact:
  assumes "\<And>i. (h_asset h, i) \<in> set locked \<Longrightarrow> map_of local i \<noteq> None"
  shows "plan_remote h local locked inc r p = p\<lparr>orphans := orphans p @ orphan_of h local r\<rparr>"
  using assms by (auto simp: plan_remote_def orphan_of_def Let_def split: option.split)

lemma plan_remotes_exact:
  assumes "\<And>i. (h_asset h, i) \<in> set locked \<Longrightarrow> map_of local i \<noteq> None"
  shows "fold (plan_remote h local locked inc) rs p =
    p\<lparr>orphans := orphans p @ concat (map (orphan_of h local) rs)\<rparr>"
  by (induction rs arbitrary: p) (simp_all add: plan_remote_exact[OF assms])

lemma plan_handler_exact:
  "plan_handler E opt h p = p\<lparr>orphans := orphans p @ orphans_in E (p_allow_empty_kind opt) h,
     list_errors := list_errors p @ (if isl (list_remote h) then [h_asset h] else []),
     listed_ok := listed_ok p + (if isl (list_remote h) then 0 else 1),
     empty_kinds := empty_kinds p @ (if bare_kind E h then [h_asset h] else [])\<rparr>"
proof (cases "list_remote h")
  case (Inl msg)
  then show ?thesis by (simp add: plan_handler_def orphans_in_def bare_kind_def)
next
  case (Inr rs)
  have b: "bare_kind E h \<longleftrightarrow> rs \<noteq> [] \<and> index_for E h = []"
    by (cases rs) (simp_all add: bare_kind_def Inr)
  show ?thesis
    by (cases "rs = []")
       (simp_all add: plan_handler_def Let_def Inr b orphans_in_def plan_remotes_exact[OF locked_indexed])
qed

lemma plan_of_exact:
  "fold (plan_handler E opt) hs p = p\<lparr>orphans := orphans p @ concat (map (orphans_in E (p_allow_empty_kind opt)) hs),
     list_errors := list_errors p @ map h_asset (filter (\<lambda>h. isl (list_remote h)) hs),
     listed_ok := listed_ok p + length (filter (\<lambda>h. \<not> isl (list_remote h)) hs),
     empty_kinds := empty_kinds p @ map h_asset (filter (bare_kind E) hs)\<rparr>"
  by (induction hs arbitrary: p) (simp_all add: plan_handler_exact)

lemma clamp_deletes_Some:
  "clamp_deletes will sgs cap = Some c \<Longrightarrow>
     c \<le> cap \<and> (\<forall>sg \<in> set sgs. c \<le> maxDelete sg \<and> (will \<longrightarrow> purgeAllowed sg))"
proof (induction sgs arbitrary: cap)
  case (Cons sg sgs)
  then have "clamp_deletes will sgs (min cap (maxDelete sg)) = Some c" "will \<longrightarrow> purgeAllowed sg"
    by (auto split: if_splits)
  with Cons.IH[of "min cap (maxDelete sg)"] show ?case by auto
qed simp

lemma prune_select_cases:
  assumes "prune_select E opt = Inr (xs, ws)"
  obtains sgs cap kinds hs where
    "\<not> p_dry_run opt" "p_yes opt"
    "resolve_single_workspace (pe_outcome E) (pe_pipeline_ws E) (p_role opt) (p_workspace opt) None = Env ws"
    "resolve_safeguards_for_target (pe_outcome E) ws (p_target opt) = Some sgs"
    "clamp_deletes True sgs (p_max_deletes opt) = Some cap" "int (length xs) \<le> cap"
    "register_default_handlers (pe_outcome E) (pe_disabled E) = Some kinds"
    "managed_handlers (pe_outcome E) ws (collect_drift_handlers (pe_drift E) kinds (p_target opt)) = Some hs"
    "xs = concat (map (orphans_in E (p_allow_empty_kind opt)) hs)"
    "p_allow_empty_kind opt \<or> filter (bare_kind E) hs = []" "xs \<noteq> []"
proof -
  have "\<exists>sgs cap kinds hs. \<not> p_dry_run opt \<and> p_yes opt \<and>
      resolve_single_workspace (pe_outcome E) (pe_pipeline_ws E) (p_role opt) (p_workspace opt) None = Env ws \<and>
      resolve_safeguards_for_target (pe_outcome E) ws (p_target opt) = Some sgs \<and>
      clamp_deletes True sgs (p_max_deletes opt) = Some cap \<and> int (length xs) \<le> cap \<and>
      register_default_handlers (pe_outcome E) (pe_disabled E) = Some kinds \<and>
      managed_handlers (pe_outcome E) ws (collect_drift_handlers (pe_drift E) kinds (p_target opt)) = Some hs \<and>
      xs = concat (map (orphans_in E (p_allow_empty_kind opt)) hs) \<and>
      (filter (bare_kind E) hs = [] \<or> p_allow_empty_kind opt) \<and> xs \<noteq> []"
    using assms
    by (simp add: prune_select_def Let_def prune_plan_of_def plan_of_exact empty_plan_def not_less
        del: filter_empty_conv concat_eq_Nil_conv
        split: if_splits resolution.splits option.splits)
  then show thesis using that by blast
qed

lemma managed_handlers_sub:
  assumes "managed_handlers outcome ws (collect_drift_handlers drift kinds target) = Some hs" and "h \<in> set hs"
  shows "\<exists>k \<in> set kinds. drift k = Some h \<and> (\<forall>t. target = Some t \<longrightarrow> k = t)"
    "asset_mode_for outcome ws (h_asset h) None = Some Managed"
proof -
  let ?all = "collect_drift_handlers drift kinds target"
  have "h \<in> set ?all" "asset_mode_for outcome ws (h_asset h) None \<notin> {None, Some Monitor}"
    using assms by (auto simp: managed_handlers_def split: if_splits)
  then show "\<exists>k \<in> set kinds. drift k = Some h \<and> (\<forall>t. target = Some t \<longrightarrow> k = t)"
    "asset_mode_for outcome ws (h_asset h) None = Some Managed"
    by (auto simp: collect_drift_handlers_def split: if_splits option.splits)
       (metis asset_mode.exhaust)
qed

text \<open>One deletion: the pair it queues and the world it leaves.\<close>

lemma delete_orphan_world: "snd (delete_orphan E x (pairs, w)) = snd (pe_delete E (o_asset x) (o_remote x) w)"
  by (simp add: delete_orphan_def Let_def case_prod_unfold)

lemma delete_orphan_keys: "map (\<lambda>(i, k, _). (i, k)) (fst (delete_orphan E x st)) =
    map (\<lambda>(i, k, _). (i, k)) (fst st) @ [(o_id x, o_asset x)]"
  by (simp add: delete_orphan_def Let_def case_prod_unfold)

lemma delete_fold_keys: "map (\<lambda>(i, k, _). (i, k)) (fst (fold (delete_orphan E) xs st)) =
    map (\<lambda>(i, k, _). (i, k)) (fst st) @ map (\<lambda>x. (o_id x, o_asset x)) xs"
  by (induction xs arbitrary: st) (simp_all add: delete_orphan_keys)

lemma length_delete_orphans: "length (fst (delete_orphans E xs w)) = length xs"
proof -
  have "length (fst (fold (delete_orphan E) xs st)) = length (fst st) + length xs" for st
    by (induction xs arbitrary: st) (simp_all add: delete_orphan_def Let_def case_prod_unfold)
  then show ?thesis by (simp add: delete_orphans_def)
qed

lemma delete_fold_world:
  assumes "\<And>x w. x \<in> set xs \<Longrightarrow> P w \<Longrightarrow> P (snd (pe_delete E (o_asset x) (o_remote x) w))"
  shows "P (snd st) \<Longrightarrow> P (snd (fold (delete_orphan E) xs st))"
  using assms
proof (induction xs arbitrary: st)
  case (Cons x xs)
  have "P (snd (delete_orphan E x st))"
    using Cons.prems by (cases st) (simp add: delete_orphan_world)
  with Cons.IH Cons.prems(2) show ?case by simp
qed simp

lemma prune_cmd_stop: "prune_select E opt = Inl ex \<Longrightarrow>
    prune_cmd E opt w d = \<lparr>pf_exit = ex, pf_pairs = [], pf_world = w, pf_audit = d\<rparr>"
  by (simp add: prune_cmd_def)

lemma prune_cmd_run:
  assumes "prune_select E opt = Inr (xs, ws)"
  shows "pf_pairs (prune_cmd E opt w d) = fst (delete_orphans E xs w)"
    "pf_world (prune_cmd E opt w d) = snd (delete_orphans E xs w)"
    "pf_audit (prune_cmd E opt w d) = snd (write_records (pe_hash E) (pe_today E) (pe_race E)
       (prune_batch E ws (fst (delete_orphans E xs w))) d)"
    "pf_exit (prune_cmd E opt w d) = None \<longleftrightarrow> isl (fst (write_records (pe_hash E) (pe_today E) (pe_race E)
       (prune_batch E ws (fst (delete_orphans E xs w))) d))"
  using assms by (auto simp: prune_cmd_def split: prod.splits sum.splits)

text \<open>What prune does depends on the files only through the assets that load.\<close>

lemma prune_cmd_cong:
  assumes "\<And>h. index_for E' h = index_for E h"
    and "E' = E\<lparr>pe_detections := files\<rparr>" and "opt' = opt\<lparr>p_include_locked := b\<rparr>"
  shows "prune_cmd E' opt' w d = prune_cmd E opt w d"
proof -
  have o: "orphans_in E' allow h = orphans_in E allow h" "bare_kind E' h = bare_kind E h" for allow h
    unfolding orphans_in_def bare_kind_def assms(1) by (rule refl)+
  then have "orphans_in E' = orphans_in E" "bare_kind E' = bare_kind E" by (simp_all add: fun_eq_iff)
  then have "prune_plan_of E' opt' hs = prune_plan_of E opt hs" for hs
    by (simp add: prune_plan_of_def plan_of_exact assms(3))
  moreover have "p_role opt' = p_role opt" "p_workspace opt' = p_workspace opt" "p_target opt' = p_target opt"
      "p_dry_run opt' = p_dry_run opt" "p_yes opt' = p_yes opt" "p_max_deletes opt' = p_max_deletes opt"
      "p_allow_empty_kind opt' = p_allow_empty_kind opt"
    by (simp_all add: assms(3))
  moreover have "pe_outcome E' = pe_outcome E" "pe_drift E' = pe_drift E" "pe_disabled E' = pe_disabled E"
      "pe_pipeline_ws E' = pe_pipeline_ws E"
    by (simp_all add: assms(2))
  ultimately have "prune_select E' opt' = prune_select E opt"
    by (simp only: prune_select_def cong: resolution.case_cong option.case_cong)
  moreover have "delete_orphan E' = delete_orphan E"
    by (simp add: fun_eq_iff delete_orphan_def assms(2))
  then have "delete_orphans E' xs w = delete_orphans E xs w" for xs
    by (simp add: delete_orphans_def)
  ultimately show ?thesis
    by (simp add: prune_cmd_def prune_batch_def assms(2) split: sum.split)
qed

lemma yml_not_sidecar: "endswith n ''.yml'' \<Longrightarrow> endswith m ''.workflow.json'' \<Longrightarrow> n \<noteq> m"
  by (auto simp: endswith_def suffix_def append_eq_append_conv2 Cons_eq_append_conv append_eq_Cons_conv)

lemma iter_loaded_without:
  assumes "\<And>l. load_asset yload to_int files p \<noteq> Inr l" and "p = q @ [n]" and "endswith n ''.yml''"
  shows "fst (iter_loaded_assets yload to_int (filter (\<lambda>x. fst x \<noteq> p) files)) =
    fst (iter_loaded_assets yload to_int files)"
proof -
  let ?files = "filter (\<lambda>x. fst x \<noteq> p) files"
  have m: "map_of ?files r = map_of files r" if "r \<noteq> p" for r
    using that by (induction files) auto
  have side: "inline_playbook_sidecar ?files r payload = inline_playbook_sidecar files r payload" for r payload
  proof -
    have "butlast r @ [name] \<noteq> p" if "sidecar_name_ok name" for name
      using that yml_not_sidecar[OF assms(3)] by (auto simp: sidecar_name_ok_def assms(2))
    then show ?thesis
      by (simp add: inline_playbook_sidecar_def Let_def m split: pyval.split)
  qed
  have load: "load_asset yload to_int ?files r = load_asset yload to_int files r" if "r \<noteq> p" for r
    unfolding load_asset_def m[OF that] side by (rule refl)
  define g where "g = (\<lambda>r. case load_asset yload to_int files r of Inr l \<Rightarrow> [l] | Inl _ \<Rightarrow> [])"
  have "discover_assets ?files = filter (\<lambda>r. r \<noteq> p) (discover_assets files)"
    by (simp add: discover_assets_def filter_sort filter_map comp_def conj_commute conj_left_commute)
  then have "fst (iter_loaded_assets yload to_int ?files) =
      concat (map g (filter (\<lambda>r. r \<noteq> p) (discover_assets files)))"
    by (auto simp: iter_loaded_assets_def Let_def comp_def g_def load intro!: arg_cong[where f = concat])
  also have "\<dots> = concat (map g (discover_assets files))"
  proof -
    have "concat (map g (filter (\<lambda>r. r \<noteq> p) ds)) = concat (map g ds)" for ds
      using assms(1) by (induction ds) (auto simp: g_def split: sum.split)
    then show ?thesis .
  qed
  finally show ?thesis by (simp add: iter_loaded_assets_def Let_def comp_def g_def)
qed

text \<open>What every brake of the command asks of a deletion.\<close>

definition deletable :: "'w prune_env \<Rightarrow> prune_opts \<Rightarrow> string option \<Rightarrow> orphan \<Rightarrow> bool" where
  "deletable E opt ws x \<longleftrightarrow>
     \<not> p_dry_run opt \<and> p_yes opt \<and>
     (\<exists>sgs. resolve_safeguards_for_target (pe_outcome E) ws (p_target opt) = Some sgs \<and>
       (\<forall>sg \<in> set sgs. purgeAllowed sg)) \<and>
     asset_mode_for (pe_outcome E) ws (o_asset x) None = Some Managed \<and>
     (\<exists>k h r remotes e. pe_drift E k = Some h \<and> h_asset h = o_asset x \<and> (\<forall>t. p_target opt = Some t \<longrightarrow> k = t) \<and>
       list_remote h = Inr remotes \<and> r \<in> set remotes \<and> to_envelope h r = Some e \<and>
       o_id x = text_of (dget e ''id'') \<and> o_remote x = remote_key r) \<and>
     o_id x \<noteq> [] \<and> o_remote x \<noteq> [] \<and>
     (\<forall>la \<in> set (fst (iter_loaded_assets (pe_yload E) (pe_to_int E) (pe_detections E))).
       la_kind la = o_asset x \<longrightarrow> \<not> indexed_as la (o_id x) \<and> \<not> indexed_as la (o_remote x))"

lemma selected_deletable:
  assumes s: "prune_select E opt = Inr (xs, ws)" and x: "x \<in> set xs"
  shows "deletable E opt ws x"
proof -
  obtain sgs cap kinds hs where
      c: "\<not> p_dry_run opt" "p_yes opt"
        "resolve_safeguards_for_target (pe_outcome E) ws (p_target opt) = Some sgs"
        "clamp_deletes True sgs (p_max_deletes opt) = Some cap"
      and hs: "managed_handlers (pe_outcome E) ws (collect_drift_handlers (pe_drift E) kinds (p_target opt)) = Some hs"
        "xs = concat (map (orphans_in E (p_allow_empty_kind opt)) hs)"
    using s by (rule prune_select_cases)
  from x hs(2) obtain h where h: "h \<in> set hs" "x \<in> set (orphans_in E (p_allow_empty_kind opt) h)" by auto
  then have "\<exists>remotes. list_remote h = Inr remotes \<and> (\<exists>r \<in> set remotes. x \<in> set (orphan_of h (index_for E h) r))"
    by (cases "list_remote h") (auto simp: orphans_in_def split: if_splits)
  then obtain remotes r where r: "list_remote h = Inr remotes" "r \<in> set remotes" "x \<in> set (orphan_of h (index_for E h) r)"
    by blast
  from r(3) obtain e where e: "to_envelope h r = Some e" "o_id x = text_of (dget e ''id'')" "o_remote x = remote_key r"
      "o_id x \<noteq> []" "o_remote x \<noteq> []" "o_asset x = h_asset h"
      "map_of (index_for E h) (o_remote x) = None" "map_of (index_for E h) (o_id x) = None"
    by (cases "to_envelope h r") (auto simp: orphan_of_def Let_def simp del: not_None_eq split: if_splits)
  have "\<not> indexed_as la (o_id x) \<and> \<not> indexed_as la (o_remote x)"
    if "la \<in> set (fst (iter_loaded_assets (pe_yload E) (pe_to_int E) (pe_detections E)))" "la_kind la = o_asset x" for la
    using local_index_complete[OF that(1)] that(2) e(6-8) unfolding la_kind_def by metis
  moreover have "\<forall>sg \<in> set sgs. purgeAllowed sg" using clamp_deletes_Some[OF c(4)] by blast
  ultimately show ?thesis
    using managed_handlers_sub[OF hs(1) h(1)] c(1-3) r e(1-6) unfolding deletable_def by metis
qed

text \<open>What the record of an attempted deletion has to say.\<close>

definition records_delete :: "provenance \<Rightarrow> string option \<Rightarrow> prune_pair \<Rightarrow> audit_record \<Rightarrow> bool" where
  "records_delete prov ws attempt c = (case attempt of (eid, k, r) \<Rightarrow>
     asset c = asset_value k \<and> rec_id c = eid \<and> metadata_owner c = None \<and>
     action c = action_value (r_action r) \<and> workspace c = ws \<and> snippet_digest c = None \<and>
     (if is_failure r then status c = ''failed'' \<and> message c = Some (failure_message r)
      else if r_action r = SKIP then status c = ''skipped'' \<and> message c = non_empty (r_detail r)
      else status c = ''success'' \<and> message c = Some ''pruned'') \<and>
     sha c = p_sha prov \<and> actor c = p_actor prov \<and> workflow_run c = Option.bind (p_run prov) non_empty)"

lemma prune_batch_length: "length (prune_batch E ws pairs) = length pairs"
  by (simp add: prune_batch_def)

lemma prune_batch_canonical: "\<forall>i. canonical_ts (pe_now E i) \<Longrightarrow> \<forall>r \<in> set (prune_batch E ws pairs). canonical_ts (timestamp r)"
  by (auto simp: prune_batch_def build_audit_record_def Let_def audit_status_def)

lemma prune_batch_content:
  assumes "list_all2 same_content (prune_batch E ws pairs) cs"
  shows "list_all2 (records_delete (pe_prov E) ws) pairs cs"
proof -
  have "records_delete (pe_prov E) ws (pairs ! i) (cs ! i)" if "i < length pairs" for i
  proof -
    obtain eid k r where p: "pairs ! i = (eid, k, r)" by (cases "pairs ! i")
    have "same_content (prune_batch E ws pairs ! i) (cs ! i)"
      using assms that by (simp add: list_all2_conv_all_nth prune_batch_length)
    then have "same_content (build_audit_record (pe_prov E) (pe_now E i) r (eid, asset_value k, None) ws None (Some ''pruned'')) (cs ! i)"
      using that p by (simp add: prune_batch_def nth_enumerate_eq)
    then show ?thesis
      by (auto simp: p records_delete_def same_content_def build_audit_record_def Let_def audit_status_def)
  qed
  then show ?thesis using assms by (simp add: list_all2_conv_all_nth prune_batch_length)
qed

lemma delete_orphans_planned:
  "map (\<lambda>(i, k, _). (i, k)) (fst (delete_orphans E xs w)) = map (\<lambda>x. (o_id x, o_asset x)) xs"
proof -
  have "map (\<lambda>(i, k, _). (i, k)) (fst (fold (delete_orphan E) xs (ps, w))) =
      map (\<lambda>(i, k, _). (i, k)) ps @ map (\<lambda>x. (o_id x, o_asset x)) xs" for ps w
    by (induction xs arbitrary: ps w) (auto simp: delete_orphan_def split: prod.splits)
  then show ?thesis by (simp add: delete_orphans_def)
qed

section \<open>Instances\<close>

text \<open>
  A tenant whose world is the list of what was deleted from it; the repository has one file that
  loads, for the remote \<open>g1\<close>, and one that does not, for \<open>g2\<close>.
\<close>

definition prune_workspace :: workspace where
  "prune_workspace = demo_workspace\<lparr>purgeAllowed := True, maxDelete := 2\<rparr>"

definition prune_handler :: handler where
  "prune_handler = \<lparr>h_asset = SENTINEL_HUNTING,
     list_remote = Inr [[(''name'', PStr ''g1'')], [(''name'', PStr ''g2'')]],
     to_envelope = (\<lambda>r. Some [(''id'', PStr (''x'' @ text_of (dget r ''name'')))])\<rparr>"

definition prune_files :: repo where
  "prune_files = [([''one.yml''], ''one''), ([''two.yml''], ''two'')]"

definition prune_yload :: "string \<Rightarrow> pyval option" where
  "prune_yload s = (if s = ''one''
     then Some (PDict [(''id'', PStr ''one''), (''version'', PStr ''1.0.0''),
       (''asset'', PStr ''sentinel_hunting''), (''status'', PStr ''production''),
       (''metadata'', PDict [(''arm_name'', PStr ''g1'')]), (''payload'', PDict [])])
     else None)"

definition prune_env_of :: "(audit_files \<Rightarrow> audit_files) \<Rightarrow> string list prune_env" where
  "prune_env_of race = \<lparr>
     pe_outcome = Loaded (demo_tenant\<lparr>sentinelWorkspaces := [prune_workspace]\<rparr>),
     pe_drift = (\<lambda>k. if k = SENTINEL_HUNTING then Some prune_handler else None),
     pe_delete = (\<lambda>k i w. (Deleted (own_result i k DELETE ''deleted'' []), w @ [i])),
     pe_yload = prune_yload, pe_to_int = num_of, pe_detections = prune_files,
     pe_hash = demo_hash, pe_pipeline_ws = None, pe_disabled = [],
     pe_prov = \<lparr>p_sha = ''abc'', p_actor = ''ci'', p_run = None\<rparr>, pe_now = (\<lambda>_. timestamp demo_record),
     pe_today = ''2026-01-02'', pe_race = race\<rparr>"

definition prune_go :: prune_opts where
  "prune_go = \<lparr>p_target = None, p_role = None, p_workspace = None, p_dry_run = False, p_yes = True,
     p_max_deletes = 25, p_include_locked = False, p_allow_empty_kind = False\<rparr>"

definition prune_orphan :: orphan where
  "prune_orphan = \<lparr>o_asset = SENTINEL_HUNTING, o_id = ''xg2'', o_remote = ''g2''\<rparr>"

lemma prune_env_fields:
  "pe_outcome (prune_env_of race) = Loaded (demo_tenant\<lparr>sentinelWorkspaces := [prune_workspace]\<rparr>)"
  "pe_pipeline_ws (prune_env_of race) = None" "pe_disabled (prune_env_of race) = []"
  "pe_drift (prune_env_of race) = (\<lambda>k. if k = SENTINEL_HUNTING then Some prune_handler else None)"
  "pe_yload (prune_env_of race) = prune_yload" "pe_to_int (prune_env_of race) = num_of"
  "pe_detections (prune_env_of race) = prune_files" "pe_race (prune_env_of race) = race"
  "pe_hash (prune_env_of race) = demo_hash" "pe_today (prune_env_of race) = ''2026-01-02''"
  "pe_delete (prune_env_of race) k i w = (Deleted (own_result i k DELETE ''deleted'' []), w @ [i])"
  by (simp_all add: prune_env_of_def)

lemma prune_index: "map_of (local_index prune_yload num_of prune_files SENTINEL_HUNTING) ''g1'' \<noteq> None"
  "map_of (local_index prune_yload num_of prune_files SENTINEL_HUNTING) ''g2'' = None"
  "map_of (local_index prune_yload num_of prune_files SENTINEL_HUNTING) ''xg2'' = None"
  by code_simp+

lemma prune_plan_demo:
  "prune_plan_of (prune_env_of race) prune_go [prune_handler] = empty_plan\<lparr>orphans := [prune_orphan], listed_ok := 1\<rparr>"
proof -
  let ?l = "local_index prune_yload num_of prune_files SENTINEL_HUNTING"
  have l: "?l \<noteq> []" using prune_index(1) by auto
  have "orphan_of prune_handler ?l [(''name'', PStr ''g1'')] = []"
    "orphan_of prune_handler ?l [(''name'', PStr ''g2'')] = [prune_orphan]"
    using prune_index
    by (simp_all add: orphan_of_def prune_handler_def prune_orphan_def remote_key_def text_of_def dget_def)
  then have "orphans_in (prune_env_of race) False prune_handler = [prune_orphan]"
    using l by (simp add: orphans_in_def prune_env_fields prune_handler_def)
  moreover have "\<not> bare_kind (prune_env_of race) prune_handler"
    using l by (simp add: bare_kind_def prune_env_fields prune_handler_def)
  moreover have "\<not> isl (list_remote prune_handler)" "\<not> p_allow_empty_kind prune_go"
    by (simp_all add: prune_handler_def prune_go_def)
  ultimately show ?thesis
    by (simp add: prune_plan_of_def plan_handler_exact empty_plan_def)
qed

lemma demo_prune_select: "prune_select (prune_env_of race) prune_go = Inr ([prune_orphan], None)"
proof -
  let ?E = "prune_env_of race" and ?T = "Loaded (demo_tenant\<lparr>sentinelWorkspaces := [prune_workspace]\<rparr>)"
  define kinds where "kinds = [SENTINEL_ANALYTIC, SENTINEL_HUNTING, SENTINEL_WATCHLIST, SENTINEL_PARSER,
    SENTINEL_DATA_CONNECTOR, SENTINEL_PLAYBOOK, SENTINEL_AUTOMATION_RULE]"
  have "\<not> skip_if_integration_role_absent ?T None None"
    "resolve_single_workspace ?T None None None None = Env None"
    by (simp_all add: skip_if_integration_role_absent_def resolve_single_workspace_def)
  moreover have "resolve_safeguards_for_target ?T None None = Some [safeguards.truncate prune_workspace]"
    "clamp_deletes True [safeguards.truncate prune_workspace] 25 = Some 2"
    by code_simp+
  moreover have "register_default_handlers ?T [] = Some kinds"
    unfolding kinds_def by code_simp
  moreover have "collect_drift_handlers (\<lambda>k. if k = SENTINEL_HUNTING then Some prune_handler else None) kinds None =
      [prune_handler]"
    by (simp add: collect_drift_handlers_def kinds_def)
  moreover have "asset_mode_for ?T None SENTINEL_HUNTING None = Some Managed" by code_simp
  then have "managed_handlers ?T None [prune_handler] = Some [prune_handler]"
    by (simp add: managed_handlers_def prune_handler_def)
  moreover note prune_plan_demo[of race] prune_env_fields
  ultimately show ?thesis by (simp add: prune_select_def prune_go_def empty_plan_def)
qed

lemma demo_deleted: "delete_orphans (prune_env_of race) [prune_orphan] [] =
    ([(''xg2'', SENTINEL_HUNTING, own_result ''g2'' SENTINEL_HUNTING DELETE ''deleted'' [])], [''g2''])"
  by (simp add: delete_orphans_def delete_orphan_def prune_orphan_def prune_env_fields)

text \<open>Another process that writes the first record meanwhile.\<close>

definition other_writer :: "audit_files \<Rightarrow> audit_files" where
  "other_writer = (\<lambda>_. [(''2026-01-02.jsonl'', Some (''{'' @ json_string ''record_hash'' @ '':'' @ json_string ''z'' @ ''}''))])"

section \<open>Properties\<close>

text \<open>
  C17. Prune deletes only through its brakes: every property of the world that is kept by deleting
  what may be deleted (a listed remote of the asked, managed kind that no loaded file names, with
  \<open>--no-dry-run --yes\<close> and every safeguard allowing it) holds after the run.
\<close>

theorem prune_deletes_are_gated:
  assumes "\<And>ws x w. deletable E opt ws x \<Longrightarrow> P w \<Longrightarrow> P (snd (pe_delete E (o_asset x) (o_remote x) w))"
    and "P w"
  shows "P (pf_world (prune_cmd E opt w d))"
proof (cases "prune_select E opt")
  case (Inl ex)
  then show ?thesis using assms(2) by (simp add: prune_cmd_stop)
next
  case (Inr sel)
  obtain xs ws where s: "prune_select E opt = Inr (xs, ws)" using Inr by (cases sel) simp
  have "P (snd (fold (delete_orphan E) xs ([], w)))"
  proof (rule delete_fold_world)
    show "P (snd (pe_delete E (o_asset x) (o_remote x) w))" if "x \<in> set xs" "P w" for x w
      by (rule assms(1)[OF selected_deletable[OF s that(1)] that(2)])
  qed (use assms(2) in simp)
  then show ?thesis by (simp add: prune_cmd_run[OF s] delete_orphans_def)
qed

theorem prune_deletes_are_gated_witness:
  "''g1'' \<notin> set (pf_world (prune_cmd (prune_env_of id) prune_go [] None)) \<and>
   pf_world (prune_cmd (prune_env_of id) prune_go [] None) = [''g2'']"
proof
  let ?E = "prune_env_of id"
  have "list_ex (\<lambda>la. la_kind la = SENTINEL_HUNTING \<and> arm_name (la_envelope la) = Some ''g1'')
      (fst (iter_loaded_assets (pe_yload ?E) (pe_to_int ?E) (pe_detections ?E)))" by code_simp
  then obtain la where la: "la \<in> set (fst (iter_loaded_assets (pe_yload ?E) (pe_to_int ?E) (pe_detections ?E)))"
      "la_kind la = SENTINEL_HUNTING" "arm_name (la_envelope la) = Some ''g1''"
    by (auto simp: list_ex_iff)
  show "''g1'' \<notin> set (pf_world (prune_cmd ?E prune_go [] None))"
  proof (rule prune_deletes_are_gated[where P = "\<lambda>w. ''g1'' \<notin> set w"])
    fix ws x and w :: "string list"
    assume a: "deletable ?E prune_go ws x" and w: "''g1'' \<notin> set w"
    have "o_asset x = SENTINEL_HUNTING"
      using a by (auto simp: deletable_def prune_env_of_def prune_handler_def split: if_splits)
    then have "o_remote x \<noteq> ''g1''"
      using a la by (auto simp: deletable_def indexed_as_def)
    then show "''g1'' \<notin> set (snd (pe_delete ?E (o_asset x) (o_remote x) w))"
      using w by (simp add: prune_env_of_def)
  qed simp
  show "pf_world (prune_cmd ?E prune_go [] None) = [''g2'']"
    by (simp only: prune_cmd_run[OF demo_prune_select] demo_deleted snd_conv)
qed

text \<open>
  C18. Prune is bounded and ordered: it attempts the planned orphans, each once and in the order of the
  plan, never more than \<open>--max-deletes\<close> or the smallest \<open>maxDelete\<close> of the safeguards that apply
  (otherwise it attempts none), and a dry run or a run without \<open>--yes\<close> changes nothing.
\<close>

theorem prune_bounded:
  assumes "pairs = pf_pairs (prune_cmd E opt w d)"
  shows "(pairs \<noteq> [] \<longrightarrow> int (length pairs) \<le> p_max_deletes opt \<and>
      (\<exists>xs ws sgs. prune_select E opt = Inr (xs, ws) \<and>
         map (\<lambda>(i, k, _). (i, k)) pairs = map (\<lambda>x. (o_id x, o_asset x)) xs \<and>
         resolve_safeguards_for_target (pe_outcome E) ws (p_target opt) = Some sgs \<and>
         (\<forall>sg \<in> set sgs. int (length pairs) \<le> maxDelete sg))) \<and>
    (p_dry_run opt \<or> \<not> p_yes opt \<longrightarrow>
      pairs = [] \<and> pf_world (prune_cmd E opt w d) = w \<and> pf_audit (prune_cmd E opt w d) = d)"
proof (cases "prune_select E opt")
  case (Inl ex)
  then show ?thesis using assms by (simp add: prune_cmd_stop)
next
  case (Inr sel)
  obtain xs ws where s: "prune_select E opt = Inr (xs, ws)" using Inr by (cases sel) simp
  obtain sgs cap where c: "\<not> p_dry_run opt" "p_yes opt"
      "resolve_safeguards_for_target (pe_outcome E) ws (p_target opt) = Some sgs"
      "clamp_deletes True sgs (p_max_deletes opt) = Some cap" "int (length xs) \<le> cap"
    using s by (rule prune_select_cases)
  have k: "map (\<lambda>(i, k, _). (i, k)) pairs = map (\<lambda>x. (o_id x, o_asset x)) xs"
    using delete_fold_keys[of E xs "([], w)"] assms by (simp add: prune_cmd_run[OF s] delete_orphans_def)
  have "length pairs = length xs" using assms by (simp add: prune_cmd_run[OF s] length_delete_orphans)
  then have "int (length pairs) \<le> p_max_deletes opt" "\<forall>sg \<in> set sgs. int (length pairs) \<le> maxDelete sg"
    using clamp_deletes_Some[OF c(4)] c(5) by force+
  then show ?thesis using s k c(1-3) by blast
qed

theorem prune_bounded_witness:
  "pf_pairs (prune_cmd (prune_env_of id) (prune_go\<lparr>p_yes := False\<rparr>) [] None) = [] \<and>
   map fst (pf_pairs (prune_cmd (prune_env_of id) prune_go [] None)) = [''xg2'']"
proof
  let ?o = "prune_go\<lparr>p_yes := False\<rparr>"
  have "\<not> p_yes ?o" by simp
  then show "pf_pairs (prune_cmd (prune_env_of id) ?o [] None) = []"
    using prune_bounded[OF refl, of "prune_env_of id" ?o "[]" None, THEN conjunct2] by blast
  show "map fst (pf_pairs (prune_cmd (prune_env_of id) prune_go [] None)) = [''xg2'']"
    by (simp only: prune_cmd_run[OF demo_prune_select] demo_deleted list.map fst_conv)
qed

text \<open>
  The plan is exact: its orphans are, handler by handler, the listed remotes whose key and id
  name no loaded file of their kind, and every handler that could not be listed is reported and
  contributes none. The locked files add nothing to that, so \<open>--include-locked\<close> changes neither the
  plan nor the run.
\<close>

theorem prune_plan_exact:
  "orphans (prune_plan_of E opt hs) = concat (map (orphans_in E (p_allow_empty_kind opt)) hs) \<and>
   list_errors (prune_plan_of E opt hs) = map h_asset (filter (\<lambda>h. isl (list_remote h)) hs) \<and>
   empty_kinds (prune_plan_of E opt hs) = map h_asset (filter (bare_kind E) hs) \<and>
   skipped_locked (prune_plan_of E opt hs) = [] \<and>
   prune_cmd E (opt\<lparr>p_include_locked := b\<rparr>) w d = prune_cmd E opt w d"
  by (simp add: prune_plan_of_def plan_of_exact empty_plan_def
      prune_cmd_cong[where E = E and files = "pe_detections E" and b = b and opt = opt, OF refl _ refl])

text \<open>
  A file that fails to load protects nothing: prune plans, deletes and records exactly what it
  would if the file had been deleted, so the remote asset of a file with a syntax error is an orphan.
\<close>

theorem prune_ignores_broken_files:
  assumes "\<And>l. load_asset (pe_yload E) (pe_to_int E) (pe_detections E) p \<noteq> Inr l"
    and "p = q @ [n]" and "endswith n ''.yml''"
  shows "prune_cmd (E\<lparr>pe_detections := filter (\<lambda>x. fst x \<noteq> p) (pe_detections E)\<rparr>) opt w d = prune_cmd E opt w d"
  by (rule prune_cmd_cong[where b = "p_include_locked opt"])
     (simp_all add: local_index_def iter_loaded_without[OF assms])

theorem prune_ignores_broken_files_witness:
  "pf_world (prune_cmd ((prune_env_of id)\<lparr>pe_detections := [([''one.yml''], ''one'')]\<rparr>) prune_go [] None) = [''g2'']"
proof -
  let ?E = "prune_env_of id"
  have "prune_cmd (?E\<lparr>pe_detections := filter (\<lambda>x. fst x \<noteq> [''two.yml'']) (pe_detections ?E)\<rparr>) prune_go [] None =
      prune_cmd ?E prune_go [] None"
    by (rule prune_ignores_broken_files[where q = "[]" and n = "''two.yml''"])
       (simp_all add: prune_env_of_def prune_files_def load_asset_def prune_yload_def endswith_def suffix_def)
  moreover have "filter (\<lambda>x. fst x \<noteq> [''two.yml'']) (pe_detections ?E) = [([''one.yml''], ''one'')]"
    by (simp add: prune_env_of_def prune_files_def)
  ultimately show ?thesis
    by (simp only: prune_cmd_run[OF demo_prune_select] demo_deleted snd_conv)
qed

text \<open>
  C19. The trail of a prune. A run that stops before its first deletion leaves the log as it was. Otherwise the
  results are those of the planned orphans, one each and in their order; without another writer a run that ends
  normally has appended exactly one record for each of them, with the id, kind, action, outcome and message of its
  own deletion and the workspace, commit and actor of the run, and it ends with an exception only if the clock of
  the chained timestamps overflows. When another process appends meanwhile, the deletions stay done, the run ends
  with an exception, and the trail has no record of them.
\<close>

theorem prune_audit_exact:
  assumes "audit_run (pe_hash E) day n d" and "day \<le> pe_today E" and "length (pe_today E) = 10"
    and "\<forall>i. canonical_ts (pe_now E i)" and "\<And>x. pe_hash E x \<noteq> []" and "out = prune_cmd E opt w d"
  shows "case prune_select E opt of
      Inl _ \<Rightarrow> pf_pairs out = [] \<and> pf_audit out = d
    | Inr (xs, ws) \<Rightarrow>
        map (\<lambda>(i, k, _). (i, k)) (pf_pairs out) = map (\<lambda>x. (o_id x, o_asset x)) xs \<and>
        pf_world out = snd (delete_orphans E xs w) \<and>
        (pe_race E = id \<longrightarrow>
          (if pf_exit out = None then files_of (pf_audit out) = files_of d \<and> (\<exists>p t.
               last_record_tail (Some (files_of d)) = Inr (p, t) \<and>
               chain_records (pe_hash E) (prune_batch E ws (pf_pairs out)) p t = Inl Overflow)
           else audit_run (pe_hash E) (pe_today E) (n + length xs) (pf_audit out) \<and>
             (\<exists>cs. extended_by (pe_today E) cs d (pf_audit out) \<and>
               list_all2 (records_delete (pe_prov E) ws) (pf_pairs out) cs))) \<and>
        (last_record_hash (Some (pe_race E (files_of d))) \<noteq> last_record_hash (Some (files_of d)) \<longrightarrow>
          pf_exit out = None \<and> pf_audit out \<in> {Some (files_of d), Some (pe_race E (files_of d))})"
proof (cases "prune_select E opt")
  case (Inl ex)
  then show ?thesis using assms(6) by (simp add: prune_cmd_stop)
next
  case (Inr sel)
  obtain xs ws where s: "prune_select E opt = Inr (xs, ws)" using Inr by (cases sel) simp
  define pairs where "pairs = fst (delete_orphans E xs w)"
  obtain y d1 where wr: "write_records (pe_hash E) (pe_today E) (pe_race E) (prune_batch E ws pairs) d = (y, d1)"
    by fastforce
  have out: "pf_pairs out = pairs" "pf_world out = snd (delete_orphans E xs w)" "pf_audit out = d1"
    "pf_exit out = None \<longleftrightarrow> isl y"
    using wr by (simp_all add: assms(6) prune_cmd_run[OF s] pairs_def)
  have planned: "map (\<lambda>(i, k, _). (i, k)) pairs = map (\<lambda>x. (o_id x, o_asset x)) xs"
    by (simp add: pairs_def delete_orphans_planned)
  have "length pairs = length xs" by (simp add: pairs_def length_delete_orphans)
  have alone: "if pf_exit out = None then files_of (pf_audit out) = files_of d \<and> (\<exists>p t.
         last_record_tail (Some (files_of d)) = Inr (p, t) \<and>
         chain_records (pe_hash E) (prune_batch E ws (pf_pairs out)) p t = Inl Overflow)
       else audit_run (pe_hash E) (pe_today E) (n + length xs) (pf_audit out) \<and>
         (\<exists>cs. extended_by (pe_today E) cs d (pf_audit out) \<and>
           list_all2 (records_delete (pe_prov E) ws) (pf_pairs out) cs)"
    if "pe_race E = id"
  proof (rule write_records_exact[OF assms(1,5) wr[unfolded that]])
    fix cs assume "y = Inr (pe_today E @ ''.jsonl'')" "extended_by (pe_today E) cs d d1"
      "list_all2 same_content (prune_batch E ws pairs) cs"
    then show ?thesis
      using audit_run.append[OF assms(1,2,3) prune_batch_canonical[OF assms(4)] wr[unfolded that \<open>y = _\<close>]]
        prune_batch_content[of E ws pairs cs] \<open>length pairs = length xs\<close>
      by (auto simp: out prune_batch_length)
  next
    fix p t assume "y = Inl Overflow" "d1 = Some (files_of d)" "last_record_tail (Some (files_of d)) = Inr (p, t)"
      "chain_records (pe_hash E) (prune_batch E ws pairs) p t = Inl Overflow"
    then show ?thesis by (simp add: out files_of_def)
  qed
  have "isl y \<and> d1 \<in> {Some (files_of d), Some (pe_race E (files_of d))}"
    if "last_record_hash (Some (pe_race E (files_of d))) \<noteq> last_record_hash (Some (files_of d))"
    using that wr by (auto simp: write_records_unfold Let_def last_record_hash_def rbind_def split: sum.splits option.splits
        prod.splits if_splits)
  then show ?thesis using alone[unfolded out] planned by (simp add: s out)
qed

theorem prune_audit_exact_witness:
  "(\<exists>c. extended_by ''2026-01-02'' [c] None (pf_audit (prune_cmd (prune_env_of id) prune_go [] None)) \<and>
     rec_id c = ''xg2'' \<and> status c = ''success'' \<and> message c = Some ''pruned'') \<and>
   pf_exit (prune_cmd (prune_env_of other_writer) prune_go [] None) = None \<and>
   pf_world (prune_cmd (prune_env_of other_writer) prune_go [] None) = [''g2'']"
proof -
  let ?out = "\<lambda>race. prune_cmd (prune_env_of race) prune_go [] None"
  have h: "audit_run (pe_hash (prune_env_of race)) [] 0 None" "[] \<le> pe_today (prune_env_of race)"
      "length (pe_today (prune_env_of race)) = 10" "\<forall>i. canonical_ts (pe_now (prune_env_of race) i)"
      "pe_hash (prune_env_of race) x \<noteq> []" for race x
    using audit_run.start demo_canonical demo_hash_nonempty by (simp_all add: prune_env_of_def)
  note exact = prune_audit_exact[OF h refl, of _ prune_go "[]", unfolded demo_prune_select sum.case prod.case]
  have run: "pf_pairs (?out race) = [(''xg2'', SENTINEL_HUNTING, own_result ''g2'' SENTINEL_HUNTING DELETE ''deleted'' [])]"
      "snd (delete_orphans (prune_env_of race) [prune_orphan] []) = [''g2'']" for race
    by (simp_all only: prune_cmd_run[OF demo_prune_select] demo_deleted fst_conv snd_conv)
  have "\<exists>r. prune_batch (prune_env_of id) None [(''xg2'', SENTINEL_HUNTING, own_result ''g2'' SENTINEL_HUNTING DELETE ''deleted'' [])] = [r]"
    by (simp add: prune_batch_def)
  then obtain r where r: "prune_batch (prune_env_of id) None (fst (delete_orphans (prune_env_of id) [prune_orphan] [])) = [r]"
    by (auto simp: demo_deleted)
  obtain d' where "write_records demo_hash ''2026-01-02'' id [r] None = (Inr (''2026-01-02'' @ ''.jsonl''), d')"
    using first_write by blast
  then have ne: "pf_exit (?out id) \<noteq> None"
    unfolding prune_cmd_run(4)[OF demo_prune_select] r prune_env_fields by simp
  have "pe_race (prune_env_of id) = id" by (rule prune_env_fields)
  note exact[of id, THEN conjunct2, THEN conjunct2, THEN conjunct1, rule_format, OF this, unfolded if_not_P[OF ne]]
  then obtain cs where cs: "extended_by ''2026-01-02'' cs None (pf_audit (?out id))"
      "list_all2 (records_delete (pe_prov (prune_env_of id)) None)
        [(''xg2'', SENTINEL_HUNTING, own_result ''g2'' SENTINEL_HUNTING DELETE ''deleted'' [])] cs"
    unfolding prune_env_fields run by blast
  then obtain c where "cs = [c]" "rec_id c = ''xg2'' \<and> status c = ''success'' \<and> message c = Some ''pruned''"
    by (auto simp: list_all2_Cons1 records_delete_def is_failure_def is_error_def own_result_def startswith_def)
  with cs(1) have one: "\<exists>c. extended_by ''2026-01-02'' [c] None (pf_audit (?out id)) \<and>
      rec_id c = ''xg2'' \<and> status c = ''success'' \<and> message c = Some ''pruned''" by blast
  have "last_record_hash (Some (other_writer [])) \<noteq> last_record_hash (Some [])" by code_simp
  then have "pf_exit (?out other_writer) = None \<and> pf_world (?out other_writer) = [''g2'']"
    using exact[of other_writer] by (simp add: run prune_env_fields files_of_def)
  with one show ?thesis by blast
qed

end
