(* ===== verification/Lifecycle_Edit.thy ===== *)
theory Lifecycle_Edit
  imports Py_Str
begin

text \<open>
  The edits the lifecycle commands make to the text of a rule file: the status line and the
  promotion stamp (\<open>contentops/lifecycle.py\<close>), disable, enable, lock and unlock
  (\<open>contentops/cli/commands/lifecycle_support.py\<close> and \<open>lifecycle.py\<close>). A text is edited by regular
  expressions anchored to lines, which are predicates on its lines here; a line never holds the
  newline that ends it. \<open>yaml.safe_dump\<close> of a reason is the parameter \<open>dq\<close> (already stripped), the
  date and the actor are arguments.
\<close>

section \<open>Lines and keys\<close>

abbreviation lines_of :: "string \<Rightarrow> string list" where "lines_of \<equiv> split_on NL"
abbreviation text_of_lines :: "string list \<Rightarrow> string" where "text_of_lines \<equiv> join [NL]"

definition is_blank :: "char \<Rightarrow> bool" where
  "is_blank c \<longleftrightarrow> code c = 32 \<or> code c = 9"

text \<open>\<open>^key[ \t]*\S+[ \t]*$\<close>, without and with an indentation.\<close>

definition keyed :: "string \<Rightarrow> string \<Rightarrow> bool" where
  "keyed k l \<longleftrightarrow> startswith l k \<and>
     (let v = strip_by is_blank (drop (length k) l) in v \<noteq> [] \<and> (\<forall>c \<in> set v. \<not> is_space c))"

definition keyed_in :: "string \<Rightarrow> string \<Rightarrow> bool" where
  "keyed_in k l \<longleftrightarrow> takeWhile is_blank l \<noteq> [] \<and> keyed k (dropWhile is_blank l)"

definition status_line :: "string \<Rightarrow> bool" where
  "status_line = keyed ''status:''"

text \<open>\<open>re.sub(..., count=1)\<close> of a pattern that matches whole lines, and of one that takes the newline along.\<close>

fun sub_first :: "(string \<Rightarrow> bool) \<Rightarrow> (string \<Rightarrow> string) \<Rightarrow> string list \<Rightarrow> string list" where
  "sub_first P f [] = []"
| "sub_first P f (l # ls) = (if P l then f l # ls else l # sub_first P f ls)"

fun drop_first :: "(string \<Rightarrow> bool) \<Rightarrow> string list \<Rightarrow> string list" where
  "drop_first P [] = []"
| "drop_first P [l] = [l]"
| "drop_first P (l # m # ls) = (if P l then m # ls else l # drop_first P (m # ls))"

section \<open>The promotion stamp\<close>

text \<open>
  \<open>_LIFECYCLE_BLOCK_RE\<close>. Its dot matches newlines, so after the head and one indented character the
  match runs to the last newline of the text: the block, and the line after that newline.
\<close>

definition block_head :: "string \<Rightarrow> bool" where
  "block_head l \<longleftrightarrow> startswith l ''lifecycle:'' \<and> (\<forall>c \<in> set (drop 10 l). is_blank c)"

definition block_body :: "string list \<Rightarrow> bool" where
  "block_body ls \<longleftrightarrow> (case ls of
     (c # _) # _ # _ \<Rightarrow> is_blank c \<and> 2 \<le> length (text_of_lines (butlast ls))
   | _ \<Rightarrow> False)"

fun find_block :: "string list \<Rightarrow> (string list \<times> string list \<times> string) option" where
  "find_block [] = None"
| "find_block (l # ls) =
     (if block_head l \<and> block_body ls then Some ([], l # butlast ls, last ls)
      else map_option (\<lambda>(pre, blk, rest). (l # pre, blk, rest)) (find_block ls))"

text \<open>\<open>m.group(0).rstrip("\n") + "\n" + line + "\n"\<close> in place of the match.\<close>

definition add_to_block :: "string \<Rightarrow> string list \<Rightarrow> string list" where
  "add_to_block line ls = (case find_block ls of
     None \<Rightarrow> ls
   | Some (pre, blk, rest) \<Rightarrow> pre @ rev (dropWhile (\<lambda>l. l = []) (rev blk)) @ [line, rest])"

definition key_line :: "string \<Rightarrow> string \<Rightarrow> string" where
  "key_line k v = ''  '' @ k @ '' '' @ v"

definition set_key :: "string \<Rightarrow> string \<Rightarrow> string \<Rightarrow> string" where
  "set_key k v text = (let ls = lines_of text in text_of_lines
     (if \<exists>l \<in> set ls. keyed_in k l
      then sub_first (keyed_in k) (\<lambda>l. takeWhile is_blank l @ k @ '' '' @ v) ls
      else add_to_block (key_line k v) ls))"

definition stamp_promotion :: "string \<Rightarrow> string \<Rightarrow> bool \<Rightarrow> string \<Rightarrow> string" where
  "stamp_promotion promoted_at promoted_by forced text =
    (if find_block (lines_of text) \<noteq> None
     then let text = set_key ''promotedBy:'' promoted_by (set_key ''promotedAt:'' promoted_at text)
          in if forced then set_key ''forcedPromotion:'' ''true'' text
             else text_of_lines (sub_first (keyed_in ''forcedPromotion:'') (\<lambda>_. []) (lines_of text))
     else text @ (if endswith text [NL] then [] else [NL]) @
       ''lifecycle:'' @ [NL] @ key_line ''promotedAt:'' promoted_at @ [NL] @ key_line ''promotedBy:'' promoted_by @
       (if forced then [NL] @ key_line ''forcedPromotion:'' ''true'' else []) @ [NL])"

section \<open>The status line\<close>

definition status_of :: "string \<Rightarrow> string" where
  "status_of st = ''status: '' @ st"

definition set_status :: "string \<Rightarrow> string \<Rightarrow> string" where
  "set_status st text = text_of_lines (sub_first status_line (\<lambda>_. status_of st) (lines_of text))"

text \<open>\<open>_rewrite_status_to_production\<close>; \<open>None\<close> is the \<open>LifecycleError\<close>.\<close>

definition rewrite_status_to_production :: "string \<Rightarrow> string option" where
  "rewrite_status_to_production text =
    (if find status_line (lines_of text) = None then None else Some (set_status ''production'' text))"

section \<open>Disable and enable\<close>

datatype edit =
    Changed string
  | Unchanged
  | No_status_line            \<comment> \<open>the \<open>ClickException\<close>\<close>

definition end_line :: "string \<Rightarrow> string" where
  "end_line text = (if endswith text [NL] then text else text @ [NL])"

definition given :: "string option \<Rightarrow> bool" where
  "given reason \<longleftrightarrow> (case reason of Some (_ # _) \<Rightarrow> True | _ \<Rightarrow> False)"

definition disable_one :: "(string \<Rightarrow> string) \<Rightarrow> string \<Rightarrow> string option \<Rightarrow> string \<Rightarrow> edit" where
  "disable_one dq today reason text =
    (case find status_line (lines_of text) of
       None \<Rightarrow> No_status_line
     | Some l \<Rightarrow>
         (if strip l = ''status: deprecated'' then Unchanged
          else Changed (end_line (set_status ''deprecated'' text) @
            (if given reason then ''disableReason: '' @ dq (the reason)
             else ''# disabled by contentops disable on '' @ today) @ [NL])))"

definition reason_line :: "string \<Rightarrow> bool" where
  "reason_line l \<longleftrightarrow> startswith l ''disableReason:'' \<and>
     (let v = strip_by is_blank (drop 14 l)
      in 2 \<le> length v \<and> hd v = CHR 0x22 \<and> last v = CHR 0x22)"

definition comment_line :: "string \<Rightarrow> bool" where
  "comment_line l \<longleftrightarrow> startswith l ''# disabled by contentops disable on '' \<and>
     (let r = drop 36 l
      in 10 \<le> length r \<and> (\<forall>i < 10. if i = 4 \<or> i = 7 then r ! i = CHR ''-'' else is_digit (r ! i)) \<and>
         (\<forall>c \<in> set (drop 10 r). is_blank c))"

definition escape_quotes :: "string \<Rightarrow> string" where
  "escape_quotes s = concat (map (\<lambda>c. if c = CHR 0x22 then [CHR 0x5C, c] else [c]) s)"

text \<open>The file before the stamp, and the whole edit.\<close>

definition enable_text :: "string \<Rightarrow> string \<Rightarrow> string option \<Rightarrow> string \<Rightarrow> string" where
  "enable_text to_status today reason text =
     end_line (text_of_lines (drop_first comment_line (lines_of
       (text_of_lines (drop_first reason_line (lines_of (set_status to_status text))))))) @
     (if given reason then ''enableReason: '' @ [CHR 0x22] @ escape_quotes (the reason) @ [CHR 0x22]
      else ''# re-enabled by contentops enable on '' @ today) @ [NL]"

definition enable_one :: "string \<Rightarrow> string \<Rightarrow> string \<Rightarrow> string option \<Rightarrow> string \<Rightarrow> edit" where
  "enable_one to_status today actor reason text =
    (case find status_line (lines_of text) of
       None \<Rightarrow> No_status_line
     | Some l \<Rightarrow>
         (if strip l \<noteq> ''status: deprecated'' then Unchanged
          else Changed (if to_status = ''production''
            then stamp_promotion today actor True (enable_text to_status today reason text)
            else enable_text to_status today reason text)))"

section \<open>Lock and unlock\<close>

definition lock_line :: "string \<Rightarrow> bool" where
  "lock_line = keyed ''localCustomization:''"

text \<open>The pattern takes the newline along, so the last line of a text without one is no match.\<close>

definition has_lock :: "string \<Rightarrow> bool" where
  "has_lock text \<longleftrightarrow> (\<exists>l \<in> set (butlast (lines_of text)). lock_line l)"

definition lock_text :: "string \<Rightarrow> edit" where
  "lock_text text =
    (if has_lock text
     then let new = text_of_lines (sub_first lock_line (\<lambda>_. ''localCustomization: true'') (lines_of text))
          in if new = text then Unchanged else Changed new
     else Changed (end_line text @ ''localCustomization: true'' @ [NL]))"

definition unlock_text :: "string \<Rightarrow> edit" where
  "unlock_text text =
    (if has_lock text then Changed (text_of_lines (drop_first lock_line (lines_of text))) else Unchanged)"

section \<open>Lemmas\<close>

subsection \<open>Texts and lines\<close>

lemma NL_char: "NL = CHR 0x0A"
  by code_simp

definition unlines :: "string list \<Rightarrow> string" where
  "unlines ls = concat (map (\<lambda>l. l @ [NL]) ls)"

abbreviation no_NL :: "string list \<Rightarrow> bool" where
  "no_NL ls \<equiv> \<forall>l \<in> set ls. NL \<notin> set l"

lemma unlines_append [simp]: "unlines (xs @ ys) = unlines xs @ unlines ys"
  by (simp add: unlines_def)

lemma unlines_simps [simp]: "unlines [] = []" "unlines (l # ls) = l @ NL # unlines ls"
  by (simp_all add: unlines_def)

lemma endswith_unlines [simp]: "ls \<noteq> [] \<Longrightarrow> endswith (unlines ls) [NL]"
  by (cases ls rule: rev_cases) (simp_all add: endswith_def suffix_def)

lemma lines_of_unlines [simp]: "no_NL ls \<Longrightarrow> lines_of (unlines ls) = ls @ [[]]"
  by (induction ls) (simp_all add: split_on_append_sep)

lemma text_of_lines_unlines [simp]: "text_of_lines (ls @ [[]]) = unlines ls"
proof (induction ls)
  case (Cons l ls)
  then show ?case by (cases "ls @ [[]]") auto
qed simp

lemma text_of_lines_NL: "ls \<noteq> [] \<Longrightarrow> text_of_lines ls @ [NL] = unlines ls"
  by (induction "[NL]" ls rule: join.induct) simp_all

lemma no_NL_lines_of: "no_NL (lines_of s)"
  using split_on_pieces[of NL s] by blast

lemma lines_of_text_of_lines: "ls \<noteq> [] \<Longrightarrow> no_NL ls \<Longrightarrow> lines_of (text_of_lines ls) = ls"
  by (rule split_on_join) auto

text \<open>A text that ends its last line, as the list of its lines.\<close>

lemma ended_lines:
  assumes "endswith text [NL]"
  obtains ls where "text = unlines ls" and "no_NL ls" and "lines_of text = ls @ [[]]" and "ls \<noteq> []"
proof -
  obtain t where t: "text = t @ [NL]" using assms by (auto simp: endswith_def suffix_def)
  have "text = unlines (lines_of t)"
    using text_of_lines_NL[of "lines_of t"] by (simp add: t)
  then show thesis using that[of "lines_of t"] no_NL_lines_of[of t] by simp
qed

subsection \<open>Substitution\<close>

lemma sub_first_none: "\<forall>l \<in> set ls. \<not> P l \<Longrightarrow> sub_first P f ls = ls"
  by (induction ls) auto

lemma sub_first_append:
  "sub_first P f (xs @ ys) = (if \<exists>l \<in> set xs. P l then sub_first P f xs @ ys else xs @ sub_first P f ys)"
  by (induction xs) auto

lemma sub_first_split:
  assumes "\<exists>l \<in> set ls. P l"
  obtains xs l ys where "ls = xs @ l # ys" and "P l" and "\<forall>x \<in> set xs. \<not> P x"
    and "sub_first P f ls = xs @ f l # ys"
proof -
  obtain xs l ys where "ls = xs @ l # ys" "P l" "\<forall>x \<in> set xs. \<not> P x"
    using assms by (metis split_list_first_prop)
  then show thesis using that[of xs l ys] by (simp add: sub_first_append)
qed

lemma find_Some_split: "find P ls = Some l \<Longrightarrow> \<exists>xs ys. ls = xs @ l # ys \<and> P l \<and> (\<forall>x \<in> set xs. \<not> P x)"
proof (induction ls)
  case (Cons x ls)
  then show ?case
    by (cases "P x") (fastforce, metis append_Cons find.simps(2) set_ConsD)
qed simp

lemma find_append: "find P (xs @ ys) = (case find P xs of None \<Rightarrow> find P ys | Some l \<Rightarrow> Some l)"
  by (induction xs) auto

lemma drop_first_none: "\<forall>l \<in> set (butlast ls). \<not> P l \<Longrightarrow> drop_first P ls = ls"
  by (induction P ls rule: drop_first.induct) auto

lemma drop_first_last: "\<forall>l \<in> set ls. \<not> P l \<Longrightarrow> drop_first P (ls @ [m, r]) = (if P m then ls @ [r] else ls @ [m, r])"
proof (induction ls)
  case (Cons l ls)
  then show ?case by (cases "ls @ [m, r]") auto
qed simp

text \<open>A key matches nothing but its own line.\<close>

lemma keyed_prefix: "keyed k l \<Longrightarrow> startswith l k"
  by (simp add: keyed_def)

definition is_key :: "string \<Rightarrow> bool" where
  "is_key k \<longleftrightarrow> k \<noteq> [] \<and> \<not> is_blank (hd k) \<and> NL \<notin> set k"

lemma key_line_indent: "is_key k \<Longrightarrow> takeWhile is_blank (key_line k v) @ k @ CHR '' '' # w = key_line k w"
  by (cases k) (simp_all add: is_key_def key_line_def is_blank_def)

lemma key_line_NL [simp]: "is_key k \<Longrightarrow> NL \<in> set (key_line k v) \<longleftrightarrow> NL \<in> set v"
  by (auto simp: key_line_def is_key_def NL_char)

lemma keyed_own:
  assumes "v \<noteq> []" and "\<forall>c \<in> set v. \<not> is_space c"
  shows "keyed k (k @ '' '' @ v)" "is_key k \<Longrightarrow> keyed_in k (key_line k v)"
proof -
  have nb: "\<not> is_blank c" if "c \<in> set v" for c
    using assms(2) that by (auto simp: is_blank_def is_space_def)
  have sp: "is_blank (CHR '' '')" by (simp add: is_blank_def)
  have "strip_by is_blank ('' '' @ v) = v"
    using nb assms(1) sp by (cases v) (auto simp: strip_by_def lstrip_by_def intro!: rstrip_by_fix)
  with assms show own: "keyed k (k @ '' '' @ v)" by (simp add: keyed_def startswith_def)
  assume "is_key k"
  then have "dropWhile is_blank (key_line k v) = k @ '' '' @ v" "takeWhile is_blank (key_line k v) \<noteq> []"
    using sp by (cases k; simp add: key_line_def is_key_def)+
  with own show "keyed_in k (key_line k v)" by (simp add: keyed_in_def)
qed

lemma keyed_in_indent: "keyed_in k l \<Longrightarrow> \<exists>c cs. l = c # cs \<and> is_blank c"
  by (cases l) (auto simp: keyed_in_def split: if_splits)

lemma not_keyed_in: "l = [] \<or> \<not> is_blank (hd l) \<Longrightarrow> \<not> keyed_in k l"
  by (cases l) (auto simp: keyed_in_def)

subsection \<open>The block\<close>

lemma block_body_iff: "block_body ls \<longleftrightarrow>
    (\<exists>c cs m r. ls = (c # cs) # m # r \<and> is_blank c \<and> (cs \<noteq> [] \<or> r \<noteq> []))"
proof -
  have "2 \<le> length (text_of_lines (butlast ((c # cs) # m # r))) \<longleftrightarrow> cs \<noteq> [] \<or> r \<noteq> []" for c :: char and cs m r
    by (cases r; cases "butlast r"; cases cs) (simp_all add: Suc_le_eq)
  then show ?thesis
    by (auto simp: block_body_def split: list.splits)
qed

lemma find_block_shape: "find_block ls = Some (pre, blk, rest) \<Longrightarrow> ls = pre @ blk @ [rest] \<and> blk \<noteq> []"
proof (induction ls arbitrary: pre)
  case (Cons l ls)
  show ?case
  proof (cases "block_head l \<and> block_body ls")
    case True
    then have "ls \<noteq> []" by (auto simp: block_body_iff)
    then show ?thesis using Cons.prems True by auto
  qed (use Cons in auto)
qed simp

lemma find_block_iff: "find_block ls \<noteq> None \<longleftrightarrow>
    (\<exists>pre l post. ls = pre @ l # post \<and> block_head l \<and> block_body post)"
proof (induction ls)
  case (Cons x ls)
  have "(\<exists>pre l post. x # ls = pre @ l # post \<and> block_head l \<and> block_body post) \<longleftrightarrow>
      (block_head x \<and> block_body ls) \<or> (\<exists>pre l post. ls = pre @ l # post \<and> block_head l \<and> block_body post)"
    by (auto simp: Cons_eq_append_conv)
  then show ?case using Cons by (cases "find_block ls") auto
qed simp

lemma find_block_none: "\<forall>l \<in> set ls. \<not> block_head l \<Longrightarrow> find_block ls = None"
  using find_block_iff[of ls] by (cases "find_block ls") auto

lemma add_to_block_end:
  assumes "find_block (ls @ [[]]) \<noteq> None" and "last ls \<noteq> []"
  shows "add_to_block line (ls @ [[]]) = ls @ [line, []]"
proof -
  obtain pre blk rest where b: "find_block (ls @ [[]]) = Some (pre, blk, rest)" using assms(1) by auto
  from find_block_shape[OF b] have "ls = pre @ blk" "rest = []" "blk \<noteq> []" by auto
  then have "dropWhile (\<lambda>l. l = []) (rev blk) = rev blk"
    using assms(2) by (cases blk rule: rev_cases) auto
  then show ?thesis using b \<open>ls = pre @ blk\<close> \<open>rest = []\<close> by (simp add: add_to_block_def)
qed

lemma block_head_not_keyed: "block_head l \<Longrightarrow> \<not> keyed_in k l"
  by (rule not_keyed_in) (cases l, auto simp: block_head_def startswith_def is_blank_def)

text \<open>Replacing the line of a key keeps the block, and what follows unindented stays last.\<close>

lemma sub_key_block:
  assumes "find_block ls \<noteq> None" and "k \<noteq> []"
  shows "find_block (sub_first (keyed_in k) (\<lambda>l. takeWhile is_blank l @ k @ '' '' @ v) ls) \<noteq> None"
    (is "find_block (?sub ls) \<noteq> None")
proof -
  obtain pre l post where ls: "ls = pre @ l # post" and h: "block_head l" and b: "block_body post"
    using assms(1) find_block_iff by auto
  obtain c cs m r where post: "post = (c # cs) # m # r" "is_blank c" "cs \<noteq> [] \<or> r \<noteq> []"
    using b by (auto simp: block_body_iff)
  have len: "length (?sub xs) = length xs" for xs by (induction xs) auto
  have "block_body (?sub post)"
  proof (cases "keyed_in k (c # cs)")
    case True
    then show ?thesis using post assms(2) by (auto simp: block_body_iff)
  next
    case False
    obtain m' r' where "?sub (m # r) = m' # r'" by (cases "?sub (m # r)") (auto split: if_splits)
    moreover have "r = [] \<longleftrightarrow> r' = []"
      using len[of "m # r"] calculation by (cases r; cases r') auto
    ultimately show ?thesis using post False by (auto simp: block_body_iff)
  qed
  then show ?thesis
    using h b block_head_not_keyed[OF h] unfolding ls find_block_iff by (auto simp: sub_first_append)
qed

lemma sub_first_end:
  assumes "\<exists>l \<in> set ls. P l" and "\<not> P m" and "\<not> P []"
  shows "sub_first P f (ls @ [m, []]) = sub_first P f ls @ [m, []]"
  using assms by (simp add: sub_first_append)

lemma set_key_once:
  assumes "no_NL (pre @ key_line k w # post)" and "\<forall>x \<in> set pre. \<not> keyed_in k x" and "is_key k"
    and "w \<noteq> []" and "\<forall>c \<in> set w. \<not> is_space c"
  shows "set_key k v (unlines (pre @ key_line k w # post)) = unlines (pre @ key_line k v # post)"
proof -
  have "lines_of (unlines (pre @ key_line k w # post)) = (pre @ key_line k w # post) @ [[]]"
    by (rule lines_of_unlines[OF assms(1)])
  then have "set_key k v (unlines (pre @ key_line k w # post)) = text_of_lines ((pre @ key_line k v # post) @ [[]])"
    unfolding set_key_def Let_def using assms(2) keyed_own(2)[OF assms(4,5,3)]
    by (auto simp: sub_first_append key_line_indent[OF assms(3)])
  then show ?thesis unfolding text_of_lines_unlines .
qed

subsection \<open>A fresh stamp\<close>

definition clean :: "string \<Rightarrow> bool" where
  "clean v \<longleftrightarrow> v \<noteq> [] \<and> (\<forall>c \<in> set v. \<not> is_space c)"

definition stamp_lines :: "string \<Rightarrow> string \<Rightarrow> bool \<Rightarrow> string list" where
  "stamp_lines a b forced = ''lifecycle:'' # key_line ''promotedAt:'' a # key_line ''promotedBy:'' b #
     (if forced then [key_line ''forcedPromotion:'' ''true''] else [])"

lemma clean_no_NL: "clean v \<Longrightarrow> NL \<notin> set v"
  by (auto simp: clean_def is_space_def)

lemma clean_true: "clean ''true''"
  by (simp add: clean_def is_space_def)

lemma stamp_keys: "is_key ''promotedAt:''" "is_key ''promotedBy:''" "is_key ''forcedPromotion:''"
  by (simp_all add: is_key_def is_blank_def NL_char)

lemma stamp_keys_differ: "\<not> keyed_in k ''lifecycle:''"
  "\<not> keyed_in ''promotedBy:'' (key_line ''promotedAt:'' a)" "\<not> keyed_in ''forcedPromotion:'' (key_line ''promotedAt:'' a)"
  "\<not> keyed_in ''forcedPromotion:'' (key_line ''promotedBy:'' a)"
  by (simp add: not_keyed_in is_blank_def)
     (simp_all add: keyed_in_def keyed_def key_line_def startswith_def is_blank_def)

lemma no_NL_stamp:
  assumes "clean a" and "clean b"
  shows "no_NL (stamp_lines a b forced)"
  using assms[THEN clean_no_NL] clean_no_NL[OF clean_true] stamp_keys
  by (simp add: stamp_lines_def) (simp add: NL_char)

lemma end_line_lines:
  obtains base where "end_line text = unlines base" and "no_NL base" and "set base \<subseteq> set (lines_of text)"
proof (cases "endswith text [NL]")
  case True
  obtain ls where "text = unlines ls" "no_NL ls" "lines_of text = ls @ [[]]" using True by (rule ended_lines)
  then show thesis using that[of ls] True by (auto simp: end_line_def)
next
  case False
  have "end_line text = unlines (lines_of text)"
    using text_of_lines_NL[of "lines_of text"] False by (simp add: end_line_def)
  then show thesis using that[of "lines_of text"] no_NL_lines_of by blast
qed

lemma stamp_fresh:
  assumes "\<forall>l \<in> set (lines_of text). \<not> block_head l" and "end_line text = unlines base"
  shows "stamp_promotion a b forced text = unlines (base @ stamp_lines a b forced)"
  using assms find_block_none[OF assms(1)]
  by (auto simp: stamp_promotion_def stamp_lines_def end_line_def split: if_splits)

lemma stamp_lines_block: "find_block ((base @ stamp_lines a b forced) @ [[]]) \<noteq> None"
proof -
  have "block_head ''lifecycle:''"
    "block_body (key_line ''promotedAt:'' a # key_line ''promotedBy:'' b # r @ [[]])" for r
    by (simp add: block_head_def startswith_def) (simp add: block_body_iff key_line_def is_blank_def)
  then have "find_block (base @ ''lifecycle:'' # key_line ''promotedAt:'' a # key_line ''promotedBy:'' b # r @ [[]]) \<noteq> None" for r
    unfolding find_block_iff by blast
  then show ?thesis unfolding stamp_lines_def append_assoc append_Cons .
qed

lemma restamp:
  assumes base: "no_NL base" "\<forall>l \<in> set base. \<forall>k \<in> {''promotedAt:'', ''promotedBy:'', ''forcedPromotion:''}. \<not> keyed_in k l"
    and "clean a" and "clean b" and "clean a'" and "clean b'"
  shows "stamp_promotion a' b' forced (unlines (base @ stamp_lines a b forced)) = unlines (base @ stamp_lines a' b' forced)"
proof -
  let ?st = "\<lambda>a b. stamp_lines a b forced"
  define rest where "rest = (if forced then [key_line ''forcedPromotion:'' ''true''] else [])"
  note st = stamp_lines_def rest_def[symmetric]
  note c = clean_def[THEN iffD1, THEN conjunct1] clean_def[THEN iffD1, THEN conjunct2]
  have nl: "no_NL (base @ ?st x y)" if "clean x" "clean y" for x y
    using base(1) no_NL_stamp[OF that, of forced] by auto
  have lines: "lines_of (unlines (base @ ?st x y)) = (base @ ?st x y) @ [[]]" if "clean x" "clean y" for x y
    by (rule lines_of_unlines[OF nl[OF that]])
  have s_a: "set_key ''promotedAt:'' a' (unlines (base @ ?st a b)) = unlines (base @ ?st a' b)"
    using set_key_once[of "base @ [''lifecycle:'']" _ a "key_line ''promotedBy:'' b # rest" a', OF _ _ stamp_keys(1) c[OF assms(3)]]
      nl[OF assms(3,4)] base(2) stamp_keys_differ by (simp add: st)
  have s_b: "set_key ''promotedBy:'' b' (unlines (base @ ?st a' b)) = unlines (base @ ?st a' b')"
    using set_key_once[of "base @ [''lifecycle:'', key_line ''promotedAt:'' a']" _ b rest b', OF _ _ stamp_keys(2) c[OF assms(4)]]
      nl[OF assms(5,4)] base(2) stamp_keys_differ by (simp add: st)
  have last: "(if forced then set_key ''forcedPromotion:'' ''true'' (unlines (base @ ?st a' b'))
      else text_of_lines (sub_first (keyed_in ''forcedPromotion:'') (\<lambda>_. []) (lines_of (unlines (base @ ?st a' b'))))) =
      unlines (base @ ?st a' b')"
  proof (cases forced)
    case True
    then show ?thesis
      using set_key_once[of "base @ [''lifecycle:'', key_line ''promotedAt:'' a', key_line ''promotedBy:'' b']" _ "''true''" "[]" "''true''",
          OF _ _ stamp_keys(3) c[OF clean_true]]
        nl[OF assms(5,6)] base(2) stamp_keys_differ by (simp add: st rest_def)
  next
    case False
    then have "\<forall>l \<in> set ((base @ ?st a' b') @ [[]]). \<not> keyed_in ''forcedPromotion:'' l"
      using base(2) stamp_keys_differ by (auto simp: stamp_lines_def not_keyed_in)
    then have "text_of_lines (sub_first (keyed_in ''forcedPromotion:'') (\<lambda>_. []) (lines_of (unlines (base @ ?st a' b')))) =
        unlines (base @ ?st a' b')"
      by (simp only: lines[OF assms(5,6)] sub_first_none text_of_lines_unlines)
    then show ?thesis using False by (simp only: if_False)
  qed
  have "find_block (lines_of (unlines (base @ ?st a b))) \<noteq> None"
    using stamp_lines_block by (simp only: lines[OF assms(3,4)] not_False_eq_True)
  then show ?thesis
    unfolding stamp_promotion_def[of a' b' forced "unlines (base @ ?st a b)"] Let_def s_a s_b last by simp
qed

subsection \<open>Markers\<close>

lemma lock_line_own: "lock_line ''localCustomization: true''"
  using keyed_own(1)[of "''true''" "''localCustomization:''"] by (simp add: lock_line_def is_space_def)

lemma set_status_unlines:
  assumes "no_NL ls" and "\<exists>l \<in> set ls. status_line l"
  shows "set_status st (unlines ls) = unlines (sub_first status_line (\<lambda>_. status_of st) ls)"
proof -
  have "set_status st (unlines ls) = text_of_lines (sub_first status_line (\<lambda>_. status_of st) ls @ [[]])"
    using assms by (simp add: set_status_def sub_first_append)
  then show ?thesis unfolding text_of_lines_unlines .
qed

lemma find_unlines:
  assumes "no_NL ls" and "find P ls = Some l"
  shows "find P (lines_of (unlines (ls @ ms))) = Some l"
  using assms
proof (induction ls)
  case (Cons x ls)
  then show ?case by (cases "P x") (simp_all add: split_on_append_sep)
qed simp

text \<open>Dropping a marker that is the last line and the only one of its kind.\<close>

lemma drop_marker:
  assumes "no_NL (ls @ [m])" and "\<forall>l \<in> set ls. \<not> P l"
  shows "text_of_lines (drop_first P (lines_of (unlines (ls @ [m])))) = (if P m then unlines ls else unlines (ls @ [m]))"
proof -
  have "lines_of (unlines (ls @ [m])) = ls @ [m, []]" using lines_of_unlines[OF assms(1)] by simp
  then have "text_of_lines (drop_first P (lines_of (unlines (ls @ [m])))) =
      text_of_lines (if P m then ls @ [[]] else (ls @ [m]) @ [[]])"
    using drop_first_last[OF assms(2)] by simp
  then show ?thesis by (cases "P m") (simp_all only: text_of_lines_unlines if_True if_False)
qed

lemma drop_none:
  assumes "no_NL ls" and "\<forall>l \<in> set ls. \<not> P l"
  shows "text_of_lines (drop_first P (lines_of (unlines ls))) = unlines ls"
  using drop_first_none[of "ls @ [[]]" P] assms by (simp add: butlast_append)

text \<open>The disable marker: both edits of enable together take it away and nothing else.\<close>

definition disable_marker :: "(string \<Rightarrow> string) \<Rightarrow> string \<Rightarrow> string option \<Rightarrow> string" where
  "disable_marker dq today reason = (if given reason then ''disableReason: '' @ dq (the reason)
     else ''# disabled by contentops disable on '' @ today)"

definition strippable :: "string \<Rightarrow> bool" where
  "strippable m \<longleftrightarrow> NL \<notin> set m \<and> (reason_line m \<or> comment_line m)"

lemma reason_comment_disjoint: "reason_line m \<Longrightarrow> \<not> comment_line m"
  by (cases m) (auto simp: reason_line_def comment_line_def startswith_def)

lemma strippable_reason:
  assumes "2 \<le> length v" and "hd v = CHR 0x22" and "last v = CHR 0x22" and "NL \<notin> set v"
  shows "strippable (''disableReason: '' @ v)"
proof -
  have b: "\<not> is_blank (CHR 0x22)" "is_blank (CHR '' '')" by (simp_all add: is_blank_def)
  have "rstrip_by is_blank v = v" by (rule rstrip_by_fix) (simp add: assms(3) b)
  then have "strip_by is_blank (CHR '' '' # v) = v"
    using b assms(1,2) by (cases v) (auto simp: strip_by_def lstrip_by_def)
  then have "reason_line (''disableReason: '' @ v)"
    using assms by (simp add: reason_line_def startswith_def)
  then show ?thesis using assms(4) by (simp add: strippable_def NL_char)
qed

lemma strip_marker:
  assumes "no_NL ls" and "\<forall>x \<in> set ls. \<not> reason_line x \<and> \<not> comment_line x" and "strippable m"
  shows "text_of_lines (drop_first comment_line (lines_of
    (text_of_lines (drop_first reason_line (lines_of (unlines (ls @ [m]))))))) = unlines ls"
proof -
  have n: "no_NL (ls @ [m])" using assms(1,3) by (auto simp: strippable_def)
  have r: "text_of_lines (drop_first reason_line (lines_of (unlines (ls @ [m])))) =
      (if reason_line m then unlines ls else unlines (ls @ [m]))"
    by (rule drop_marker[OF n]) (use assms(2) in blast)
  show ?thesis
  proof (cases "reason_line m")
    case True
    have "text_of_lines (drop_first comment_line (lines_of (unlines ls))) = unlines ls"
      by (rule drop_none[OF assms(1)]) (use assms(2) in blast)
    then show ?thesis using r True by (simp only: if_True)
  next
    case False
    then have "comment_line m" using assms(3) by (simp add: strippable_def)
    then have "text_of_lines (drop_first comment_line (lines_of (unlines (ls @ [m])))) = unlines ls"
      using drop_marker[OF n, of comment_line] assms(2) by (simp only: if_True) blast
    then show ?thesis using r False by (simp only: if_False)
  qed
qed

lemma end_line_unlines: "ls \<noteq> [] \<Longrightarrow> end_line (unlines ls) = unlines ls"
  by (simp add: end_line_def)

lemma status_line_not_marker: "\<not> reason_line (status_of st)" "\<not> comment_line (status_of st)"
  by (simp_all add: status_of_def reason_line_def comment_line_def startswith_def)

lemma set_key_appends:
  assumes "text = unlines ls" and "no_NL ls" and "last ls \<noteq> []" and "find_block (lines_of text) \<noteq> None"
    and "\<forall>l \<in> set ls. \<not> keyed_in k l"
  shows "set_key k v text = text @ key_line k v @ [NL]"
proof -
  have "\<not> keyed_in k []" by (simp add: not_keyed_in)
  then have "\<not> (\<exists>l \<in> set (ls @ [[]]). keyed_in k l)" using assms(5) by auto
  then have "set_key k v text = text_of_lines (add_to_block (key_line k v) (ls @ [[]]))"
    using assms(1,2) by (simp add: set_key_def)
  also have "\<dots> = text_of_lines ((ls @ [key_line k v]) @ [[]])"
    using add_to_block_end[of ls] assms by simp
  finally show ?thesis unfolding text_of_lines_unlines by (simp add: assms(1))
qed

text \<open>Replacing a key in a text whose last line has no indentation.\<close>

definition sub_key :: "string \<Rightarrow> string \<Rightarrow> string list \<Rightarrow> string list" where
  "sub_key k v = sub_first (keyed_in k) (\<lambda>l. takeWhile is_blank l @ k @ '' '' @ v)"

lemma set_key_replaces:
  assumes "no_NL (ls @ [m])" and "\<exists>l \<in> set ls. keyed_in k l"
  shows "set_key k v (unlines (ls @ [m])) = unlines (sub_key k v ls @ [m])"
proof -
  have "lines_of (unlines (ls @ [m])) = ls @ [m, []]" using lines_of_unlines[OF assms(1)] by simp
  then have "set_key k v (unlines (ls @ [m])) = text_of_lines ((sub_key k v ls @ [m]) @ [[]])"
    using assms(2) by (auto simp: set_key_def sub_key_def sub_first_append)
  then show ?thesis unfolding text_of_lines_unlines .
qed

lemma in_sub_key: "x \<in> set (sub_key k v ls) \<Longrightarrow> x \<in> set ls \<or> (\<exists>l \<in> set ls. keyed_in k l \<and> x = takeWhile is_blank l @ k @ '' '' @ v)"
  by (induction ls) (auto simp: sub_key_def split: if_splits)

lemma sub_key_keeps: "x \<in> set ls \<Longrightarrow> \<not> keyed_in k x \<Longrightarrow> x \<in> set (sub_key k v ls)"
  by (induction ls) (auto simp: sub_key_def)

lemma no_NL_sub_key:
  assumes "no_NL ls" and "is_key k" and "NL \<notin> set v"
  shows "no_NL (sub_key k v ls)"
proof
  fix x assume "x \<in> set (sub_key k v ls)"
  then consider "x \<in> set ls" | l where "l \<in> set ls" "x = takeWhile is_blank l @ k @ '' '' @ v"
    using in_sub_key by blast
  then show "NL \<notin> set x"
  proof cases
    case 2
    then show ?thesis using assms by (auto simp: is_key_def NL_char dest: set_takeWhileD)
  qed (use assms(1) in blast)
qed

text \<open>No line holds two keys of which neither is a prefix of the other.\<close>

lemma keyed_in_startswith: "keyed_in k l \<Longrightarrow> startswith (dropWhile is_blank l) k"
  by (simp add: keyed_in_def keyed_def)

lemma dropWhile_keyed: "is_key k \<Longrightarrow> dropWhile is_blank (takeWhile is_blank l @ k @ w) = k @ w"
proof -
  assume k: "is_key k"
  have "dropWhile is_blank (takeWhile is_blank l @ k @ w) = dropWhile is_blank (k @ w)"
    by (rule dropWhile_append2) (auto dest: set_takeWhileD)
  then show ?thesis using k by (cases k) (simp_all add: is_key_def)
qed

lemma stamp_keys_exclusive:
  "keyed_in ''promotedBy:'' l \<Longrightarrow> \<not> keyed_in ''promotedAt:'' l"
  "is_key k \<Longrightarrow> \<not> startswith (k @ CHR '' '' # v) k' \<Longrightarrow> \<not> keyed_in k' (takeWhile is_blank l @ k @ CHR '' '' # v)"
  using keyed_in_startswith[of "''promotedBy:''" l] keyed_in_startswith[of "''promotedAt:''" l]
    keyed_in_startswith[of k' "takeWhile is_blank l @ k @ CHR '' '' # v"] dropWhile_keyed[of k l "CHR '' '' # v"]
  by (auto simp: startswith_def prefix_def)

section \<open>Properties\<close>

text \<open>
  The promotion stamp is added at the end of the file: in a file with a lifecycle block that has
  no line of the key yet, the line is appended after the last line, whatever block or text follows
  the lifecycle block.
\<close>

theorem stamp_lands_at_end:
  assumes "text = unlines ls" and "no_NL ls" and "last ls \<noteq> []" and "find_block (lines_of text) \<noteq> None"
    and "\<forall>l \<in> set ls. \<not> keyed_in k l"
  shows "set_key k v text = text @ key_line k v @ [NL]"
  by (rule set_key_appends[OF assms])

theorem stamp_lands_at_end_witness:
  "let text = unlines [''lifecycle:'', ''  note: x'', ''payload:'', ''  query: T''] in
   set_key ''promotedAt:'' ''2026-01-02'' text =
     unlines [''lifecycle:'', ''  note: x'', ''payload:'', ''  query: T'', ''  promotedAt: 2026-01-02'']"
proof -
  let ?ls = "[''lifecycle:'', ''  note: x'', ''payload:'', ''  query: T'']"
  have "no_NL ?ls" "find_block (lines_of (unlines ?ls)) \<noteq> None" "\<forall>l \<in> set ?ls. \<not> keyed_in ''promotedAt:'' l"
    by code_simp+
  from stamp_lands_at_end[OF refl this(1) _ this(2,3)] show ?thesis unfolding Let_def by (simp add: key_line_def)
qed

text \<open>
  Stamping again updates the stamp: on a file that had no lifecycle block, promoting twice with
  clean values gives what promoting once with the second values gives, never a second block.
\<close>

theorem stamp_promotion_updates:
  assumes "\<forall>l \<in> set (lines_of text). \<not> block_head l"
    and "\<forall>l \<in> set (lines_of text). \<forall>k \<in> {''promotedAt:'', ''promotedBy:'', ''forcedPromotion:''}. \<not> keyed_in k l"
    and "clean a" and "clean b" and "clean a'" and "clean b'"
  shows "stamp_promotion a' b' forced (stamp_promotion a b forced text) = stamp_promotion a' b' forced text"
proof -
  obtain base where base: "end_line text = unlines base" "no_NL base" "set base \<subseteq> set (lines_of text)"
    by (rule end_line_lines)
  show ?thesis
    unfolding stamp_fresh[OF assms(1) base(1)] using base(2,3) assms(2) by (intro restamp assms(3-6)) auto
qed

theorem stamp_promotion_updates_witness:
  "stamp_promotion ''2026-02-03'' ''you'' True (stamp_promotion ''2026-01-02'' ''me'' True ''status: production'') =
   unlines [''status: production'', ''lifecycle:'', ''  promotedAt: 2026-02-03'', ''  promotedBy: you'', ''  forcedPromotion: true'']"
proof -
  have "\<forall>l \<in> set (lines_of ''status: production''). \<not> block_head l"
    "\<forall>l \<in> set (lines_of ''status: production''). \<forall>k \<in> {''promotedAt:'', ''promotedBy:'', ''forcedPromotion:''}. \<not> keyed_in k l"
    "clean ''2026-01-02''" "clean ''me''" "clean ''2026-02-03''" "clean ''you''" by code_simp+
  from stamp_promotion_updates[OF this, of True]
  have "stamp_promotion ''2026-02-03'' ''you'' True (stamp_promotion ''2026-01-02'' ''me'' True ''status: production'') =
      stamp_promotion ''2026-02-03'' ''you'' True ''status: production''" .
  also have "\<dots> = unlines [''status: production'', ''lifecycle:'', ''  promotedAt: 2026-02-03'', ''  promotedBy: you'', ''  forcedPromotion: true'']"
    by code_simp
  finally show ?thesis .
qed

text \<open>
  Unlock inverts lock: on a file without the flag that ends its last line, lock appends a flag
  that the lock look-up finds, locking again changes nothing, and unlock restores the file byte for
  byte.
\<close>

theorem unlock_inverts_lock:
  assumes "text = unlines ls" and "no_NL ls" and "ls \<noteq> []" and "\<forall>l \<in> set ls. \<not> lock_line l"
  shows "\<exists>t. lock_text text = Changed t \<and> has_lock t \<and> lock_text t = Unchanged \<and> unlock_text t = Changed text"
proof -
  define m where "m = ''localCustomization: true''"
  have m: "lock_line m" "NL \<notin> set m"
    using lock_line_own by (simp_all add: m_def NL_char)
  have l: "lines_of (unlines (ls @ [m])) = ls @ [m, []]"
    using lines_of_unlines[of "ls @ [m]"] assms(2) m(2) by simp
  have "\<not> has_lock text" using assms by (auto simp: has_lock_def butlast_append)
  then have lock: "lock_text text = Changed (unlines (ls @ [m]))"
    using assms(1,3) by (simp add: lock_text_def end_line_def m_def)
  have has: "has_lock (unlines (ls @ [m]))"
    using m(1) unfolding has_lock_def l by (simp add: butlast_append)
  have "sub_first lock_line (\<lambda>_. m) (ls @ [m, []]) = (ls @ [m]) @ [[]]"
    using assms(4) m(1) by (auto simp: sub_first_append)
  then have "lock_text (unlines (ls @ [m])) = Unchanged"
    using has unfolding lock_text_def l m_def[symmetric] by (simp only: text_of_lines_unlines Let_def if_True) simp
  moreover have "unlock_text (unlines (ls @ [m])) = Changed text"
    using has drop_marker[of ls m lock_line] assms m by (simp only: unlock_text_def) simp
  ultimately show ?thesis using lock has by blast
qed

theorem unlock_inverts_lock_witness:
  "\<exists>t. lock_text (unlines [''id: a'', ''status: test'']) = Changed t \<and> unlock_text t = Changed (unlines [''id: a'', ''status: test''])"
proof -
  have "no_NL [''id: a'', ''status: test'']" "\<forall>l \<in> set [''id: a'', ''status: test'']. \<not> lock_line l"
    by code_simp+
  from unlock_inverts_lock[OF refl this(1) _ this(2)] show ?thesis by blast
qed



text \<open>
  Enabling a promoted rule back to production with a reason puts the \<open>forcedPromotion\<close> flag after
  the enable marker: the file ends in an indented line below the quoted scalar \<open>enableReason\<close>,
  outside the lifecycle block.
\<close>

theorem enable_to_production_misplaces_flag:
  assumes "enable_text ''production'' today (Some (c # cs)) text = unlines (ls @ [m])"
    and "m = ''enableReason: '' @ [CHR 0x22] @ escape_quotes (c # cs) @ [CHR 0x22]" and "NL \<notin> set (c # cs)" and "no_NL ls"
    and "find_block (lines_of (unlines (ls @ [m]))) \<noteq> None"
    and "\<exists>l \<in> set ls. keyed_in ''promotedAt:'' l" and "\<exists>l \<in> set ls. keyed_in ''promotedBy:'' l"
    and "\<forall>l \<in> set ls. \<not> keyed_in ''forcedPromotion:'' l" and "clean today" and "clean actor"
    and "find status_line (lines_of text) = Some l" and "strip l = ''status: deprecated''"
  shows "\<exists>new. enable_one ''production'' today actor (Some (c # cs)) text = Changed (unlines (new @ [m, ''  forcedPromotion: true'']))"
proof -
  let ?at = "sub_key ''promotedAt:'' today ls"
  let ?new = "sub_key ''promotedBy:'' actor ?at"
  note nl = assms(9)[THEN clean_no_NL] assms(10)[THEN clean_no_NL]
  have m: "no_NL [m]" "m \<noteq> []" "\<not> keyed_in k m" for k
    using assms(3) by (auto simp: assms(2) escape_quotes_def NL_char not_keyed_in is_blank_def split: if_splits)
  have n1: "no_NL (?at @ [m])" and n2: "no_NL (?new @ [m])" and n0: "no_NL (ls @ [m])"
    using no_NL_sub_key[OF assms(4) stamp_keys(1) nl(1)] no_NL_sub_key[OF _ stamp_keys(2) nl(2)] m(1) assms(4) by auto
  have "\<exists>l \<in> set ?at. keyed_in ''promotedBy:'' l"
    using assms(7) sub_key_keeps stamp_keys_exclusive(1) by meson
  then have two: "set_key ''promotedBy:'' actor (set_key ''promotedAt:'' today (unlines (ls @ [m]))) = unlines (?new @ [m])"
    using set_key_replaces[OF n0 assms(6)] set_key_replaces[OF n1] by simp
  have "find_block (?new @ [m, []]) \<noteq> None"
  proof -
    have "find_block (ls @ [m, []]) \<noteq> None" using assms(5) lines_of_unlines[OF n0] by simp
    from sub_key_block[OF this, of "''promotedAt:''" today] have "find_block (?at @ [m, []]) \<noteq> None"
      using assms(6) by (simp add: sub_key_def sub_first_append)
    from sub_key_block[OF this, of "''promotedBy:''" actor] show ?thesis
      using \<open>\<exists>l \<in> set ?at. keyed_in ''promotedBy:'' l\<close> by (simp add: sub_key_def sub_first_append)
  qed
  then have b: "find_block (lines_of (unlines (?new @ [m]))) \<noteq> None" using lines_of_unlines[OF n2] by simp
  have "\<forall>l \<in> set (?new @ [m]). \<not> keyed_in ''forcedPromotion:'' l"
    using assms(8) m(3) stamp_keys_exclusive(2)[OF stamp_keys(1), of today "''forcedPromotion:''"]
      stamp_keys_exclusive(2)[OF stamp_keys(2), of actor "''forcedPromotion:''"]
    by (auto simp: startswith_def dest!: in_sub_key)
  from set_key_appends[OF refl n2 _ b this]
  have "set_key ''forcedPromotion:'' ''true'' (unlines (?new @ [m])) =
      unlines (?new @ [m]) @ key_line ''forcedPromotion:'' ''true'' @ [NL]" using m(2) by simp
  then have "stamp_promotion today actor True (unlines (ls @ [m])) = unlines (?new @ [m, ''  forcedPromotion: true''])"
    using assms(5) two by (simp add: stamp_promotion_def key_line_def)
  then show ?thesis
    using assms(1,11,12) by (intro exI[of _ ?new]) (simp add: enable_one_def)
qed

theorem enable_to_production_misplaces_flag_witness:
  "\<exists>new. enable_one ''production'' ''2026-02-03'' ''me'' (Some ''ok'') (unlines [''status: deprecated'', ''lifecycle:'',
      ''  promotedAt: 2026-01-02'', ''  promotedBy: me'', ''disableReason: '' @ [CHR 0x22, CHR ''x'', CHR 0x22]]) =
    Changed (unlines (new @ [''enableReason: '' @ [CHR 0x22, CHR ''o'', CHR ''k'', CHR 0x22], ''  forcedPromotion: true'']))"
proof -
  let ?text = "unlines [''status: deprecated'', ''lifecycle:'', ''  promotedAt: 2026-01-02'', ''  promotedBy: me'',
    ''disableReason: '' @ [CHR 0x22, CHR ''x'', CHR 0x22]]"
  let ?ls = "[''status: production'', ''lifecycle:'', ''  promotedAt: 2026-01-02'', ''  promotedBy: me'']"
  let ?m = "''enableReason: '' @ [CHR 0x22] @ escape_quotes ''ok'' @ [CHR 0x22]"
  have "enable_text ''production'' ''2026-02-03'' (Some ''ok'') ?text = unlines (?ls @ [?m])"
    "NL \<notin> set ''ok''" "no_NL ?ls" "find_block (lines_of (unlines (?ls @ [?m]))) \<noteq> None"
    "\<exists>l \<in> set ?ls. keyed_in ''promotedAt:'' l" "\<exists>l \<in> set ?ls. keyed_in ''promotedBy:'' l"
    "\<forall>l \<in> set ?ls. \<not> keyed_in ''forcedPromotion:'' l" "clean ''2026-02-03''" "clean ''me''"
    "find status_line (lines_of ?text) = Some ''status: deprecated''" "strip ''status: deprecated'' = ''status: deprecated''"
    by code_simp+
  from enable_to_production_misplaces_flag[OF this(1) refl this(2-11)] show ?thesis
    by (simp add: escape_quotes_def)
qed

end
