(* ===== verification/Rule_Keys.thy ===== *)
theory Rule_Keys
  imports Py_Value
begin

text \<open>
  Joining workspace telemetry to rules, \<open>contentops/rule_keys.py\<close>: the normalised ids and names of a
  rule, the index of telemetry rows by key, and the sum of a rule's rows. A row is a dictionary with
  its position in the response, which stands for the identity of the object (\<open>_unique\<close>). \<open>None\<close>
  is the exception of \<open>int()\<close> on a value it does not take.
\<close>

section \<open>Normalisation\<close>

definition is_hex :: "char \<Rightarrow> bool" where
  "is_hex c \<longleftrightarrow> is_digit c \<or> (97 \<le> code c \<and> code c \<le> 102) \<or> (65 \<le> code c \<and> code c \<le> 70)"

text \<open>\<open>_WORKSPACE_PREFIX\<close>: a GUID and an underscore; the group is what follows on the same line.\<close>

definition guid_prefix :: "string \<Rightarrow> bool" where
  "guid_prefix s \<longleftrightarrow> 37 \<le> length s \<and>
     (\<forall>i < 37. if i \<in> {8, 13, 18, 23} then s ! i = CHR ''-'' else if i = 36 then s ! i = CHR ''_'' else is_hex (s ! i))"

definition workspace_prefix :: "string \<Rightarrow> string option" where
  "workspace_prefix s =
    (if guid_prefix s
     then let r = drop 37 s; body = (if r \<noteq> [] \<and> last r = NL then butlast r else r)
          in if body \<noteq> [] \<and> NL \<notin> set body then Some body else None
     else None)"

definition nonempty :: "string \<Rightarrow> string option" where
  "nonempty s = (if s = [] then None else Some s)"

definition normalise_rule_id :: "pyval \<Rightarrow> string option" where
  "normalise_rule_id v = (case v of
     PStr s \<Rightarrow>
       (let t = rstrip_by (\<lambda>c. c = CHR ''/'') (strip s) in
        if t = [] then None
        else let t = last (split_on (CHR ''/'') t);
                 t = (case workspace_prefix t of Some b \<Rightarrow> b | None \<Rightarrow> t)
             in nonempty (lower t))
   | _ \<Rightarrow> None)"

definition normalise_rule_name :: "pyval \<Rightarrow> string option" where
  "normalise_rule_name v = (case v of PStr s \<Rightarrow> nonempty (lower (strip s)) | _ \<Rightarrow> None)"

section \<open>Keys of a rule\<close>

record rule_keys =
  rk_ids :: "string list"
  rk_names :: "string list"

definition ID_PREFIX :: string where "ID_PREFIX = ''id:''"
definition NAME_PREFIX :: string where "NAME_PREFIX = ''name:''"

definition candidates :: "rule_keys \<Rightarrow> string list" where
  "candidates k = map ((@) ID_PREFIX) (rk_ids k) @ map ((@) NAME_PREFIX) (rk_names k)"

definition from_candidates :: "string list \<Rightarrow> rule_keys" where
  "from_candidates ks = \<lparr>rk_ids = map (drop (length ID_PREFIX)) (filter (\<lambda>k. startswith k ID_PREFIX) ks),
     rk_names = map (drop (length NAME_PREFIX)) (filter (\<lambda>k. startswith k NAME_PREFIX) ks)\<rparr>"

text \<open>\<open>dict.fromkeys\<close> keeps the first of equal values.\<close>

definition dedupe :: "string option list \<Rightarrow> string list" where
  "dedupe vs = rev (remdups (rev (concat (map (\<lambda>v. case v of Some (c # cs) \<Rightarrow> [c # cs] | _ \<Rightarrow> []) vs))))"

definition dict_of :: "pyval \<Rightarrow> pydict option" where
  "dict_of v = (case v of PDict d \<Rightarrow> Some d | _ \<Rightarrow> None)"

definition defender_alert_title :: "pydict \<Rightarrow> pyval" where
  "defender_alert_title payload =
    (case Option.bind (dict_of (dget payload ''detectionAction'')) (\<lambda>a. dict_of (dget a ''alertTemplate'')) of
       Some t \<Rightarrow> (case dget t ''title'' of PStr s \<Rightarrow> PStr s | _ \<Rightarrow> PNone)
     | None \<Rightarrow> PNone)"

text \<open>\<open>arm_name or envelope_id\<close> of two optional texts.\<close>

definition text_or :: "string option \<Rightarrow> string option \<Rightarrow> pyval" where
  "text_or a b = (case a of Some (c # cs) \<Rightarrow> PStr (c # cs) | _ \<Rightarrow> (case b of Some s \<Rightarrow> PStr s | None \<Rightarrow> PNone))"

definition rule_keys_of :: "pyval \<Rightarrow> string option \<Rightarrow> string option \<Rightarrow> pydict \<Rightarrow> rule_keys" where
  "rule_keys_of a envelope_id arm payload = \<lparr>
     rk_ids = dedupe [normalise_rule_id (text_or arm envelope_id)],
     rk_names = dedupe (map normalise_rule_name
       ([dget payload ''displayName'', dget payload ''DisplayName''] @
        (if a = PStr ''defender_custom_detection'' then [defender_alert_title payload] else [])))\<rparr>"

definition opt_text :: "pyval \<Rightarrow> string option" where
  "opt_text v = (case v of PStr s \<Rightarrow> Some s | _ \<Rightarrow> None)"

definition dict_or_empty :: "pyval \<Rightarrow> pydict" where
  "dict_or_empty v = (case v of PDict d \<Rightarrow> d | _ \<Rightarrow> [])"

definition rule_keys_from_raw :: "pydict \<Rightarrow> rule_keys" where
  "rule_keys_from_raw doc = rule_keys_of (dget doc ''asset'') (opt_text (dget doc ''id''))
     (opt_text (dget (dict_or_empty (dget doc ''metadata'')) ''arm_name''))
     (dict_or_empty (dget doc ''payload''))"

section \<open>The index\<close>

type_synonym row = "nat \<times> pydict"

record telemetry_index =
  by_id :: "(string \<times> row list) list"
  by_name :: "(string \<times> row list) list"
  by_id_row_name :: "(string \<times> row list) list"

definition add_row :: "string \<Rightarrow> row \<Rightarrow> (string \<times> row list) list \<Rightarrow> (string \<times> row list) list" where
  "add_row k r m = dset k ((case map_of m k of None \<Rightarrow> [] | Some rs \<Rightarrow> rs) @ [r]) m"

definition add_named :: "string option \<Rightarrow> row \<Rightarrow> (string \<times> row list) list \<Rightarrow> (string \<times> row list) list" where
  "add_named name r m = (case name of None \<Rightarrow> m | Some n \<Rightarrow> add_row n r m)"

definition row_key :: "pydict \<Rightarrow> string" where
  "row_key d = (if truthy (dget d ''rule_key'') then py_str (dget d ''rule_key'') else [])"

definition index_row :: "row \<Rightarrow> telemetry_index \<Rightarrow> telemetry_index" where
  "index_row r ix =
    (let key = row_key (snd r); name = normalise_rule_name (dget (snd r) ''rule_name'') in
     if startswith key ID_PREFIX
     then ix\<lparr>by_id := add_row (drop (length ID_PREFIX) key) r (by_id ix),
             by_id_row_name := add_named name r (by_id_row_name ix)\<rparr>
     else if startswith key NAME_PREFIX
     then ix\<lparr>by_name := add_row (drop (length NAME_PREFIX) key) r (by_name ix)\<rparr>
     else ix\<lparr>by_name := add_named name r (by_name ix)\<rparr>)"

definition telemetry_index_of :: "pydict list \<Rightarrow> telemetry_index" where
  "telemetry_index_of rows = fold index_row (enumerate 0 rows) \<lparr>by_id = [], by_name = [], by_id_row_name = []\<rparr>"

text \<open>\<open>_unique\<close>: a dictionary keyed by identity keeps the place of the first and the last value.\<close>

definition unique_rows :: "row list \<Rightarrow> row list" where
  "unique_rows rs = fold (\<lambda>r. dset (fst r) (snd r)) rs []"

definition gather :: "(string \<times> row list) list \<Rightarrow> string list \<Rightarrow> row list" where
  "gather m ks = concat (map (\<lambda>k. case map_of m k of None \<Rightarrow> [] | Some rs \<Rightarrow> rs) ks)"

definition rows_for :: "telemetry_index \<Rightarrow> rule_keys \<Rightarrow> row list" where
  "rows_for ix k =
    (let own = unique_rows (gather (by_id ix) (rk_ids k) @ gather (by_name ix) (rk_names k))
     in if own \<noteq> [] then own else unique_rows (gather (by_id_row_name ix) (rk_names k)))"

section \<open>Merging\<close>

definition COUNT_COLUMNS :: "string list" where
  "COUNT_COLUMNS = [''alerts_30d'', ''incidents_30d'', ''closed_tp_30d'', ''closed_fp_30d'', ''closed_bp_30d'']"

text \<open>\<open>int(s)\<close> of a text: a sign and digits, with single underscores between digits.\<close>

definition int_text :: "string \<Rightarrow> int option" where
  "int_text s =
    (let t = strip s;
         neg = (t \<noteq> [] \<and> hd t = CHR ''-'');
         r = (if t \<noteq> [] \<and> hd t \<in> {CHR ''-'', CHR ''+''} then tl t else t);
         ws = split_on (CHR ''_'') r; ds = concat ws
     in if (\<forall>w \<in> set ws. w \<noteq> [] \<and> list_all is_digit w) \<and> length ds \<le> 4300
        then Some (if neg then - int (digits_val ds) else int (digits_val ds)) else None)"

text \<open>\<open>int(v or 0)\<close>.\<close>

definition py_int :: "pyval \<Rightarrow> int option" where
  "py_int v = (if \<not> truthy v then Some 0 else case v of
     PBool b \<Rightarrow> Some 1 | PInt i \<Rightarrow> Some i | PStr s \<Rightarrow> int_text s | _ \<Rightarrow> None)"

definition sum_column :: "string \<Rightarrow> pydict list \<Rightarrow> int option" where
  "sum_column c rows = map_option sum_list (those (map (\<lambda>d. py_int (dget d c)) rows))"

fun merge_columns :: "string list \<Rightarrow> pydict list \<Rightarrow> pydict \<Rightarrow> pydict option" where
  "merge_columns [] rows m = Some m"
| "merge_columns (c # cs) rows m =
     (if \<forall>d \<in> set rows. dget d c = PNone then merge_columns cs rows m
      else Option.bind (sum_column c rows) (\<lambda>s. merge_columns cs rows (dset c (PInt s) m)))"

definition merge_rows :: "pydict list \<Rightarrow> pydict option" where
  "merge_rows rows = map_option
     (dset ''rule_keys'' (PList (map (\<lambda>d. PStr (py_str (dget d ''rule_key''))) (filter (\<lambda>d. truthy (dget d ''rule_key'')) rows))))
     (merge_columns COUNT_COLUMNS rows (hd rows))"

text \<open>\<open>lookup\<close>: the outer option is the exception, the inner one Python's \<open>None\<close>.\<close>

definition lookup_rule :: "telemetry_index \<Rightarrow> rule_keys \<Rightarrow> pydict option option" where
  "lookup_rule ix k = (case map snd (rows_for ix k) of
     [] \<Rightarrow> Some None
   | r # rs \<Rightarrow> map_option Some (merge_rows (r # rs)))"

section \<open>Lemmas\<close>

abbreviation rows_at :: "(string \<times> row list) list \<Rightarrow> string \<Rightarrow> row list" where
  "rows_at m k \<equiv> (case map_of m k of None \<Rightarrow> [] | Some rs \<Rightarrow> rs)"

text \<open>Where a row is indexed.\<close>

definition row_id :: "pydict \<Rightarrow> string option" where
  "row_id d = (if startswith (row_key d) ID_PREFIX then Some (drop (length ID_PREFIX) (row_key d)) else None)"

definition row_name :: "pydict \<Rightarrow> string option" where
  "row_name d = (if startswith (row_key d) ID_PREFIX then None
     else if startswith (row_key d) NAME_PREFIX then Some (drop (length NAME_PREFIX) (row_key d))
     else normalise_rule_name (dget d ''rule_name''))"

definition row_id_name :: "pydict \<Rightarrow> string option" where
  "row_id_name d = (if row_id d = None then None else normalise_rule_name (dget d ''rule_name''))"

lemma rows_at_add: "rows_at (add_row k r m) k' = (if k' = k then rows_at m k' @ [r] else rows_at m k')"
  "rows_at (add_named n r m) k' = (if n = Some k' then rows_at m k' @ [r] else rows_at m k')"
  by (auto simp: add_row_def add_named_def split: option.split)

lemma telemetry_index_fold:
  "rows_at (by_id (fold index_row rs ix)) k = rows_at (by_id ix) k @ filter (\<lambda>r. row_id (snd r) = Some k) rs"
  "rows_at (by_name (fold index_row rs ix)) k = rows_at (by_name ix) k @ filter (\<lambda>r. row_name (snd r) = Some k) rs"
  "rows_at (by_id_row_name (fold index_row rs ix)) k =
     rows_at (by_id_row_name ix) k @ filter (\<lambda>r. row_id_name (snd r) = Some k) rs"
proof -
  have step: "rows_at (by_id (index_row r ix)) k = rows_at (by_id ix) k @ (if row_id (snd r) = Some k then [r] else [])"
    "rows_at (by_name (index_row r ix)) k = rows_at (by_name ix) k @ (if row_name (snd r) = Some k then [r] else [])"
    "rows_at (by_id_row_name (index_row r ix)) k =
       rows_at (by_id_row_name ix) k @ (if row_id_name (snd r) = Some k then [r] else [])" for r ix
    by (simp_all add: index_row_def Let_def rows_at_add row_id_def row_name_def row_id_name_def)
  show "rows_at (by_id (fold index_row rs ix)) k = rows_at (by_id ix) k @ filter (\<lambda>r. row_id (snd r) = Some k) rs"
    by (induction rs arbitrary: ix) (simp_all add: step)
  show "rows_at (by_name (fold index_row rs ix)) k = rows_at (by_name ix) k @ filter (\<lambda>r. row_name (snd r) = Some k) rs"
    by (induction rs arbitrary: ix) (simp_all add: step)
  show "rows_at (by_id_row_name (fold index_row rs ix)) k =
     rows_at (by_id_row_name ix) k @ filter (\<lambda>r. row_id_name (snd r) = Some k) rs"
    by (induction rs arbitrary: ix) (simp_all add: step)
qed

lemma set_gather:
  assumes "\<And>k. rows_at m k = filter (\<lambda>r. f (snd r) = Some k) rs"
  shows "set (gather m ks) = {r \<in> set rs. \<exists>k \<in> set ks. f (snd r) = Some k}"
  by (auto simp: gather_def assms)

lemma unique_rows_set:
  assumes "\<forall>r \<in> set rs. snd r = f (fst r)"
  shows "set (unique_rows rs) = set rs \<and> distinct (map fst (unique_rows rs))"
proof -
  have "distinct (map fst acc) \<Longrightarrow> \<forall>r \<in> set acc \<union> set rs. snd r = f (fst r) \<Longrightarrow>
      set (fold (\<lambda>r. dset (fst r) (snd r)) rs acc) = set acc \<union> set rs \<and>
      distinct (map fst (fold (\<lambda>r. dset (fst r) (snd r)) rs acc))" for acc
  proof (induction rs arbitrary: acc)
    case (Cons r rs)
    have "set (dset (fst r) (snd r) acc) = insert r (set acc)"
    proof -
      have "map_of (dset (fst r) (snd r) acc) = (map_of acc)(fst r \<mapsto> snd r)" by simp
      moreover have "distinct (map fst (dset (fst r) (snd r) acc))" using Cons.prems(1) by simp
      ultimately have "(i, x) \<in> set (dset (fst r) (snd r) acc) \<longleftrightarrow> ((map_of acc)(fst r \<mapsto> snd r)) i = Some x" for i x
        by (metis map_of_eq_Some_iff)
      moreover have "((map_of acc)(fst r \<mapsto> snd r)) i = Some x \<longleftrightarrow> (i, x) = r \<or> (i, x) \<in> set acc" for i x
        using Cons.prems by (cases r) (force simp: map_of_eq_Some_iff)
      ultimately show ?thesis by auto
    qed
    then show ?case using Cons.IH[of "dset (fst r) (snd r) acc"] Cons.prems by auto
  qed simp
  from this[of "[]"] assms show ?thesis by (simp add: unique_rows_def)
qed

text \<open>The rows of a rule: those indexed under one of its keys, else id rows that carry its name.\<close>

definition own_rows :: "pydict list \<Rightarrow> rule_keys \<Rightarrow> nat set" where
  "own_rows rows k = {i. i < length rows \<and>
     ((\<exists>x \<in> set (rk_ids k). row_id (rows ! i) = Some x) \<or> (\<exists>x \<in> set (rk_names k). row_name (rows ! i) = Some x))}"

definition named_rows :: "pydict list \<Rightarrow> rule_keys \<Rightarrow> nat set" where
  "named_rows rows k = {i. i < length rows \<and> (\<exists>x \<in> set (rk_names k). row_id_name (rows ! i) = Some x)}"

lemma rows_for_exact:
  "\<exists>is. rows_for (telemetry_index_of rows) k = map (\<lambda>i. (i, rows ! i)) is \<and> distinct is \<and>
     set is = (if own_rows rows k \<noteq> {} then own_rows rows k else named_rows rows k)"
proof -
  let ?rs = "enumerate 0 rows" and ?ix = "telemetry_index_of rows"
  let ?own = "gather (by_id ?ix) (rk_ids k) @ gather (by_name ?ix) (rk_names k)"
  let ?named = "gather (by_id_row_name ?ix) (rk_names k)"
  have own: "set ?own = (\<lambda>i. (i, rows ! i)) ` own_rows rows k"
    unfolding set_append telemetry_index_of_def
    by (subst set_gather[where f = row_id and rs = ?rs], simp add: telemetry_index_fold)
       (subst set_gather[where f = row_name and rs = ?rs], simp add: telemetry_index_fold,
        auto simp: own_rows_def in_set_enumerate_eq)
  have named: "set ?named = (\<lambda>i. (i, rows ! i)) ` named_rows rows k"
    unfolding telemetry_index_of_def
    by (subst set_gather[where f = row_id_name and rs = ?rs], simp add: telemetry_index_fold)
       (auto simp: named_rows_def in_set_enumerate_eq)
  have u: "\<exists>is. unique_rows xs = map (\<lambda>i. (i, rows ! i)) is \<and> distinct is \<and> set is = I"
    if "set xs = (\<lambda>i. (i, rows ! i)) ` I" for xs I
  proof -
    have "set (unique_rows xs) = set xs" "distinct (map fst (unique_rows xs))"
      using unique_rows_set[of xs "(!) rows"] that by auto
    moreover from this that have "unique_rows xs = map (\<lambda>i. (i, rows ! i)) (map fst (unique_rows xs))"
      by (auto simp: comp_def intro!: map_idI[symmetric])
    moreover have "fst ` set xs = I" unfolding that by force
    ultimately show ?thesis by (metis list.set_map)
  qed
  obtain a b where "unique_rows ?own = map (\<lambda>i. (i, rows ! i)) a" "distinct a" "set a = own_rows rows k"
      "unique_rows ?named = map (\<lambda>i. (i, rows ! i)) b" "distinct b" "set b = named_rows rows k"
    using u[OF own] u[OF named] by blast
  then show ?thesis by (intro exI[of _ "if a \<noteq> [] then a else b"]) (auto simp: rows_for_def)
qed

lemma those_Some_iff: "those xs = Some ys \<longleftrightarrow> xs = map Some ys"
proof (induction xs arbitrary: ys)
  case (Cons x xs)
  then show ?case by (cases x; cases ys) auto
qed auto

lemma merge_columns_spec:
  "merge_columns cs rows m = Some m' \<Longrightarrow> distinct cs \<Longrightarrow>
   (\<forall>c. c \<notin> set cs \<longrightarrow> dget m' c = dget m c) \<and>
   (\<forall>c \<in> set cs. if \<forall>d \<in> set rows. dget d c = PNone then dget m' c = dget m c
      else \<exists>s. sum_column c rows = Some s \<and> dget m' c = PInt s)"
proof (induction cs arbitrary: m)
  case (Cons c cs)
  show ?case
  proof (cases "\<forall>d \<in> set rows. dget d c = PNone")
    case True
    then have "merge_columns cs rows m = Some m'" using Cons.prems(1) by simp
    from Cons.IH[OF this] Cons.prems(2) True show ?thesis by auto
  next
    case False
    then obtain s where s: "sum_column c rows = Some s" "merge_columns cs rows (dset c (PInt s) m) = Some m'"
      using Cons.prems(1) unfolding merge_columns.simps if_not_P[OF False] by (auto simp: bind_eq_Some_conv)
    have d: "dget (dset c (PInt s) m) x = (if x = c then PInt s else dget m x)" for x
      by (simp add: dget_def)
    from Cons.IH[OF s(2)] Cons.prems(2) False s(1) show ?thesis unfolding d by auto
  qed
qed simp

section \<open>Properties\<close>

text \<open>
  The telemetry of a rule is the sum of its rows, each counted once: the merged row adds up every
  row of the response that carries one of the rule's keys (or, when there is none, the id rows that
  carry its name), whatever keys the rows are split over, and a column no row has stays absent.
\<close>

theorem telemetry_sums_each_row_once:
  assumes "lookup_rule (telemetry_index_of rows) k = Some (Some m)"
  shows "\<exists>I. I = (if own_rows rows k \<noteq> {} then own_rows rows k else named_rows rows k) \<and> I \<noteq> {} \<and>
    (\<forall>c \<in> set COUNT_COLUMNS. dget m c =
      (if \<forall>i \<in> I. dget (rows ! i) c = PNone then PNone
       else PInt (\<Sum>i \<in> I. the (py_int (dget (rows ! i) c)))))"
proof -
  obtain xs where xs: "rows_for (telemetry_index_of rows) k = map (\<lambda>i. (i, rows ! i)) xs" "distinct xs"
      "set xs = (if own_rows rows k \<noteq> {} then own_rows rows k else named_rows rows k)"
    using rows_for_exact by blast
  define ds where "ds = map ((!) rows) xs"
  have "map snd (rows_for (telemetry_index_of rows) k) = ds" by (simp add: xs(1) ds_def)
  then have ne: "ds \<noteq> []" and "merge_rows ds = Some m"
    using assms by (auto simp: lookup_rule_def split: list.splits)
  then obtain m0 where m0: "merge_columns COUNT_COLUMNS ds (hd ds) = Some m0"
      and m: "\<exists>v. m = dset ''rule_keys'' v m0"
    by (auto simp: merge_rows_def)
  have col: "dget m c = (if \<forall>i \<in> set xs. dget (rows ! i) c = PNone then PNone
       else PInt (\<Sum>i \<in> set xs. the (py_int (dget (rows ! i) c))))" if c: "c \<in> set COUNT_COLUMNS" for c
  proof -
    have mc: "dget m c = dget m0 c" using m c by (auto simp: COUNT_COLUMNS_def dget_def)
    have "distinct COUNT_COLUMNS" by (simp add: COUNT_COLUMNS_def)
    note spec = merge_columns_spec[OF m0 this, THEN conjunct2, rule_format, OF c]
    have all: "(\<forall>d \<in> set ds. dget d c = PNone) \<longleftrightarrow> (\<forall>i \<in> set xs. dget (rows ! i) c = PNone)"
      by (simp add: ds_def)
    show ?thesis
    proof (cases "\<forall>i \<in> set xs. dget (rows ! i) c = PNone")
      case True
      then have "dget (hd ds) c = PNone" using ne all by (cases ds) auto
      then show ?thesis using spec all True mc by simp
    next
      case False
      then have "\<not> (\<forall>d \<in> set ds. dget d c = PNone)" using all by simp
      then obtain s where s: "sum_column c ds = Some s" "dget m0 c = PInt s"
        using spec unfolding if_not_P[OF \<open>\<not> (\<forall>d \<in> set ds. dget d c = PNone)\<close>] by blast
      then obtain vs where vs: "map (\<lambda>d. py_int (dget d c)) ds = map Some vs" "s = sum_list vs"
        by (auto simp: sum_column_def those_Some_iff)
      have "map (\<lambda>d. the (py_int (dget d c))) ds = vs"
        using arg_cong[OF vs(1), of "map the"] by (simp add: comp_def)
      then have "s = sum_list (map (\<lambda>i. the (py_int (dget (rows ! i) c))) xs)"
        using vs(2) by (auto simp: ds_def comp_def)
      then show ?thesis using s(2) mc False xs(2) by (auto simp: sum_list_distinct_conv_sum_set)
    qed
  qed
  have "set xs \<noteq> {}" using ne by (simp add: ds_def)
  then show ?thesis using col xs(3) by blast
qed

theorem telemetry_sums_each_row_once_witness:
  "\<exists>m. lookup_rule (telemetry_index_of [[(''rule_key'', PStr ''id:a''), (''incidents_30d'', PInt 2)],
      [(''rule_key'', PStr ''name:b''), (''incidents_30d'', PInt 3)]]) \<lparr>rk_ids = [''a''], rk_names = [''b'']\<rparr> = Some (Some m) \<and>
     dget m ''incidents_30d'' = PInt 5 \<and> dget m ''alerts_30d'' = PNone"
proof -
  let ?rows = "[[(''rule_key'', PStr ''id:a''), (''incidents_30d'', PInt 2)],
      [(''rule_key'', PStr ''name:b''), (''incidents_30d'', PInt 3)]]" and ?k = "\<lparr>rk_ids = [''a''], rk_names = [''b'']\<rparr>"
  have "case lookup_rule (telemetry_index_of ?rows) ?k of Some (Some m) \<Rightarrow> True | _ \<Rightarrow> False" by code_simp
  then obtain m where m: "lookup_rule (telemetry_index_of ?rows) ?k = Some (Some m)" by (auto split: option.splits)
  have keys: "row_id (?rows ! 0) = Some ''a''" "row_name (?rows ! 1) = Some ''b''" by code_simp+
  have own: "own_rows ?rows ?k = {0, 1}"
  proof
    show "own_rows ?rows ?k \<subseteq> {0, 1}" by (auto simp: own_rows_def)
    show "{0, 1} \<subseteq> own_rows ?rows ?k" using keys by (auto simp: own_rows_def)
  qed
  have p: "py_int (PInt 2) = Some 2" "py_int (PInt 3) = Some 3" by (simp_all add: py_int_def)
  have "dget m ''incidents_30d'' = PInt 5" "dget m ''alerts_30d'' = PNone"
    using telemetry_sums_each_row_once[OF m] own by (auto simp: COUNT_COLUMNS_def dget_def p)
  with m show ?thesis by blast
qed

end
