(* ===== verification/Lifecycle.thy ===== *)
theory Lifecycle
  imports Complex_Main Lifecycle_Edit Rule_Keys Discovery
begin

text \<open>
  Promotion to production, \<open>contentops/lifecycle.py\<close>, and the exit codes of
  \<open>contentops lifecycle promote\<close> (\<open>contentops/cli/commands/lifecycle.py\<close>): the four gates, one
  promotion and the bulk promotion. The files are the list \<open>rglob\<close> walks; \<open>safe_load\<close> is \<open>yload\<close>;
  \<open>iso_date\<close> is the day number of the date \<open>datetime.fromisoformat\<close> reads, \<open>None\<close> for its
  \<open>ValueError\<close> (the forms it takes depend on the interpreter). The Log Analytics API is a parameter:
  its answer to a query and to the telemetry query. Rates are rationals, so the rounding of the
  floating-point quotient is not modelled; the detail texts of the gates are not either.
\<close>

section \<open>Gates\<close>

record gate_result =
  g_name :: string
  g_passed :: bool
  g_deferred :: bool

datatype query_result =
    Query_failed                  \<comment> \<open>\<open>WorkspaceKqlError\<close> or any other exception\<close>
  | Query_rows "pydict list"

record live_env =
  l_workspace :: "string option"
  l_token :: "string option"
  l_error :: "string option"
  l_query :: "string \<Rightarrow> query_result"
  l_telemetry :: query_result

record gate_env =
  ge_today :: int
  ge_iso_date :: "string \<Rightarrow> int option"
  ge_max_age :: int
  ge_threshold :: rat
  ge_live :: live_env

definition gate :: "string \<Rightarrow> bool \<Rightarrow> gate_result" where
  "gate name ok = \<lparr>g_name = name, g_passed = ok, g_deferred = False\<rparr>"

text \<open>\<open>str(v or "")\<close>.\<close>

definition str_or_empty :: "pyval \<Rightarrow> string" where
  "str_or_empty v = (if truthy v then py_str v else [])"

definition parse_iso_date :: "(string \<Rightarrow> int option) \<Rightarrow> pyval \<Rightarrow> int option" where
  "parse_iso_date iso_date v =
    (if \<not> truthy v then None
     else let s = strip (py_str v)
          in iso_date (if endswith s ''Z'' then concat (map (\<lambda>c. if c = CHR ''Z'' then ''+00:00'' else [c]) s) else s))"

definition gate_currently_experimental :: "pydict \<Rightarrow> gate_result" where
  "gate_currently_experimental e = gate ''status_is_experimental'' (str_or_empty (dget e ''status'') = ''experimental'')"

definition gate_recent_validation :: "gate_env \<Rightarrow> pydict \<Rightarrow> gate_result" where
  "gate_recent_validation G e = gate ''recent_validation''
     (case parse_iso_date (ge_iso_date G) (dget (dict_or_empty (dget e ''metadata'')) ''lastValidatedAt'') of
        None \<Rightarrow> False
      | Some d \<Rightarrow> 0 \<le> ge_today G - d \<and> ge_today G - d \<le> ge_max_age G)"

definition no_workspace_gate :: "string \<Rightarrow> string option \<Rightarrow> gate_result" where
  "no_workspace_gate name err =
    (if given err then gate name False else \<lparr>g_name = name, g_passed = True, g_deferred = True\<rparr>)"

definition rule_kql :: "pydict \<Rightarrow> string option" where
  "rule_kql e = (case asset_of (str_or_empty (dget e ''asset'')) of
     None \<Rightarrow> None
   | Some a \<Rightarrow> kql_body_from_payload a (PDict (dict_or_empty (dget e ''payload''))))"

definition gate_live_test_pass :: "live_env \<Rightarrow> pydict \<Rightarrow> gate_result" where
  "gate_live_test_pass L e =
    (if \<not> given (l_workspace L) \<or> \<not> given (l_token L) then no_workspace_gate ''live_test_pass'' (l_error L)
     else gate ''live_test_pass''
       (case rule_kql e of
          None \<Rightarrow> True
        | Some kql \<Rightarrow> (case l_query L (kql @ [NL] @ ''| count'') of Query_failed \<Rightarrow> False | Query_rows _ \<Rightarrow> True)))"

text \<open>\<open>closed_fp_rate\<close> of \<open>contentops/workspace_kql.py\<close>: the outer option is an exception.\<close>

definition closed_fp_rate :: "pydict \<Rightarrow> rat option option" where
  "closed_fp_rate row =
    (case those (map (\<lambda>c. py_int (dget row c)) [''closed_tp_30d'', ''closed_fp_30d'', ''closed_bp_30d'']) of
       Some [tp, fp, bp] \<Rightarrow> Some (if tp + fp + bp = 0 then None else Some (of_int fp / of_int (tp + fp + bp)))
     | _ \<Rightarrow> None)"

definition gate_fp_rate_threshold :: "gate_env \<Rightarrow> pydict \<Rightarrow> gate_result option" where
  "gate_fp_rate_threshold G e =
    (let L = ge_live G; name = ''fp_rate_threshold'' in
     if \<not> given (l_workspace L) \<or> \<not> given (l_token L) then Some (no_workspace_gate name (l_error L))
     else case l_telemetry L of
       Query_failed \<Rightarrow> Some (gate name False)
     | Query_rows rows \<Rightarrow>
         (case lookup_rule (telemetry_index_of rows) (rule_keys_from_raw e) of
            None \<Rightarrow> None
          | Some None \<Rightarrow> Some (gate name True)
          | Some (Some row) \<Rightarrow>
              Option.bind (py_int (dget row ''incidents_30d'')) (\<lambda>_.
              Option.bind (closed_fp_rate row) (\<lambda>rate.
                Some (gate name (case rate of None \<Rightarrow> True | Some x \<Rightarrow> x \<le> ge_threshold G))))))"

definition check_gates :: "gate_env \<Rightarrow> pydict \<Rightarrow> gate_result list option" where
  "check_gates G e = map_option (\<lambda>fp. [gate_currently_experimental e, gate_recent_validation G e,
     gate_live_test_pass (ge_live G) e, fp]) (gate_fp_rate_threshold G e)"

definition all_passed :: "gate_result list \<Rightarrow> bool" where
  "all_passed gs \<longleftrightarrow> (\<forall>g \<in> set gs. g_passed g \<or> g_deferred g)"

section \<open>Promotion\<close>

record promotion_report =
  pr_id :: string
  pr_path :: "path option"        \<comment> \<open>\<open>None\<close> is the placeholder of a rule that was not found\<close>
  pr_status :: string
  pr_gates :: "gate_result list"
  pr_promoted :: bool

datatype lifecycle_error = No_such_rule | Not_a_mapping | No_top_level_status

record promote_env =
  pm_yload :: "string \<Rightarrow> pyval option"
  pm_gates :: gate_env
  pm_today :: string
  pm_actor :: string
  pm_force :: bool
  pm_dry_run :: bool

definition find_envelope :: "(string \<Rightarrow> pyval option) \<Rightarrow> repo \<Rightarrow> string \<Rightarrow> path option" where
  "find_envelope yload files rule_id = map_option fst (find (\<lambda>(p, text).
     p \<noteq> [] \<and> endswith (last p) ''.yml'' \<and>
     (case yload text of Some (PDict d) \<Rightarrow> dget d ''id'' = PStr rule_id | _ \<Rightarrow> False)) files)"

definition promoted_text :: "promote_env \<Rightarrow> bool \<Rightarrow> string \<Rightarrow> string option" where
  "promoted_text M forced text =
     map_option (stamp_promotion (pm_today M) (pm_actor M) forced) (rewrite_status_to_production text)"

text \<open>The option is an uncaught exception.\<close>

definition promote :: "promote_env \<Rightarrow> string \<Rightarrow> repo \<Rightarrow> ((lifecycle_error + promotion_report) \<times> repo) option" where
  "promote M rule_id files =
    (case find_envelope (pm_yload M) files rule_id of
       None \<Rightarrow> Some (Inl No_such_rule, files)
     | Some p \<Rightarrow>
         (let text = the (map_of files p) in
          case pm_yload M text of
            None \<Rightarrow> None
          | Some (PDict raw) \<Rightarrow>
              (case check_gates (pm_gates M) raw of
                 None \<Rightarrow> None
               | Some gs \<Rightarrow>
                   (let rep = \<lparr>pr_id = rule_id, pr_path = Some p, pr_status = str_or_empty (dget raw ''status''),
                          pr_gates = gs, pr_promoted = False\<rparr>
                    in if \<not> (all_passed gs \<or> pm_force M) \<or> pm_dry_run M then Some (Inr rep, files)
                       else case promoted_text M (pm_force M \<and> \<not> all_passed gs) text of
                         None \<Rightarrow> Some (Inl No_top_level_status, files)
                       | Some new \<Rightarrow>
                           (if new = text then Some (Inr rep, files)
                            else Some (Inr (rep\<lparr>pr_promoted := True\<rparr>), dset p new files))))
          | Some _ \<Rightarrow> Some (Inl Not_a_mapping, files)))"

definition missing_report :: "string \<Rightarrow> promotion_report" where
  "missing_report rule_id = \<lparr>pr_id = rule_id, pr_path = None, pr_status = [],
     pr_gates = [gate ''locate_envelope'' False], pr_promoted = False\<rparr>"

fun promote_many :: "promote_env \<Rightarrow> string list \<Rightarrow> repo \<Rightarrow> (promotion_report list \<times> repo) option" where
  "promote_many M [] files = Some ([], files)"
| "promote_many M (i # is) files =
    (case promote M i files of
       None \<Rightarrow> None
     | Some (r, files) \<Rightarrow> map_option (map_prod ((#) (case r of Inl _ \<Rightarrow> missing_report i | Inr rep \<Rightarrow> rep)) id)
         (promote_many M is files))"

section \<open>The command\<close>

record promote_opts =
  po_rule :: "string option"
  po_rules :: "string option"
  po_cohort :: "string option"
  po_continue :: bool

definition find_yamls_by_cohort ::
  "(string \<Rightarrow> pyval option) \<Rightarrow> (pyval \<Rightarrow> int option) \<Rightarrow> repo \<Rightarrow> string \<Rightarrow> (string \<times> path) list" where
  "find_yamls_by_cohort yload to_int files co = sort_key fst
     (map (\<lambda>la. (env_id (la_envelope la), la_path la))
       (filter (\<lambda>la. case env_metadata (la_envelope la) of None \<Rightarrow> False | Some md \<Rightarrow> cohort md = Some co)
         (fst (iter_loaded_assets yload to_int files))))"

text \<open>\<open>Inl\<close> is the exit code, \<open>Inr\<close> the single rule or the list of a bulk run.\<close>

definition promote_selection ::
  "promote_env \<Rightarrow> (pyval \<Rightarrow> int option) \<Rightarrow> promote_opts \<Rightarrow> repo \<Rightarrow> nat + string + string list" where
  "promote_selection M to_int opt files =
    (if length (filter given [po_rule opt, po_rules opt, po_cohort opt]) \<noteq> 1 then Inl 2
     else case po_rules opt of
       Some csv \<Rightarrow>
         (let is = filter (\<lambda>r. r \<noteq> []) (map strip (split_on (CHR '','') csv))
          in if is = [] then Inl 2 else Inr (Inr is))
     | None \<Rightarrow>
         (case po_cohort opt of
            Some co \<Rightarrow>
              (let ms = find_yamls_by_cohort (pm_yload M) to_int files co
               in if ms = [] then Inl 1 else Inr (Inr (map fst ms)))
          | None \<Rightarrow> Inr (Inl (the (po_rule opt)))))"

text \<open>The exit code, \<open>None\<close> for an uncaught exception, and the files the command leaves.\<close>

definition lifecycle_promote_cmd ::
  "promote_env \<Rightarrow> (pyval \<Rightarrow> int option) \<Rightarrow> promote_opts \<Rightarrow> repo \<Rightarrow> (nat \<times> repo) option" where
  "lifecycle_promote_cmd M to_int opt files =
    (case promote_selection M to_int opt files of
       Inl n \<Rightarrow> Some (n, files)
     | Inr (Inr is) \<Rightarrow> map_option (\<lambda>(reps, files').
         (if (\<exists>r \<in> set reps. \<not> all_passed (pr_gates r)) \<and> \<not> po_continue opt \<and> \<not> pm_force M then 1 else 0, files'))
         (promote_many M is files)
     | Inr (Inl i) \<Rightarrow> map_option (\<lambda>(r, files').
         (case r of Inl _ \<Rightarrow> 1
          | Inr rep \<Rightarrow> (if \<not> pr_promoted rep \<and> \<not> all_passed (pr_gates rep) \<and> \<not> pm_force M then 1 else 0), files'))
         (promote M i files))"

section \<open>Lemmas\<close>

lemma find_envelope_Some:
  assumes "find_envelope yload files i = Some p"
  obtains body d where "(p, body) \<in> set files" and "yload body = Some (PDict d)" and "dget d ''id'' = PStr i"
proof -
  let ?P = "\<lambda>(p, body). p \<noteq> [] \<and> endswith (last p) ''.yml'' \<and>
     (case yload body of Some (PDict d) \<Rightarrow> dget d ''id'' = PStr i | _ \<Rightarrow> False)"
  obtain x where x: "find ?P files = Some x" "fst x = p"
    using assms unfolding find_envelope_def by (auto simp only: map_option_eq_Some)
  obtain xs ys where f: "files = xs @ x # ys" "?P x" using find_Some_split[OF x(1)] by blast
  obtain t where t: "x = (p, t)" using x(2) by (cases x) simp
  with f have "(p, t) \<in> set files" "case yload t of Some (PDict d) \<Rightarrow> dget d ''id'' = PStr i | _ \<Rightarrow> False" by simp_all
  then show thesis using that by (auto split: option.splits pyval.splits)
qed

lemma promote_cases:
  assumes "promote M i files = Some (r, files')"
  obtains (error) e where "r = Inl e" "files' = files"
  | (kept) rep where "r = Inr rep" "files' = files" "pr_id rep = i" "\<not> pr_promoted rep"
  | (written) p body raw gs new rep where "find_envelope (pm_yload M) files i = Some p" "the (map_of files p) = body"
      "pm_yload M body = Some (PDict raw)" "check_gates (pm_gates M) raw = Some gs" "\<not> pm_dry_run M"
      "all_passed gs \<or> pm_force M" "promoted_text M (\<not> all_passed gs) body = Some new" "new \<noteq> body"
      "r = Inr rep" "files' = dset p new files" "pr_id rep = i" "pr_gates rep = gs" "pr_path rep = Some p" "pr_promoted rep"
proof (cases "find_envelope (pm_yload M) files i")
  case None
  then show thesis using assms error by (auto simp: promote_def)
next
  case (Some p)
  note u = promote_def Some option.case Let_def
  show thesis
  proof (cases "pm_yload M (the (map_of files p))")
    case None
    then show thesis using assms by (simp add: u)
  next
    case y: (Some v)
    show thesis
    proof (cases "\<exists>raw. v = PDict raw")
      case False
      then show thesis using assms y error by (cases v) (auto simp: u)
    next
      case True
      then obtain raw where raw: "v = PDict raw" by blast
      obtain gs where gs: "check_gates (pm_gates M) raw = Some gs"
        using assms y raw by (cases "check_gates (pm_gates M) raw") (auto simp: u)
      define rep where "rep = \<lparr>pr_id = i, pr_path = Some p, pr_status = str_or_empty (dget raw ''status''),
        pr_gates = gs, pr_promoted = False\<rparr>"
      show thesis
      proof (cases "\<not> (all_passed gs \<or> pm_force M) \<or> pm_dry_run M")
        case True
        then have "r = Inr rep" "files' = files" using assms y raw gs by (simp_all add: u rep_def)
        then show thesis using kept by (simp add: rep_def)
      next
        case go: False
        then have f: "(pm_force M \<and> \<not> all_passed gs) = (\<not> all_passed gs)" by blast
        have a: "(case promoted_text M (\<not> all_passed gs) (the (map_of files p)) of
            None \<Rightarrow> Some (Inl No_top_level_status, files)
          | Some new \<Rightarrow> if new = the (map_of files p) then Some (Inr rep, files)
              else Some (Inr (rep\<lparr>pr_promoted := True\<rparr>), dset p new files)) = Some (r, files')"
          using assms unfolding u y raw pyval.case gs if_not_P[OF go] f rep_def .
        show thesis
        proof (cases "promoted_text M (\<not> all_passed gs) (the (map_of files p))")
          case None
          then show thesis using a error by auto
        next
          case new: (Some new)
          show thesis
          proof (cases "new = the (map_of files p)")
            case True
            then show thesis using a new kept[of rep] by (auto simp: rep_def)
          next
            case False
            then have "r = Inr (rep\<lparr>pr_promoted := True\<rparr>)" "files' = dset p new files" using a new by auto
            then show thesis using written[OF Some refl y[unfolded raw] gs _ _ new False] go by (simp add: rep_def)
          qed
        qed
      qed
    qed
  qed
qed

lemma all_passed_simps [simp]:
  "all_passed [] \<longleftrightarrow> True" "all_passed (g # gs) \<longleftrightarrow> (g_passed g \<or> g_deferred g) \<and> all_passed gs"
  by (auto simp: all_passed_def)

lemma gate_fields [simp]: "g_passed (gate n ok) = ok" "g_deferred (gate n ok) = False"
  by (simp_all add: gate_def)

lemma gate_inject [simp]: "gate n a = gate m b \<longleftrightarrow> n = m \<and> a = b"
  by (auto simp: gate_def)

lemma no_workspace_ok: "g_passed (no_workspace_gate n err) \<or> g_deferred (no_workspace_gate n err) \<longleftrightarrow> \<not> given err"
  by (simp add: no_workspace_gate_def)

lemma fp_gate_ok:
  assumes "gate_fp_rate_threshold G e = Some g" and "given (l_workspace (ge_live G))" and "given (l_token (ge_live G))"
  shows "g_passed g \<or> g_deferred g \<longleftrightarrow> (case l_telemetry (ge_live G) of
      Query_failed \<Rightarrow> False
    | Query_rows rows \<Rightarrow> (\<forall>row x. lookup_rule (telemetry_index_of rows) (rule_keys_from_raw e) = Some (Some row) \<longrightarrow>
        closed_fp_rate row = Some (Some x) \<longrightarrow> x \<le> ge_threshold G))"
proof (cases "l_telemetry (ge_live G)")
  case Query_failed
  then show ?thesis using assms by (auto simp: gate_fp_rate_threshold_def Let_def)
next
  case (Query_rows rows)
  show ?thesis
  proof (cases "lookup_rule (telemetry_index_of rows) (rule_keys_from_raw e)")
    case None
    then show ?thesis using assms Query_rows by (simp add: gate_fp_rate_threshold_def Let_def)
  next
    case (Some o_row)
    then show ?thesis using assms Query_rows
      by (cases o_row) (auto simp: gate_fp_rate_threshold_def Let_def bind_eq_Some_conv split: option.splits)
  qed
qed

lemma promote_many_Cons: "promote_many M (i # is) files = Some (reps, files') \<longleftrightarrow>
    (\<exists>r files1 reps'. promote M i files = Some (r, files1) \<and> promote_many M is files1 = Some (reps', files') \<and>
       reps = (case r of Inl _ \<Rightarrow> missing_report i | Inr rep \<Rightarrow> rep) # reps')"
  by (auto split: option.splits)

lemma promote_many_dry: "promote_many M is files = Some (reps, files') \<Longrightarrow> pm_dry_run M \<Longrightarrow> files' = files"
proof (induction "is" arbitrary: files reps)
  case (Cons i "is")
  then obtain r files1 reps' where s: "promote M i files = Some (r, files1)" "promote_many M is files1 = Some (reps', files')"
    unfolding promote_many_Cons by blast
  from s(1) Cons.prems(2) have "files1 = files" by (cases rule: promote_cases) auto
  with Cons.IH[OF s(2) Cons.prems(2)] show ?case by simp
qed simp

section \<open>Instances\<close>

definition rule_lines :: "string list" where
  "rule_lines = [''id: r'', ''status: experimental'']"

definition rule_doc :: pydict where
  "rule_doc = [(''id'', PStr ''r''), (''status'', PStr ''experimental''),
     (''metadata'', PDict [(''lastValidatedAt'', PStr ''2026-01-01'')])]"

text \<open>A rule below \<open>templates/\<close>, where the other commands do not look for rules.\<close>

definition rule_repo :: repo where
  "rule_repo = [([''templates'', ''r.yml''], unlines rule_lines)]"

definition rule_env :: "string option \<Rightarrow> bool \<Rightarrow> promote_env" where
  "rule_env err forced = \<lparr>pm_yload = (\<lambda>s. if s = unlines rule_lines then Some (PDict rule_doc) else None),
     pm_gates = \<lparr>ge_today = 20, ge_iso_date = (\<lambda>s. if s = ''2026-01-01'' then Some 1 else None), ge_max_age = 30,
       ge_threshold = 1 / 2,
       ge_live = \<lparr>l_workspace = None, l_token = None, l_error = err, l_query = (\<lambda>_. Query_failed),
         l_telemetry = Query_failed\<rparr>\<rparr>,
     pm_today = ''2026-01-20'', pm_actor = ''me'', pm_force = forced, pm_dry_run = False\<rparr>"

definition rule_gate_results :: "string option \<Rightarrow> gate_result list" where
  "rule_gate_results err = [gate ''status_is_experimental'' True, gate ''recent_validation'' True,
     no_workspace_gate ''live_test_pass'' err, no_workspace_gate ''fp_rate_threshold'' err]"

definition promoted_lines :: "string list" where
  "promoted_lines = [''id: r'', ''status: production'', ''lifecycle:'', ''  promotedAt: 2026-01-20'', ''  promotedBy: me'']"

lemma rule_gates: "check_gates (pm_gates (rule_env err b)) rule_doc = Some (rule_gate_results err)"
proof -
  have "str_or_empty (dget rule_doc ''status'') = ''experimental''"
    "dget (dict_or_empty (dget rule_doc ''metadata'')) ''lastValidatedAt'' = PStr ''2026-01-01''" by code_simp+
  moreover have "parse_iso_date (\<lambda>s. if s = ''2026-01-01'' then Some 1 else None) (PStr ''2026-01-01'') = Some 1" by code_simp
  ultimately show ?thesis
    by (simp add: check_gates_def gate_currently_experimental_def gate_recent_validation_def gate_live_test_pass_def
        gate_fp_rate_threshold_def rule_env_def given_def rule_gate_results_def)
qed

lemma rule_gates_passed: "all_passed (rule_gate_results err) \<longleftrightarrow> \<not> given err"
  using no_workspace_ok by (simp add: rule_gate_results_def)

lemma rule_found: "find_envelope (pm_yload (rule_env err b)) rule_repo ''r'' = Some [''templates'', ''r.yml'']"
proof -
  have "dget rule_doc ''id'' = PStr ''r''" "endswith ''r.yml'' ''.yml''" by code_simp+
  then show ?thesis by (simp add: find_envelope_def rule_env_def rule_repo_def)
qed

lemma rule_missing: "find_envelope (pm_yload (rule_env err b)) rule_repo ''nope'' = None"
proof -
  have "dget rule_doc ''id'' \<noteq> PStr ''nope''" by code_simp
  then show ?thesis by (simp add: find_envelope_def rule_env_def rule_repo_def)
qed

lemma rule_promoted: "promote (rule_env None b) ''r'' rule_repo = Some (Inr \<lparr>pr_id = ''r'',
    pr_path = Some [''templates'', ''r.yml''], pr_status = ''experimental'', pr_gates = rule_gate_results None,
    pr_promoted = True\<rparr>, [([''templates'', ''r.yml''], unlines promoted_lines)])"
proof -
  let ?M = "rule_env None b"
  have f: "all_passed (rule_gate_results None)" by (simp add: rule_gates_passed given_def)
  have y: "pm_yload ?M (unlines rule_lines) = Some (PDict rule_doc)" "\<not> pm_dry_run ?M" by (simp_all add: rule_env_def)
  have m: "the (map_of rule_repo [''templates'', ''r.yml'']) = unlines rule_lines" by (simp add: rule_repo_def)
  have "map_option (stamp_promotion ''2026-01-20'' ''me'' False) (rewrite_status_to_production (unlines rule_lines)) =
      Some (unlines promoted_lines)" by code_simp
  then have t: "promoted_text ?M False (unlines rule_lines) = Some (unlines promoted_lines)"
    by (simp only: promoted_text_def) (simp add: rule_env_def)
  have ne: "unlines promoted_lines \<noteq> unlines rule_lines" and st: "str_or_empty (dget rule_doc ''status'') = ''experimental''"
    by code_simp+
  have "dset [''templates'', ''r.yml''] (unlines promoted_lines) rule_repo = [([''templates'', ''r.yml''], unlines promoted_lines)]"
    by (simp add: rule_repo_def)
  then show ?thesis
    by (simp add: promote_def rule_found Let_def m y rule_gates f t ne st)
qed

section \<open>Properties\<close>

text \<open>
  C20. A file changes only by a gated promotion: when promote changes the files it changes the one it
  found for the id, in a run that is not dry, with every gate passed or \<open>--force\<close>; the new text is the
  old one with the status line rewritten and the stamp, flagged as forced exactly when a gate failed.
\<close>

theorem promote_gated:
  assumes "promote M i files = Some (r, files')" and "files' \<noteq> files" and "distinct (map fst files)"
  shows "\<exists>p body raw gs new. map_of files p = Some body \<and> pm_yload M body = Some (PDict raw) \<and> dget raw ''id'' = PStr i \<and>
    check_gates (pm_gates M) raw = Some gs \<and> \<not> pm_dry_run M \<and> (all_passed gs \<or> pm_force M) \<and>
    find status_line (lines_of body) \<noteq> None \<and>
    new = stamp_promotion (pm_today M) (pm_actor M) (\<not> all_passed gs) (set_status ''production'' body) \<and>
    files' = dset p new files"
  using assms(1)
proof (cases rule: promote_cases)
  case (written p body raw gs new rep)
  obtain t d where t: "(p, t) \<in> set files" "pm_yload M t = Some (PDict d)" "dget d ''id'' = PStr i"
    using written(1) by (rule find_envelope_Some)
  then have m: "map_of files p = Some t" using assms(3) by simp
  with written(2,3) t have "body = t" "raw = d" by auto
  then show ?thesis
    using written m t by (intro exI[of _ p] exI[of _ body] exI[of _ raw] exI[of _ gs] exI[of _ new])
      (auto simp: promoted_text_def rewrite_status_to_production_def split: if_splits)
qed (use assms(2) in simp_all)

theorem promote_gated_witness:
  "\<exists>gs. check_gates (pm_gates (rule_env None False)) rule_doc = Some gs \<and> all_passed gs \<and>
     (\<exists>rep. promote (rule_env None False) ''r'' rule_repo = Some (Inr rep, [([''templates'', ''r.yml''], unlines promoted_lines)]))"
proof -
  have ne: "[([''templates'', ''r.yml''], unlines promoted_lines)] \<noteq> rule_repo" by code_simp
  have di: "distinct (map fst rule_repo)" by (simp add: rule_repo_def)
  obtain p body raw gs where g: "map_of rule_repo p = Some body" "pm_yload (rule_env None False) body = Some (PDict raw)"
      "check_gates (pm_gates (rule_env None False)) raw = Some gs" "all_passed gs \<or> pm_force (rule_env None False)"
    using promote_gated[OF rule_promoted[of False] ne di] by blast
  have "raw = rule_doc" using g(2) by (simp add: rule_env_def split: if_splits)
  moreover have "\<not> pm_force (rule_env None False)" by (simp add: rule_env_def)
  ultimately show ?thesis using g(3,4) rule_promoted by blast
qed


text \<open>
  C21. The gates fail closed: all pass exactly when the status is experimental, the validation date is
  within the window, and either both live checks were answered favourably (the query of a rule that
  has one ran, the telemetry came back, and a defined false-positive rate is within the threshold)
  or there is no workspace and no error that explains why.
\<close>

theorem gates_fail_closed:
  assumes "check_gates G e = Some gs"
  shows "all_passed gs \<longleftrightarrow>
    str_or_empty (dget e ''status'') = ''experimental'' \<and>
    (\<exists>d. parse_iso_date (ge_iso_date G) (dget (dict_or_empty (dget e ''metadata'')) ''lastValidatedAt'') = Some d \<and>
       0 \<le> ge_today G - d \<and> ge_today G - d \<le> ge_max_age G) \<and>
    (if given (l_workspace (ge_live G)) \<and> given (l_token (ge_live G))
     then (\<forall>kql. rule_kql e = Some kql \<longrightarrow> l_query (ge_live G) (kql @ [NL] @ ''| count'') \<noteq> Query_failed) \<and>
       (\<exists>rows. l_telemetry (ge_live G) = Query_rows rows \<and>
         (\<forall>row x. lookup_rule (telemetry_index_of rows) (rule_keys_from_raw e) = Some (Some row) \<longrightarrow>
            closed_fp_rate row = Some (Some x) \<longrightarrow> x \<le> ge_threshold G))
     else \<not> given (l_error (ge_live G)))"
proof -
  obtain fp where fp: "gate_fp_rate_threshold G e = Some fp"
      and gs: "gs = [gate_currently_experimental e, gate_recent_validation G e, gate_live_test_pass (ge_live G) e, fp]"
    using assms by (auto simp: check_gates_def)
  have "all_passed gs \<longleftrightarrow> str_or_empty (dget e ''status'') = ''experimental'' \<and>
      g_passed (gate_recent_validation G e) \<and>
      (g_passed (gate_live_test_pass (ge_live G) e) \<or> g_deferred (gate_live_test_pass (ge_live G) e)) \<and>
      (g_passed fp \<or> g_deferred fp)"
    by (simp add: gs gate_currently_experimental_def gate_recent_validation_def)
  moreover have "g_passed (gate_recent_validation G e) \<longleftrightarrow>
      (\<exists>d. parse_iso_date (ge_iso_date G) (dget (dict_or_empty (dget e ''metadata'')) ''lastValidatedAt'') = Some d \<and>
       0 \<le> ge_today G - d \<and> ge_today G - d \<le> ge_max_age G)"
    by (simp add: gate_recent_validation_def split: option.split)
  moreover have "(g_passed (gate_live_test_pass (ge_live G) e) \<or> g_deferred (gate_live_test_pass (ge_live G) e)) \<and>
      (g_passed fp \<or> g_deferred fp) \<longleftrightarrow>
    (if given (l_workspace (ge_live G)) \<and> given (l_token (ge_live G))
     then (\<forall>kql. rule_kql e = Some kql \<longrightarrow> l_query (ge_live G) (kql @ [NL] @ ''| count'') \<noteq> Query_failed) \<and>
       (\<exists>rows. l_telemetry (ge_live G) = Query_rows rows \<and>
         (\<forall>row x. lookup_rule (telemetry_index_of rows) (rule_keys_from_raw e) = Some (Some row) \<longrightarrow>
            closed_fp_rate row = Some (Some x) \<longrightarrow> x \<le> ge_threshold G))
     else \<not> given (l_error (ge_live G)))"
  proof (cases "given (l_workspace (ge_live G)) \<and> given (l_token (ge_live G))")
    case True
    then show ?thesis
      using fp_gate_ok[OF fp]
      by (simp add: gate_live_test_pass_def split: option.split query_result.split)
  next
    case False
    then have "gate_live_test_pass (ge_live G) e = no_workspace_gate ''live_test_pass'' (l_error (ge_live G))"
      "fp = no_workspace_gate ''fp_rate_threshold'' (l_error (ge_live G))"
      using fp by (auto simp: gate_live_test_pass_def gate_fp_rate_threshold_def Let_def)
    then show ?thesis unfolding if_not_P[OF False] using no_workspace_ok by simp
  qed
  ultimately show ?thesis by simp
qed

theorem gates_fail_closed_witness:
  "\<exists>gs. check_gates (pm_gates (rule_env (Some ''no token'') True)) rule_doc = Some gs \<and> \<not> all_passed gs"
proof -
  have "\<not> given (l_workspace (ge_live (pm_gates (rule_env (Some ''no token'') True))))"
    "given (l_error (ge_live (pm_gates (rule_env (Some ''no token'') True))))"
    by (simp_all add: rule_env_def given_def)
  then have "\<not> all_passed (rule_gate_results (Some ''no token''))"
    using gates_fail_closed[OF rule_gates[of "Some ''no token''" True]] by simp
  then show ?thesis using rule_gates by blast
qed


text \<open>
  A bulk promotion reports every rule: one report per id and in the order given, also for ids
  that cannot be promoted; only gated or forced rules are reported as promoted, and a dry run
  leaves every file alone.
\<close>

theorem promote_many_reports_all:
  assumes "promote_many M is files = Some (reps, files')"
  shows "map pr_id reps = is \<and>
    (\<forall>rep \<in> set reps. pr_promoted rep \<longrightarrow> pr_path rep \<noteq> None \<and> \<not> pm_dry_run M \<and> (all_passed (pr_gates rep) \<or> pm_force M)) \<and>
    (pm_dry_run M \<longrightarrow> files' = files)"
proof (intro conjI impI)
  show "pm_dry_run M \<Longrightarrow> files' = files" using promote_many_dry[OF assms] .
  have "map pr_id reps = is \<and> (\<forall>rep \<in> set reps. pr_promoted rep \<longrightarrow>
      pr_path rep \<noteq> None \<and> \<not> pm_dry_run M \<and> (all_passed (pr_gates rep) \<or> pm_force M))"
    using assms
  proof (induction "is" arbitrary: files reps)
    case (Cons i "is")
    then obtain r files1 reps' where s: "promote M i files = Some (r, files1)" "promote_many M is files1 = Some (reps', files')"
        and reps: "reps = (case r of Inl _ \<Rightarrow> missing_report i | Inr rep \<Rightarrow> rep) # reps'"
      unfolding promote_many_Cons by blast
    from s(1) have "pr_id (hd reps) = i \<and> (pr_promoted (hd reps) \<longrightarrow> pr_path (hd reps) \<noteq> None \<and> \<not> pm_dry_run M \<and>
        (all_passed (pr_gates (hd reps)) \<or> pm_force M))"
      by (cases rule: promote_cases) (auto simp: reps missing_report_def)
    with Cons.IH[OF s(2)] show ?case by (simp add: reps)
  qed simp
  then show "map pr_id reps = is" "\<forall>rep \<in> set reps. pr_promoted rep \<longrightarrow>
      pr_path rep \<noteq> None \<and> \<not> pm_dry_run M \<and> (all_passed (pr_gates rep) \<or> pm_force M)" by auto
qed

theorem promote_many_reports_all_witness:
  "\<exists>reps files'. promote_many (rule_env None False) [''r'', ''nope''] rule_repo = Some (reps, files') \<and>
     map pr_id reps = [''r'', ''nope''] \<and> map pr_promoted reps = [True, False]"
proof -
  let ?M = "rule_env None False" and ?files = "[([''templates'', ''r.yml''], unlines promoted_lines)]"
  have "unlines promoted_lines \<noteq> unlines rule_lines" by code_simp
  then have "promote ?M ''nope'' ?files = Some (Inl No_such_rule, ?files)"
    by (simp add: promote_def find_envelope_def rule_env_def)
  then obtain reps where r: "promote_many ?M [''r'', ''nope''] rule_repo = Some (reps, ?files)"
      "map pr_promoted reps = [True, False]"
    using rule_promoted[of False] by (simp add: missing_report_def)
  show ?thesis
    by (intro exI conjI, rule r(1), rule conjunct1[OF promote_many_reports_all[OF r(1)]], rule r(2))
qed


text \<open>
  A forced bulk promotion never fails: with \<open>--force\<close> the command exits with 0 whatever happens to
  the rules, also when one of them does not exist, where the same rule on its own exits with 1.
\<close>

theorem forced_bulk_exits_zero:
  assumes "promote_selection M to_int opt files = Inr (Inr is)" and "pm_force M"
    and "promote_many M is files = Some (reps, files')"
    and "single = \<lparr>po_rule = Some (c # cs), po_rules = None, po_cohort = None, po_continue = False\<rparr>"
  shows "lifecycle_promote_cmd M to_int opt files = Some (0, files') \<and>
    (find_envelope (pm_yload M) files (c # cs) = None \<longrightarrow> lifecycle_promote_cmd M to_int single files = Some (1, files))"
proof -
  have "promote_selection M to_int single files = Inr (Inl (c # cs))"
    by (simp add: promote_selection_def assms(4) given_def)
  then show ?thesis
    using assms(1-3) by (simp add: lifecycle_promote_cmd_def promote_def)
qed

theorem forced_bulk_exits_zero_witness:
  "lifecycle_promote_cmd (rule_env None True) num_of \<lparr>po_rule = None, po_rules = Some ''nope'', po_cohort = None, po_continue = False\<rparr>
     rule_repo = Some (0, rule_repo) \<and>
   lifecycle_promote_cmd (rule_env None True) num_of \<lparr>po_rule = Some ''nope'', po_rules = None, po_cohort = None, po_continue = False\<rparr>
     rule_repo = Some (1, rule_repo)"
proof -
  let ?M = "rule_env None True" and ?o = "\<lparr>po_rule = None, po_rules = Some ''nope'', po_cohort = None, po_continue = False\<rparr>"
  have "filter (\<lambda>r. r \<noteq> []) (map strip (split_on (CHR '','') ''nope'')) = [''nope'']" by code_simp
  then have s: "promote_selection ?M num_of ?o rule_repo = Inr (Inr [''nope''])"
    by (simp add: promote_selection_def given_def)
  have f: "pm_force ?M" by (simp add: rule_env_def)
  have "promote_many ?M [''nope''] rule_repo = Some ([missing_report ''nope''], rule_repo)"
    by (simp add: promote_def rule_missing)
  from forced_bulk_exits_zero[OF s f this refl] rule_missing show ?thesis by blast
qed

end
