(* ===== verification/Lifecycle_Commands.thy ===== *)
theory Lifecycle_Commands
  imports Lifecycle Results
begin

text \<open>
  The commands disable, enable, lock and unlock, \<open>contentops/cli/commands/lifecycle.py\<close> and
  \<open>lifecycle_support.py\<close>: the selection of the rules, the edits of their files one after the other,
  and the audit records. A command leaves an exit code (\<open>None\<close> is an uncaught exception), the files
  below the detections directory and the audit directory. The clock, the commit, the environment
  variables and the other writers of the audit directory are fields of the environment.
\<close>

section \<open>Shell patterns\<close>

text \<open>
  \<open>fnmatch.fnmatchcase\<close>. The body of a bracket expression is a list of single characters and
  ranges; a hyphen between two characters makes a range. An empty range is dropped, and an
  exclamation mark that is first afterwards negates the rest.
\<close>

fun class_items :: "string \<Rightarrow> (char \<times> char) list" where
  "class_items (a # b # c # cs) =
     (if b = CHR ''-'' then (a, c) # class_items cs else (a, a) # class_items (b # c # cs))"
| "class_items [a, b] = [(a, a), (b, b)]"
| "class_items [a] = [(a, a)]"
| "class_items [] = []"

definition in_items :: "char \<Rightarrow> (char \<times> char) list \<Rightarrow> bool" where
  "in_items c xs \<longleftrightarrow> (\<exists>(a, b) \<in> set xs. code a \<le> code c \<and> code c \<le> code b)"

definition in_class :: "string \<Rightarrow> char \<Rightarrow> bool" where
  "in_class body c =
    (case body of
       CHR ''!'' # rest \<Rightarrow> \<not> in_items c (filter (\<lambda>(a, b). code a \<le> code b) (class_items rest))
     | _ \<Rightarrow>
         (case filter (\<lambda>(a, b). code a \<le> code b) (class_items body) of
            (CHR ''!'', b) # xs \<Rightarrow>
              \<not> in_items c ((if b = CHR ''!'' then [] else [(CHR ''-'', CHR ''-''), (b, b)]) @ xs)
          | xs \<Rightarrow> in_items c xs))"

text \<open>The body up to the closing bracket, which may not be its first character.\<close>

definition split_class :: "string \<Rightarrow> (string \<times> string) option" where
  "split_class p =
    (let n = (case p of CHR ''!'' # CHR '']'' # _ \<Rightarrow> 2 | CHR ''!'' # _ \<Rightarrow> 1 | CHR '']'' # _ \<Rightarrow> 1 | _ \<Rightarrow> 0);
         mid = takeWhile (\<lambda>c. c \<noteq> CHR '']'') (drop n p); rest = dropWhile (\<lambda>c. c \<noteq> CHR '']'') (drop n p)
     in if rest = [] then None else Some (take n p @ mid, tl rest))"

lemma split_class_shorter: "split_class p = Some (b, rest) \<Longrightarrow> length rest < length p"
proof -
  assume a: "split_class p = Some (b, rest)"
  then obtain n where "dropWhile (\<lambda>c. c \<noteq> CHR '']'') (drop n p) \<noteq> []"
      "rest = tl (dropWhile (\<lambda>c. c \<noteq> CHR '']'') (drop n p))"
    by (auto simp: split_class_def Let_def split: if_splits)
  moreover have "length (dropWhile (\<lambda>c. c \<noteq> CHR '']'') (drop n p)) \<le> length p"
    by (rule le_trans[OF length_dropWhile_le]) simp
  ultimately show ?thesis by (cases "dropWhile (\<lambda>c. c \<noteq> CHR '']'') (drop n p)") auto
qed

function glob_match :: "string \<Rightarrow> string \<Rightarrow> bool" where
  "glob_match [] s = (s = [])"
| "glob_match (p # ps) s =
    (if p = CHR ''*'' then glob_match ps s \<or> (case s of [] \<Rightarrow> False | _ # t \<Rightarrow> glob_match (p # ps) t)
     else case s of
       [] \<Rightarrow> False
     | c # t \<Rightarrow>
         (if p = CHR ''?'' then glob_match ps t
          else if p = CHR ''['' then
            (case split_class ps of
               Some (body, rest) \<Rightarrow> in_class body c \<and> glob_match rest t
             | None \<Rightarrow> c = p \<and> glob_match ps t)
          else c = p \<and> glob_match ps t))"
  by pat_completeness auto
termination
  by (relation "measure (\<lambda>(p, s). length p + length s)") (auto dest: split_class_shorter)

section \<open>Selection\<close>

record lc_env =
  lc_yload :: "string \<Rightarrow> pyval option"
  lc_to_int :: "pyval \<Rightarrow> int option"
  lc_root :: string                      \<comment> \<open>the name of the detections directory\<close>
  lc_dq :: "string \<Rightarrow> string"
  lc_today :: string
  lc_promoter :: string
  lc_prov :: provenance
  lc_ws :: "string option"
  lc_now :: "nat \<Rightarrow> string"
  lc_hash :: "string \<Rightarrow> string"
  lc_day :: string
  lc_race :: "audit_files \<Rightarrow> audit_files"

record bulk_opts =
  b_rule :: "string option"
  b_pattern :: "string option"
  b_cohort :: "string option"
  b_yes :: bool
  b_reason :: "string option"

type_synonym rule_file = "string \<times> path"

definition loaded_rules :: "lc_env \<Rightarrow> repo \<Rightarrow> loaded_asset list" where
  "loaded_rules E files = fst (iter_loaded_assets (lc_yload E) (lc_to_int E) files)"

definition find_yaml_for_id :: "lc_env \<Rightarrow> repo \<Rightarrow> string \<Rightarrow> path option" where
  "find_yaml_for_id E files rule_id =
    (case filter (\<lambda>la. env_id (la_envelope la) = rule_id) (loaded_rules E files) of
       [la] \<Rightarrow> Some (la_path la)
     | _ \<Rightarrow> None)"

definition find_yamls_by_pattern :: "lc_env \<Rightarrow> repo \<Rightarrow> string \<Rightarrow> rule_file list" where
  "find_yamls_by_pattern E files pattern = sort_key fst
     (map (\<lambda>la. (env_id (la_envelope la), la_path la))
       (filter (\<lambda>la. glob_match pattern (env_id (la_envelope la))) (loaded_rules E files)))"

text \<open>\<open>_select_one_of\<close>, the look-up and the dry run: \<open>Inl\<close> is the exit code before any edit.\<close>

definition bulk_selection :: "lc_env \<Rightarrow> bulk_opts \<Rightarrow> repo \<Rightarrow> nat + rule_file list" where
  "bulk_selection E opt files =
    (if length (filter given [b_rule opt, b_pattern opt, b_cohort opt]) \<noteq> 1 then Inl 2
     else if given (b_rule opt)
     then (case find_yaml_for_id E files (the (b_rule opt)) of
             None \<Rightarrow> Inl 1 | Some p \<Rightarrow> Inr [(the (b_rule opt), p)])
     else
       (let ms = (if given (b_pattern opt) then find_yamls_by_pattern E files (the (b_pattern opt))
                  else find_yamls_by_cohort (lc_yload E) (lc_to_int E) files (the (b_cohort opt)))
        in if ms = [] then Inl 1 else if \<not> b_yes opt then Inl 0 else Inr ms))"

section \<open>The edits\<close>

text \<open>The files that changed, the files left behind, and whether every match was edited.\<close>

fun edit_all :: "(string \<Rightarrow> edit) \<Rightarrow> rule_file list \<Rightarrow> repo \<Rightarrow> rule_file list \<times> repo \<times> bool" where
  "edit_all f [] files = ([], files, True)"
| "edit_all f ((i, p) # ms) files =
    (case f (the (map_of files p)) of
       No_status_line \<Rightarrow> ([], files, False)
     | Unchanged \<Rightarrow> edit_all f ms files
     | Changed t \<Rightarrow> (case edit_all f ms (dset p t files) of (cs, r) \<Rightarrow> ((i, p) # cs, r)))"

section \<open>Audit and commands\<close>

definition parent_name :: "lc_env \<Rightarrow> path \<Rightarrow> string" where
  "parent_name E p = (if butlast p = [] then lc_root E else last (butlast p))"

definition build_lifecycle_audit_record ::
  "lc_env \<Rightarrow> string \<Rightarrow> string option \<Rightarrow> nat \<times> rule_file \<Rightarrow> audit_record" where
  "build_lifecycle_audit_record E act msg = (\<lambda>(n, i, p).
     \<lparr>timestamp = lc_now E n, asset = parent_name E p, rec_id = i, action = act, status = ''ok'',
      sha = p_sha (lc_prov E), actor = p_actor (lc_prov E), workflow_run = p_run (lc_prov E), message = msg,
      metadata_owner = None, workspace = lc_ws E, snippet_digest = None, prev_hash = [], record_hash = []\<rparr>)"

definition lifecycle_batch :: "lc_env \<Rightarrow> string \<Rightarrow> string option \<Rightarrow> rule_file list \<Rightarrow> audit_record list" where
  "lifecycle_batch E act msg items = map (build_lifecycle_audit_record E act msg) (enumerate 0 items)"

record lc_final =
  lf_exit :: "nat option"
  lf_files :: repo
  lf_audit :: audit_dir

definition write_lifecycle_audit_batch ::
  "lc_env \<Rightarrow> string \<Rightarrow> string option \<Rightarrow> rule_file list \<Rightarrow> repo \<Rightarrow> audit_dir \<Rightarrow> lc_final" where
  "write_lifecycle_audit_batch E act msg items files d =
    (if items = [] then \<lparr>lf_exit = Some 0, lf_files = files, lf_audit = d\<rparr>
     else case write_records (lc_hash E) (lc_day E) (lc_race E) (lifecycle_batch E act msg items) d of
       (Inl _, d') \<Rightarrow> \<lparr>lf_exit = None, lf_files = files, lf_audit = d'\<rparr>
     | (Inr _, d') \<Rightarrow> \<lparr>lf_exit = Some 0, lf_files = files, lf_audit = d'\<rparr>)"

text \<open>A rule without a status line is a \<open>ClickException\<close>: it ends the command before the audit.\<close>

definition edit_and_audit ::
  "lc_env \<Rightarrow> (string \<Rightarrow> edit) \<Rightarrow> string \<Rightarrow> string option \<Rightarrow> rule_file list \<Rightarrow> repo \<Rightarrow> audit_dir \<Rightarrow> lc_final" where
  "edit_and_audit E f act msg ms files d =
    (case edit_all f ms files of
       (_, files', False) \<Rightarrow> \<lparr>lf_exit = Some 1, lf_files = files', lf_audit = d\<rparr>
     | (cs, files', True) \<Rightarrow> write_lifecycle_audit_batch E act msg cs files' d)"

definition disable_cmd :: "lc_env \<Rightarrow> bulk_opts \<Rightarrow> repo \<Rightarrow> audit_dir \<Rightarrow> lc_final" where
  "disable_cmd E opt files d =
    (case bulk_selection E opt files of
       Inl n \<Rightarrow> \<lparr>lf_exit = Some n, lf_files = files, lf_audit = d\<rparr>
     | Inr ms \<Rightarrow> edit_and_audit E (disable_one (lc_dq E) (lc_today E) (b_reason opt)) ''disable'' (b_reason opt)
         ms files d)"

definition ENABLE_TARGETS :: "string list" where
  "ENABLE_TARGETS = [''experimental'', ''production'', ''test'']"

definition enable_cmd :: "lc_env \<Rightarrow> string \<Rightarrow> bulk_opts \<Rightarrow> repo \<Rightarrow> audit_dir \<Rightarrow> lc_final" where
  "enable_cmd E to_status opt files d =
    (if to_status \<notin> set ENABLE_TARGETS then \<lparr>lf_exit = Some 2, lf_files = files, lf_audit = d\<rparr>
     else case bulk_selection E opt files of
       Inl n \<Rightarrow> \<lparr>lf_exit = Some n, lf_files = files, lf_audit = d\<rparr>
     | Inr ms \<Rightarrow> edit_and_audit E (enable_one to_status (lc_today E) (lc_promoter E) (b_reason opt)) ''enable''
         (Some (''enable to '' @ to_status @ (if to_status = ''production'' then '' (forced promotion)'' else [])))
         ms files d)"

definition lock_cmd :: "lc_env \<Rightarrow> string \<Rightarrow> repo \<Rightarrow> audit_dir \<Rightarrow> lc_final" where
  "lock_cmd E rule_id files d =
    (case find_yaml_for_id E files rule_id of
       None \<Rightarrow> \<lparr>lf_exit = Some 1, lf_files = files, lf_audit = d\<rparr>
     | Some p \<Rightarrow> edit_and_audit E lock_text ''lock'' None [(rule_id, p)] files d)"

definition unlock_cmd :: "lc_env \<Rightarrow> string \<Rightarrow> repo \<Rightarrow> audit_dir \<Rightarrow> lc_final" where
  "unlock_cmd E rule_id files d =
    (case find_yaml_for_id E files rule_id of
       None \<Rightarrow> \<lparr>lf_exit = Some 1, lf_files = files, lf_audit = d\<rparr>
     | Some p \<Rightarrow> edit_and_audit E unlock_text ''unlock'' None [(rule_id, p)] files d)"

section \<open>Lemmas\<close>

abbreviation outcome_of :: "(string \<Rightarrow> edit) \<Rightarrow> repo \<Rightarrow> rule_file \<Rightarrow> edit" where
  "outcome_of f files m \<equiv> f (the (map_of files (snd m)))"

definition edited :: "(string \<Rightarrow> edit) \<Rightarrow> repo \<Rightarrow> rule_file \<Rightarrow> bool" where
  "edited f files m \<longleftrightarrow> (case outcome_of f files m of Changed _ \<Rightarrow> True | _ \<Rightarrow> False)"

definition reached :: "(string \<Rightarrow> edit) \<Rightarrow> repo \<Rightarrow> rule_file list \<Rightarrow> rule_file list" where
  "reached f files ms = takeWhile (\<lambda>m. outcome_of f files m \<noteq> No_status_line) ms"

lemma outcome_of_other: "q \<noteq> p \<Longrightarrow> outcome_of f (dset p t files) (i, q) = outcome_of f files (i, q)"
  by simp

lemma reached_other: "p \<notin> snd ` set ms \<Longrightarrow> reached f (dset p t files) ms = reached f files ms"
  unfolding reached_def by (rule takeWhile_cong) auto

lemma edited_other: "snd m \<noteq> p \<Longrightarrow> edited f (dset p t files) m = edited f files m"
  by (simp add: edited_def)

lemma set_reached: "m \<in> set (reached f files ms) \<Longrightarrow> m \<in> set ms"
  unfolding reached_def by (rule set_takeWhileD[THEN conjunct1])

lemma edit_all_spec:
  assumes "distinct (map snd ms)" and "edit_all f ms files = (cs, files', ok)"
  shows "cs = filter (edited f files) (reached f files ms) \<and>
    (ok \<longleftrightarrow> (\<forall>m \<in> set ms. outcome_of f files m \<noteq> No_status_line)) \<and>
    map_of files' = (\<lambda>p. if \<exists>m \<in> set cs. snd m = p
      then (case f (the (map_of files p)) of Changed t \<Rightarrow> Some t | _ \<Rightarrow> None) else map_of files p)"
  using assms
proof (induction ms arbitrary: files cs)
  case Nil
  then show ?case by (simp add: reached_def)
next
  case (Cons m ms)
  obtain i p where m: "m = (i, p)" by (cases m)
  show ?case
  proof (cases "f (the (map_of files p))")
    case (Changed t)
    then obtain cs' where r: "edit_all f ms (dset p t files) = (cs', files', ok)" "cs = (i, p) # cs'"
      using Cons.prems(2) by (auto simp: m split: prod.splits)
    have p: "p \<notin> snd ` set ms" using Cons.prems(1) by (auto simp: m)
    have d: "distinct (map snd ms)" using Cons.prems(1) by simp
    note IH = Cons.IH[OF d r(1)]
    have "filter (edited f (dset p t files)) (reached f files ms) = filter (edited f files) (reached f files ms)"
    proof (intro filter_cong refl)
      fix m assume "m \<in> set (reached f files ms)"
      then have "snd m \<noteq> p" using p set_reached by blast
      then show "edited f (dset p t files) m = edited f files m" by (rule edited_other)
    qed
    then have cs': "cs' = filter (edited f files) (reached f files ms)"
      using IH p by (simp add: reached_other)
    have np: "\<forall>x \<in> set cs'. snd x \<noteq> p"
    proof
      fix x assume "x \<in> set cs'"
      then have "x \<in> set (reached f files ms)" unfolding cs' by simp
      then have "x \<in> set ms" by (rule set_reached)
      then show "snd x \<noteq> p" using p by (metis imageI)
    qed
    have "\<forall>m \<in> set ms. outcome_of f (dset p t files) m = outcome_of f files m" using p by (auto simp: image_iff)
    then have ok: "ok \<longleftrightarrow> (\<forall>m \<in> set ms. outcome_of f files m \<noteq> No_status_line)"
      using IH by simp
    have "map_of files' = (\<lambda>q. if \<exists>m \<in> set cs'. snd m = q
      then (case f (the (((map_of files)(p \<mapsto> t)) q)) of Changed t \<Rightarrow> Some t | _ \<Rightarrow> None) else ((map_of files)(p \<mapsto> t)) q)"
      using IH unfolding map_of_dset by blast
    then have "map_of files' = (\<lambda>q. if \<exists>m \<in> set cs. snd m = q
      then (case f (the (map_of files q)) of Changed t \<Rightarrow> Some t | _ \<Rightarrow> None) else map_of files q)"
      using np Changed by (auto simp: r(2) fun_eq_iff)
    moreover have "edited f files (i, p)" using Changed by (simp add: edited_def)
    then have "cs = filter (edited f files) (reached f files (m # ms))"
      using cs' Changed by (simp add: m r(2) reached_def)
    ultimately show ?thesis using ok Changed by (simp add: m)
  next
    case Unchanged
    then have "\<not> edited f files (i, p)" by (simp add: edited_def)
    then show ?thesis using Cons.IH[of files cs] Cons.prems Unchanged by (simp add: m reached_def)
  next
    case No_status_line
    then show ?thesis using Cons.prems by (simp add: m reached_def)
  qed
qed

text \<open>What selects a rule.\<close>

definition selects :: "bulk_opts \<Rightarrow> loaded_asset \<Rightarrow> bool" where
  "selects opt la \<longleftrightarrow>
    (if given (b_rule opt) then env_id (la_envelope la) = the (b_rule opt)
     else b_yes opt \<and>
       (if given (b_pattern opt) then glob_match (the (b_pattern opt)) (env_id (la_envelope la))
        else case env_metadata (la_envelope la) of None \<Rightarrow> False | Some md \<Rightarrow> cohort md = Some (the (b_cohort opt))))"

lemma loaded_rules_paths:
  assumes "distinct (map fst files)"
  shows "distinct (map la_path (loaded_rules E files))"
proof -
  let ?ld = "\<lambda>p. load_asset (lc_yload E) (lc_to_int E) files p"
  have "map la_path (concat (map (\<lambda>(p, r). case r of Inr l \<Rightarrow> [l] | Inl _ \<Rightarrow> []) (map (\<lambda>p. (p, ?ld p)) ps))) =
      filter (\<lambda>p. \<not> isl (?ld p)) ps" for ps
    by (induction ps) (auto dest: load_asset_path split: sum.splits)
  then have "map la_path (loaded_rules E files) = filter (\<lambda>p. \<not> isl (?ld p)) (discover_assets files)"
    by (simp add: loaded_rules_def iter_loaded_assets_def Let_def)
  then show ?thesis using assms by (simp add: discover_assets_def distinct_map_filter)
qed

lemma loaded_rules_file: "la \<in> set (loaded_rules E files) \<Longrightarrow> map_of files (la_path la) \<noteq> None"
  using iter_loaded_assets_sound unfolding loaded_rules_def by (fastforce simp: load_asset_def split: option.splits)

lemma selected_paths_distinct:
  "distinct (map la_path las) \<Longrightarrow> distinct (map snd (sort_key fst (map (\<lambda>la. (g la, la_path la)) (filter P las))))"
  by (simp add: comp_def distinct_map_filter)

lemma bulk_selection_sound:
  assumes "bulk_selection E opt files = Inr ms" and "distinct (map fst files)"
  shows "distinct (map snd ms) \<and>
    (\<forall>(i, p) \<in> set ms. \<exists>la \<in> set (loaded_rules E files). la_path la = p \<and> env_id (la_envelope la) = i \<and> selects opt la)"
proof (cases "given (b_rule opt)")
  case True
  let ?las = "filter (\<lambda>la. env_id (la_envelope la) = the (b_rule opt)) (loaded_rules E files)"
  obtain p where p: "find_yaml_for_id E files (the (b_rule opt)) = Some p" "ms = [(the (b_rule opt), p)]"
    using assms(1) True by (auto simp: bulk_selection_def split: if_splits option.splits)
  then obtain la where la: "?las = [la]" "p = la_path la"
    by (auto simp: find_yaml_for_id_def split: list.splits)
  have "la \<in> set ?las" unfolding la(1) by simp
  then show ?thesis using True by (auto simp: p la(2) selects_def)
next
  case False
  let ?P = "\<lambda>la. if given (b_pattern opt) then glob_match (the (b_pattern opt)) (env_id (la_envelope la))
    else case env_metadata (la_envelope la) of None \<Rightarrow> False | Some md \<Rightarrow> cohort md = Some (the (b_cohort opt))"
  have ms: "ms = sort_key fst (map (\<lambda>la. (env_id (la_envelope la), la_path la)) (filter ?P (loaded_rules E files)))"
      and yes: "b_yes opt"
    using assms(1) False
    by (auto simp: bulk_selection_def find_yamls_by_pattern_def find_yamls_by_cohort_def loaded_rules_def Let_def
        split: if_splits)
  show ?thesis
    unfolding ms using selected_paths_distinct[OF loaded_rules_paths[OF assms(2)]] yes False
    by (auto simp: selects_def)
qed

lemma edit_and_audit_files:
  assumes "distinct (map snd ms)"
  shows "map_of (lf_files (edit_and_audit E f act msg ms files d)) p =
    (if \<exists>m \<in> set (reached f files ms). snd m = p \<and> edited f files m
     then (case f (the (map_of files p)) of Changed t \<Rightarrow> Some t | _ \<Rightarrow> None) else map_of files p)"
proof -
  obtain cs files' ok where r: "edit_all f ms files = (cs, files', ok)" by (cases "edit_all f ms files") auto
  have "lf_files (edit_and_audit E f act msg ms files d) = files'"
    by (simp add: edit_and_audit_def r write_lifecycle_audit_batch_def split: bool.split sum.split prod.split)
  then show ?thesis using edit_all_spec[OF assms r] by (auto simp: fun_eq_iff)
qed

lemma edit_and_audit_result:
  assumes "distinct (map snd ms)"
  shows "edit_and_audit E f act msg ms files d =
    (let files' = lf_files (edit_and_audit E f act msg ms files d) in
     if \<exists>m \<in> set ms. outcome_of f files m = No_status_line then \<lparr>lf_exit = Some 1, lf_files = files', lf_audit = d\<rparr>
     else write_lifecycle_audit_batch E act msg (filter (edited f files) ms) files' d)"
proof -
  obtain cs files' ok where r: "edit_all f ms files = (cs, files', ok)" by (cases "edit_all f ms files") auto
  have f: "lf_files (edit_and_audit E f act msg ms files d) = files'"
    by (simp add: edit_and_audit_def r write_lifecycle_audit_batch_def split: bool.split sum.split prod.split)
  have cs: "cs = filter (edited f files) (reached f files ms)"
      and ok: "ok \<longleftrightarrow> (\<forall>m \<in> set ms. outcome_of f files m \<noteq> No_status_line)"
    using edit_all_spec[OF assms r] by blast+
  show ?thesis
  proof (cases ok)
    case True
    then have all: "\<not> (\<exists>m \<in> set ms. outcome_of f files m = No_status_line)" using ok by blast
    then have "reached f files ms = ms" unfolding reached_def takeWhile_eq_all_conv by blast
    then have "cs = filter (edited f files) ms" unfolding cs by (rule arg_cong)
    with True show ?thesis unfolding f Let_def if_not_P[OF all] by (simp add: edit_and_audit_def r)
  next
    case False
    then have bad: "\<exists>m \<in> set ms. outcome_of f files m = No_status_line" using ok by blast
    from False show ?thesis unfolding f Let_def if_P[OF bad] by (simp add: edit_and_audit_def r)
  qed
qed

lemma lifecycle_batch_trail:
  assumes "audit_run (lc_hash E) day n d" and "day \<le> lc_day E" and "length (lc_day E) = 10"
    and "\<forall>i. canonical_ts (lc_now E i)" and "lc_race E = id"
    and "out = write_lifecycle_audit_batch E act msg items files d"
  shows "if lf_exit out = Some 0 \<and> items \<noteq> [] then audit_run (lc_hash E) (lc_day E) (n + length items) (lf_audit out)
    else audit_run (lc_hash E) day n (lf_audit out) \<and> (lf_exit out = None \<or> items = [])"
proof (cases "items = []")
  case True
  then show ?thesis using assms(1) by (simp add: assms(6) write_lifecycle_audit_batch_def)
next
  case False
  have ts: "\<forall>r \<in> set (lifecycle_batch E act msg items). canonical_ts (timestamp r)"
    using assms(4) by (simp add: lifecycle_batch_def build_lifecycle_audit_record_def split: prod.split)
  have len: "length (lifecycle_batch E act msg items) = length items" by (simp add: lifecycle_batch_def)
  obtain y d' where wr: "write_records (lc_hash E) (lc_day E) id (lifecycle_batch E act msg items) d = (y, d')"
    by (rule prod.exhaust)
  have out: "out = \<lparr>lf_exit = (if isl y then None else Some 0), lf_files = files, lf_audit = d'\<rparr>"
    using False wr by (simp add: assms(5,6) write_lifecycle_audit_batch_def split: sum.split)
  show ?thesis
  proof (cases y)
    case (Inl e)
    have "audit_run (lc_hash E) day n d'" by (rule audit_run.write_fails[OF assms(1) wr[unfolded Inl]])
    then show ?thesis by (simp add: out Inl)
  next
    case (Inr q)
    have "audit_run (lc_hash E) (lc_day E) (n + length items) d'"
      using audit_run.append[OF assms(1-3) ts wr[unfolded Inr]] by (simp only: len)
    then show ?thesis using False by (simp add: out Inr)
  qed
qed

section \<open>Instances\<close>

text \<open>Two deployed rules; the status line of the second carries a comment.\<close>

definition plain_rule :: string where
  "plain_rule = unlines [''id: aa'', ''status: production'']"

definition pinned_rule :: string where
  "pinned_rule = unlines [''id: bb'', ''status: production # pinned'']"

definition rule_of :: "string \<Rightarrow> pyval" where
  "rule_of i = PDict [(''id'', PStr i), (''version'', PStr ''1.0.0''), (''asset'', PStr ''sentinel_hunting''),
     (''status'', PStr ''production''), (''metadata'', PDict [(''arm_name'', PStr ''g'')]), (''payload'', PDict [])]"

definition two_rules :: repo where
  "two_rules = [([''hunting'', ''a.yml''], plain_rule), ([''hunting'', ''b.yml''], pinned_rule)]"

definition lc_demo :: lc_env where
  "lc_demo = \<lparr>lc_yload = (\<lambda>s. if s = plain_rule then Some (rule_of ''aa'') else if s = pinned_rule then Some (rule_of ''bb'') else None),
     lc_to_int = num_of, lc_root = ''detections'', lc_dq = (\<lambda>s. [CHR 0x22] @ s @ [CHR 0x22]), lc_today = ''2026-01-02'',
     lc_promoter = ''me'', lc_prov = \<lparr>p_sha = ''abc'', p_actor = ''ci'', p_run = None\<rparr>, lc_ws = None,
     lc_now = (\<lambda>_. timestamp demo_record), lc_hash = demo_hash, lc_day = ''2026-01-02'', lc_race = id\<rparr>"

definition disable_every :: bulk_opts where
  "disable_every = \<lparr>b_rule = None, b_pattern = Some ''*'', b_cohort = None, b_yes = True, b_reason = None\<rparr>"

definition disable_a :: bulk_opts where
  "disable_a = \<lparr>b_rule = Some ''aa'', b_pattern = None, b_cohort = None, b_yes = False, b_reason = None\<rparr>"

definition disabled_a :: string where
  "disabled_a = unlines [''id: aa'', ''status: deprecated'', ''# disabled by contentops disable on 2026-01-02'']"

lemma demo_selection:
  "bulk_selection lc_demo disable_every two_rules = Inr [(''aa'', [''hunting'', ''a.yml'']), (''bb'', [''hunting'', ''b.yml''])]"
  "bulk_selection lc_demo disable_a two_rules = Inr [(''aa'', [''hunting'', ''a.yml''])]"
  by code_simp+

lemma demo_edits:
  "disable_one (lc_dq lc_demo) (lc_today lc_demo) None plain_rule = Changed disabled_a"
  "disable_one (lc_dq lc_demo) (lc_today lc_demo) None pinned_rule = No_status_line"
  by code_simp+

lemma demo_files: "map_of two_rules [''hunting'', ''a.yml''] = Some plain_rule"
  "map_of two_rules [''hunting'', ''b.yml''] = Some pinned_rule" "distinct (map fst two_rules)"
  by (simp_all add: two_rules_def)

lemma reason_a [simp]: "b_reason disable_a = None"
  by (simp add: disable_a_def)

section \<open>Properties\<close>

text \<open>
  Disable reaches only what it was asked for: a file that is different afterwards is that of a
  loaded rule which the id, or with \<open>--yes\<close> the pattern or the cohort, selects, and its new text is the
  old one with the status line and the marker of disable.
\<close>

theorem disable_only_selected:
  assumes "distinct (map fst files)" and "out = disable_cmd E opt files d"
    and "map_of (lf_files out) p \<noteq> map_of files p"
  shows "\<exists>la body new. la \<in> set (loaded_rules E files) \<and> la_path la = p \<and> selects opt la \<and> map_of files p = Some body \<and>
    disable_one (lc_dq E) (lc_today E) (b_reason opt) body = Changed new \<and> map_of (lf_files out) p = Some new"
proof -
  let ?f = "disable_one (lc_dq E) (lc_today E) (b_reason opt)"
  obtain ms where sel: "bulk_selection E opt files = Inr ms"
    using assms(2,3) by (cases "bulk_selection E opt files") (auto simp: disable_cmd_def)
  note s = bulk_selection_sound[OF sel assms(1)]
  have "map_of (lf_files out) p = (if \<exists>m \<in> set (reached ?f files ms). snd m = p \<and> edited ?f files m
     then (case ?f (the (map_of files p)) of Changed t \<Rightarrow> Some t | _ \<Rightarrow> None) else map_of files p)"
    unfolding assms(2) disable_cmd_def sel sum.case by (rule edit_and_audit_files) (use s in blast)
  with assms(3) obtain m where m: "m \<in> set (reached ?f files ms)" "snd m = p" "edited ?f files m"
      and new: "map_of (lf_files out) p = (case ?f (the (map_of files p)) of Changed t \<Rightarrow> Some t | _ \<Rightarrow> None)"
    by (metis (no_types, lifting))
  obtain la where la: "la \<in> set (loaded_rules E files)" "la_path la = p" "selects opt la"
    using s set_reached[OF m(1)] m(2) by (cases m) auto
  obtain body where "map_of files p = Some body"
    using loaded_rules_file[OF la(1)] la(2) by auto
  then show ?thesis using la m(2,3) new by (auto simp: edited_def split: edit.splits)
qed

theorem disable_only_selected_witness:
  "\<exists>body new. map_of two_rules [''hunting'', ''a.yml''] = Some body \<and>
     disable_one (lc_dq lc_demo) (lc_today lc_demo) None body = Changed new \<and>
     map_of (lf_files (disable_cmd lc_demo disable_a two_rules None)) [''hunting'', ''a.yml''] = Some new"
proof -
  have "map_of (lf_files (disable_cmd lc_demo disable_a two_rules None)) [''hunting'', ''a.yml''] = Some disabled_a"
    by (simp add: disable_cmd_def demo_selection demo_edits demo_files reached_def edited_def
        edit_and_audit_files[of "[(''aa'', [''hunting'', ''a.yml''])]"] reason_a)
  moreover have "disabled_a \<noteq> plain_rule" by code_simp
  ultimately have "map_of (lf_files (disable_cmd lc_demo disable_a two_rules None)) [''hunting'', ''a.yml''] \<noteq>
      map_of two_rules [''hunting'', ''a.yml'']" by (simp add: demo_files)
  from disable_only_selected[OF demo_files(3) refl this] show ?thesis by (auto simp: disable_a_def)
qed

text \<open>
  The trail of a disable: without other writers, when each selected rule has a status line and the
  command ends normally, the trail grows by one record for each rule that was not yet deprecated.
  When one has none, the command exits with 1 and records nothing, although the rules selected before
  that one are disabled.
\<close>

theorem disable_trail:
  assumes "audit_run (lc_hash E) day n d" and "day \<le> lc_day E" and "length (lc_day E) = 10"
    and "\<forall>i. canonical_ts (lc_now E i)" and "lc_race E = id" and "distinct (map fst files)"
    and "bulk_selection E opt files = Inr ms" and "f = disable_one (lc_dq E) (lc_today E) (b_reason opt)"
    and "out = disable_cmd E opt files d"
  shows "if \<exists>m \<in> set ms. outcome_of f files m = No_status_line
    then lf_exit out = Some 1 \<and> lf_audit out = d \<and>
      (\<forall>m \<in> set (reached f files ms). \<forall>t. outcome_of f files m = Changed t \<longrightarrow> map_of (lf_files out) (snd m) = Some t)
    else lf_exit out = Some 0 \<longrightarrow> (\<exists>day'. audit_run (lc_hash E) day' (n + length (filter (edited f files) ms)) (lf_audit out))"
proof -
  have dist: "distinct (map snd ms)" using bulk_selection_sound[OF assms(7,6)] by blast
  have out: "out = edit_and_audit E f ''disable'' (b_reason opt) ms files d"
    by (simp add: assms(7-9) disable_cmd_def)
  note files = edit_and_audit_files[OF dist, of E f "''disable''" "b_reason opt" files d, folded out]
  note res = edit_and_audit_result[OF dist, of E f "''disable''" "b_reason opt" files d, folded out, unfolded Let_def]
  show ?thesis
  proof (cases "\<exists>m \<in> set ms. outcome_of f files m = No_status_line")
    case True
    have "\<forall>m \<in> set (reached f files ms). \<forall>t. outcome_of f files m = Changed t \<longrightarrow> map_of (lf_files out) (snd m) = Some t"
      by (auto simp: files edited_def split: edit.splits)
    moreover have "lf_exit out = Some 1" "lf_audit out = d" by (subst res, simp only: if_P[OF True] lc_final.simps)+
    ultimately show ?thesis unfolding if_P[OF True] by blast
  next
    case False
    have "out = write_lifecycle_audit_batch E ''disable'' (b_reason opt) (filter (edited f files) ms) (lf_files out) d"
      using res unfolding if_not_P[OF False] .
    note trail = lifecycle_batch_trail[OF assms(1-5) this]
    show ?thesis
      unfolding if_not_P[OF False] using trail by (auto split: if_splits)
  qed
qed

theorem disable_trail_witness:
  "lf_exit (disable_cmd lc_demo disable_every two_rules None) = Some 1 \<and>
   lf_audit (disable_cmd lc_demo disable_every two_rules None) = None \<and>
   map_of (lf_files (disable_cmd lc_demo disable_every two_rules None)) [''hunting'', ''a.yml''] = Some disabled_a"
proof -
  have h: "audit_run (lc_hash lc_demo) [] 0 None" "[] \<le> lc_day lc_demo" "length (lc_day lc_demo) = 10"
      "\<forall>i. canonical_ts (lc_now lc_demo i)" "lc_race lc_demo = id"
    using audit_run.start demo_canonical by (simp_all add: lc_demo_def)
  have r: "b_reason disable_every = None" by (simp add: disable_every_def)
  note t = disable_trail[OF h demo_files(3) demo_selection(1) refl refl, unfolded r]
  let ?f = "disable_one (lc_dq lc_demo) (lc_today lc_demo) None"
  have "\<exists>m \<in> set [(''aa'', [''hunting'', ''a.yml'']), (''bb'', [''hunting'', ''b.yml''])]. outcome_of ?f two_rules m = No_status_line"
    by (simp add: demo_files demo_edits)
  moreover have "(''aa'', [''hunting'', ''a.yml'']) \<in> set (reached ?f two_rules [(''aa'', [''hunting'', ''a.yml'']), (''bb'', [''hunting'', ''b.yml''])])"
    "outcome_of ?f two_rules (''aa'', [''hunting'', ''a.yml'']) = Changed disabled_a"
    by (simp_all add: reached_def demo_files demo_edits)
  ultimately show ?thesis using t by (metis (no_types, lifting) snd_conv)
qed

end
