(* ===== verification/Retry.thy ===== *)
theory Retry
  imports Apply Lifecycle
begin

text \<open>
  The command retry-failed, \<open>contentops/cli/commands/lifecycle.py\<close>, and the audit filters it uses,
  \<open>contentops/audit_filter.py\<close>. An instant is the number of microseconds since the first instant
  Python's \<open>datetime\<close> can hold; \<open>iso_at\<close> is the instant that \<open>datetime.fromisoformat\<close> reads, taken as UTC
  when it names no zone, and \<open>None\<close> for its \<open>ValueError\<close>. The directory that is read (\<open>--audit-dir\<close>) and
  the one the new records are appended to are separate arguments, as they are in the code.
\<close>

section \<open>Filters\<close>

datatype since = Since_bad | Since_overflow | Since_at int

definition duration_unit :: "char \<Rightarrow> int option" where
  "duration_unit c = (if c = CHR ''s'' then Some 1 else if c = CHR ''m'' then Some 60
     else if c = CHR ''h'' then Some 3600 else if c = CHR ''d'' then Some 86400 else None)"

definition parse_duration :: "string \<Rightarrow> int option" where
  "parse_duration s =
    (if length s < 2 \<or> \<not> (\<forall>c \<in> set (butlast s). is_digit c) then None
     else map_option (\<lambda>u. int (digits_val (butlast s)) * u * 1000000) (duration_unit (last s)))"

definition utc_offset :: "string \<Rightarrow> string" where
  "utc_offset s = (if endswith s ''Z'' then concat (map (\<lambda>c. if c = CHR ''Z'' then ''+00:00'' else [c]) s) else s)"

definition parse_since :: "(string \<Rightarrow> int option) \<Rightarrow> int \<Rightarrow> string \<Rightarrow> since" where
  "parse_since iso_at now v =
    (if v = [] then Since_bad
     else case parse_duration (strip v) of
       Some d \<Rightarrow> (if now - d < 0 then Since_overflow else Since_at (now - d))
     | None \<Rightarrow> (case iso_at (utc_offset (strip v)) of None \<Rightarrow> Since_bad | Some t \<Rightarrow> Since_at t))"

definition parse_record_timestamp :: "(string \<Rightarrow> int option) \<Rightarrow> pydict \<Rightarrow> int option" where
  "parse_record_timestamp iso_at rec = (case dget rec ''timestamp'' of
     PStr s \<Rightarrow> (if s = [] then None else iso_at (utc_offset s)) | _ \<Rightarrow> None)"

definition iter_records :: "audit_files \<Rightarrow> pyval list" where
  "iter_records files = concat (map (\<lambda>(_, content). case content of
     None \<Rightarrow> []
   | Some c \<Rightarrow> concat (map (\<lambda>l. if strip l = [] then [] else case loads (strip l) of None \<Rightarrow> [] | Some v \<Rightarrow> [v])
       (splitlines c))) files)"

datatype predicate = Any_record | Since int | Run_id string

definition record_matches :: "(string \<Rightarrow> int option) \<Rightarrow> predicate \<Rightarrow> pydict \<Rightarrow> bool" where
  "record_matches iso_at p rec = (case p of
     Any_record \<Rightarrow> True
   | Since t \<Rightarrow> (case parse_record_timestamp iso_at rec of None \<Rightarrow> False | Some ts \<Rightarrow> t \<le> ts)
   | Run_id r \<Rightarrow> str_or_empty (dget rec ''workflow_run'') = r)"

definition failed_pair :: "pydict \<Rightarrow> (string \<times> string) list" where
  "failed_pair rec =
    (let a = str_or_empty (dget rec ''asset''); i = str_or_empty (dget rec ''id'')
     in if dget rec ''status'' = PStr ''failed'' \<and> a \<noteq> [] \<and> i \<noteq> [] then [(a, i)] else [])"

text \<open>\<open>None\<close>: a line holds a JSON value that is no object, and \<open>rec.get\<close> raises.\<close>

definition collect_failed_pairs ::
  "(string \<Rightarrow> int option) \<Rightarrow> audit_files \<Rightarrow> predicate \<Rightarrow> (string \<times> string) list option" where
  "collect_failed_pairs iso_at files p = map_option
     (\<lambda>recs. concat (map failed_pair (filter (record_matches iso_at p) recs)))
     (those (map dict_of (iter_records files)))"

section \<open>Selection\<close>

record retry_opts =
  ro_since :: "string option"
  ro_run :: "string option"
  ro_dry_run :: bool
  ro_role :: "role option"
  ro_workspace :: "string option"

text \<open>The files in scope and the predicate; \<open>Inl\<close> is the exit code (\<open>None\<close> an exception).\<close>

definition retry_scope ::
  "(string \<Rightarrow> int option) \<Rightarrow> int \<Rightarrow> retry_opts \<Rightarrow> audit_files \<Rightarrow> nat option + audit_files \<times> predicate" where
  "retry_scope iso_at now opt files = (case (ro_since opt, ro_run opt) of
     (Some s, _) \<Rightarrow> (case parse_since iso_at now s of
         Since_bad \<Rightarrow> Inl (Some 2) | Since_overflow \<Rightarrow> Inl None | Since_at t \<Rightarrow> Inr (files, Since t))
   | (None, Some r) \<Rightarrow> Inr (files, Run_id r)
   | (None, None) \<Rightarrow> Inr ([last files], Any_record))"

definition pair_of :: "loaded_asset \<Rightarrow> string \<times> string" where
  "pair_of la = (asset_value (la_kind la), la_id la)"

definition retry_select ::
  "'w apply_env \<Rightarrow> run_inputs \<Rightarrow> (string \<Rightarrow> int option) \<Rightarrow> int \<Rightarrow> retry_opts \<Rightarrow> audit_dir \<Rightarrow>
   nat option + (asset_kind list \<times> loaded_asset list \<times> string option)" where
  "retry_select E inp iso_at now opt ad =
    (if ro_since opt \<noteq> None \<and> ro_run opt \<noteq> None then Inl (Some 2)
     else case resolve_single_workspace (e_outcome E) (i_pipeline_ws inp) (ro_role opt) (ro_workspace opt) None of
       Exit n \<Rightarrow> Inl (Some n)
     | Crash \<Rightarrow> Inl None
     | Env ws1 \<Rightarrow>
         (case resolve_workspaces_for_run (e_outcome E) (ro_role opt) (ro_workspace opt) of
            Inl n \<Rightarrow> Inl (Some n)
          | Inr (cfg, ws) \<Rightarrow>
              (if jsonl_files (files_of ad) = [] then Inl (Some 0)
               else case retry_scope iso_at now opt (jsonl_files (files_of ad)) of
                 Inl ex \<Rightarrow> Inl ex
               | Inr (scope, p) \<Rightarrow>
                   (case collect_failed_pairs iso_at scope p of
                      None \<Rightarrow> Inl None
                    | Some failed \<Rightarrow>
                        (if failed = [] then Inl (Some 0)
                         else case register_default_handlers (e_outcome E) (i_disabled inp) of
                           None \<Rightarrow> Inl None
                         | Some kinds \<Rightarrow>
                             (let sel = filter (\<lambda>la. pair_of la \<in> set failed)
                                    (fst (iter_loaded_assets (e_yload E) (e_to_int E) (e_detections E)));
                                  sel = filter_loaded_by_env_status sel cfg ws
                              in if sel = [] \<or> ro_dry_run opt then Inl (Some 0)
                                 else if apply_write_refused cfg ws None False then Inl (Some 2)
                                 else Inr (kinds, sel, ws1)))))))"

section \<open>The retries\<close>

type_synonym retry_pair = "loaded_asset \<times> action_result"

definition retry_asset :: "'w handler_ops \<Rightarrow> loaded_asset \<Rightarrow> 'w \<Rightarrow> action_result \<times> 'w" where
  "retry_asset ops la w =
    (let failed = own_result (la_id la) (la_kind la) NOOP ''error-apply'' in
     case h_validate ops la of
       Some msg \<Rightarrow> (failed msg, w)
     | None \<Rightarrow> (case h_apply ops la False w of (Inl msg, w') \<Rightarrow> (failed msg, w') | (Inr r, w') \<Rightarrow> (r, w')))"

text \<open>\<open>default_registry.get\<close> is outside the try: a kind without a handler ends the loop (\<open>False\<close>).\<close>

fun retry_loop ::
  "(asset_kind \<Rightarrow> 'w handler_ops) \<Rightarrow> asset_kind list \<Rightarrow> loaded_asset list \<Rightarrow> 'w \<Rightarrow> retry_pair list \<times> 'w \<times> bool" where
  "retry_loop ops kinds [] w = ([], w, True)"
| "retry_loop ops kinds (la # las) w =
    (if la_kind la \<notin> set kinds then ([], w, False)
     else let (r, w') = retry_asset (ops (la_kind la)) la w;
              (ps, rest) = retry_loop ops kinds las w'
          in ((la, r) # ps, rest))"

definition retry_batch :: "run_inputs \<Rightarrow> string option \<Rightarrow> retry_pair list \<Rightarrow> audit_record list" where
  "retry_batch inp ws pairs = map (\<lambda>(i, la, r).
     build_audit_record (i_prov inp) (i_now inp i) r (who_of la) ws None None) (enumerate 0 pairs)"

record 'w retry_final =
  rf_exit :: "nat option"
  rf_pairs :: "retry_pair list"
  rf_world :: 'w
  rf_audit :: audit_dir

definition retry_failed_cmd ::
  "'w apply_env \<Rightarrow> run_inputs \<Rightarrow> (string \<Rightarrow> int option) \<Rightarrow> int \<Rightarrow> retry_opts \<Rightarrow> audit_dir \<Rightarrow> 'w \<Rightarrow> audit_dir \<Rightarrow>
   'w retry_final" where
  "retry_failed_cmd E inp iso_at now opt ad w d =
    (case retry_select E inp iso_at now opt ad of
       Inl ex \<Rightarrow> \<lparr>rf_exit = ex, rf_pairs = [], rf_world = w, rf_audit = d\<rparr>
     | Inr (kinds, las, ws) \<Rightarrow>
         (case retry_loop (e_ops E ws) kinds las w of
            (pairs, w', False) \<Rightarrow> \<lparr>rf_exit = None, rf_pairs = pairs, rf_world = w', rf_audit = d\<rparr>
          | (pairs, w', True) \<Rightarrow>
              (case write_records (e_hash E) (i_today inp) (i_race inp 0) (retry_batch inp ws pairs) d of
                 (Inl _, d') \<Rightarrow> \<lparr>rf_exit = None, rf_pairs = pairs, rf_world = w', rf_audit = d'\<rparr>
               | (Inr _, d') \<Rightarrow>
                   \<lparr>rf_exit = Some (if filter (\<lambda>p. is_failure (snd p)) pairs = [] then 0 else 1),
                    rf_pairs = pairs, rf_world = w', rf_audit = d'\<rparr>)))"

section \<open>Lemmas\<close>

lemma retry_select_cases:
  assumes "retry_select E inp iso_at now opt ad = Inr (kinds, las, ws1)"
  obtains cfg ws scope p failed where
    "resolve_single_workspace (e_outcome E) (i_pipeline_ws inp) (ro_role opt) (ro_workspace opt) None = Env ws1"
    "resolve_workspaces_for_run (e_outcome E) (ro_role opt) (ro_workspace opt) = Inr (cfg, ws)"
    "retry_scope iso_at now opt (jsonl_files (files_of ad)) = Inr (scope, p)" "jsonl_files (files_of ad) \<noteq> []"
    "collect_failed_pairs iso_at scope p = Some failed"
    "register_default_handlers (e_outcome E) (i_disabled inp) = Some kinds"
    "las = filter_loaded_by_env_status (filter (\<lambda>la. pair_of la \<in> set failed)
       (fst (iter_loaded_assets (e_yload E) (e_to_int E) (e_detections E)))) cfg ws"
    "las \<noteq> []" "\<not> ro_dry_run opt" "\<not> apply_write_refused cfg ws None False"
  using assms
  by (auto simp: retry_select_def Let_def split: if_splits option.splits sum.splits resolution.splits)

lemma collect_failed_pairs_sound:
  assumes "collect_failed_pairs iso_at scope p = Some failed" and "(a, i) \<in> set failed"
  obtains rec where "PDict rec \<in> set (iter_records scope)" and "record_matches iso_at p rec"
    and "dget rec ''status'' = PStr ''failed''" and "str_or_empty (dget rec ''asset'') = a" and "str_or_empty (dget rec ''id'') = i"
proof -
  obtain recs where r: "those (map dict_of (iter_records scope)) = Some recs"
      "(a, i) \<in> set (concat (map failed_pair (filter (record_matches iso_at p) recs)))"
    using assms by (auto simp: collect_failed_pairs_def)
  then obtain rec where rec: "rec \<in> set recs" "record_matches iso_at p rec" "(a, i) \<in> set (failed_pair rec)" by auto
  have "map dict_of (iter_records scope) = map Some recs" using r(1) by (simp add: those_Some_iff)
  then have "Some rec \<in> set (map dict_of (iter_records scope))" using rec(1) by simp
  then have "PDict rec \<in> set (iter_records scope)"
    by (auto simp: dict_of_def split: pyval.splits)
  with rec show thesis by (intro that) (auto simp: failed_pair_def Let_def split: if_splits)
qed

text \<open>One step of the loop as it acts on the tenant.\<close>

definition retry_step :: "(asset_kind \<Rightarrow> 'w handler_ops) \<Rightarrow> loaded_asset \<Rightarrow> 'w \<Rightarrow> 'w" where
  "retry_step ops la w = (if h_validate (ops (la_kind la)) la = None
     then snd (h_apply (ops (la_kind la)) la False w) else w)"

lemma retry_asset_world: "snd (retry_asset (ops (la_kind la)) la w) = retry_step ops la w"
  by (simp add: retry_asset_def retry_step_def Let_def split: option.split prod.split sum.split)

lemma retry_loop_spec:
  assumes "retry_loop ops kinds las w = (pairs, w', ok)"
  shows "(ok \<longleftrightarrow> (\<forall>la \<in> set las. la_kind la \<in> set kinds)) \<and>
    map fst pairs = takeWhile (\<lambda>la. la_kind la \<in> set kinds) las \<and>
    w' = fold (retry_step ops) (takeWhile (\<lambda>la. la_kind la \<in> set kinds) las) w"
  using assms
proof (induction las arbitrary: w pairs)
  case (Cons la las)
  show ?case
  proof (cases "la_kind la \<in> set kinds")
    case True
    obtain r v where r: "retry_asset (ops (la_kind la)) la w = (r, v)" by fastforce
    then have v: "v = retry_step ops la w" using retry_asset_world[of ops la w] by simp
    obtain ps where ps: "retry_loop ops kinds las v = (ps, w', ok)" "pairs = (la, r) # ps"
      using Cons.prems True r by (auto split: prod.splits)
    from Cons.IH[OF ps(1)] True show ?thesis by (simp add: ps(2) v)
  qed (use Cons.prems in simp)
qed simp

lemma retry_cmd_run:
  assumes "retry_select E inp iso_at now opt ad = Inr (kinds, las, ws)"
  defines "reg \<equiv> takeWhile (\<lambda>la. la_kind la \<in> set kinds) las"
  shows "rf_world (retry_failed_cmd E inp iso_at now opt ad w d) = fold (retry_step (e_ops E ws)) reg w"
    and "map fst (rf_pairs (retry_failed_cmd E inp iso_at now opt ad w d)) = reg"
    and "reg \<noteq> las \<Longrightarrow> rf_exit (retry_failed_cmd E inp iso_at now opt ad w d) = None \<and>
      rf_audit (retry_failed_cmd E inp iso_at now opt ad w d) = d"
proof -
  obtain pairs w' ok where r: "retry_loop (e_ops E ws) kinds las w = (pairs, w', ok)" by (metis prod_cases3)
  note spec = retry_loop_spec[OF r, folded reg_def]
  obtain y d' where wr: "write_records (e_hash E) (i_today inp) (i_race inp 0) (retry_batch inp ws pairs) d = (y, d')"
    by (rule prod.exhaust)
  have c: "rf_world (retry_failed_cmd E inp iso_at now opt ad w d) = w'"
    "rf_pairs (retry_failed_cmd E inp iso_at now opt ad w d) = pairs"
    by (simp_all add: retry_failed_cmd_def assms(1) r wr split: bool.split sum.split)
  show "rf_world (retry_failed_cmd E inp iso_at now opt ad w d) = fold (retry_step (e_ops E ws)) reg w"
    "map fst (rf_pairs (retry_failed_cmd E inp iso_at now opt ad w d)) = reg"
    using spec by (simp_all add: c)
  assume "reg \<noteq> las"
  then have "\<not> (\<forall>la \<in> set las. la_kind la \<in> set kinds)"
    unfolding reg_def takeWhile_eq_all_conv by blast
  then have "\<not> ok" using spec by blast
  then show "rf_exit (retry_failed_cmd E inp iso_at now opt ad w d) = None \<and>
      rf_audit (retry_failed_cmd E inp iso_at now opt ad w d) = d"
    by (simp add: retry_failed_cmd_def assms(1) r)
qed

text \<open>When a rule may be retried: loaded, recorded as failed in the scope, and past both gates.\<close>

definition retry_authorised ::
  "'w apply_env \<Rightarrow> (string \<Rightarrow> int option) \<Rightarrow> int \<Rightarrow> retry_opts \<Rightarrow> audit_dir \<Rightarrow> loaded_asset \<Rightarrow> bool" where
  "retry_authorised E iso_at now opt ad la \<longleftrightarrow>
     la \<in> set (fst (iter_loaded_assets (e_yload E) (e_to_int E) (e_detections E))) \<and> \<not> ro_dry_run opt \<and>
     (\<exists>scope p rec. retry_scope iso_at now opt (jsonl_files (files_of ad)) = Inr (scope, p) \<and>
        PDict rec \<in> set (iter_records scope) \<and> record_matches iso_at p rec \<and> dget rec ''status'' = PStr ''failed'' \<and>
        str_or_empty (dget rec ''asset'') = asset_value (la_kind la) \<and> str_or_empty (dget rec ''id'') = la_id la) \<and>
     (\<forall>t. e_outcome E = Loaded t \<longrightarrow>
        (\<exists>sel. select_workspaces t (ro_role opt) (ro_workspace opt) = Inr sel \<and> status_allowed t sel la \<and>
           (\<forall>v \<in> set sel. writeAllowed v)) \<and>
        (\<forall>d. tenant_defender t = Some d \<longrightarrow> writeAllowed d))"

lemma retry_select_authorised:
  assumes "retry_select E inp iso_at now opt ad = Inr (kinds, las, ws1)" and "la \<in> set las"
  shows "retry_authorised E iso_at now opt ad la"
proof -
  obtain cfg ws scope p failed where
      r: "resolve_workspaces_for_run (e_outcome E) (ro_role opt) (ro_workspace opt) = Inr (cfg, ws)"
    and sc: "retry_scope iso_at now opt (jsonl_files (files_of ad)) = Inr (scope, p)"
    and f: "collect_failed_pairs iso_at scope p = Some failed"
    and las: "las = filter_loaded_by_env_status (filter (\<lambda>la. pair_of la \<in> set failed)
       (fst (iter_loaded_assets (e_yload E) (e_to_int E) (e_detections E)))) cfg ws"
    and dry: "\<not> ro_dry_run opt" and wr: "\<not> apply_write_refused cfg ws None False"
    using assms(1) by (rule retry_select_cases)
  have la: "la \<in> set (fst (iter_loaded_assets (e_yload E) (e_to_int E) (e_detections E)))"
      "(asset_value (la_kind la), la_id la) \<in> set failed" "\<And>t. cfg = Some t \<Longrightarrow> status_allowed t ws la"
    using assms(2) by (auto simp: las filter_loaded_by_env_status_def pair_of_def split: option.splits)
  obtain rec where rec: "PDict rec \<in> set (iter_records scope)" "record_matches iso_at p rec"
      "dget rec ''status'' = PStr ''failed''" "str_or_empty (dget rec ''asset'') = asset_value (la_kind la)"
      "str_or_empty (dget rec ''id'') = la_id la"
    using f la(2) by (rule collect_failed_pairs_sound)
  have "(\<exists>sel. select_workspaces t (ro_role opt) (ro_workspace opt) = Inr sel \<and> status_allowed t sel la \<and>
           (\<forall>v \<in> set sel. writeAllowed v)) \<and> (\<forall>d. tenant_defender t = Some d \<longrightarrow> writeAllowed d)"
    if "e_outcome E = Loaded t" for t
  proof -
    have c: "cfg = Some t" "select_workspaces t (ro_role opt) (ro_workspace opt) = Inr ws"
      using resolve_workspaces_cases[OF r] that by auto
    then show ?thesis using wr la(3)[OF c(1)] by (auto simp: apply_write_refused_def)
  qed
  then show ?thesis unfolding retry_authorised_def using la(1) dry sc rec by blast
qed

section \<open>Instances\<close>

text \<open>Two rules whose last apply failed; the hunting query is locked.\<close>

definition retry_documents :: "string \<Rightarrow> pyval option" where
  "retry_documents s = (case demo_documents s of
     Some (PDict d) \<Rightarrow> Some (PDict (if s = ''hunt'' then d @ [(''localCustomization'', PBool True)] else d)) | x \<Rightarrow> x)"

definition retry_env :: "string list apply_env" where
  "retry_env = (demo_env No_config)\<lparr>e_yload := retry_documents\<rparr>"

definition failed_record :: "string \<Rightarrow> string \<Rightarrow> string" where
  "failed_record a i = dumps (PDict [(''asset'', PStr a), (''id'', PStr i), (''status'', PStr ''failed'')])"

definition failed_log :: audit_dir where
  "failed_log = Some [(''2026-01-01.jsonl'', Some (failed_record ''sentinel_hunting'' ''hunt'' @ [NL] @
     failed_record ''sentinel_playbook'' ''play'' @ [NL]))]"

definition retry_plain :: retry_opts where
  "retry_plain = \<lparr>ro_since = None, ro_run = None, ro_dry_run = False, ro_role = None, ro_workspace = None\<rparr>"

lemma retry_env_fields: "e_ops retry_env = (\<lambda>_ _. demo_ops)" "e_yload retry_env = retry_documents"
  "e_detections retry_env = demo_detections" "e_outcome retry_env = No_config"
  by (simp_all add: retry_env_def demo_env_def)

definition no_playbooks :: run_inputs where
  "no_playbooks = demo_inputs\<lparr>i_disabled := ''sentinel_playbook''\<rparr>"

lemma retry_selected:
  "\<exists>k l. retry_select retry_env demo_inputs (\<lambda>_. None) 0 retry_plain failed_log = Inr (k, l, None) \<and>
     (\<forall>la \<in> set l. la_kind la \<in> set k) \<and> map la_id l = [''hunt'', ''play''] \<and>
     map (is_locked retry_documents demo_detections) l = [True, False]"
  "\<exists>k l. retry_select retry_env no_playbooks (\<lambda>_. None) 0 retry_plain failed_log = Inr (k, l, None) \<and>
     map la_id l = [''hunt'', ''play''] \<and> map (\<lambda>la. la_kind la \<in> set k) l = [True, False]"
proof -
  have "case retry_select retry_env demo_inputs (\<lambda>_. None) 0 retry_plain failed_log of
      Inr (k, l, w) \<Rightarrow> w = None \<and> (\<forall>la \<in> set l. la_kind la \<in> set k) \<and> map la_id l = [''hunt'', ''play''] \<and>
        map (is_locked retry_documents demo_detections) l = [True, False] | _ \<Rightarrow> False"
    by code_simp
  then show "\<exists>k l. retry_select retry_env demo_inputs (\<lambda>_. None) 0 retry_plain failed_log = Inr (k, l, None) \<and>
     (\<forall>la \<in> set l. la_kind la \<in> set k) \<and> map la_id l = [''hunt'', ''play''] \<and>
     map (is_locked retry_documents demo_detections) l = [True, False]"
    by (auto split: sum.splits prod.splits)
  have "case retry_select retry_env no_playbooks (\<lambda>_. None) 0 retry_plain failed_log of
      Inr (k, l, w) \<Rightarrow> w = None \<and> map la_id l = [''hunt'', ''play''] \<and>
        map (\<lambda>la. la_kind la \<in> set k) l = [True, False] | _ \<Rightarrow> False"
    by code_simp
  then show "\<exists>k l. retry_select retry_env no_playbooks (\<lambda>_. None) 0 retry_plain failed_log = Inr (k, l, None) \<and>
     map la_id l = [''hunt'', ''play''] \<and> map (\<lambda>la. la_kind la \<in> set k) l = [True, False]"
    by (auto split: sum.splits prod.splits)
qed

lemma demo_step: "retry_step (\<lambda>_. demo_ops) la w = w @ [la_id la]"
  by (simp add: retry_step_def demo_ops_def)

section \<open>Properties\<close>

text \<open>
  C23. A retry writes only what failed: every property of the tenant that the handler calls for
  assets with a failed record in the scope, an allowed status and only writable workspaces (and a
  writable Defender) preserve holds after the command.
\<close>

theorem retry_writes_are_gated:
  assumes "\<And>la ws v. retry_authorised E iso_at now opt ad la \<Longrightarrow> P v \<Longrightarrow>
      P (snd (h_apply (e_ops E ws (la_kind la)) la False v))"
    and "P w"
  shows "P (rf_world (retry_failed_cmd E inp iso_at now opt ad w d))"
proof (cases "retry_select E inp iso_at now opt ad")
  case (Inl ex)
  then show ?thesis using assms(2) by (simp add: retry_failed_cmd_def)
next
  case (Inr sel)
  obtain kinds las ws where sel: "sel = (kinds, las, ws)" by (cases sel)
  note s = Inr[unfolded sel]
  have "P (fold (retry_step (e_ops E ws)) xs v)" if "set xs \<subseteq> set las" "P v" for xs v
    using that
  proof (induction xs arbitrary: v)
    case (Cons la xs)
    then have "P (retry_step (e_ops E ws) la v)"
      using assms(1)[OF retry_select_authorised[OF s]] by (simp add: retry_step_def)
    with Cons show ?case by simp
  qed simp
  moreover have "set (takeWhile (\<lambda>la. la_kind la \<in> set kinds) las) \<subseteq> set las"
    using set_takeWhileD by fast
  ultimately show ?thesis unfolding retry_cmd_run(1)[OF s] using assms(2) by blast
qed

theorem retry_writes_are_gated_witness:
  "''other'' \<notin> set (rf_world (retry_failed_cmd retry_env demo_inputs (\<lambda>_. None) 0 retry_plain failed_log [] None))"
proof (rule retry_writes_are_gated[where P = "\<lambda>w. ''other'' \<notin> set w"])
  fix la ws v
  have all: "\<forall>la \<in> set (fst (iter_loaded_assets (e_yload retry_env) (e_to_int retry_env) (e_detections retry_env))).
      la_id la \<noteq> ''other''" by code_simp
  assume "retry_authorised retry_env (\<lambda>_. None) 0 retry_plain failed_log la" and v: "''other'' \<notin> set v"
  then have "la_id la \<noteq> ''other''" using all by (auto simp: retry_authorised_def)
  with v show "''other'' \<notin> set (snd (h_apply (e_ops retry_env ws (la_kind la)) la False v))"
    by (simp add: retry_env_fields demo_ops_def)
qed simp

text \<open>
  A retry leaves out the gates of apply that come after the status gate: with a handler for every
  kind, the tenant ends as if the handlers had been called with the selected assets as they are on
  disk, in load order, with no placeholder replaced; a locked asset and one of a kind in monitor
  mode are among them, although apply is authorised for neither without \<open>--force-overwrite\<close>.
\<close>

theorem retry_replays_raw:
  assumes "retry_select E inp iso_at now opt ad = Inr (kinds, las, ws)" and "\<forall>la \<in> set las. la_kind la \<in> set kinds"
  shows "rf_world (retry_failed_cmd E inp iso_at now opt ad w d) = fold (\<lambda>la v.
      if h_validate (e_ops E ws (la_kind la)) la = None then snd (h_apply (e_ops E ws (la_kind la)) la False v) else v) las w \<and>
    map fst (rf_pairs (retry_failed_cmd E inp iso_at now opt ad w d)) = las \<and>
    (is_locked (e_yload E) (e_detections E) la \<and> \<not> a_force o' \<or> mode_in E (i_pipeline_ws inp) ws' (la_kind la) = Some Monitor \<longrightarrow>
      \<not> authorised E inp o' la ws' res)"
proof -
  have t: "takeWhile (\<lambda>la. la_kind la \<in> set kinds) las = las" unfolding takeWhile_eq_all_conv by (rule assms(2))
  have step: "retry_step (e_ops E ws) = (\<lambda>la v.
      if h_validate (e_ops E ws (la_kind la)) la = None then snd (h_apply (e_ops E ws (la_kind la)) la False v) else v)"
    by (simp add: fun_eq_iff retry_step_def)
  show ?thesis
    using retry_cmd_run(1,2)[OF assms(1), of w d, unfolded t step] by (auto simp: authorised_def)
qed

theorem retry_replays_raw_witness:
  "rf_world (retry_failed_cmd retry_env demo_inputs (\<lambda>_. None) 0 retry_plain failed_log [] None) = [''hunt'', ''play''] \<and>
   is_locked retry_documents demo_detections (fst (hd (rf_pairs (retry_failed_cmd retry_env demo_inputs (\<lambda>_. None) 0
     retry_plain failed_log [] None))))"
proof -
  obtain k l where s: "retry_select retry_env demo_inputs (\<lambda>_. None) 0 retry_plain failed_log = Inr (k, l, None)"
      "\<forall>la \<in> set l. la_kind la \<in> set k" "map la_id l = [''hunt'', ''play'']"
      "map (is_locked retry_documents demo_detections) l = [True, False]"
    using retry_selected(1) by (elim exE conjE)
  let ?out = "retry_failed_cmd retry_env demo_inputs (\<lambda>_. None) 0 retry_plain failed_log [] None"
  note r = retry_replays_raw[OF s(1,2), of "[]" None]
  have "fold (\<lambda>la v. v @ [la_id la]) l [] = map la_id l" for l :: "loaded_asset list"
    by (induction l rule: rev_induct) simp_all
  then have "rf_world ?out = map la_id l" using r by (simp add: retry_env_fields demo_ops_def)
  moreover have "map fst (rf_pairs ?out) = l" using r by blast
  then have "fst (hd (rf_pairs ?out)) = hd l" using s(3) by (cases "rf_pairs ?out") auto
  ultimately show ?thesis using s(3,4) by (cases l) auto
qed

text \<open>
  A retry that meets a kind without a handler loses its records: the assets before it were
  applied, the command ends with an exception, and the audit directory is untouched.
\<close>

theorem retry_unregistered_unaudited:
  assumes "retry_select E inp iso_at now opt ad = Inr (kinds, pre @ la # post, ws)"
    and "\<forall>x \<in> set pre. la_kind x \<in> set kinds" and "la_kind la \<notin> set kinds"
    and "out = retry_failed_cmd E inp iso_at now opt ad w d"
  shows "rf_exit out = None \<and> rf_audit out = d \<and> map fst (rf_pairs out) = pre \<and>
    rf_world out = fold (retry_step (e_ops E ws)) pre w"
proof -
  have t: "takeWhile (\<lambda>la. la_kind la \<in> set kinds) (pre @ la # post) = pre"
    using assms(2,3) by (simp add: takeWhile_append)
  show ?thesis
    using retry_cmd_run[OF assms(1), of w d, unfolded t] by (simp add: assms(4))
qed

theorem retry_unregistered_unaudited_witness:
  "rf_world (retry_failed_cmd retry_env no_playbooks (\<lambda>_. None) 0 retry_plain failed_log [] None) = [''hunt''] \<and>
   rf_exit (retry_failed_cmd retry_env no_playbooks (\<lambda>_. None) 0 retry_plain failed_log [] None) = None"
proof -
  obtain k l where s: "retry_select retry_env no_playbooks (\<lambda>_. None) 0 retry_plain failed_log = Inr (k, l, None)"
      "map la_id l = [''hunt'', ''play'']" "map (\<lambda>la. la_kind la \<in> set k) l = [True, False]"
    using retry_selected(2) by (elim exE conjE)
  obtain a b where l: "l = [a] @ b # []" using s(2) by auto
  have "\<forall>x \<in> set [a]. la_kind x \<in> set k" "la_kind b \<notin> set k" using s(3) by (simp_all add: l)
  from retry_unregistered_unaudited[OF s(1)[unfolded l] this refl, of "[]" None] s(2)
  show ?thesis by (simp add: l retry_env_fields demo_step)
qed

end
