(* ===== verification/Http_Retry.thy ===== *)
theory Http_Retry
  imports Complex_Main Py_Value Json
begin

text \<open>
  The shared HTTP helpers, \<open>contentops/utils/http_retry.py\<close> and \<open>contentops/utils/url_path.py\<close>: the
  retry loop, the origin check, pagination and safe path segments. A request is a function on a
  \<open>world\<close> of any type, which holds the server and whoever else talks to it. The exceptions are the
  classes \<open>httpx\<close> documents; \<open>float()\<close> of a header and \<open>parsedate_to_datetime\<close> (as seconds from now) are
  parameters, and rounding is not modelled.
\<close>

section \<open>Responses, faults and policies\<close>

record response =
  status_code :: nat
  retry_after :: "string option"
  json_body :: "pyval option"        \<comment> \<open>\<open>None\<close>: \<open>response.json()\<close> raises\<close>
  body_text :: string

datatype fault =
    Connect_timeout | Read_timeout | Write_timeout | Pool_timeout
  | Connect_error | Read_error | Write_error | Close_error
  | Remote_protocol_error | Local_protocol_error | Unsupported_protocol
  | Other_fault

type_synonym outcome = "fault + response"

record policy =
  retry_status :: "nat list"
  retry_exceptions :: "fault list"

definition RETRYABLE :: policy where
  "RETRYABLE = \<lparr>retry_status = [429, 500, 502, 503, 504],
     retry_exceptions = [Connect_timeout, Read_timeout, Write_timeout, Pool_timeout,
       Connect_error, Read_error, Write_error, Close_error, Remote_protocol_error]\<rparr>"

definition NON_IDEMPOTENT :: policy where
  "NON_IDEMPOTENT = \<lparr>retry_status = [429], retry_exceptions = [Connect_error, Connect_timeout, Pool_timeout]\<rparr>"

definition MAX_PAGES :: nat where "MAX_PAGES = 1000"

section \<open>Retry-After\<close>

text \<open>Python's floats with the comparisons that \<open>min\<close> and \<open>max\<close> make; NaN compares false.\<close>

datatype pyfloat = Finite rat | Pos_inf | Neg_inf | Nan

fun flt_less :: "pyfloat \<Rightarrow> pyfloat \<Rightarrow> bool" where
  "flt_less Nan _ = False"
| "flt_less _ Nan = False"
| "flt_less (Finite x) (Finite y) = (x < y)"
| "flt_less Neg_inf Neg_inf = False"
| "flt_less Neg_inf _ = True"
| "flt_less _ Pos_inf = True"
| "flt_less _ _ = False"

definition py_min :: "pyfloat \<Rightarrow> pyfloat \<Rightarrow> pyfloat" where
  "py_min a b = (if flt_less b a then b else a)"

definition py_max :: "pyfloat \<Rightarrow> pyfloat \<Rightarrow> pyfloat" where
  "py_max a b = (if flt_less a b then b else a)"

record header_env =
  he_float :: "string \<Rightarrow> pyfloat option"
  he_date :: "string \<Rightarrow> rat option"

definition MAX_RETRY_AFTER_SECONDS :: rat where "MAX_RETRY_AFTER_SECONDS = 120"

definition parse_retry_after :: "header_env \<Rightarrow> response \<Rightarrow> pyfloat option" where
  "parse_retry_after H r = (case retry_after r of
     None \<Rightarrow> None
   | Some [] \<Rightarrow> None
   | Some raw \<Rightarrow>
       (let raw = strip raw in case he_float H raw of
          Some x \<Rightarrow> Some (py_min x (Finite MAX_RETRY_AFTER_SECONDS))
        | None \<Rightarrow> map_option (\<lambda>d. Finite (min (max d 0) MAX_RETRY_AFTER_SECONDS)) (he_date H raw)))"

section \<open>The retry loop\<close>

datatype call_error =
    Transport fault
  | Bad_sleep                        \<comment> \<open>\<open>time.sleep(nan)\<close>\<close>

definition backoff :: "nat \<Rightarrow> rat" where
  "backoff attempt = 2 ^ attempt"

definition wait_of :: "header_env \<Rightarrow> response \<Rightarrow> nat \<Rightarrow> pyfloat" where
  "wait_of H r attempt = py_max (case parse_retry_after H r of None \<Rightarrow> Finite 0 | Some x \<Rightarrow> x) (Finite (backoff attempt))"

text \<open>The result, the sleeps and the world; \<open>k\<close> is the number of attempts so far.\<close>

function request_loop ::
  "header_env \<Rightarrow> policy \<Rightarrow> nat \<Rightarrow> ('w \<Rightarrow> outcome \<times> 'w) \<Rightarrow> nat \<Rightarrow> pyfloat list \<Rightarrow> 'w \<Rightarrow>
   (call_error + response) \<times> pyfloat list \<times> 'w" where
  "request_loop H pol max_retries send k waits w =
    (case send w of
       (Inl f, w') \<Rightarrow>
         (if f \<in> set (retry_exceptions pol) \<and> k < max_retries
          then request_loop H pol max_retries send (Suc k) (waits @ [Finite (backoff (Suc k))]) w'
          else (Inl (Transport f), waits, w'))
     | (Inr r, w') \<Rightarrow>
         (if status_code r \<in> set (retry_status pol) \<and> k < max_retries
          then if wait_of H r (Suc k) = Nan then (Inl Bad_sleep, waits, w')
               else request_loop H pol max_retries send (Suc k) (waits @ [wait_of H r (Suc k)]) w'
          else (Inr r, waits, w')))"
  by pat_completeness auto
termination by (relation "measure (\<lambda>(H, pol, m, send, k, waits, w). m - k)") auto

declare request_loop.simps [simp del]

definition request_with_retry ::
  "header_env \<Rightarrow> policy \<Rightarrow> nat \<Rightarrow> ('w \<Rightarrow> outcome \<times> 'w) \<Rightarrow> 'w \<Rightarrow> (call_error + response) \<times> pyfloat list \<times> 'w" where
  "request_with_retry H pol max_retries send w = request_loop H pol max_retries send 0 [] w"

section \<open>Origins\<close>

text \<open>
  Scheme and network location of \<open>urllib.parse.urlparse\<close> (CPython 3.12); \<open>None\<close> is its \<open>ValueError\<close>.
  \<open>brackets_ok\<close> is its check of an address in brackets.
\<close>

definition is_alpha :: "char \<Rightarrow> bool" where
  "is_alpha c \<longleftrightarrow> is_lower c \<or> is_upper c"

definition scheme_char :: "char \<Rightarrow> bool" where
  "scheme_char c \<longleftrightarrow> is_alpha c \<or> is_digit c \<or> c \<in> {CHR ''+'', CHR ''-'', CHR ''.''}"

definition split_scheme :: "string \<Rightarrow> string \<times> string" where
  "split_scheme url =
    (let head = takeWhile (\<lambda>c. c \<noteq> CHR '':'') url
     in if length head < length url \<and> head \<noteq> [] \<and> is_alpha (hd head) \<and> (\<forall>c \<in> set head. scheme_char c)
        then (lower head, drop (Suc (length head)) url) else ([], url))"

definition split_url :: "(string \<Rightarrow> bool) \<Rightarrow> string \<Rightarrow> (string \<times> string) option" where
  "split_url brackets_ok url =
    (let clean = filter (\<lambda>c. code c \<notin> {9, 10, 13}) (dropWhile (\<lambda>c. code c \<le> 32) url);
         (scheme, rest) = split_scheme clean
     in if take 2 rest = ''//''
        then let netloc = takeWhile (\<lambda>c. c \<notin> {CHR ''/'', CHR ''?'', CHR 0x23}) (drop 2 rest);
                 l = (CHR ''['' \<in> set netloc); r = (CHR '']'' \<in> set netloc)
             in if l \<noteq> r \<or> (l \<and> r \<and> \<not> brackets_ok netloc) then None else Some (scheme, netloc)
        else Some (scheme, []))"

definition after_last :: "char \<Rightarrow> string \<Rightarrow> string" where
  "after_last c s = rev (takeWhile (\<lambda>x. x \<noteq> c) (rev s))"

definition before_first :: "char \<Rightarrow> string \<Rightarrow> string" where
  "before_first c s = takeWhile (\<lambda>x. x \<noteq> c) s"

definition after_first :: "char \<Rightarrow> string \<Rightarrow> string option" where
  "after_first c s = (case dropWhile (\<lambda>x. x \<noteq> c) s of [] \<Rightarrow> None | _ # r \<Rightarrow> Some r)"

text \<open>\<open>_hostinfo\<close>: the host and the text of the port.\<close>

definition hostinfo :: "string \<Rightarrow> string \<times> string option" where
  "hostinfo netloc =
    (let hi = after_last (CHR ''@'') netloc in
     case after_first (CHR ''['') hi of
       Some br \<Rightarrow>
         (before_first (CHR '']'') br,
          Option.bind (after_first (CHR '']'') br) (after_first (CHR '':'')))
     | None \<Rightarrow> (before_first (CHR '':'') hi, after_first (CHR '':'') hi))"

text \<open>The host is lower-cased by the caller in any case; an unreadable port counts as none.\<close>

definition port_of :: "string option \<Rightarrow> nat option" where
  "port_of p = (case p of
     None \<Rightarrow> None
   | Some s \<Rightarrow> (if s \<noteq> [] \<and> (\<forall>c \<in> set s. is_digit c) \<and> digits_val s \<le> 65535 then Some (digits_val s) else None))"

definition default_port :: "string \<Rightarrow> nat option" where
  "default_port scheme = (if scheme = ''https'' then Some 443 else if scheme = ''http'' then Some 80 else None)"

definition url_origin :: "(string \<Rightarrow> bool) \<Rightarrow> string \<Rightarrow> string option option" where
  "url_origin brackets_ok url =
    (if url = [] then Some None
     else map_option (\<lambda>(scheme, netloc).
       let (host, p) = hostinfo netloc; port = port_of p
       in if scheme = [] \<or> host = [] then None
          else Some (scheme @ ''://'' @ lower host @
            (case port of None \<Rightarrow> []
             | Some n \<Rightarrow> if default_port scheme = Some n then [] else CHR '':'' # show_nat n)))
       (split_url brackets_ok url))"

definition is_same_origin :: "(string \<Rightarrow> bool) \<Rightarrow> string \<Rightarrow> string option \<Rightarrow> bool option" where
  "is_same_origin brackets_ok url allowed =
    (case split_url brackets_ok url of
       None \<Rightarrow> None
     | Some (scheme, netloc) \<Rightarrow>
         (if scheme = [] \<and> netloc = [] then Some True
          else map_option (\<lambda>o'. o' \<noteq> None \<and> allowed \<noteq> None \<and> o' = allowed) (url_origin brackets_ok url)))"

section \<open>Pagination\<close>

datatype page_error =
    Fetch_failed call_error
  | Http_status nat
  | Not_json
  | Not_a_page                  \<comment> \<open>the body is no object, or \<open>value\<close> cannot be iterated\<close>
  | Bad_link                    \<comment> \<open>a link that is no text or that \<open>urlparse\<close> refuses\<close>
  | Cross_origin
  | Cycle
  | Too_many_pages

definition is_success :: "response \<Rightarrow> bool" where
  "is_success r \<longleftrightarrow> 200 \<le> status_code r \<and> status_code r < 300"

definition iterate :: "pyval \<Rightarrow> pyval list option" where
  "iterate v = (case v of
     PList xs \<Rightarrow> Some xs
   | PDict d \<Rightarrow> Some (map (\<lambda>p. PStr (fst p)) d)
   | PStr s \<Rightarrow> Some (map (\<lambda>c. PStr [c]) s)
   | _ \<Rightarrow> None)"

text \<open>The items of a page and its next link.\<close>

definition page_of :: "string \<Rightarrow> response \<Rightarrow> page_error + pyval list \<times> string option" where
  "page_of key r =
    (if \<not> is_success r then Inl (Http_status (status_code r))
     else case json_body r of
       None \<Rightarrow> Inl Not_json
     | Some (PDict d) \<Rightarrow>
         (case iterate (dget_default d ''value'' (PList [])) of
            None \<Rightarrow> Inl Not_a_page
          | Some xs \<Rightarrow>
              (if \<not> truthy (dget d key) then Inr (xs, None)
               else case dget d key of PStr s \<Rightarrow> Inr (xs, Some s) | _ \<Rightarrow> Inl Bad_link))
     | Some _ \<Rightarrow> Inl Not_a_page)"

function paginate_loop ::
  "(string \<Rightarrow> bool) \<Rightarrow> string option \<Rightarrow> (string \<Rightarrow> 'w \<Rightarrow> (call_error + response) \<times> 'w) \<Rightarrow> string \<Rightarrow> nat \<Rightarrow>
   string list \<Rightarrow> pyval list \<Rightarrow> string option \<Rightarrow> 'w \<Rightarrow> (page_error + pyval list) \<times> 'w" where
  "paginate_loop br allowed fetch key max_pages visited items url w =
    (case url of
       None \<Rightarrow> (Inr items, w)
     | Some u \<Rightarrow>
         (case is_same_origin br u allowed of
            None \<Rightarrow> (Inl Bad_link, w)
          | Some False \<Rightarrow> (Inl Cross_origin, w)
          | Some True \<Rightarrow>
              (if u \<in> set visited then (Inl Cycle, w)
               else if max_pages \<le> length visited then (Inl Too_many_pages, w)
               else case fetch u w of
                 (Inl e, w') \<Rightarrow> (Inl (Fetch_failed e), w')
               | (Inr r, w') \<Rightarrow>
                   (case page_of key r of
                      Inl e \<Rightarrow> (Inl e, w')
                    | Inr (xs, next_url) \<Rightarrow>
                        paginate_loop br allowed fetch key max_pages (u # visited) (items @ xs) next_url w'))))"
  by pat_completeness auto
termination
  by (relation "measure (\<lambda>(br, allowed, fetch, key, m, visited, items, url, w). m - length visited)") auto

declare paginate_loop.simps [simp del]

text \<open>\<open>url_origin(first_url) or url_origin(base_url)\<close>.\<close>

definition allowed_origin :: "(string \<Rightarrow> bool) \<Rightarrow> string \<Rightarrow> string option \<Rightarrow> string option option" where
  "allowed_origin br first_url base_url =
    (case url_origin br first_url of
       Some None \<Rightarrow> url_origin br (case base_url of None \<Rightarrow> [] | Some b \<Rightarrow> b)
     | x \<Rightarrow> x)"

definition paginate ::
  "(string \<Rightarrow> bool) \<Rightarrow> (string \<Rightarrow> 'w \<Rightarrow> (call_error + response) \<times> 'w) \<Rightarrow> string \<Rightarrow> string \<Rightarrow> nat \<Rightarrow> string option \<Rightarrow>
   'w \<Rightarrow> (page_error + pyval list) \<times> 'w" where
  "paginate br fetch first_url key max_pages base_url w =
    (case allowed_origin br first_url base_url of
       None \<Rightarrow> (Inl Bad_link, w)
     | Some allowed \<Rightarrow>
         paginate_loop br allowed fetch key max_pages [] [] (if first_url = [] then None else Some first_url) w)"

section \<open>Path segments\<close>

text \<open>\<open>quote(text, safe="")\<close> of a text whose characters are code points below 256, encoded as UTF-8.\<close>

definition unreserved :: "char \<Rightarrow> bool" where
  "unreserved c \<longleftrightarrow> is_alpha c \<or> is_digit c \<or> c \<in> {CHR ''_'', CHR ''.'', CHR ''-'', CHR ''~''}"

definition hex_up :: "nat \<Rightarrow> char" where
  "hex_up d = (if d < 10 then char_of (48 + d) else char_of (55 + d))"

definition pct :: "nat \<Rightarrow> string" where
  "pct n = [CHR ''%'', hex_up (n div 16), hex_up (n mod 16)]"

definition quote_char :: "char \<Rightarrow> string" where
  "quote_char c =
    (if unreserved c then [c]
     else let n = code c in if n < 128 then pct n else pct (192 + n div 64) @ pct (128 + n mod 64))"

definition quote :: "string \<Rightarrow> string" where
  "quote s = concat (map quote_char s)"

text \<open>\<open>None\<close> is \<open>UnsafePathSegment\<close>.\<close>

definition safe_path_segment :: "string \<Rightarrow> string option" where
  "safe_path_segment s =
    (if strip s = [] \<or> s = ''.'' \<or> s = ''..'' \<or>
        (\<exists>c \<in> set s. c \<in> {CHR ''/'', CHR 0x5C, CHR ''?'', CHR 0x23, CHR ''%''} \<or> code c < 32 \<or> code c = 127)
     then None else Some (quote s))"

section \<open>Lemmas\<close>

subsection \<open>The retry loop\<close>

definition retryable :: "policy \<Rightarrow> outcome \<Rightarrow> bool" where
  "retryable pol x \<longleftrightarrow> (case x of
     Inl f \<Rightarrow> f \<in> set (retry_exceptions pol) | Inr r \<Rightarrow> status_code r \<in> set (retry_status pol))"

definition result_of :: "outcome \<Rightarrow> call_error + response" where
  "result_of x = (case x of Inl f \<Rightarrow> Inl (Transport f) | Inr r \<Rightarrow> Inr r)"

text \<open>The sleep before attempt \<open>k\<close>, given what came back.\<close>

definition sleep_of :: "header_env \<Rightarrow> outcome \<Rightarrow> nat \<Rightarrow> pyfloat" where
  "sleep_of H x k = (case x of Inl _ \<Rightarrow> Finite (backoff k) | Inr r \<Rightarrow> wait_of H r k)"

lemma request_loop_step:
  assumes "send w = (x, w')"
  shows "request_loop H pol m send k waits w =
    (if \<not> retryable pol x \<or> m \<le> k then (result_of x, waits, w')
     else if sleep_of H x (Suc k) = Nan then (Inl Bad_sleep, waits, w')
     else request_loop H pol m send (Suc k) (waits @ [sleep_of H x (Suc k)]) w')"
  by (subst request_loop.simps)
     (cases x; simp add: assms retryable_def result_of_def sleep_of_def)

lemma finite_wait:
  assumes "sleep_of H x k \<noteq> Nan"
  shows "\<exists>t. sleep_of H x k = Finite t \<and> backoff k \<le> t \<and> t \<le> max (backoff k) MAX_RETRY_AFTER_SECONDS"
proof (cases x)
  case (Inr r)
  consider "parse_retry_after H r = None" | "parse_retry_after H r = Some Nan" | "parse_retry_after H r = Some Neg_inf"
    | t where "parse_retry_after H r = Some (Finite t)" "t \<le> MAX_RETRY_AFTER_SECONDS"
  proof -
    have "py_min y (Finite MAX_RETRY_AFTER_SECONDS) \<in> {Nan, Neg_inf} \<or>
        (\<exists>t. py_min y (Finite MAX_RETRY_AFTER_SECONDS) = Finite t \<and> t \<le> MAX_RETRY_AFTER_SECONDS)" for y
      by (cases y) (auto simp: py_min_def)
    then show thesis
      using that by (fastforce simp: parse_retry_after_def Let_def split: option.splits list.splits)
  qed
  then show ?thesis
    using assms Inr
    by cases (auto simp: sleep_of_def wait_of_def py_max_def backoff_def max_def not_less)
qed (simp add: sleep_of_def)

lemma request_loop_spec:
  assumes "request_loop H pol m send k waits w = (res, waits', w')" and "k \<le> m"
  defines "step \<equiv> \<lambda>v. snd (send v)"
  shows "\<exists>n. k + n \<le> m \<and> w' = (step ^^ Suc n) w \<and>
    (\<forall>i<n. retryable pol (fst (send ((step ^^ i) w)))) \<and>
    waits' = waits @ map (\<lambda>i. sleep_of H (fst (send ((step ^^ i) w))) (Suc (k + i))) [0..<n] \<and>
    (\<forall>i<n. sleep_of H (fst (send ((step ^^ i) w))) (Suc (k + i)) \<noteq> Nan) \<and>
    (let x = fst (send ((step ^^ n) w)) in
       res = result_of x \<and> (k + n = m \<or> \<not> retryable pol x) \<or>
       res = Inl Bad_sleep \<and> retryable pol x \<and> k + n < m \<and> sleep_of H x (Suc (k + n)) = Nan)"
  using assms(1,2)
proof (induction "m - k" arbitrary: k waits w)
  case (0 k waits w)
  then have "k = m" by simp
  then show ?case
    using 0(2) request_loop_step[of send w "fst (send w)" "snd (send w)" H pol m k waits]
    by (intro exI[of _ 0]) (auto simp: step_def)
next
  case (Suc d k waits w)
  obtain x v where s: "send w = (x, v)" by fastforce
  note eq = request_loop_step[of send w x v H pol m k waits, OF s]
  show ?case
  proof (cases "retryable pol x \<and> k < m \<and> sleep_of H x (Suc k) \<noteq> Nan")
    case False
    then show ?thesis
      using Suc.prems eq s by (intro exI[of _ 0]) (auto simp: step_def split: if_splits)
  next
    case True
    then have r: "request_loop H pol m send (Suc k) (waits @ [sleep_of H x (Suc k)]) v = (res, waits', w')"
      using Suc.prems(1) eq by simp
    have "d = m - Suc k" "Suc k \<le> m" using Suc.hyps(2) True by simp_all
    from Suc.hyps(1)[OF this(1) r this(2)] obtain n where
      n: "Suc k + n \<le> m" "w' = (step ^^ Suc n) v" "\<forall>i<n. retryable pol (fst (send ((step ^^ i) v)))"
        "waits' = (waits @ [sleep_of H x (Suc k)]) @
           map (\<lambda>i. sleep_of H (fst (send ((step ^^ i) v))) (Suc (Suc k + i))) [0..<n]"
        "\<forall>i<n. sleep_of H (fst (send ((step ^^ i) v))) (Suc (Suc k + i)) \<noteq> Nan"
        "let x = fst (send ((step ^^ n) v)) in
          res = result_of x \<and> (Suc k + n = m \<or> \<not> retryable pol x) \<or>
          res = Inl Bad_sleep \<and> retryable pol x \<and> Suc k + n < m \<and> sleep_of H x (Suc (Suc k + n)) = Nan"
      by blast
    have "step w = v" by (simp add: step_def s)
    then have shift: "(step ^^ Suc i) w = (step ^^ i) v" for i
      by (simp only: funpow_Suc_right comp_apply)
    have first: "fst (send ((step ^^ 0) w)) = x" by (simp add: s)
    have le: "(\<forall>i<Suc n. P i) \<longleftrightarrow> P 0 \<and> (\<forall>i<n. P (Suc i))" for P
      by (rule All_less_Suc2)
    show ?thesis
    proof (intro exI[of _ "Suc n"] conjI)
      show "k + Suc n \<le> m" "w' = (step ^^ Suc (Suc n)) w" using n(1,2) by (simp_all only: shift)
      show "\<forall>i<Suc n. retryable pol (fst (send ((step ^^ i) w)))"
        "\<forall>i<Suc n. sleep_of H (fst (send ((step ^^ i) w))) (Suc (k + i)) \<noteq> Nan"
        unfolding le shift first using n(3,5) True by simp_all
      show "waits' = waits @ map (\<lambda>i. sleep_of H (fst (send ((step ^^ i) w))) (Suc (k + i))) [0..<Suc n]"
        unfolding n(4) map_upt_Suc shift first by simp
      show "let x = fst (send ((step ^^ Suc n) w)) in
          res = result_of x \<and> (k + Suc n = m \<or> \<not> retryable pol x) \<or>
          res = Inl Bad_sleep \<and> retryable pol x \<and> k + Suc n < m \<and> sleep_of H x (Suc (k + Suc n)) = Nan"
        unfolding shift using n(6) by simp
    qed
  qed
qed

subsection \<open>Pagination\<close>

lemma paginate_loop_cases:
  assumes "paginate_loop br allowed fetch key m visited items url w = (res, w')"
  obtains (last_page) "url = None" "res = Inr items" "w' = w"
  | (refused) u e where "url = Some u" "res = Inl e" "w' = w"
      "is_same_origin br u allowed \<noteq> Some True \<or> u \<in> set visited \<or> m \<le> length visited"
  | (failed) u e where "url = Some u" "is_same_origin br u allowed = Some True" "u \<notin> set visited" "length visited < m"
      "res = Inl e" "w' = snd (fetch u w)"
  | (page) u r v xs nxt where "url = Some u" "is_same_origin br u allowed = Some True" "u \<notin> set visited" "length visited < m"
      "fetch u w = (Inr r, v)" "page_of key r = Inr (xs, nxt)"
      "paginate_loop br allowed fetch key m (u # visited) (items @ xs) nxt v = (res, w')"
proof (cases url)
  case None
  then show thesis using last_page assms by (simp add: paginate_loop.simps)
next
  case (Some u)
  show thesis
  proof (cases "is_same_origin br u allowed = Some True \<and> u \<notin> set visited \<and> length visited < m")
    case False
    then obtain e where "(res, w') = (Inl e, w)"
      using assms Some by (subst (asm) paginate_loop.simps) (auto split: option.splits bool.splits if_splits)
    then show thesis using refused[OF Some, of e] False by auto
  next
    case ok: True
    obtain a v where f: "fetch u w = (a, v)" by fastforce
    show thesis
    proof (cases a)
      case (Inl e)
      then show thesis
        using failed[OF Some, of "Fetch_failed e"] ok f assms Some by (simp add: paginate_loop.simps)
    next
      case (Inr r)
      show thesis
      proof (cases "page_of key r")
        case (Inl e)
        then show thesis using failed[OF Some, of e] ok f assms Some Inr by (simp add: paginate_loop.simps)
      next
        case pg: (Inr q)
        obtain xs nxt where q: "q = (xs, nxt)" by fastforce
        have "paginate_loop br allowed fetch key m (u # visited) (items @ xs) nxt v = (res, w')"
          using ok f assms Some Inr pg q by (subst (asm) paginate_loop.simps) simp
        then show thesis using page[OF Some] ok f Inr pg q by blast
      qed
    qed
  qed
qed

lemma paginate_loop_log:
  assumes srv: "\<And>u w. served (snd (fetch u w)) = served w @ [u]"
    and "paginate_loop br allowed fetch key m visited items url w = (res, w')" and "distinct visited" and "length visited \<le> m"
  shows "\<exists>us. served w' = served w @ us \<and> distinct us \<and> set us \<inter> set visited = {} \<and> length us + length visited \<le> m \<and>
    (\<forall>u \<in> set us. is_same_origin br u allowed = Some True)"
  using assms(2-4)
proof (induction "m - length visited" arbitrary: visited items url w rule: less_induct)
  case less
  from less.prems(1) show ?case
  proof (cases rule: paginate_loop_cases)
    case (failed u e)
    then show ?thesis by (intro exI[of _ "[u]"]) (simp add: srv)
  next
    case (page u r v xs nxt)
    have v: "served v = served w @ [u]" using srv[of u w] page(5) by simp
    have "m - length (u # visited) < m - length visited" using page(4) by simp
    from less.hyps[OF this page(7)] less.prems(2) page(3,4) obtain us where
        "served w' = served v @ us" "distinct us" "set us \<inter> set (u # visited) = {}" "length us + length (u # visited) \<le> m"
        "\<forall>u \<in> set us. is_same_origin br u allowed = Some True"
      by auto
    with v page(2,3) show ?thesis by (intro exI[of _ "u # us"]) auto
  qed (use less.prems in \<open>auto intro!: exI[of _ "[]"]\<close>)
qed

text \<open>What the server offers: the pages from a link on, and the world after they are read.\<close>

inductive pages ::
  "(string \<Rightarrow> 'w \<Rightarrow> (call_error + response) \<times> 'w) \<Rightarrow> string \<Rightarrow> string option \<Rightarrow> 'w \<Rightarrow> (string \<times> pyval list) list \<Rightarrow> 'w \<Rightarrow> bool"
  for fetch key where
  none: "pages fetch key None w [] w"
| more: "fetch u w = (Inr r, v) \<Longrightarrow> page_of key r = Inr (xs, nxt) \<Longrightarrow> pages fetch key nxt v ps w' \<Longrightarrow>
    pages fetch key (Some u) w ((u, xs) # ps) w'"

lemma paginate_loop_complete:
  assumes "pages fetch key url w ps w'" and "distinct (map fst ps @ visited)" and "length ps + length visited \<le> m"
    and "\<forall>p \<in> set ps. is_same_origin br (fst p) allowed = Some True"
  shows "paginate_loop br allowed fetch key m visited items url w = (Inr (items @ concat (map snd ps)), w')"
  using assms
proof (induction arbitrary: visited items rule: pages.induct)
  case (none w)
  then show ?case by (simp add: paginate_loop.simps)
next
  case (more u w r v xs nxt ps w')
  have "paginate_loop br allowed fetch key m (u # visited) (items @ xs) nxt v =
      (Inr ((items @ xs) @ concat (map snd ps)), w')"
    using more.prems by (intro more.IH) auto
  then show ?case using more.prems more.hyps by (subst paginate_loop.simps) simp
qed

subsection \<open>Path segments\<close>

lemma hex_up_inj: "d < 16 \<Longrightarrow> e < 16 \<Longrightarrow> hex_up d = hex_up e \<longleftrightarrow> d = e"
  unfolding hex_up_def by (auto dest!: arg_cong[where f = code])

lemma pct_inj: "m < 256 \<Longrightarrow> n < 256 \<Longrightarrow> pct m = pct n \<longleftrightarrow> m = n"
  using hex_up_inj[of "m div 16" "n div 16"] hex_up_inj[of "m mod 16" "n mod 16"]
  by (auto simp: pct_def) (metis div_mult_mod_eq)

lemma unreserved_pct: "\<not> unreserved (CHR ''%'')"
  by code_simp

lemma hex_up_unreserved: "d < 16 \<Longrightarrow> unreserved (hex_up d)"
  by (auto simp: hex_up_def unreserved_def is_alpha_def is_upper_def is_lower_def is_digit_def)

lemma utf8_bytes: "192 + code c div 64 < 256" "128 + code c mod 64 < 256"
  "(192 + code c div 64) div 16 < 16" "(128 + code c mod 64) div 16 < 16" "code c div 16 < 16"
proof -
  have "code c div 64 < 4" "code c mod 64 < 64" "code c div 16 < 16"
    using code_less_256[of c] by (simp_all add: less_mult_imp_div_less)
  then show le: "192 + code c div 64 < 256" "128 + code c mod 64 < 256" "code c div 16 < 16"
    by linarith+
  then show "(192 + code c div 64) div 16 < 16" "(128 + code c mod 64) div 16 < 16"
    by (intro less_mult_imp_div_less; simp only: le mult_numeral_1_right numeral_times_numeral semiring_norm)+
qed

lemma quote_char_prefix_free:
  assumes "quote_char c @ xs = quote_char d @ ys"
  shows "c = d \<and> xs = ys"
proof -
  have two: "code x < 128 \<and> \<not> unreserved x \<and> quote_char x = pct (code x) \<or> 128 \<le> code x \<and> \<not> unreserved x \<and>
      quote_char x = pct (192 + code x div 64) @ pct (128 + code x mod 64)" if "\<not> unreserved x" for x
    using that by (simp add: quote_char_def Let_def not_less)
  have un: "quote_char x = [x]" if "unreserved x" for x using that by (simp add: quote_char_def)
  note small = utf8_bytes(1,2)
  have len: "length (pct n) = 3" and hd: "\<exists>t. pct n = CHR ''%'' # t" for n by (simp_all add: pct_def)
  show ?thesis
  proof (cases "unreserved c \<or> unreserved d")
    case True
    then show ?thesis
      using assms un two unreserved_pct hd by (cases "unreserved c"; cases "unreserved d") (fastforce simp: pct_def)+
  next
    case False
    then have q: "\<not> unreserved c" "\<not> unreserved d" by auto
    from two[OF q(1)] two[OF q(2)] show ?thesis
    proof (elim disjE conjE)
      assume "code c < 128" "quote_char c = pct (code c)" "code d < 128" "quote_char d = pct (code d)"
      then show ?thesis using assms pct_inj[of "code c" "code d"] by (simp add: len)
    next
      assume "code c < 128" "quote_char c = pct (code c)" "128 \<le> code d"
        "quote_char d = pct (192 + code d div 64) @ pct (128 + code d mod 64)"
      then show ?thesis using assms pct_inj[of "code c" "192 + code d div 64"] small[of d] by (simp add: len)
    next
      assume "code d < 128" "quote_char d = pct (code d)" "128 \<le> code c"
        "quote_char c = pct (192 + code c div 64) @ pct (128 + code c mod 64)"
      then show ?thesis using assms pct_inj[of "192 + code c div 64" "code d"] small[of c] by (simp add: len)
    next
      assume "quote_char c = pct (192 + code c div 64) @ pct (128 + code c mod 64)"
        "quote_char d = pct (192 + code d div 64) @ pct (128 + code d mod 64)"
      then have "code c div 64 = code d div 64" "code c mod 64 = code d mod 64" "xs = ys"
        using assms pct_inj[OF small(1) small(1), of c d] pct_inj[OF small(2) small(2), of c d] by (simp_all add: len)
      then have "code c = code d" by (metis div_mult_mod_eq)
      then show ?thesis using \<open>xs = ys\<close> by simp
    qed
  qed
qed

lemma quote_inj: "quote s = quote t \<Longrightarrow> s = t"
proof (induction s arbitrary: t)
  case Nil
  then show ?case by (cases t) (auto simp: quote_def quote_char_def pct_def Let_def split: if_splits)
next
  case (Cons c s)
  have "quote_char x \<noteq> []" for x by (simp add: quote_char_def pct_def Let_def)
  then obtain d u where "t = d # u" using Cons.prems by (cases t) (auto simp: quote_def)
  then show ?case using Cons quote_char_prefix_free by (fastforce simp: quote_def)
qed

lemma quote_chars: "c \<in> set (quote s) \<Longrightarrow> unreserved c \<or> c = CHR ''%''"
proof -
  have "unreserved c \<or> c = CHR ''%''" if "c \<in> set (quote_char x)" for x
    using that utf8_bytes(3-5)[of x] by (auto simp: quote_char_def pct_def Let_def hex_up_unreserved split: if_splits)
  then show "c \<in> set (quote s) \<Longrightarrow> unreserved c \<or> c = CHR ''%''" by (auto simp: quote_def)
qed

lemma quote_nonempty: "quote s = [] \<longleftrightarrow> s = []"
  using quote_inj[of s "[]"] by (auto simp: quote_def)

section \<open>Properties\<close>

text \<open>A server that fails twice and then answers.\<close>

definition ex_response :: "nat \<Rightarrow> response" where
  "ex_response n = \<lparr>status_code = n, retry_after = (if n = 429 then Some ''7'' else None), json_body = None, body_text = []\<rparr>"

definition ex_send :: "nat \<Rightarrow> outcome \<times> nat" where
  "ex_send i = (if i = 0 then Inr (ex_response 429) else if i = 1 then Inl Connect_error else Inr (ex_response 200), Suc i)"

definition ex_header :: header_env where
  "ex_header = \<lparr>he_float = \<lambda>s. if s = ''7'' then Some (Finite 7) else None, he_date = \<lambda>_. None\<rparr>"

lemma ex_request: "request_with_retry ex_header NON_IDEMPOTENT 3 ex_send 0 =
    (Inr (ex_response 200), [Finite 7, Finite 4], 3)"
  by code_simp

definition ex_page :: "string \<Rightarrow> pyval" where
  "ex_page u = PDict ((''value'', PList [PStr u]) # (if u = ''/r'' then [(''nextLink'', PStr ''https://m.com/b'')] else []))"

definition ex_fetch :: "string \<Rightarrow> string list \<Rightarrow> (call_error + response) \<times> string list" where
  "ex_fetch u w = (Inr ((ex_response 200)\<lparr>json_body := Some (ex_page u)\<rparr>), w @ [u])"

text \<open>What the server answers to the request number \<open>i\<close>, and the world after it.\<close>

definition world_at :: "('w \<Rightarrow> outcome \<times> 'w) \<Rightarrow> 'w \<Rightarrow> nat \<Rightarrow> 'w" where
  "world_at send w i = ((\<lambda>v. snd (send v)) ^^ i) w"

definition reply :: "('w \<Rightarrow> outcome \<times> 'w) \<Rightarrow> 'w \<Rightarrow> nat \<Rightarrow> outcome" where
  "reply send w i = fst (send (world_at send w i))"

lemma world_at_simps [simp]: "world_at send w 0 = w"
  "world_at send w (Suc i) = snd (send (world_at send w i))"
  by (simp_all add: world_at_def)

lemma request_shape:
  assumes "request_with_retry H pol m send w = (res, waits, w')"
  shows "\<exists>n\<le>m. w' = world_at send w (Suc n) \<and> (\<forall>i<n. retryable pol (reply send w i)) \<and>
    waits = map (\<lambda>i. sleep_of H (reply send w i) (Suc i)) [0..<n] \<and>
    (\<forall>i<n. sleep_of H (reply send w i) (Suc i) \<noteq> Nan) \<and>
    (res = result_of (reply send w n) \<and> (n = m \<or> \<not> retryable pol (reply send w n)) \<or>
     res = Inl Bad_sleep \<and> retryable pol (reply send w n) \<and> n < m \<and> sleep_of H (reply send w n) (Suc n) = Nan)"
  using request_loop_spec[OF assms[unfolded request_with_retry_def]]
  unfolding world_at_def[symmetric] Let_def reply_def[symmetric] by simp

lemma nan_sleep:
  assumes "sleep_of H x k = Nan"
  shows "\<exists>r raw. x = Inr r \<and> retry_after r = Some raw \<and> he_float H (strip raw) = Some Nan"
proof -
  have "py_min y (Finite MAX_RETRY_AFTER_SECONDS) = Nan \<longleftrightarrow> y = Nan" for y
    by (cases y) (auto simp: py_min_def)
  moreover have "py_max y (Finite z) = Nan \<longleftrightarrow> y = Nan" for y z
    by (cases y) (auto simp: py_max_def)
  ultimately show ?thesis
    using assms
    by (fastforce simp: sleep_of_def wait_of_def parse_retry_after_def Let_def split: sum.splits option.splits list.splits)
qed

text \<open>
  C24. Every call ends after at most \<open>max_retries\<close> retries. It retries exactly while the replies are
  retryable, sleeps before retry \<open>i\<close> at least \<open>2^i\<close> and at most the larger of that and 120 seconds, and
  returns the last reply, which is final or the last one allowed; only a header that reads as NaN ends it
  otherwise, in the exception of \<open>time.sleep\<close>.
\<close>

theorem request_bounded:
  assumes "request_with_retry H pol m send w = (res, waits, w')"
  shows "\<exists>n\<le>m. w' = world_at send w (Suc n) \<and> (\<forall>i<n. retryable pol (reply send w i)) \<and> length waits = n \<and>
    (\<forall>i<n. \<exists>t. waits ! i = Finite t \<and> 2 ^ Suc i \<le> t \<and> t \<le> max (2 ^ Suc i) 120) \<and>
    (res = result_of (reply send w n) \<and> (n = m \<or> \<not> retryable pol (reply send w n)) \<or>
     res = Inl Bad_sleep \<and> n < m \<and>
       (\<exists>r raw. reply send w n = Inr r \<and> retry_after r = Some raw \<and> he_float H (strip raw) = Some Nan))"
proof -
  obtain n where n: "n \<le> m" "w' = world_at send w (Suc n)" "\<forall>i<n. retryable pol (reply send w i)"
      "waits = map (\<lambda>i. sleep_of H (reply send w i) (Suc i)) [0..<n]"
      "\<forall>i<n. sleep_of H (reply send w i) (Suc i) \<noteq> Nan"
      "res = result_of (reply send w n) \<and> (n = m \<or> \<not> retryable pol (reply send w n)) \<or>
       res = Inl Bad_sleep \<and> retryable pol (reply send w n) \<and> n < m \<and> sleep_of H (reply send w n) (Suc n) = Nan"
    using request_shape[OF assms] by blast
  have "\<exists>t. waits ! i = Finite t \<and> 2 ^ Suc i \<le> t \<and> t \<le> max (2 ^ Suc i) 120" if "i < n" for i
    using finite_wait[of H "reply send w i" "Suc i"] n(4,5) that
    by (auto simp: backoff_def MAX_RETRY_AFTER_SECONDS_def)
  then show ?thesis
    using n nan_sleep[of H "reply send w n"] by (intro exI[of _ n]) auto
qed

theorem request_bounded_witness:
  "\<exists>n\<le>3. n = 2 \<and> [Finite 7, Finite 4 :: pyfloat] ! 0 = Finite 7 \<and> (3::nat) = world_at ex_send 0 (Suc n)"
proof -
  from request_bounded[OF ex_request] obtain n where
    n: "n \<le> 3" "3 = world_at ex_send 0 (Suc n)" "length [Finite 7, Finite 4 :: pyfloat] = n" by blast
  then show ?thesis by (intro exI[of _ n]) auto
qed

text \<open>C25. A call meets the first final reply when it comes within the allowed requests.\<close>

theorem request_recovers:
  assumes "n \<le> m" and "\<And>i. i < n \<Longrightarrow> retryable pol (reply send w i) \<and> sleep_of H (reply send w i) (Suc i) \<noteq> Nan"
    and "\<not> retryable pol (reply send w n)"
  shows "fst (request_with_retry H pol m send w) = result_of (reply send w n)"
proof -
  obtain res waits w' where r: "request_with_retry H pol m send w = (res, waits, w')" by (metis prod_cases3)
  obtain k where k: "k \<le> m" "\<forall>i<k. retryable pol (reply send w i)"
      "res = result_of (reply send w k) \<and> (k = m \<or> \<not> retryable pol (reply send w k)) \<or>
       res = Inl Bad_sleep \<and> retryable pol (reply send w k) \<and> k < m \<and> sleep_of H (reply send w k) (Suc k) = Nan"
    using request_shape[OF r] by blast
  have "k = n"
    using k assms by (cases k n rule: linorder_cases) auto
  then show ?thesis using k(3) assms(3) r by simp
qed

theorem request_recovers_witness:
  "fst (request_with_retry ex_header NON_IDEMPOTENT 3 ex_send 0) = result_of (reply ex_send 0 2)"
proof (rule request_recovers)
  fix i :: nat
  assume "i < 2"
  then consider "i = 0" | "i = 1" by linarith
  then show "retryable NON_IDEMPOTENT (reply ex_send 0 i) \<and> sleep_of ex_header (reply ex_send 0 i) (Suc i) \<noteq> Nan"
    by cases (hypsubst, code_simp)+
next
  show "\<not> retryable NON_IDEMPOTENT (reply ex_send 0 2)" by code_simp
qed simp

text \<open>
  The replies after which a request was certainly not processed: throttled (429), or no connection was made.
  A 5xx or a read timeout is not among them: the server may have committed before the gateway gave up.
\<close>

definition never_processed :: "outcome \<Rightarrow> bool" where
  "never_processed x \<longleftrightarrow> (\<exists>r. x = Inr r \<and> status_code r = 429) \<or> x \<in> {Inl Connect_error, Inl Connect_timeout, Inl Pool_timeout}"

lemma retryable_never_processed: "retryable NON_IDEMPOTENT x \<Longrightarrow> never_processed x"
  by (cases x) (auto simp: retryable_def NON_IDEMPOTENT_def never_processed_def)

text \<open>A server that commits behind a gateway that gives up: a retried 503 would create twice.\<close>

definition ex_gateway :: "nat \<times> nat \<Rightarrow> outcome \<times> nat \<times> nat" where
  "ex_gateway v = (case v of (i, c) \<Rightarrow>
     if i = 0 then (Inr (ex_response 429), 1, c) else if i = 1 then (Inl Connect_error, 2, c) else (Inr (ex_response 503), Suc i, Suc c))"

text \<open>
  C26. A create is committed at most once: under the policy of calls that are not idempotent, with any server that
  commits at most once per request and nothing for a request it throttled or that never connected; a 5xx or a
  timeout may have committed.
\<close>

theorem create_at_most_once:
  fixes commits :: "'w \<Rightarrow> nat"
  assumes once: "\<And>v. commits (snd (send v)) \<le> Suc (commits v)"
    and unprocessed: "\<And>v. never_processed (fst (send v)) \<Longrightarrow> commits (snd (send v)) = commits v"
    and "request_with_retry H NON_IDEMPOTENT m send w = (res, waits, w')"
  shows "commits w' \<le> Suc (commits w)"
proof -
  obtain n where n: "w' = world_at send w (Suc n)" "\<forall>i<n. retryable NON_IDEMPOTENT (reply send w i)"
    using request_shape[OF assms(3)] by blast
  have "i \<le> n \<Longrightarrow> commits (world_at send w i) = commits w" for i
    by (induction i) (use n(2) unprocessed retryable_never_processed in \<open>auto simp: reply_def\<close>)
  then show ?thesis using n(1) once[of "world_at send w n"] by simp
qed

theorem create_at_most_once_witness:
  "\<exists>w'. snd (snd (request_with_retry ex_header NON_IDEMPOTENT 3 ex_gateway (0, 0))) = w' \<and> snd w' \<le> 1 \<and> w' = (3, 1) \<and>
    snd (snd (snd (request_with_retry ex_header RETRYABLE 3 ex_gateway (0, 0)))) = 2"
proof -
  have r: "request_with_retry ex_header NON_IDEMPOTENT 3 ex_gateway (0, 0) =
      (Inr (ex_response 503), [Finite 7, Finite 4], (3, 1))"
    "snd (snd (snd (request_with_retry ex_header RETRYABLE 3 ex_gateway (0, 0)))) = 2" by code_simp+
  have "snd (3 :: nat, 1 :: nat) \<le> Suc (snd (0 :: nat, 0 :: nat))"
    by (rule create_at_most_once[OF _ _ r(1), where commits = snd])
       (auto simp: ex_gateway_def never_processed_def ex_response_def split: prod.splits if_splits)
  then show ?thesis using r by simp
qed

text \<open>
  Pagination follows at most \<open>max_pages\<close> links, no link twice, and sends nothing to another origin,
  whatever the server answers.
\<close>

theorem paginate_confined:
  assumes "\<And>u v. served (snd (fetch u v)) = served v @ [u]"
    and "paginate br fetch first_url key m base_url w = (res, w')"
  shows "\<exists>us. served w' = served w @ us \<and> distinct us \<and> length us \<le> m \<and>
    (\<forall>u \<in> set us. \<exists>a. allowed_origin br first_url base_url = Some a \<and> is_same_origin br u a = Some True)"
proof (cases "allowed_origin br first_url base_url")
  case None
  then show ?thesis using assms(2) by (simp add: paginate_def)
next
  case (Some a)
  then have "paginate_loop br a fetch key m [] [] (if first_url = [] then None else Some first_url) w = (res, w')"
    using assms(2) by (simp add: paginate_def)
  from paginate_loop_log[OF assms(1) this] Some show ?thesis by auto
qed

theorem paginate_confined_witness:
  "\<exists>us. snd (paginate (\<lambda>_. True) ex_fetch ''/r'' ''nextLink'' 9 (Some ''https://M.com/v1'') []) = us \<and>
    distinct us \<and> length us \<le> 9 \<and> us = [''/r'', ''https://m.com/b'']"
proof -
  let ?r = "paginate (\<lambda>_. True) ex_fetch ''/r'' ''nextLink'' 9 (Some ''https://M.com/v1'') []"
  have w: "snd ?r = [''/r'', ''https://m.com/b'']" by code_simp
  have "served (snd (ex_fetch u v)) = served v @ [u]" if "served = (\<lambda>w. w)" for served u v
    using that by (simp add: ex_fetch_def)
  from paginate_confined[of "\<lambda>w. w", OF this[OF refl] surjective_pairing] w show ?thesis by auto
qed

text \<open>
  Pagination is complete: where the server offers distinct pages of one origin, at most \<open>max_pages\<close>, up
  to one without a link, the items of all of them are returned in order.
\<close>

theorem paginate_complete:
  assumes "pages fetch key (Some first_url) w ps w'" and "first_url \<noteq> []"
    and "allowed_origin br first_url base_url = Some a"
    and "distinct (map fst ps)" and "length ps \<le> m" and "\<forall>p \<in> set ps. is_same_origin br (fst p) a = Some True"
  shows "paginate br fetch first_url key m base_url w = (Inr (concat (map snd ps)), w')"
  using paginate_loop_complete[OF assms(1), of "[]" m br a "[]"] assms(2-6) by (simp add: paginate_def)

theorem paginate_complete_witness:
  "paginate (\<lambda>_. True) ex_fetch ''/r'' ''nextLink'' 9 (Some ''https://M.com/v1'') [] =
    (Inr (concat (map snd [(''/r'', [PStr ''/r'']), (''https://m.com/b'', [PStr ''https://m.com/b''])])),
     [''/r'', ''https://m.com/b''])"
proof (rule paginate_complete)
  show "pages ex_fetch ''nextLink'' (Some ''/r'') [] [(''/r'', [PStr ''/r'']), (''https://m.com/b'', [PStr ''https://m.com/b''])]
      [''/r'', ''https://m.com/b'']"
    by (rule pages.intros, simp add: ex_fetch_def, code_simp)
       (rule pages.intros, simp add: ex_fetch_def, code_simp, simp add: pages.none)
  show "allowed_origin (\<lambda>_. True) ''/r'' (Some ''https://M.com/v1'') = Some (Some ''https://m.com'')" by code_simp
  show "\<forall>p \<in> set [(''/r'', [PStr ''/r'']), (''https://m.com/b'', [PStr ''https://m.com/b''])].
      is_same_origin (\<lambda>_. True) (fst p) (Some ''https://m.com'') = Some True" by code_simp
qed simp_all

text \<open>
  A name becomes exactly one path segment: what is quoted has no separator, delimiter or control
  character and is no relative segment, and two names never share one.
\<close>

theorem path_segment_safe:
  assumes "safe_path_segment s = Some t"
  shows "t \<notin> {[], ''.'', ''..''} \<and> (\<forall>c \<in> set t. unreserved c \<or> c = CHR ''%'') \<and>
    (\<forall>s'. safe_path_segment s' = Some t \<longrightarrow> s' = s)"
proof (intro conjI allI impI)
  have sp: "safe_path_segment x = Some y \<Longrightarrow> y = quote x" for x y
    by (auto simp: safe_path_segment_def split: if_splits)
  show "\<forall>c \<in> set t. unreserved c \<or> c = CHR ''%''" using quote_chars sp[OF assms] by blast
  show "s' = s" if "safe_path_segment s' = Some t" for s'
    by (rule quote_inj) (use sp[OF that] sp[OF assms] in simp)
  have strip_nil: "strip [] = []" by code_simp
  have "quote [] = []" "quote ''.'' = ''.''" "quote ''..'' = ''..''" by code_simp+
  moreover have "s \<notin> {[], ''.'', ''..''}" "t = quote s"
    using assms strip_nil by (auto simp: safe_path_segment_def split: if_splits)
  ultimately show "t \<notin> {[], ''.'', ''..''}" using quote_inj[of s] by (metis insert_iff empty_iff)
qed

theorem path_segment_safe_witness: "safe_path_segment ''a b'' = Some ''a%20b'' \<and> ''a%20b'' \<noteq> ''..''"
proof -
  have q: "safe_path_segment ''a b'' = Some ''a%20b''" by code_simp
  with path_segment_safe[OF q, THEN conjunct1] show ?thesis by simp
qed

end
