(* ===== verification/Arm.thy ===== *)
theory Arm
  imports Http_Retry Results Config Discovery Slug
begin

text \<open>
  The Sentinel ARM client, \<open>contentops/providers/sentinel_arm.py\<close>, and what every write handler
  shares: \<open>contentops/handlers/_verify.py\<close>, \<open>_delete.py\<close> and the protected PUT with its read-back that
  the handlers of \<open>contentops/handlers/\<close> repeat. The HTTP transport with its authentication is a field
  of the client: one request, which also lets whoever else writes to the workspace act.
\<close>

section \<open>Exceptions and effects\<close>

datatype py_exc =
    Unsafe_segment
  | Call_failed call_error
  | Http_error nat               \<comment> \<open>\<open>raise_for_status\<close>\<close>
  | Bad_json
  | Listing page_error
  | Type_error                   \<comment> \<open>\<open>AttributeError\<close> and \<open>TypeError\<close>\<close>
  | Key_error string
  | Payload_error string         \<comment> \<open>\<open>ValueError\<close>, also pydantic's\<close>
  | No_provider
  | Not_supported
  | Click_error string          \<comment> \<open>\<open>ClickException\<close>\<close>

type_synonym ('w, 'a) eff = "'w \<Rightarrow> (py_exc + 'a) \<times> 'w"

definition ebind :: "('w, 'a) eff \<Rightarrow> ('a \<Rightarrow> ('w, 'b) eff) \<Rightarrow> ('w, 'b) eff" where
  "ebind m f w = (case m w of (Inl e, w') \<Rightarrow> (Inl e, w') | (Inr x, w') \<Rightarrow> f x w')"

definition elift :: "py_exc + 'a \<Rightarrow> ('w, 'a) eff" where
  "elift r w = (r, w)"

definition eret :: "'a \<Rightarrow> ('w, 'a) eff" where
  "eret x w = (Inr x, w)"

section \<open>The client\<close>

record request =
  rq_method :: string
  rq_url :: string
  rq_body :: "pyval option"
  rq_if_match :: "string option"

record 'w arm =
  a_http :: "request \<Rightarrow> 'w \<Rightarrow> outcome \<times> 'w"
  a_header :: header_env
  a_brackets :: "string \<Rightarrow> bool"
  a_config :: workspace

definition API_VERSION :: string where "API_VERSION = ''2025-07-01-preview''"

definition ARM_BASE_URL :: string where "ARM_BASE_URL = ''https://management.azure.com''"

definition LA_API_VERSION :: string where "LA_API_VERSION = ''2023-09-01''"

definition la_workspace_path :: "'w arm \<Rightarrow> string" where
  "la_workspace_path A =
    ''/subscriptions/'' @ subscriptionId (a_config A) @ ''/resourceGroups/'' @ resourceGroup (a_config A) @
    ''/providers/Microsoft.OperationalInsights'' @ ''/workspaces/'' @ workspaceName (a_config A)"

definition workspace_path :: "'w arm \<Rightarrow> string" where
  "workspace_path A = la_workspace_path A @ ''/providers/Microsoft.SecurityInsights''"

text \<open>\<open>f"{path}/{safe_path_segment(name)}" if name else path\<close>.\<close>

definition with_segment :: "string \<Rightarrow> string option \<Rightarrow> py_exc + string" where
  "with_segment path name = (case name of
     None \<Rightarrow> Inr path
   | Some [] \<Rightarrow> Inr path
   | Some n \<Rightarrow> (case safe_path_segment n of None \<Rightarrow> Inl Unsafe_segment | Some s \<Rightarrow> Inr (path @ ''/'' @ s)))"

definition with_api :: "string \<Rightarrow> string \<Rightarrow> string" where
  "with_api path api = path @ ''?api-version='' @ api"

definition la_resource_url :: "'w arm \<Rightarrow> string \<Rightarrow> string option \<Rightarrow> string \<Rightarrow> py_exc + string" where
  "la_resource_url A ty name api =
    rbind (with_segment (la_workspace_path A @ ''/'' @ ty) name) (\<lambda>p. Inr (with_api p api))"

definition resource_url :: "'w arm \<Rightarrow> string \<Rightarrow> string option \<Rightarrow> string \<Rightarrow> string option \<Rightarrow> py_exc + string" where
  "resource_url A ty name api child =
    rbind (with_segment (workspace_path A @ ''/'' @ ty) name) (\<lambda>p.
      Inr (with_api (case child of None \<Rightarrow> p | Some [] \<Rightarrow> p | Some c \<Rightarrow> p @ ''/'' @ c) api))"

definition resource_group_path :: "'w arm \<Rightarrow> string \<Rightarrow> py_exc + string" where
  "resource_group_path A rg = (case safe_path_segment rg of
     None \<Rightarrow> Inl Unsafe_segment
   | Some s \<Rightarrow> Inr (''/subscriptions/'' @ subscriptionId (a_config A) @ ''/resourceGroups/'' @ s))"

definition resource_group_resource_url ::
  "'w arm \<Rightarrow> string \<Rightarrow> string \<Rightarrow> string \<Rightarrow> string option \<Rightarrow> string \<Rightarrow> py_exc + string" where
  "resource_group_resource_url A rg namespace ty name api =
    rbind (resource_group_path A rg) (\<lambda>p.
    rbind (with_segment (p @ ''/providers/'' @ namespace @ ''/'' @ ty) name) (\<lambda>p. Inr (with_api p api)))"

definition subscription_resource_url ::
  "'w arm \<Rightarrow> string \<Rightarrow> string \<Rightarrow> string option \<Rightarrow> string \<Rightarrow> py_exc + string" where
  "subscription_resource_url A = resource_group_resource_url A (resourceGroup (a_config A))"

text \<open>\<open>request\<close>, as \<open>paginate\<close> calls it and as a handler does; the log lines and sleeps are left out.\<close>

definition arm_call :: "'w arm \<Rightarrow> request \<Rightarrow> 'w \<Rightarrow> (call_error + response) \<times> 'w" where
  "arm_call A rq w = (case request_with_retry (a_header A) RETRYABLE 3 (a_http A rq) w of (res, _, w') \<Rightarrow> (res, w'))"

definition arm_request :: "'w arm \<Rightarrow> string \<Rightarrow> string \<Rightarrow> pyval option \<Rightarrow> string option \<Rightarrow> ('w, response) eff" where
  "arm_request A meth url body etag w =
    (case arm_call A \<lparr>rq_method = meth, rq_url = url, rq_body = body, rq_if_match = etag\<rparr> w of
       (Inl e, w') \<Rightarrow> (Inl (Call_failed e), w')
     | (Inr r, w') \<Rightarrow> (Inr r, w'))"

definition get_page :: "'w arm \<Rightarrow> string \<Rightarrow> 'w \<Rightarrow> (call_error + response) \<times> 'w" where
  "get_page A u = arm_call A \<lparr>rq_method = ''GET'', rq_url = u, rq_body = None, rq_if_match = None\<rparr>"

definition arm_paginate :: "'w arm \<Rightarrow> string \<Rightarrow> ('w, pyval list) eff" where
  "arm_paginate A url w =
    (case paginate (a_brackets A) (get_page A) url ''nextLink'' MAX_PAGES (Some ARM_BASE_URL) w of
       (Inl e, w') \<Rightarrow> (Inl (Listing e), w') | (Inr xs, w') \<Rightarrow> (Inr xs, w'))"

definition list_resource :: "'w arm \<Rightarrow> string \<Rightarrow> string \<Rightarrow> ('w, pyval list) eff" where
  "list_resource A ty api = ebind (elift (resource_url A ty None api None)) (arm_paginate A)"

text \<open>The \<open>type\<close> of a summary, compared in lower case; \<open>None\<close> where the item is no dictionary.\<close>

definition type_matches :: "string \<Rightarrow> pyval \<Rightarrow> bool option" where
  "type_matches wanted item = (case item of
     PDict d \<Rightarrow> Some (lower (if truthy (dget d ''type'') then py_str (dget d ''type'') else []) = wanted)
   | _ \<Rightarrow> None)"

definition list_resource_group_resources ::
  "'w arm \<Rightarrow> string \<Rightarrow> string \<Rightarrow> string option \<Rightarrow> string \<Rightarrow> ('w, pyval list) eff" where
  "list_resource_group_resources A rg filter_expr ty api =
    ebind (elift (resource_group_path A rg)) (\<lambda>p.
    ebind (arm_paginate A (with_api (p @ ''/resources'') api @ ''&$filter='' @ quote filter_expr)) (\<lambda>items.
      case ty of
        None \<Rightarrow> eret items
      | Some t \<Rightarrow>
          if None \<in> set (map (type_matches (lower t)) items) then elift (Inl Type_error)
          else eret (filter (\<lambda>i. type_matches (lower t) i = Some True) items)))"

text \<open>The body of a resource, \<open>PNone\<close> when there is none.\<close>

definition read_json :: "response \<Rightarrow> py_exc + pyval" where
  "read_json r = (case json_body r of None \<Rightarrow> Inl Bad_json | Some v \<Rightarrow> Inr v)"

definition get_url :: "'w arm \<Rightarrow> string \<Rightarrow> ('w, pyval) eff" where
  "get_url A url =
    ebind (arm_request A ''GET'' url None None) (\<lambda>r.
      if status_code r = 404 then eret PNone
      else if \<not> is_success r then elift (Inl (Http_error (status_code r)))
      else elift (read_json r))"

definition get_resource :: "'w arm \<Rightarrow> string \<Rightarrow> string \<Rightarrow> string \<Rightarrow> ('w, pyval) eff" where
  "get_resource A ty name api = ebind (elift (resource_url A ty (Some name) api None)) (get_url A)"

definition put_resource :: "'w arm \<Rightarrow> string \<Rightarrow> string \<Rightarrow> pyval \<Rightarrow> string option \<Rightarrow> ('w, response) eff" where
  "put_resource A ty name body etag =
    ebind (elift (resource_url A ty (Some name) API_VERSION None)) (\<lambda>url.
      arm_request A ''PUT'' url (Some body) etag)"

definition delete_resource :: "'w arm \<Rightarrow> string \<Rightarrow> string \<Rightarrow> string \<Rightarrow> ('w, response) eff" where
  "delete_resource A ty name api =
    ebind (elift (resource_url A ty (Some name) api None)) (\<lambda>url. arm_request A ''DELETE'' url None None)"

section \<open>Etags and content hashes\<close>

text \<open>A falsy etag counts as none, so that no \<open>If-Match\<close> is sent.\<close>

definition extract_etag :: "pyval \<Rightarrow> py_exc + string option" where
  "extract_etag remote =
    (if \<not> truthy remote then Inr None
     else case remote of
       PDict d \<Rightarrow>
         (if truthy (dget d ''etag'') then Inr (Some (py_str (dget d ''etag'')))
          else case dget d ''properties'' of
            PDict p \<Rightarrow> Inr (if truthy (dget p ''etag'') then Some (py_str (dget p ''etag'')) else None)
          | _ \<Rightarrow> Inr None)
     | _ \<Rightarrow> Inl Type_error)"

fun get_segments :: "string list \<Rightarrow> pyval \<Rightarrow> pyval" where
  "get_segments [] cur = cur"
| "get_segments (s # ss) cur = (case cur of PDict d \<Rightarrow> get_segments ss (dget d s) | _ \<Rightarrow> PNone)"

definition get_path :: "pyval \<Rightarrow> string \<Rightarrow> pyval" where
  "get_path body dotted = get_segments (split_on CHR ''.'' dotted) body"

definition project_fields :: "string list \<Rightarrow> pyval \<Rightarrow> pydict" where
  "project_fields fs body = mk_dict (map (\<lambda>f. (f, get_path body f)) fs)"

definition compute_projection_hash :: "(string \<Rightarrow> string) \<Rightarrow> pydict \<Rightarrow> string" where
  "compute_projection_hash h projection = h (dumps (sort_keys (PDict projection)))"

definition compute_content_hash :: "(string \<Rightarrow> string) \<Rightarrow> pyval \<Rightarrow> string list \<Rightarrow> string" where
  "compute_content_hash h body fs = compute_projection_hash h (project_fields fs body)"

definition hash_mismatch_error :: "string \<Rightarrow> string \<Rightarrow> string" where
  "hash_mismatch_error sent got =
    ''post-apply hash mismatch: sent='' @ take 8 sent @ ''... got='' @ take 8 got @ ''...''"

definition ETAG_CONFLICT_MESSAGE :: string where
  "ETAG_CONFLICT_MESSAGE = ''Remote etag changed since plan; rerun contentops plan and resolve drift''"

section \<open>Results of a delete\<close>

definition delete_result_from_response :: "string \<Rightarrow> asset_kind \<Rightarrow> response \<Rightarrow> action_result" where
  "delete_result_from_response remote_id k r =
    (if status_code r \<in> {200, 204, 404}
     then own_result remote_id k DELETE ''success'' (if status_code r = 404 then ''already absent (404)'' else ''deleted'')
     else let body = take 200 (body_text r) in
       (own_result remote_id k DELETE (''error-'' @ show_nat (status_code r)) body)\<lparr>r_error := Some body\<rparr>)"

definition delete_result_from_exception :: "string \<Rightarrow> asset_kind \<Rightarrow> string \<Rightarrow> action_result" where
  "delete_result_from_exception remote_id k msg =
    (own_result remote_id k DELETE ''error-exception'' (take 200 msg))\<lparr>r_error := Some (take 200 msg)\<rparr>"

text \<open>The \<open>delete\<close> of the handlers: any exception of the request becomes a result.\<close>

definition delete_by :: "(py_exc \<Rightarrow> string) \<Rightarrow> string \<Rightarrow> asset_kind \<Rightarrow> ('w, response) eff \<Rightarrow> 'w \<Rightarrow> action_result \<times> 'w" where
  "delete_by msg remote_id k call w = (case call w of
     (Inl e, w') \<Rightarrow> (delete_result_from_exception remote_id k (msg e), w')
   | (Inr r, w') \<Rightarrow> (delete_result_from_response remote_id k r, w'))"

section \<open>The protected PUT\<close>

text \<open>
  The second half of every \<open>apply\<close>: hash what is sent, PUT, read back and compare. \<open>proj\<close> is the handler's
  hash, \<open>put\<close> its request, and \<open>readback\<close> gives the resource or the text of a failed read.
\<close>

definition put_failed :: "string \<Rightarrow> asset_kind \<Rightarrow> response \<Rightarrow> action_result" where
  "put_failed i k r =
    (if status_code r = 412
     then (own_result i k UPDATE ''error-412'' ETAG_CONFLICT_MESSAGE)
       \<lparr>r_verified := Some False, r_error := Some ETAG_CONFLICT_MESSAGE\<rparr>
     else let body = take 200 (body_text r) in
       (own_result i k UPDATE (''error-'' @ show_nat (status_code r)) body)
         \<lparr>r_verified := Some False, r_error := Some body\<rparr>)"

definition unverified :: "string \<Rightarrow> asset_kind \<Rightarrow> plan_action \<Rightarrow> string \<Rightarrow> string \<Rightarrow> action_result" where
  "unverified i k act detail err =
    (own_result i k act ''success'' detail)\<lparr>r_verified := Some False, r_error := Some err\<rparr>"

definition verified :: "string \<Rightarrow> asset_kind \<Rightarrow> plan_action \<Rightarrow> action_result" where
  "verified i k act = (own_result i k act ''success'' [])\<lparr>r_verified := Some True\<rparr>"

definition put_action :: "response \<Rightarrow> plan_action" where
  "put_action r = (if status_code r = 201 then CREATE else UPDATE)"

definition gone_404 :: string where "gone_404 = ''post-apply GET returned 404''"

definition readback_resource :: "'w arm \<Rightarrow> string \<Rightarrow> string \<Rightarrow> string \<Rightarrow> ('w, string + pyval) eff" where
  "readback_resource A ty name api =
    ebind (get_resource A ty name api) (\<lambda>v. eret (if v = PNone then Inl gone_404 else Inr v))"

definition put_and_verify ::
  "string \<Rightarrow> asset_kind \<Rightarrow> (response \<Rightarrow> plan_action) \<Rightarrow> (pyval \<Rightarrow> py_exc + string) \<Rightarrow> pyval \<Rightarrow>
   ('w, response) eff \<Rightarrow> ('w, string + pyval) eff \<Rightarrow> ('w, action_result) eff" where
  "put_and_verify i k act_of proj body put readback =
    ebind (elift (proj body)) (\<lambda>sent.
    ebind put (\<lambda>r.
      if status_code r \<notin> {200, 201} then eret (put_failed i k r)
      else let act = act_of r in
        ebind readback (\<lambda>v. case v of
          Inl err \<Rightarrow> eret (unverified i k act err err)
        | Inr remote \<Rightarrow>
            ebind (elift (proj remote)) (\<lambda>got.
              if got \<noteq> sent then let err = hash_mismatch_error sent got in eret (unverified i k act err err)
              else eret (verified i k act)))))"

end
