(* ===== verification/Protected_Put.thy ===== *)
theory Protected_Put
  imports Arm "HOL-Library.Sublist"
begin

text \<open>
  What the write handlers promise together, whatever the rest of the world does: the locale
  \<open>protected_write\<close> states the steps of a write (read, PUT with the etag of the read, read back) and the
  laws of its parts; a handler interprets it with its own functions. \<open>etag_server\<close> is the documented
  contract of ARM: etags of one resource never repeat, and a PUT with \<open>If-Match\<close> succeeds only on the
  version of that etag. \<open>hist\<close> is the history of a resource, newest first, \<open>None\<close> for a deletion.
\<close>

section \<open>Effects\<close>

lemma ebind_Inr_E:
  assumes "ebind m f w = (Inr y, w'')"
  obtains x w' where "m w = (Inr x, w')" "f x w' = (Inr y, w'')"
  using assms by (auto simp: ebind_def split: prod.splits sum.splits)

lemma ebind_elift [simp]: "ebind (elift (Inr x)) f = f x" "ebind (elift (Inl e)) f = elift (Inl e)"
  by (auto simp: ebind_def elift_def fun_eq_iff)

lemma ebind_eret [simp]: "ebind (eret x) f = f x"
  by (auto simp: ebind_def eret_def fun_eq_iff)

lemma ebind_eret_right [simp]: "ebind m eret = m"
  by (auto simp: ebind_def eret_def fun_eq_iff split: prod.splits sum.splits)

lemma ebind_assoc: "ebind (ebind m f) g = ebind m (\<lambda>x. ebind (f x) g)"
  by (auto simp: ebind_def fun_eq_iff split: prod.splits sum.splits)

lemma eret_Inr [simp]: "eret x w = (Inr y, w') \<longleftrightarrow> x = y \<and> w' = w" by (auto simp: eret_def)

lemma elift_Inr [simp]: "elift r w = (Inr y, w') \<longleftrightarrow> r = Inr y \<and> w' = w" by (auto simp: elift_def)

lemma eret_eq: "eret x w = (r, w') \<longleftrightarrow> r = Inr x \<and> w' = w" by (auto simp: eret_def)

lemma elift_eq: "elift r w = (r', w') \<longleftrightarrow> r' = r \<and> w' = w" by (auto simp: elift_def)

text \<open>Worlds that a client reaches by reading only.\<close>

inductive reads :: "'w arm \<Rightarrow> 'w \<Rightarrow> 'w \<Rightarrow> bool" for A where
  refl: "reads A v v"
| get: "arm_request A ''GET'' u None None v = (x, v') \<Longrightarrow> reads A v' v'' \<Longrightarrow> reads A v v''"

lemma reads_trans: "reads A u v \<Longrightarrow> reads A v w \<Longrightarrow> reads A u w"
  by (induction rule: reads.induct) (auto intro: reads.get)

definition reading :: "'w arm \<Rightarrow> ('w, 'a) eff \<Rightarrow> bool" where
  "reading A m \<longleftrightarrow> (\<forall>v. reads A v (snd (m v)))"

lemma readingD: "reading A m \<Longrightarrow> m v = (x, v') \<Longrightarrow> reads A v v'"
  unfolding reading_def by (metis snd_conv)

lemma reading_get [simp]: "reading A (arm_request A ''GET'' u None None)"
  unfolding reading_def by (metis reads.intros surjective_pairing)

lemma reading_ret [simp]: "reading A (eret x)" "reading A (elift r)"
  by (simp_all add: reading_def eret_def elift_def reads.refl)

lemma reading_bind [intro]: "reading A m \<Longrightarrow> (\<And>x. reading A (f x)) \<Longrightarrow> reading A (ebind m f)"
  unfolding reading_def ebind_def by (auto split: prod.splits sum.splits) (metis reads_trans snd_conv)+

lemma reading_if [simp]: "reading A m \<Longrightarrow> reading A m' \<Longrightarrow> reading A (if b then m else m')"
  by simp

lemma reading_get_url [simp]: "reading A (get_url A u)"
  unfolding get_url_def by (intro reading_bind) auto

lemma reading_get_resource [simp]: "reading A (get_resource A ty name api)"
  unfolding get_resource_def by (intro reading_bind) auto

lemma reading_readback [simp]: "reading A (readback_resource A ty name api)"
  unfolding readback_resource_def by (intro reading_bind) auto

section \<open>The read of a resource by its URL\<close>

definition resource_etag :: "response \<Rightarrow> py_exc + string option" where
  "resource_etag r =
    (if status_code r = 404 then Inr None
     else if \<not> is_success r then Inl (Http_error (status_code r))
     else rbind (read_json r) extract_etag)"

definition readback_url :: "'w arm \<Rightarrow> string \<Rightarrow> ('w, string + pyval) eff" where
  "readback_url A u = ebind (get_url A u) (\<lambda>v. eret (if v = PNone then Inl gone_404 else Inr v))"

lemma get_then_etag:
  assumes "resource_url A ty (Some name) api None = Inr u"
  shows "ebind (get_resource A ty name api) (\<lambda>v. ebind (elift (extract_etag v)) f) =
    ebind (arm_request A ''GET'' u None None) (\<lambda>r. ebind (elift (resource_etag r)) f)"
proof -
  have "ebind (if status_code r = 404 then eret PNone
      else if \<not> is_success r then elift (Inl (Http_error (status_code r))) else elift (read_json r))
      (\<lambda>v. ebind (elift (extract_etag v)) f) = ebind (elift (resource_etag r)) f" for r
    by (cases "read_json r") (auto simp: resource_etag_def extract_etag_def)
  then show ?thesis by (simp add: get_resource_def get_url_def assms ebind_assoc)
qed

lemma get_bad_url:
  "resource_url A ty (Some name) api None = Inl ex \<Longrightarrow> ebind (get_resource A ty name api) f w = (Inl ex, w)"
  by (simp add: get_resource_def ebind_def elift_def)

lemma put_resource_url: "resource_url A ty (Some name) API_VERSION None = Inr u \<Longrightarrow>
    put_resource A ty name body etag = arm_request A ''PUT'' u (Some body) etag"
  by (simp add: put_resource_def)

lemma readback_resource_url:
  "resource_url A ty (Some name) api None = Inr u \<Longrightarrow> readback_resource A ty name api = readback_url A u"
  by (simp add: readback_resource_def readback_url_def get_resource_def)

lemma reading_readback_url [simp]: "reading A (readback_url A u)"
  unfolding readback_url_def by (intro reading_bind) auto

lemmas by_url = get_then_etag put_resource_url readback_resource_url

section \<open>The contract of the server\<close>

definition ge_hist :: "('w \<Rightarrow> string \<Rightarrow> (string \<times> pyval option) list) \<Rightarrow> 'w \<Rightarrow> 'w \<Rightarrow> bool" where
  "ge_hist hist w w' \<longleftrightarrow> (\<forall>u. suffix (hist w u) (hist w' u))"

definition shows_etag :: "response \<Rightarrow> string \<Rightarrow> bool" where
  "shows_etag r e \<longleftrightarrow> e \<noteq> [] \<and> (\<exists>d. json_body r = Some (PDict d) \<and> dget d ''etag'' = PStr e)"

definition etag_server :: "'w arm \<Rightarrow> ('w \<Rightarrow> string \<Rightarrow> (string \<times> pyval option) list) \<Rightarrow> bool" where
  "etag_server A hist \<longleftrightarrow>
    (\<forall>w u. distinct (map fst (hist w u))) \<and>
    (\<forall>rq w x w'. a_http A rq w = (x, w') \<longrightarrow> ge_hist hist w w' \<and>
      (\<forall>r. x = Inr r \<and> rq_method rq = ''GET'' \<and> status_code r = 200 \<longrightarrow>
        hist w' (rq_url rq) \<noteq> [] \<and> shows_etag r (fst (hd (hist w' (rq_url rq))))) \<and>
      (\<forall>r e. x = Inr r \<and> rq_method rq = ''PUT'' \<and> rq_if_match rq = Some e \<and> status_code r \<in> {200, 201} \<longrightarrow>
        (\<exists>newer e' below. hist w' (rq_url rq) = newer @ (e', rq_body rq) # below \<and>
           suffix (hist w (rq_url rq)) below \<and> below \<noteq> [] \<and> fst (hd below) = e)))"

lemma ge_hist_refl [simp]: "ge_hist hist w w" by (simp add: ge_hist_def)

lemma ge_hist_trans: "ge_hist hist u v \<Longrightarrow> ge_hist hist v w \<Longrightarrow> ge_hist hist u w"
  by (meson ge_hist_def suffix_order.trans)

lemma arm_call_last:
  assumes "arm_call A rq w = (res, w')"
  shows "\<exists>n. w' = snd (a_http A rq (world_at (a_http A rq) w n)) \<and>
    (\<forall>r. res = Inr r \<longrightarrow> fst (a_http A rq (world_at (a_http A rq) w n)) = Inr r)"
proof -
  obtain waits where "request_with_retry (a_header A) RETRYABLE 3 (a_http A rq) w = (res, waits, w')"
    using assms by (auto simp: arm_call_def split: prod.splits)
  from request_shape[OF this] obtain n where n: "w' = world_at (a_http A rq) w (Suc n)"
      "res = result_of (reply (a_http A rq) w n) \<or> res = Inl Bad_sleep"
    by blast
  then show ?thesis
    by (intro exI[of _ n]) (auto simp: reply_def result_of_def split: sum.splits)
qed

lemma ge_hist_world_at:
  assumes "etag_server A hist"
  shows "ge_hist hist w (world_at (a_http A rq) w n)"
proof (induction n)
  case (Suc n)
  have "ge_hist hist (world_at (a_http A rq) w n) (world_at (a_http A rq) w (Suc n))"
    using assms unfolding etag_server_def by (metis surjective_pairing world_at_simps(2))
  with Suc show ?case by (rule ge_hist_trans)
qed simp

lemma ge_hist_call:
  assumes "etag_server A hist" and "arm_call A rq w = (res, w')"
  shows "ge_hist hist w w'"
proof -
  obtain n where "w' = world_at (a_http A rq) w (Suc n)" using arm_call_last[OF assms(2)] by auto
  then show ?thesis using ge_hist_world_at[OF assms(1), of w rq "Suc n"] by (simp only:)
qed

lemma ge_hist_request:
  assumes "etag_server A hist" and "arm_request A meth u body etag w = (res, w')"
  shows "ge_hist hist w w'"
proof -
  obtain a where "arm_call A \<lparr>rq_method = meth, rq_url = u, rq_body = body, rq_if_match = etag\<rparr> w = (a, w')"
    using assms(2) by (auto simp: arm_request_def split: prod.splits sum.splits)
  then show ?thesis by (rule ge_hist_call[OF assms(1)])
qed

lemma ge_hist_reads: "reads A v v' \<Longrightarrow> etag_server A hist \<Longrightarrow> ge_hist hist v v'"
  by (induction rule: reads.induct) (auto intro: ge_hist_trans ge_hist_request)

lemma etag_server_put:
  assumes "etag_server A hist" and "a_http A rq w = (Inr r, w')" and "rq_method rq = ''PUT''" and "rq_if_match rq = Some e"
    and "status_code r \<in> {200, 201}"
  shows "\<exists>newer e' below. hist w' (rq_url rq) = newer @ (e', rq_body rq) # below \<and>
    suffix (hist w (rq_url rq)) below \<and> below \<noteq> [] \<and> fst (hd below) = e"
  using assms unfolding etag_server_def by blast

lemma etag_server_get:
  assumes "etag_server A hist" and "a_http A rq w = (Inr r, w')" and "rq_method rq = ''GET''" and "status_code r = 200"
  shows "hist w' (rq_url rq) \<noteq> [] \<and> shows_etag r (fst (hd (hist w' (rq_url rq))))"
  using assms unfolding etag_server_def by blast

lemma distinct_hist: "etag_server A hist \<Longrightarrow> distinct (map fst (hist w u))"
  unfolding etag_server_def by blast

lemma hd_fst_mem: "xs \<noteq> [] \<Longrightarrow> fst (hd xs) \<in> set (map fst xs)"
  by (cases xs) auto

lemma get_shows_etag:
  assumes "etag_server A hist" and "arm_request A ''GET'' u None None w = (Inr r, w')" and "status_code r = 200"
  shows "hist w' u \<noteq> [] \<and> shows_etag r (fst (hd (hist w' u)))"
proof -
  let ?rq = "\<lparr>rq_method = ''GET'', rq_url = u, rq_body = None, rq_if_match = None\<rparr>"
  have "arm_call A ?rq w = (Inr r, w')"
    using assms(2) by (auto simp: arm_request_def split: prod.splits sum.splits)
  from arm_call_last[OF this] obtain v where "a_http A ?rq v = (Inr r, w')" by (metis prod.collapse)
  from etag_server_get[OF assms(1) this _ assms(3)] show ?thesis by simp
qed

text \<open>A PUT on an etag that succeeds lies directly on the history that ended with it.\<close>

lemma put_on_etag:
  assumes srv: "etag_server A hist" and put: "arm_request A ''PUT'' u (Some b) (Some e) w = (Inr r, w')"
    and ok: "status_code r \<in> {200, 201}" and seen: "hist w u \<noteq> []" "fst (hd (hist w u)) = e"
  shows "\<exists>newer e'. hist w' u = newer @ (e', Some b) # hist w u"
proof -
  let ?rq = "\<lparr>rq_method = ''PUT'', rq_url = u, rq_body = Some b, rq_if_match = Some e\<rparr>"
  have "arm_call A ?rq w = (Inr r, w')"
    using put by (auto simp: arm_request_def split: prod.splits sum.splits)
  from arm_call_last[OF this] obtain n where n: "a_http A ?rq (world_at (a_http A ?rq) w n) = (Inr r, w')"
    by (metis prod.collapse)
  then obtain newer e' below where h: "hist w' u = newer @ (e', Some b) # below"
      "suffix (hist (world_at (a_http A ?rq) w n) u) below" "below \<noteq> []" "fst (hd below) = e"
    using etag_server_put[OF srv n _ _ ok] by auto
  have "suffix (hist w u) below"
    using ge_hist_world_at[OF srv] h(2) unfolding ge_hist_def by (meson suffix_order.trans)
  then obtain pre where pre: "below = pre @ hist w u" by (auto simp: suffix_def)
  have "pre = []"
  proof (rule ccontr)
    assume "pre \<noteq> []"
    then have "e \<in> set (map fst pre)" using h(4) pre hd_fst_mem[of pre] by (simp add: hd_append)
    moreover have "e \<in> set (map fst (hist w u))" using seen hd_fst_mem by metis
    moreover have "distinct (map fst (newer @ (e', Some b) # pre @ hist w u))"
      using distinct_hist[OF srv, of w' u] h(1) pre by simp
    ultimately show False by auto
  qed
  then show ?thesis using h(1) pre by auto
qed

lemma resource_etag_shown: "status_code r = 200 \<Longrightarrow> shows_etag r e \<Longrightarrow> resource_etag r = Inr (Some e)"
  by (auto simp: resource_etag_def shows_etag_def is_success_def read_json_def extract_etag_def py_str_def)
     (auto simp: dget_def)

section \<open>Invariants of the world\<close>

abbreviation get_rq :: "string \<Rightarrow> request" where
  "get_rq u \<equiv> \<lparr>rq_method = ''GET'', rq_url = u, rq_body = None, rq_if_match = None\<rparr>"

abbreviation put_rq :: "string \<Rightarrow> pyval \<Rightarrow> string option \<Rightarrow> request" where
  "put_rq u b etag \<equiv> \<lparr>rq_method = ''PUT'', rq_url = u, rq_body = Some b, rq_if_match = etag\<rparr>"

lemma call_invariant:
  assumes "\<And>v. P v \<Longrightarrow> P (snd (a_http A rq v))" and "P w"
  shows "P (snd (arm_call A rq w))"
proof -
  obtain res w' where c: "arm_call A rq w = (res, w')" by fastforce
  from arm_call_last[OF this] obtain n where n: "w' = snd (a_http A rq (world_at (a_http A rq) w n))" by blast
  have "P (world_at (a_http A rq) w n)" for n by (induction n) (use assms in auto)
  then show ?thesis using assms(1) c n by simp
qed

lemma request_invariant:
  assumes "\<And>v. P v \<Longrightarrow> P (snd (a_http A \<lparr>rq_method = meth, rq_url = u, rq_body = body, rq_if_match = etag\<rparr> v))" and "P w"
  shows "P (snd (arm_request A meth u body etag w))"
  using call_invariant[of P, OF assms] by (auto simp: arm_request_def split: prod.splits sum.splits)

lemma reads_invariant:
  assumes "reads A v v'" and "\<And>u v. P v \<Longrightarrow> P (snd (a_http A (get_rq u) v))" and "P v"
  shows "P v'"
  using assms(1,3)
proof (induction rule: reads.induct)
  case (get u v x v' v'')
  then show ?case using request_invariant[of P A "''GET''" u None None v] assms(2) by simp
qed

lemma ret_invariant [simp]: "snd (eret x w) = w" "snd (elift r w) = w"
  by (simp_all add: eret_def elift_def)

lemma bind_invariant:
  assumes "P (snd (m w))" and "\<And>x w'. m w = (Inr x, w') \<Longrightarrow> P (snd (f x w'))"
  shows "P (snd (ebind m f w))"
  using assms by (auto simp: ebind_def split: prod.splits sum.splits)

section \<open>The protected write\<close>

lemma put_and_verify_E:
  assumes "put_and_verify i k act_of proj body put readback w = (Inr r, w')"
  obtains (failed) q where "put w = (Inr q, w')" "status_code q \<notin> {200, 201}" "r = put_failed i k q"
  | (mismatch) q v x err where "put w = (Inr q, v)" "status_code q \<in> {200, 201}" "readback v = (Inr x, w')"
      "r = unverified i k (act_of q) err err"
  | (live) q v x sent where "put w = (Inr q, v)" "status_code q \<in> {200, 201}" "readback v = (Inr (Inr x), w')"
      "proj body = Inr sent" "proj x = Inr sent" "r = verified i k (act_of q)"
  using assms unfolding put_and_verify_def
  by (elim ebind_Inr_E) (auto simp: Let_def split: if_splits elim!: ebind_Inr_E split: sum.splits)

locale protected_write =
  fixes wr :: "'w arm \<Rightarrow> 'x \<Rightarrow> ('w, action_result) eff"
    and url :: "'w arm \<Rightarrow> 'x \<Rightarrow> py_exc + string"
    and body :: "'x \<Rightarrow> pyval"
    and ident :: "'x \<Rightarrow> string"
    and knd :: "'x \<Rightarrow> asset_kind"
    and act_of :: "'x \<Rightarrow> response \<Rightarrow> plan_action"
    and etag_of :: "response \<Rightarrow> py_exc + string option"
    and proj :: "'x \<Rightarrow> pyval \<Rightarrow> py_exc + string"
    and readback :: "'w arm \<Rightarrow> string \<Rightarrow> ('w, string + pyval) eff"
    and finish :: "'w arm \<Rightarrow> 'x \<Rightarrow> action_result \<Rightarrow> ('w, action_result) eff"
  assumes bad_url: "url A x = Inl ex \<Longrightarrow> wr A x w = (Inl ex, w)"
    and steps: "url A x = Inr u \<Longrightarrow> wr A x =
      ebind (arm_request A ''GET'' u None None) (\<lambda>r.
      ebind (elift (etag_of r)) (\<lambda>etag.
      ebind (put_and_verify (ident x) (knd x) (act_of x) (proj x) (body x)
        (arm_request A ''PUT'' u (Some (body x)) etag) (readback A u)) (finish A x)))"
    and etag_shown: "status_code r = 200 \<Longrightarrow> shows_etag r e \<Longrightarrow> etag_of r = Inr (Some e)"
    and readback_reads: "reading A (readback A u)"
    and finish_reads: "reading A (finish A x q)"
    and finish_keeps: "finish A x q w = (Inr q', w') \<Longrightarrow> r_status q' = r_status q \<and> (r_verified q' = Some True \<longrightarrow> r_verified q = Some True)"
begin

lemma wr_E:
  assumes "wr A x w = (Inr r, w')"
  obtains u r1 w1 etag q w2 where "url A x = Inr u" "arm_request A ''GET'' u None None w = (Inr r1, w1)"
    "etag_of r1 = Inr etag"
    "put_and_verify (ident x) (knd x) (act_of x) (proj x) (body x) (arm_request A ''PUT'' u (Some (body x)) etag)
       (readback A u) w1 = (Inr q, w2)" "finish A x q w2 = (Inr r, w')"
proof -
  obtain u where u: "url A x = Inr u" using assms bad_url by (cases "url A x") auto
  show thesis
    using assms unfolding steps[OF u] by (elim ebind_Inr_E) (auto intro: that[OF u])
qed

theorem no_lost_update:
  assumes srv: "etag_server A hist" and "wr A x w = (Inr r, w')" and "r_status r = ''success''"
  shows "\<exists>u r1 w1. url A x = Inr u \<and> arm_request A ''GET'' u None None w = (Inr r1, w1) \<and>
    (status_code r1 = 200 \<longrightarrow> (\<exists>newer e. hist w' u = newer @ (e, Some (body x)) # hist w1 u))"
proof -
  obtain u r1 w1 etag q w2 where s: "url A x = Inr u" "arm_request A ''GET'' u None None w = (Inr r1, w1)"
      "etag_of r1 = Inr etag"
      "put_and_verify (ident x) (knd x) (act_of x) (proj x) (body x) (arm_request A ''PUT'' u (Some (body x)) etag)
         (readback A u) w1 = (Inr q, w2)" "finish A x q w2 = (Inr r, w')"
    using assms(2) by (rule wr_E)
  have ok: "r_status q = ''success''" using finish_keeps[OF s(5)] assms(3) by simp
  obtain p v where p: "arm_request A ''PUT'' u (Some (body x)) etag w1 = (Inr p, v)" "status_code p \<in> {200, 201}"
      "reads A v w2"
    using s(4)
  proof (cases rule: put_and_verify_E)
    case (failed p)
    then show thesis using ok by (auto simp: put_failed_def own_result_def Let_def split: if_splits)
  qed (use that readingD[OF readback_reads] in blast)+
  have "ge_hist hist v w'"
    using ge_hist_reads[OF p(3) srv] ge_hist_reads[OF readingD[OF finish_reads s(5)] srv] by (rule ge_hist_trans)
  then obtain more where more: "hist w' u = more @ hist v u" by (auto simp: ge_hist_def suffix_def)
  have "\<exists>newer e. hist v u = newer @ (e, Some (body x)) # hist w1 u" if "status_code r1 = 200"
  proof -
    note seen = get_shows_etag[OF srv s(2) that]
    then have "etag = Some (fst (hd (hist w1 u)))" using etag_shown[OF that] s(3) by auto
    then show ?thesis using put_on_etag[OF srv] p(1,2) seen by blast
  qed
  then show ?thesis using s(1,2) more by (metis append.assoc)
qed

theorem wr_invariant:
  assumes get: "\<And>u v. P v \<Longrightarrow> P (snd (a_http A (get_rq u) v))"
    and put: "\<And>u etag v. url A x = Inr u \<Longrightarrow> P v \<Longrightarrow> P (snd (a_http A (put_rq u (body x) etag) v))" and "P w"
  shows "P (snd (wr A x w))"
proof (cases "url A x")
  case (Inl e)
  then show ?thesis using assms(3) bad_url by simp
next
  case (Inr u)
  have fin: "P (snd (finish A x q v))" if "P v" for q v
    using reads_invariant[OF _ get that] finish_reads unfolding reading_def by blast
  have bk: "P (snd (readback A u v))" if "P v" for v
    using reads_invariant[OF _ get that] readback_reads unfolding reading_def by blast
  have pv: "P (snd (put_and_verify i k a pr b (arm_request A ''PUT'' u (Some (body x)) etag) (readback A u) v))"
    if "P v" for i k a pr b etag v
    unfolding put_and_verify_def
  proof (intro bind_invariant[of P], goal_cases)
    case (2 sent v1)
    then show ?case
      using request_invariant[of P A "''PUT''" u "Some (body x)" etag, OF put[OF Inr] that] by simp
  next
    case (3 sent v1 r v2)
    then have "P v2"
      using request_invariant[of P A "''PUT''" u "Some (body x)" etag, OF put[OF Inr] that] by (metis elift_Inr snd_conv)
    show ?case
    proof -
      have "P (snd (ebind (elift (pr y)) (\<lambda>got. if got \<noteq> sent then eret (unverified i k (a r) (hash_mismatch_error sent got)
          (hash_mismatch_error sent got)) else eret (verified i k (a r))) v3))" if "P v3" for y v3
        using that by (intro bind_invariant[of P]) auto
      then show ?thesis
        using \<open>P v2\<close> bk[OF \<open>P v2\<close>]
        by (auto simp: Let_def intro!: bind_invariant[of P] split: sum.split)
    qed
  qed (use that in simp)
  have "P (snd (arm_request A ''GET'' u None None w))" by (rule request_invariant[of P, OF get assms(3)])
  then show ?thesis
    unfolding steps[OF Inr]
  proof (intro bind_invariant[of P], goal_cases)
    case (2 r v)
    then show ?case by simp
  next
    case (3 r v etag v')
    then have "P v'" by (metis elift_Inr snd_conv)
    then show ?case by (rule pv)
  next
    case (4 r v etag v' q v'')
    then have "P v'" by (metis elift_Inr snd_conv)
    from pv[OF this] 4(4) have "P v''" by (metis snd_conv)
    then show ?case by (rule fin)
  qed
qed

theorem verified_is_live:
  assumes "wr A x w = (Inr r, w')" and "r_verified r = Some True"
  shows "\<exists>u v v' y sent. url A x = Inr u \<and> readback A u v = (Inr (Inr y), v') \<and> reads A v' w' \<and>
    proj x (body x) = Inr sent \<and> proj x y = Inr sent"
proof -
  obtain u r1 w1 etag q w2 where s: "url A x = Inr u" "arm_request A ''GET'' u None None w = (Inr r1, w1)"
      "put_and_verify (ident x) (knd x) (act_of x) (proj x) (body x) (arm_request A ''PUT'' u (Some (body x)) etag)
         (readback A u) w1 = (Inr q, w2)" "finish A x q w2 = (Inr r, w')"
    using assms(1) by (rule wr_E)
  have ok: "r_verified q = Some True" using finish_keeps[OF s(4)] assms(2) by simp
  from s(3) show ?thesis
  proof (cases rule: put_and_verify_E)
    case (live p v y sent)
    then show ?thesis using s(1) readingD[OF finish_reads s(4)] by blast
  qed (use ok in \<open>auto simp: put_failed_def unverified_def own_result_def Let_def split: if_splits\<close>)
qed

end

section \<open>Refinement of an abstract store\<close>

text \<open>
  The abstract workspace maps URLs to an etag and a body. \<open>store_server\<close> is a server that does just this
  and that nobody else writes to, but that keeps some properties of each resource for itself: whatever it was
  sent for them, a read shows them as the server likes, or not at all. What the server owns in a kind of resource
  is what the handlers name in \<open>_SERVER_PROPERTY_FIELDS\<close>, and the content of a watchlist, which no read returns.
  The other keys of \<open>properties\<close> read back as sent, where an absent key is a null one.
\<close>

definition server_owned :: "asset_kind \<Rightarrow> string list" where
  "server_owned k = (case k of
     SENTINEL_ANALYTIC \<Rightarrow> [''lastModifiedUtc'', ''provisioningState'']
   | SENTINEL_HUNTING \<Rightarrow> [''etag'', ''provisioningState'']
   | SENTINEL_PARSER \<Rightarrow> [''etag'', ''version'', ''provisioningState'']
   | SENTINEL_DATA_CONNECTOR \<Rightarrow> [''connectorUiConfig'', ''lastModifiedUtc'', ''etag'']
   | SENTINEL_AUTOMATION_RULE \<Rightarrow> [''createdBy'', ''createdTimeUtc'', ''lastModifiedBy'', ''lastModifiedTimeUtc'']
   | SENTINEL_WATCHLIST \<Rightarrow>
       [''etag'', ''created'', ''updated'', ''createdBy'', ''updatedBy'', ''watchlistId'', ''tenantId'', ''watchlistAlias'',
        ''isDeleted'', ''provisioningState'', ''itemsCount'', ''numberOfLinesToSkip'', ''rawContent'', ''sasUri'']
   | _ \<Rightarrow> [])"

definition same_outside :: "string list \<Rightarrow> pyval \<Rightarrow> pyval \<Rightarrow> bool" where
  "same_outside own v v' \<longleftrightarrow> v = v' \<or>
     (\<exists>p q. v = PDict p \<and> v' = PDict q \<and> (\<forall>k. k \<notin> set own \<longrightarrow> dget p k = dget q k))"

lemma same_outside_mono: "same_outside own v v' \<Longrightarrow> set own \<subseteq> set own' \<Longrightarrow> same_outside own' v v'"
  unfolding same_outside_def by blast

text \<open>The hashes look below \<open>properties\<close> only, and at nothing there that is the server's.\<close>

definition below_properties :: "string list \<Rightarrow> string list \<Rightarrow> bool" where
  "below_properties own fs \<longleftrightarrow> list_all (\<lambda>f. case split_on CHR ''.'' f of
     x # k # ss \<Rightarrow> x = ''properties'' \<and> k \<notin> set own | _ \<Rightarrow> False) fs"

lemma content_hash_properties:
  assumes "below_properties own fs" and "same_outside own (dget d ''properties'') (dget c ''properties'')"
  shows "compute_content_hash h (PDict d) fs = compute_content_hash h (PDict c) fs"
proof -
  have "get_path (PDict d) f = get_path (PDict c) f" if "f \<in> set fs" for f
  proof -
    have "case split_on CHR ''.'' f of x # k # ss \<Rightarrow> x = ''properties'' \<and> k \<notin> set own | _ \<Rightarrow> False"
      using assms(1) that unfolding below_properties_def list_all_iff by blast
    then obtain k ss where f: "split_on CHR ''.'' f = ''properties'' # k # ss" "k \<notin> set own"
      by (auto split: list.splits)
    then show ?thesis using assms(2) by (auto simp: get_path_def same_outside_def)
  qed
  then show ?thesis by (simp add: compute_content_hash_def project_fields_def cong: map_cong)
qed

lemma readback_url_shows:
  assumes "arm_request A ''GET'' u None None w = (Inr r, v)" and "status_code r = 200" and "json_body r = Some (PDict d)"
  shows "readback_url A u w = (Inr (Inr (PDict d)), v)"
  using assms by (simp add: readback_url_def get_url_def ebind_def is_success_def elift_def read_json_def eret_def)

lemma resource_etag_404: "status_code r = 404 \<Longrightarrow> resource_etag r = Inr None"
  by (simp add: resource_etag_def)

lemmas by_read = resource_etag_shown resource_etag_404 readback_url_shows

type_synonym store = "string \<Rightarrow> (string \<times> pyval) option"

definition shows_body :: "string list \<Rightarrow> response \<Rightarrow> string \<Rightarrow> pyval \<Rightarrow> bool" where
  "shows_body own r e b \<longleftrightarrow> (\<exists>d c. json_body r = Some (PDict d) \<and> b = PDict c \<and> dget d ''etag'' = PStr e \<and>
     dget d ''kind'' = dget c ''kind'' \<and> same_outside own (dget d ''properties'') (dget c ''properties''))"

definition matches :: "string option \<Rightarrow> (string \<times> pyval) option \<Rightarrow> bool" where
  "matches etag cur \<longleftrightarrow> (case etag of None \<Rightarrow> True | Some e \<Rightarrow> map_option fst cur = Some e)"

definition store_server :: "'w arm \<Rightarrow> (string \<Rightarrow> string list) \<Rightarrow> ('w \<Rightarrow> store) \<Rightarrow> bool" where
  "store_server A own res \<longleftrightarrow> (\<forall>w u e b. res w u = Some (e, b) \<longrightarrow> e \<noteq> []) \<and>
    (\<forall>rq w x w'. a_http A rq w = (x, w') \<longrightarrow>
      (rq_method rq = ''GET'' \<longrightarrow> (\<exists>r. x = Inr r \<and> res w' = res w \<and> (case res w (rq_url rq) of
         None \<Rightarrow> status_code r = 404 | Some (e, b) \<Rightarrow> status_code r = 200 \<and> shows_body (own (rq_url rq)) r e b))) \<and>
      (\<forall>c. rq_method rq = ''PUT'' \<and> rq_body rq = Some (PDict c) \<longrightarrow> (\<exists>r. x = Inr r \<and>
         (if matches (rq_if_match rq) (res w (rq_url rq))
          then status_code r = (if res w (rq_url rq) = None then 201 else 200) \<and>
            (\<exists>e. res w' = (res w)(rq_url rq \<mapsto> (e, PDict c)))
          else status_code r = 412 \<and> res w' = res w))))"

lemma store_server_get:
  assumes "store_server A own res" and "a_http A rq w = (x, w')" and "rq_method rq = ''GET''"
  shows "\<exists>r. x = Inr r \<and> res w' = res w \<and> (case res w (rq_url rq) of
    None \<Rightarrow> status_code r = 404 | Some (e, b) \<Rightarrow> status_code r = 200 \<and> shows_body (own (rq_url rq)) r e b)"
  using assms unfolding store_server_def by metis

lemma store_server_put:
  assumes "store_server A own res" and "a_http A rq w = (x, w')" and "rq_method rq = ''PUT''" and "rq_body rq = Some (PDict c)"
    and "matches (rq_if_match rq) (res w (rq_url rq))"
  shows "\<exists>r e. x = Inr r \<and> status_code r = (if res w (rq_url rq) = None then 201 else 200) \<and>
    res w' = (res w)(rq_url rq \<mapsto> (e, PDict c))"
  using assms unfolding store_server_def by metis

lemma store_etag: "store_server A own res \<Longrightarrow> res w u = Some (e, b) \<Longrightarrow> e \<noteq> []"
  unfolding store_server_def by blast

lemma arm_request_final:
  assumes "a_http A \<lparr>rq_method = meth, rq_url = u, rq_body = body, rq_if_match = etag\<rparr> w = (Inr r, w')"
    and "status_code r \<notin> set (retry_status RETRYABLE)"
  shows "arm_request A meth u body etag w = (Inr r, w')"
  using request_loop_step[of "a_http A \<lparr>rq_method = meth, rq_url = u, rq_body = body, rq_if_match = etag\<rparr>" w "Inr r" w'
      "a_header A" RETRYABLE 3 0 "[]"] assms
  by (simp add: arm_request_def arm_call_def request_with_retry_def retryable_def result_of_def)

lemma store_get:
  assumes "store_server A own res"
  obtains r w' where "arm_request A ''GET'' u None None w = (Inr r, w')" "res w' = res w"
    "case res w u of None \<Rightarrow> status_code r = 404 | Some (e, b) \<Rightarrow> status_code r = 200 \<and> e \<noteq> [] \<and> shows_body (own u) r e b"
proof -
  let ?rq = "\<lparr>rq_method = ''GET'', rq_url = u, rq_body = None, rq_if_match = None\<rparr>"
  obtain x w' where h: "a_http A ?rq w = (x, w')" by fastforce
  from store_server_get[OF assms this] obtain r where r: "x = Inr r" "res w' = res w"
      "case res w u of None \<Rightarrow> status_code r = 404 | Some (e, b) \<Rightarrow> status_code r = 200 \<and> shows_body (own u) r e b"
    by (auto cong: option.case_cong)
  then have "status_code r \<notin> set (retry_status RETRYABLE)" by (auto simp: RETRYABLE_def split: option.splits)
  note g = arm_request_final[OF h[unfolded r(1)] this]
  show thesis by (rule that[OF g r(2)]) (use r(3) store_etag[OF assms, of w u] in \<open>auto split: option.splits\<close>)
qed

lemma store_put:
  assumes "store_server A own res" and "matches etag (res w u)"
  obtains r w' e where "arm_request A ''PUT'' u (Some (PDict c)) etag w = (Inr r, w')"
    "status_code r = (if res w u = None then 201 else 200)" "res w' = (res w)(u \<mapsto> (e, PDict c))"
proof -
  let ?rq = "\<lparr>rq_method = ''PUT'', rq_url = u, rq_body = Some (PDict c), rq_if_match = etag\<rparr>"
  obtain x w' where h: "a_http A ?rq w = (x, w')" by fastforce
  from store_server_put[OF assms(1) this] assms(2) obtain r e where
    r: "x = Inr r" "status_code r = (if res w u = None then 201 else 200)" "res w' = (res w)(u \<mapsto> (e, PDict c))"
    by auto
  then have "status_code r \<notin> set (retry_status RETRYABLE)" by (auto simp: RETRYABLE_def)
  from arm_request_final[OF h[unfolded r(1)] this] r(2,3) show thesis by (rule that)
qed

locale verified_write = protected_write wr url body ident knd act_of etag_of proj readback finish
  for wr :: "'w arm \<Rightarrow> 'x \<Rightarrow> ('w, action_result) eff" and url body ident knd act_of etag_of proj readback finish +
  fixes owned :: "'x \<Rightarrow> string list"
  assumes no_etag: "status_code r = 404 \<Longrightarrow> etag_of r = Inr None"
    and readback_shows: "arm_request A ''GET'' u None None w = (Inr r, v) \<Longrightarrow> status_code r = 200 \<Longrightarrow>
      json_body r = Some (PDict d) \<Longrightarrow> dget d ''etag'' = PStr e \<Longrightarrow> readback A u w = (Inr (Inr (PDict d)), v)"
    and proj_sent: "dget d ''kind'' = dget c ''kind'' \<Longrightarrow>
      same_outside (owned x) (dget d ''properties'') (dget c ''properties'') \<Longrightarrow> proj x (PDict d) = proj x (PDict c)"
begin

theorem refines_store:
  assumes srv: "store_server A own res" and u: "url A x = Inr u" and owned: "set (own u) \<subseteq> set (owned x)"
    and b: "body x = PDict c" and p: "proj x (PDict c) = Inr sent"
  shows "\<exists>q v e. wr A x w = finish A x (verified (ident x) (knd x) (act_of x q)) v \<and>
    res v = (res w)(u \<mapsto> (e, PDict c)) \<and> status_code q = (if res w u = None then 201 else 200)"
proof -
  obtain r1 w1 where g: "arm_request A ''GET'' u None None w = (Inr r1, w1)" "res w1 = res w"
      "case res w u of None \<Rightarrow> status_code r1 = 404 | Some (e, b) \<Rightarrow> status_code r1 = 200 \<and> e \<noteq> [] \<and> shows_body (own u) r1 e b"
    using store_get[OF srv] by blast
  obtain etag where et: "etag_of r1 = Inr etag" "matches etag (res w1 u)"
  proof (cases "res w u")
    case None
    then show thesis using g no_etag[of r1] that[of None] by (simp add: matches_def)
  next
    case (Some eb)
    then obtain e b where "res w u = Some (e, b)" "e \<noteq> []" "status_code r1 = 200" "shows_body (own u) r1 e b" using g(3) by auto
    then show thesis
      using that[of "Some e"] etag_shown[of r1 e] g(2) by (auto simp: matches_def shows_body_def shows_etag_def)
  qed
  obtain q w2 e where put: "arm_request A ''PUT'' u (Some (PDict c)) etag w1 = (Inr q, w2)"
      "status_code q = (if res w u = None then 201 else 200)" "res w2 = (res w)(u \<mapsto> (e, PDict c))"
    using store_put[OF srv et(2)] g(2) by metis
  obtain r3 v where rb: "arm_request A ''GET'' u None None w2 = (Inr r3, v)" "res v = res w2"
      "status_code r3 = 200" "shows_body (own u) r3 e (PDict c)"
  proof -
    obtain r3 v where "arm_request A ''GET'' u None None w2 = (Inr r3, v)" "res v = res w2"
        "case res w2 u of None \<Rightarrow> status_code r3 = 404 | Some (e, b) \<Rightarrow> status_code r3 = 200 \<and> e \<noteq> [] \<and> shows_body (own u) r3 e b"
      using store_get[OF srv] by blast
    then show thesis using that put(3) by simp
  qed
  obtain d where d: "readback A u w2 = (Inr (Inr (PDict d)), v)" "proj x (PDict d) = Inr sent"
    using rb readback_shows[OF rb(1,3)] proj_sent[of _ c x] p same_outside_mono[OF _ owned] by (fastforce simp: shows_body_def)
  have "status_code q \<in> {200, 201}" using put(2) by simp
  then have "wr A x w = finish A x (verified (ident x) (knd x) (act_of x q)) v"
    using p d by (auto simp: steps[OF u] ebind_def g(1) et(1) put_and_verify_def elift_def b put(1) eret_def Let_def)
  then show ?thesis using put(2,3) rb(2) by metis
qed

end

end
