(* ===== verification/Payloads.thy ===== *)
theory Payloads
  imports Py_Value
begin

text \<open>
  The pydantic models of the rule payloads, \<open>contentops/models.py\<close>. A model is a value of \<open>schema\<close>,
  and \<open>fits\<close> says which documents pydantic (version 2, its lax mode) takes for it: strings only from
  strings, booleans also from 0, 1 and the words pydantic documents, \<open>None\<close> only where the type has it,
  unknown keys unless the model forbids them. The coercion to \<open>int\<close> is the parameter \<open>to_int\<close>, as for
  the envelope. A model's own validators are predicates on the document.
\<close>

section \<open>Pydantic models\<close>

datatype schema =
    S_any
  | S_str nat "nat option"                    \<comment> \<open>\<open>min_length\<close>, \<open>max_length\<close>\<close>
  | S_int "int option" "int option"           \<comment> \<open>\<open>ge\<close>, \<open>le\<close>\<close>
  | S_bool
  | S_lit "string list"                       \<comment> \<open>\<open>Literal\<close> and string enumerations\<close>
  | S_opt schema
  | S_list schema nat "nat option"
  | S_map_str                                 \<comment> \<open>\<open>dict[str, str]\<close>\<close>
  | S_dict                                    \<comment> \<open>\<open>dict[str, Any]\<close>\<close>
  | S_model bool "(string list \<times> bool \<times> schema) list"   \<comment> \<open>extra forbidden; names, required, type\<close>
  | S_where schema "pyval \<Rightarrow> bool"             \<comment> \<open>a model validator\<close>

definition bool_words :: "string list" where
  "bool_words = [''0'', ''off'', ''f'', ''false'', ''n'', ''no'', ''1'', ''on'', ''t'', ''true'', ''y'', ''yes'']"

definition fits_bool :: "pyval \<Rightarrow> bool" where
  "fits_bool v = (case v of PBool _ \<Rightarrow> True | PInt i \<Rightarrow> i \<in> {0, 1} | PStr s \<Rightarrow> lower s \<in> set bool_words | _ \<Rightarrow> False)"

definition in_range :: "int option \<Rightarrow> int option \<Rightarrow> int \<Rightarrow> bool" where
  "in_range lo hi i \<longleftrightarrow> (case lo of None \<Rightarrow> True | Some l \<Rightarrow> l \<le> i) \<and> (case hi of None \<Rightarrow> True | Some h \<Rightarrow> i \<le> h)"

definition length_ok :: "nat \<Rightarrow> nat option \<Rightarrow> nat \<Rightarrow> bool" where
  "length_ok lo hi n \<longleftrightarrow> lo \<le> n \<and> (case hi of None \<Rightarrow> True | Some h \<Rightarrow> n \<le> h)"

text \<open>The key a field is read from: its alias first.\<close>

definition key_of :: "string list \<Rightarrow> pydict \<Rightarrow> string option" where
  "key_of names d = List.find (\<lambda>k. k \<in> set (map fst d)) names"

fun fits :: "(pyval \<Rightarrow> int option) \<Rightarrow> schema \<Rightarrow> pyval \<Rightarrow> bool" where
  "fits ti S_any v = True"
| "fits ti (S_str lo hi) v = (case v of PStr s \<Rightarrow> length_ok lo hi (length s) | _ \<Rightarrow> False)"
| "fits ti (S_int lo hi) v = (case ti v of Some i \<Rightarrow> in_range lo hi i | None \<Rightarrow> False)"
| "fits ti S_bool v = fits_bool v"
| "fits ti (S_lit ws) v = (case v of PStr s \<Rightarrow> s \<in> set ws | _ \<Rightarrow> False)"
| "fits ti (S_opt s) v = (v = PNone \<or> fits ti s v)"
| "fits ti (S_list s lo hi) v = (case v of PList xs \<Rightarrow> length_ok lo hi (length xs) \<and> list_all (fits ti s) xs | _ \<Rightarrow> False)"
| "fits ti S_map_str v = (case v of PDict d \<Rightarrow> list_all (\<lambda>p. case snd p of PStr _ \<Rightarrow> True | _ \<Rightarrow> False) d | _ \<Rightarrow> False)"
| "fits ti S_dict v = is_dict v"
| "fits ti (S_model forbid fs) v = (case v of
     PDict d \<Rightarrow>
       list_all (\<lambda>(names, needed, s). case key_of names d of None \<Rightarrow> \<not> needed | Some k \<Rightarrow> fits ti s (dget d k)) fs \<and>
       (forbid \<longrightarrow> list_all (\<lambda>p. list_ex (\<lambda>f. fst p \<in> set (fst f)) fs) d)
   | _ \<Rightarrow> False)"
| "fits ti (S_where s ok) v = (fits ti s v \<and> ok v)"

abbreviation text_ty :: schema where "text_ty \<equiv> S_str 0 None"
abbreviation texts_ty :: schema where "texts_ty \<equiv> S_list text_ty 0 None"

definition must :: "string \<Rightarrow> schema \<Rightarrow> string list \<times> bool \<times> schema" where
  "must k s = ([k], True, s)"

definition may :: "string \<Rightarrow> schema \<Rightarrow> string list \<times> bool \<times> schema" where
  "may k s = ([k], False, s)"

text \<open>\<open>X | None = None\<close>.\<close>

definition nullable :: "string \<Rightarrow> schema \<Rightarrow> string list \<times> bool \<times> schema" where
  "nullable k s = ([k], False, S_opt s)"

section \<open>Enumerations\<close>

definition SentinelKind :: "string list" where
  "SentinelKind = [''Scheduled'', ''NRT'', ''MicrosoftSecurityIncidentCreation'', ''Fusion'',
     ''MLBehaviorAnalytics'', ''ThreatIntelligence'']"

definition MicrosoftSecurityProductName :: "string list" where
  "MicrosoftSecurityProductName = [''Azure Active Directory Identity Protection'',
     ''Azure Advanced Threat Protection'', ''Azure Security Center'', ''Azure Security Center for IoT'',
     ''Microsoft Cloud App Security'', ''Office 365 Advanced Threat Protection'',
     ''Microsoft Defender Advanced Threat Protection'']"

definition Severity :: "string list" where
  "Severity = [''High'', ''Medium'', ''Low'', ''Informational'']"

definition TriggerOperator :: "string list" where
  "TriggerOperator = [''GreaterThan'', ''LessThan'', ''Equal'', ''NotEqual'']"

definition AttackTactic :: "string list" where
  "AttackTactic = [''Reconnaissance'', ''ResourceDevelopment'', ''InitialAccess'', ''Execution'',
     ''Persistence'', ''PrivilegeEscalation'', ''DefenseEvasion'', ''CredentialAccess'', ''Discovery'',
     ''LateralMovement'', ''Collection'', ''CommandAndControl'', ''Exfiltration'', ''Impact'', ''PreAttack'',
     ''ImpairProcessControl'', ''InhibitResponseFunction'']"

definition EntityType :: "string list" where
  "EntityType = [''Account'', ''Host'', ''IP'', ''File'', ''FileHash'', ''Process'', ''URL'', ''DNS'',
     ''AzureResource'', ''CloudApplication'', ''Mailbox'', ''MailCluster'', ''MailMessage'',
     ''SubmissionMail'', ''SecurityGroup'', ''Malware'', ''RegistryKey'', ''RegistryValue'']"

definition MatchingMethod :: "string list" where
  "MatchingMethod = [''AllEntities'', ''AnyAlert'', ''Selected'']"

definition AggregationKind :: "string list" where
  "AggregationKind = [''SingleAlert'', ''AlertPerResult'']"

definition AlertProperty :: "string list" where
  "AlertProperty = [''AlertLink'', ''ConfidenceLevel'', ''ConfidenceScore'', ''ExtendedLinks'',
     ''ProductName'', ''ProviderName'', ''ProductComponentName'', ''RemediationSteps'', ''Techniques'',
     ''SubTechniques'']"

section \<open>Analytic rules\<close>

definition FieldMapping :: schema where
  "FieldMapping = S_model False [must ''identifier'' text_ty, must ''columnName'' text_ty]"

definition EntityMapping :: schema where
  "EntityMapping = S_model False [must ''entityType'' (S_lit EntityType), must ''fieldMappings'' (S_list FieldMapping 0 (Some 3))]"

definition SentinelEntitiesMapping :: schema where
  "SentinelEntitiesMapping = S_model False [must ''columnName'' text_ty]"

definition AlertDynamicProperty :: schema where
  "AlertDynamicProperty = S_model False [must ''alertProperty'' (S_lit AlertProperty), must ''value'' text_ty]"

definition AlertDetailsOverride :: schema where
  "AlertDetailsOverride = S_model False
    [nullable ''alertDisplayNameFormat'' text_ty, nullable ''alertDescriptionFormat'' text_ty,
     nullable ''alertSeverityColumnName'' text_ty, nullable ''alertTacticsColumnName'' text_ty,
     nullable ''alertDynamicProperties'' (S_list AlertDynamicProperty 0 None)]"

definition EventGroupingSettings :: schema where
  "EventGroupingSettings = S_model False [must ''aggregationKind'' (S_lit AggregationKind)]"

definition GroupingConfiguration :: schema where
  "GroupingConfiguration = S_model False
    [may ''enabled'' S_bool, may ''reopenClosedIncident'' S_bool, may ''lookbackDuration'' text_ty,
     may ''matchingMethod'' (S_lit MatchingMethod), nullable ''groupByEntities'' (S_list (S_lit EntityType) 0 None),
     nullable ''groupByAlertDetails'' texts_ty, nullable ''groupByCustomDetails'' texts_ty]"

definition IncidentConfiguration :: schema where
  "IncidentConfiguration = S_model False
    [may ''createIncident'' S_bool, nullable ''groupingConfiguration'' GroupingConfiguration]"

text \<open>The fields that Scheduled and NRT rules share after the query.\<close>

definition rule_tail :: "(string list \<times> bool \<times> schema) list" where
  "rule_tail =
    [nullable ''suppressionEnabled'' S_bool, nullable ''suppressionDuration'' text_ty,
     nullable ''tactics'' (S_list (S_lit AttackTactic) 0 None), nullable ''techniques'' texts_ty,
     nullable ''subTechniques'' texts_ty, nullable ''entityMappings'' (S_list EntityMapping 0 (Some 10)),
     nullable ''sentinelEntitiesMappings'' (S_list SentinelEntitiesMapping 0 None), nullable ''customDetails'' S_map_str,
     nullable ''alertDetailsOverride'' AlertDetailsOverride, nullable ''eventGroupingSettings'' EventGroupingSettings,
     nullable ''incidentConfiguration'' IncidentConfiguration, nullable ''alertRuleTemplateName'' text_ty,
     nullable ''templateVersion'' text_ty]"

definition rule_head :: "string \<Rightarrow> (string list \<times> bool \<times> schema) list" where
  "rule_head k =
    [must ''kind'' (S_lit [k]), must ''displayName'' text_ty, nullable ''description'' text_ty, may ''enabled'' S_bool,
     must ''severity'' (S_lit Severity), must ''query'' (S_str 1 None)]"

definition SCHEDULED_ONLY_FIELDS :: "string list" where
  "SCHEDULED_ONLY_FIELDS = [''queryFrequency'', ''queryPeriod'', ''triggerOperator'', ''triggerThreshold'']"

definition sub :: "pyval \<Rightarrow> string \<Rightarrow> pyval" where
  "sub v k = (case v of PDict d \<Rightarrow> dget d k | _ \<Rightarrow> PNone)"

definition validate_matching_method :: "pyval \<Rightarrow> bool" where
  "validate_matching_method v =
    (let gc = sub (sub v ''incidentConfiguration'') ''groupingConfiguration''
     in sub gc ''matchingMethod'' = PStr ''Selected'' \<longrightarrow>
        truthy (sub gc ''groupByEntities'') \<or> truthy (sub gc ''groupByAlertDetails'') \<or> truthy (sub gc ''groupByCustomDetails''))"

definition SentinelScheduledPayload :: schema where
  "SentinelScheduledPayload = S_where (S_model False
    (rule_head ''Scheduled'' @
     [must ''queryFrequency'' text_ty, must ''queryPeriod'' text_ty, must ''triggerOperator'' (S_lit TriggerOperator),
      must ''triggerThreshold'' (S_int (Some 0) None)] @ rule_tail)) validate_matching_method"

definition reject_scheduled_fields :: "pyval \<Rightarrow> bool" where
  "reject_scheduled_fields v = list_all (\<lambda>k. sub v k = PNone) SCHEDULED_ONLY_FIELDS"

definition SentinelNRTPayload :: schema where
  "SentinelNRTPayload = S_where (S_model False (rule_head ''NRT'' @ rule_tail)) reject_scheduled_fields"

definition items :: "pyval \<Rightarrow> pyval list" where
  "items v = (case v of PList xs \<Rightarrow> xs | _ \<Rightarrow> [])"

definition reject_filter_overlap :: "pyval \<Rightarrow> bool" where
  "reject_filter_overlap v =
    list_all (\<lambda>x. x \<notin> set (items (sub v ''displayNamesExcludeFilter''))) (items (sub v ''displayNamesFilter''))"

definition SentinelMicrosoftSecurityIncidentCreationPayload :: schema where
  "SentinelMicrosoftSecurityIncidentCreationPayload = S_where (S_model False
    [must ''kind'' (S_lit [''MicrosoftSecurityIncidentCreation'']), must ''displayName'' text_ty,
     nullable ''description'' text_ty, may ''enabled'' S_bool, must ''productFilter'' (S_lit MicrosoftSecurityProductName),
     nullable ''severitiesFilter'' (S_list (S_lit Severity) 0 None), nullable ''displayNamesFilter'' texts_ty,
     nullable ''displayNamesExcludeFilter'' texts_ty, nullable ''alertRuleTemplateName'' text_ty,
     nullable ''templateVersion'' text_ty]) reject_filter_overlap"

definition FusionSourceSubType :: schema where
  "FusionSourceSubType = S_model False
    [must ''sourceSubTypeName'' text_ty, must ''enabled'' S_bool, nullable ''severityFilters'' S_dict]"

definition FusionSourceSetting :: schema where
  "FusionSourceSetting = S_model False
    [must ''sourceName'' text_ty, must ''enabled'' S_bool, nullable ''sourceSubTypes'' (S_list FusionSourceSubType 0 None)]"

definition templated :: "string \<Rightarrow> (string list \<times> bool \<times> schema) list" where
  "templated k = [must ''kind'' (S_lit [k]), may ''enabled'' S_bool, must ''alertRuleTemplateName'' text_ty]"

definition SentinelFusionPayload :: schema where
  "SentinelFusionPayload = S_model False (templated ''Fusion'' @ [nullable ''sourceSettings'' (S_list FusionSourceSetting 0 None)])"

definition SentinelMLBehaviorAnalyticsPayload :: schema where
  "SentinelMLBehaviorAnalyticsPayload = S_model False (templated ''MLBehaviorAnalytics'')"

definition SentinelThreatIntelligencePayload :: schema where
  "SentinelThreatIntelligencePayload = S_model False (templated ''ThreatIntelligence'')"

definition SENTINEL_KIND_TO_MODEL :: "(string \<times> schema) list" where
  "SENTINEL_KIND_TO_MODEL =
    [(''Scheduled'', SentinelScheduledPayload), (''NRT'', SentinelNRTPayload),
     (''MicrosoftSecurityIncidentCreation'', SentinelMicrosoftSecurityIncidentCreationPayload),
     (''Fusion'', SentinelFusionPayload), (''MLBehaviorAnalytics'', SentinelMLBehaviorAnalyticsPayload),
     (''ThreatIntelligence'', SentinelThreatIntelligencePayload)]"

text \<open>Whether the call returns; a document that is no mapping, or whose kind cannot be looked up, raises too.\<close>

definition validate_sentinel_payload :: "(pyval \<Rightarrow> int option) \<Rightarrow> pyval \<Rightarrow> bool" where
  "validate_sentinel_payload ti payload =
    (case sub payload ''kind'' of
       PStr k \<Rightarrow> (case map_of SENTINEL_KIND_TO_MODEL k of None \<Rightarrow> False | Some m \<Rightarrow> fits ti m payload)
     | _ \<Rightarrow> False)"

section \<open>Defender rules\<close>

definition DefenderSchedule :: schema where
  "DefenderSchedule = S_model False [must ''period'' (S_lit [''0'', ''1H'', ''3H'', ''12H'', ''24H''])]"

definition odata_model :: schema where
  "odata_model = S_model False [([''@odata.type'', ''odata_type''], True, text_ty), must ''identifier'' text_ty]"

definition DefenderImpactedAsset :: schema where "DefenderImpactedAsset = odata_model"

definition DefenderResponseAction :: schema where "DefenderResponseAction = odata_model"

definition DefenderAlertTemplate :: schema where
  "DefenderAlertTemplate = S_model False
    [must ''title'' text_ty, nullable ''description'' text_ty,
     must ''severity'' (S_lit [''informational'', ''low'', ''medium'', ''high'']), nullable ''category'' text_ty,
     nullable ''recommendedActions'' text_ty, nullable ''mitreTechniques'' texts_ty,
     must ''impactedAssets'' (S_list DefenderImpactedAsset 1 None)]"

definition DefenderOrganizationalScope :: schema where
  "DefenderOrganizationalScope = S_model False [nullable ''scopeType'' text_ty, nullable ''scopeNames'' texts_ty]"

definition DefenderDetectionAction :: schema where
  "DefenderDetectionAction = S_model False
    [must ''alertTemplate'' DefenderAlertTemplate, nullable ''organizationalScope'' DefenderOrganizationalScope,
     nullable ''responseActions'' (S_list DefenderResponseAction 0 None)]"

definition DefenderQueryCondition :: schema where
  "DefenderQueryCondition = S_model True [must ''queryText'' text_ty]"

definition DefenderPayload :: schema where
  "DefenderPayload = S_model True
    [must ''displayName'' text_ty, nullable ''description'' text_ty,
     nullable ''status'' (S_lit [''enabled'', ''disabled'', ''autoDisabled'']), nullable ''isEnabled'' S_bool,
     must ''queryCondition'' DefenderQueryCondition, must ''schedule'' DefenderSchedule,
     must ''detectionAction'' DefenderDetectionAction]"

definition validate_defender_payload :: "(pyval \<Rightarrow> int option) \<Rightarrow> pyval \<Rightarrow> bool" where
  "validate_defender_payload ti payload = fits ti DefenderPayload payload"

end
