(* ===== verification/Analytic.thy ===== *)
theory Analytic
  imports Protected_Put Payloads Drift Dependencies
begin

text \<open>
  Analytic rules, \<open>contentops/handlers/sentinel_analytic.py\<close> with \<open>to_sentinel_body\<close> of
  \<open>contentops/utils/yaml_io.py\<close>: validation, plan, apply, delete, listing and the reverse mapping of
  collect. The provider the factory returns is an argument, \<open>None\<close> without credentials. An em dash of
  a message is written as a hyphen.
\<close>

section \<open>The fields of each kind\<close>

definition SCHEDULED_HASHED_FIELDS :: "string list" where
  "SCHEDULED_HASHED_FIELDS = [''properties.displayName'', ''properties.query'', ''properties.severity'', ''properties.tactics'',
     ''properties.queryFrequency'', ''properties.queryPeriod'', ''properties.triggerOperator'',
     ''properties.triggerThreshold'', ''properties.enabled'']"

definition NRT_HASHED_FIELDS :: "string list" where
  "NRT_HASHED_FIELDS = [''properties.displayName'', ''properties.query'', ''properties.severity'', ''properties.tactics'',
     ''properties.enabled'']"

definition MSI_HASHED_FIELDS :: "string list" where
  "MSI_HASHED_FIELDS = [''properties.displayName'', ''properties.productFilter'', ''properties.severitiesFilter'',
     ''properties.displayNamesFilter'', ''properties.displayNamesExcludeFilter'', ''properties.enabled'']"

definition TEMPLATED_HASHED_FIELDS :: "string list" where
  "TEMPLATED_HASHED_FIELDS = [''properties.alertRuleTemplateName'', ''properties.enabled'']"

definition FUSION_BODY_ALLOWLIST :: "string list" where
  "FUSION_BODY_ALLOWLIST = [''alertRuleTemplateName'', ''enabled'', ''sourceSettings'', ''scenarioExclusionPatterns'']"

definition MLBA_BODY_ALLOWLIST :: "string list" where
  "MLBA_BODY_ALLOWLIST = [''alertRuleTemplateName'', ''enabled'']"

definition TEMPLATE_BINDABLE_KINDS :: "pyval list" where
  "TEMPLATE_BINDABLE_KINDS = [PStr ''Scheduled'', PStr ''NRT'', PStr ''MicrosoftSecurityIncidentCreation'']"

definition template_bound_projection :: "string list \<Rightarrow> string list" where
  "template_bound_projection fs = ''properties.alertRuleTemplateName'' # fs"

definition fields_of_kind :: "pyval \<Rightarrow> string list" where
  "fields_of_kind kd =
    (if kd = PStr ''Scheduled'' then SCHEDULED_HASHED_FIELDS
     else if kd = PStr ''NRT'' then NRT_HASHED_FIELDS
     else if kd = PStr ''MicrosoftSecurityIncidentCreation'' then MSI_HASHED_FIELDS
     else if kd \<in> {PStr ''Fusion'', PStr ''MLBehaviorAnalytics'', PStr ''ThreatIntelligence''} then TEMPLATED_HASHED_FIELDS
     else SCHEDULED_HASHED_FIELDS)"

definition hashed_fields_for_kind :: "pyval \<Rightarrow> bool \<Rightarrow> string list" where
  "hashed_fields_for_kind kd template_bound =
    (if template_bound \<and> kd \<in> set TEMPLATE_BINDABLE_KINDS then template_bound_projection (fields_of_kind kd)
     else fields_of_kind kd)"

definition ANALYTIC_SERVER_FIELDS :: "string list" where
  "ANALYTIC_SERVER_FIELDS = [''etag'', ''type'', ''systemData'']"

definition without :: "string list \<Rightarrow> pydict \<Rightarrow> pydict" where
  "without ks d = filter (\<lambda>p. fst p \<notin> set ks) d"

text \<open>\<open>_strip_server_fields\<close>, which the handlers have with different tables.\<close>

definition strip_server_fields :: "string list \<Rightarrow> string list \<Rightarrow> pydict \<Rightarrow> pydict" where
  "strip_server_fields outer nested remote =
    (let cleaned = without outer remote in
     case map_of cleaned ''properties'' of
       Some (PDict block) \<Rightarrow> dset ''properties'' (PDict (without nested block)) cleaned
     | _ \<Rightarrow> cleaned)"

definition strip_analytic :: "pydict \<Rightarrow> pydict" where
  "strip_analytic = strip_server_fields ANALYTIC_SERVER_FIELDS [''lastModifiedUtc'', ''provisioningState'']"

section \<open>The body\<close>

text \<open>\<open>to_sentinel_body\<close>: the kind and the properties.\<close>

definition to_sentinel_body :: "pyval \<Rightarrow> py_exc + pyval \<times> pydict" where
  "to_sentinel_body payload = (case payload of
     PDict d \<Rightarrow> (case map_of d ''kind'' of
       None \<Rightarrow> Inl (Key_error ''kind'') | Some k \<Rightarrow> Inr (k, dpop ''kind'' d))
   | _ \<Rightarrow> Inl Type_error)"

definition dangling_template :: "pydict \<Rightarrow> bool" where
  "dangling_template p \<longleftrightarrow> truthy (dget p ''templateVersion'') \<and> \<not> truthy (dget p ''alertRuleTemplateName'')"

definition kind_or_scheduled :: "pyval \<Rightarrow> pyval" where
  "kind_or_scheduled kd = (if truthy kd then kd else PStr ''Scheduled'')"

definition sanitise :: "pyval \<Rightarrow> pydict \<Rightarrow> pydict" where
  "sanitise kd p =
    (let p = (if dangling_template p then dpop ''templateVersion'' p else p);
         marker = kind_or_scheduled kd
     in if marker = PStr ''Fusion'' then filter (\<lambda>x. fst x \<in> set FUSION_BODY_ALLOWLIST) p
        else if marker = PStr ''MLBehaviorAnalytics'' then filter (\<lambda>x. fst x \<in> set MLBA_BODY_ALLOWLIST) p
        else p)"

definition analytic_properties :: "string \<Rightarrow> pyval \<Rightarrow> pydict \<Rightarrow> pydict" where
  "analytic_properties st kd p =
    (let p = sanitise kd p in if st = ''deprecated'' then dset ''enabled'' (PBool False) p else p)"

definition arm_body :: "pyval \<Rightarrow> pydict \<Rightarrow> pyval" where
  "arm_body kd p = PDict [(''kind'', kd), (''properties'', PDict p)]"

section \<open>The handler\<close>

definition analytic_validate :: "(pyval \<Rightarrow> int option) \<Rightarrow> loaded_asset \<Rightarrow> py_exc option" where
  "analytic_validate ti la =
    (if \<not> validate_sentinel_payload ti (la_payload la) then Some (Payload_error ''payload'')
     else case la_payload la of
       PDict d \<Rightarrow> if dangling_template d then Some (Payload_error ''templateVersion'') else None
     | _ \<Rightarrow> None)"

definition analytic_plan :: "loaded_asset \<Rightarrow> action_result" where
  "analytic_plan la =
    (let i = env_id (la_envelope la); st = env_status (la_envelope la) in
     if st = ''experimental'' then own_result i SENTINEL_ANALYTIC SKIP ''planned'' ''experimental status - skipped by deploy''
     else own_result i SENTINEL_ANALYTIC (if st = ''deprecated'' then DISABLE else UPDATE) ''planned'' [])"

text \<open>\<open>metadata.arm_name\<close>, or the envelope id when that is empty.\<close>

definition resource_name :: "loaded_asset \<Rightarrow> string" where
  "resource_name la = (case envelope.arm_name (la_envelope la) of
     None \<Rightarrow> env_id (la_envelope la) | Some [] \<Rightarrow> env_id (la_envelope la) | Some n \<Rightarrow> n)"

definition ALERT_RULES :: string where "ALERT_RULES = ''alertRules''"

definition analytic_put :: "(string \<Rightarrow> string) \<Rightarrow> 'w arm \<Rightarrow> loaded_asset \<Rightarrow> pyval \<Rightarrow> pydict \<Rightarrow> ('w, action_result) eff" where
  "analytic_put h A la kd p =
    (let remote_id = resource_name la;
         body = arm_body kd p;
         fs = hashed_fields_for_kind (kind_or_scheduled kd) (truthy (dget p ''alertRuleTemplateName''));
         act_of = (\<lambda>r. if env_status (la_envelope la) = ''deprecated'' then DISABLE else put_action r)
     in ebind (get_resource A ALERT_RULES remote_id API_VERSION) (\<lambda>existing.
        ebind (elift (extract_etag existing)) (\<lambda>etag.
          put_and_verify (env_id (la_envelope la)) SENTINEL_ANALYTIC act_of
            (\<lambda>v. Inr (compute_content_hash h v fs)) body
            (put_resource A ALERT_RULES remote_id body etag)
            (readback_resource A ALERT_RULES remote_id API_VERSION))))"

definition analytic_apply ::
  "(string \<Rightarrow> string) \<Rightarrow> 'w arm option \<Rightarrow> loaded_asset \<Rightarrow> bool \<Rightarrow> ('w, action_result) eff" where
  "analytic_apply h prov la dry_run =
    (let i = env_id (la_envelope la); st = env_status (la_envelope la) in
     if st = ''experimental'' then eret (own_result i SENTINEL_ANALYTIC SKIP ''skipped'' ''experimental'')
     else if dry_run then eret (own_result i SENTINEL_ANALYTIC UPDATE ''dry-run'' [])
     else case prov of
       None \<Rightarrow> elift (Inl No_provider)
     | Some A \<Rightarrow> ebind (elift (to_sentinel_body (la_payload la))) (\<lambda>(kd, p).
         analytic_put h A la kd (analytic_properties st kd p)))"

definition analytic_delete ::
  "(py_exc \<Rightarrow> string) \<Rightarrow> 'w arm option \<Rightarrow> string \<Rightarrow> 'w \<Rightarrow> (py_exc + action_result) \<times> 'w" where
  "analytic_delete msg prov remote_id w = (case prov of
     None \<Rightarrow> (Inl Not_supported, w)
   | Some A \<Rightarrow> (case delete_by msg remote_id SENTINEL_ANALYTIC (delete_resource A ALERT_RULES remote_id API_VERSION) w of
       (r, w') \<Rightarrow> (Inr r, w')))"

definition analytic_list :: "'w arm option \<Rightarrow> ('w, pyval list) eff" where
  "analytic_list prov = (case prov of None \<Rightarrow> eret [] | Some A \<Rightarrow> list_resource A ALERT_RULES API_VERSION)"

text \<open>The name and the display name reach \<open>displayname_slug\<close>, which takes strings.\<close>

definition slug_of :: "pyval \<Rightarrow> pyval \<Rightarrow> py_exc + string" where
  "slug_of display_name fallback = (case (if truthy display_name then display_name else PStr []) of
     PStr n \<Rightarrow>
       (if displayname_slug (Some n) None \<noteq> [] then Inr (displayname_slug (Some n) None)
        else case fallback of PStr f \<Rightarrow> Inr (displayname_slug (Some n) (Some f)) | _ \<Rightarrow> Inl Type_error)
   | _ \<Rightarrow> Inl Type_error)"

definition drop_empty :: "string list \<Rightarrow> pydict \<Rightarrow> pydict" where
  "drop_empty ks d = filter (\<lambda>p. \<not> (fst p \<in> set ks \<and> snd p \<in> {PNone, PStr []})) d"

definition collected_properties :: "pyval \<Rightarrow> pydict \<Rightarrow> pydict" where
  "collected_properties kd p =
    dset ''kind'' kd (drop_empty [''alertRuleTemplateName'', ''templateVersion''] (dpop ''lastModifiedUtc'' p))"

definition first_truthy :: "pyval \<Rightarrow> pyval \<Rightarrow> pyval" where
  "first_truthy a b = (if truthy a then a else b)"

definition analytic_to_envelope :: "pydict \<Rightarrow> py_exc + pydict option" where
  "analytic_to_envelope remote =
    (let rule_id = dget remote ''name'' in
     if \<not> truthy rule_id then Inr None
     else case sub_dict remote ''properties'' of
       None \<Rightarrow> Inl Type_error
     | Some p \<Rightarrow>
         (let kd = first_truthy (dget remote ''kind'') (first_truthy (dget p ''kind'') (PStr ''Scheduled''));
              props = collected_properties kd p;
              st = (if truthy (dget_default props ''enabled'' (PBool True)) then ''production'' else ''deprecated'');
              base = PStr COLLECT_BASELINE_VERSION;
              version = (if truthy (dget p ''alertRuleTemplateName'') then first_truthy (dget p ''templateVersion'') base else base)
          in rbind (slug_of (dget props ''displayName'') rule_id) (\<lambda>i.
             if i = [] then Inr None
             else Inr (Some
               [(''id'', PStr i), (''version'', version), (''asset'', PStr (asset_value SENTINEL_ANALYTIC)), (''status'', PStr st),
                (''metadata'', PDict [(''arm_name'', rule_id)]), (''payload'', PDict props)]))))"

section \<open>Writing\<close>

definition analytic_hash :: "(string \<Rightarrow> string) \<Rightarrow> loaded_asset \<times> pyval \<times> pydict \<Rightarrow> pyval \<Rightarrow> py_exc + string" where
  "analytic_hash h = (\<lambda>(la, kd, p) v. Inr (compute_content_hash h v
     (hashed_fields_for_kind (kind_or_scheduled kd) (truthy (dget p ''alertRuleTemplateName'')))))"

lemma below_fields_of_kind: "below_properties (server_owned SENTINEL_ANALYTIC) (hashed_fields_for_kind kd b)"
proof -
  let ?own = "server_owned SENTINEL_ANALYTIC"
  have "below_properties ?own SCHEDULED_HASHED_FIELDS" "below_properties ?own NRT_HASHED_FIELDS"
    "below_properties ?own MSI_HASHED_FIELDS" "below_properties ?own TEMPLATED_HASHED_FIELDS"
    "below_properties ?own [''properties.alertRuleTemplateName'']"
    by code_simp+
  then show ?thesis
    by (auto simp: hashed_fields_for_kind_def fields_of_kind_def template_bound_projection_def below_properties_def)
qed

interpretation analytic: verified_write
  "\<lambda>A (la, kd, p). analytic_put h A la kd p"
  "\<lambda>A (la, kd, p). resource_url A ALERT_RULES (Some (resource_name la)) API_VERSION None"
  "\<lambda>(la, kd, p). arm_body kd p" "\<lambda>(la, kd, p). env_id (la_envelope la)" "\<lambda>_. SENTINEL_ANALYTIC"
  "\<lambda>(la, kd, p) r. if env_status (la_envelope la) = ''deprecated'' then DISABLE else put_action r"
  resource_etag "analytic_hash h" readback_url "\<lambda>A x. eret" "\<lambda>_. server_owned SENTINEL_ANALYTIC" for h
proof (unfold_locales, goal_cases)
  case (1 A x ex w)
  then show ?case by (auto simp: analytic_put_def Let_def get_bad_url split: prod.splits)
next
  case (2 A x u)
  then show ?case by (cases x) (simp add: analytic_put_def analytic_hash_def Let_def by_url)
next
  case (9 d c x)
  then show ?case by (cases x) (simp add: analytic_hash_def content_hash_properties[OF below_fields_of_kind, where d = d and c = c])
qed (auto simp: by_read)

end
