(* ===== verification/Saved_Search.thy ===== *)
theory Saved_Search
  imports Analytic
begin

text \<open>
  Hunting queries and parsers, \<open>contentops/handlers/sentinel_hunting.py\<close>, \<open>sentinel_hunting_models.py\<close>
  and \<open>sentinel_parser.py\<close>: saved searches of the Log Analytics workspace, told apart by their category.
  A text the models have coerced is the text itself and \<open>version\<close> is coerced by \<open>ti\<close>.
\<close>

section \<open>Payloads\<close>

definition HUNTING_CATEGORY :: string where "HUNTING_CATEGORY = ''Hunting Queries''"

definition PARSER_CATEGORY :: string where "PARSER_CATEGORY = ''Function''"

definition SAVED_SEARCHES :: string where "SAVED_SEARCHES = ''savedSearches''"

definition SavedSearchTag :: schema where
  "SavedSearchTag = S_model False [must ''name'' (S_str 1 None), must ''value'' text_ty]"

definition SentinelHuntingPayload :: schema where
  "SentinelHuntingPayload = S_model False
    [must ''displayName'' (S_str 1 (Some 255)), must ''query'' (S_str 1 None), may ''category'' (S_lit [HUNTING_CATEGORY]),
     nullable ''description'' text_ty, nullable ''tactics'' texts_ty, nullable ''techniques'' texts_ty,
     may ''version'' (S_int (Some 1) None), nullable ''functionAlias'' text_ty, nullable ''functionParameters'' text_ty,
     nullable ''tags'' (S_list SavedSearchTag 0 None)]"

definition SentinelParserPayload :: schema where
  "SentinelParserPayload = S_model False
    [must ''displayName'' (S_str 1 (Some 255)), must ''query'' (S_str 1 None), may ''category'' (S_lit [PARSER_CATEGORY]),
     must ''functionAlias'' (S_str 1 None), nullable ''functionParameters'' text_ty, nullable ''description'' text_ty,
     may ''version'' (S_int (Some 1) None), nullable ''tags'' (S_list SavedSearchTag 0 None)]"

definition tag :: "pyval \<Rightarrow> pyval \<Rightarrow> pyval" where
  "tag name val = PDict [(''name'', name), (''value'', val)]"

definition when_truthy :: "pyval \<Rightarrow> 'a list \<Rightarrow> 'a list" where
  "when_truthy v xs = (if truthy v then xs else [])"

definition dump_tags :: "pyval \<Rightarrow> pyval list" where
  "dump_tags v = map (\<lambda>t. tag (sub t ''name'') (sub t ''value'')) (items v)"

definition joined :: "pyval \<Rightarrow> pyval" where
  "joined v = PStr (join '','' (map text_of (items v)))"

definition hunting_tags_for :: "pydict \<Rightarrow> pyval list" where
  "hunting_tags_for d =
    when_truthy (dget d ''description'') [tag (PStr ''description'') (dget d ''description'')] @
    when_truthy (dget d ''tactics'') [tag (PStr ''tactics'') (joined (dget d ''tactics''))] @
    when_truthy (dget d ''techniques'') [tag (PStr ''techniques'') (joined (dget d ''techniques''))] @
    dump_tags (dget d ''tags'')"

definition parser_tags_for :: "pydict \<Rightarrow> pyval list" where
  "parser_tags_for d =
    when_truthy (dget d ''description'') [tag (PStr ''description'') (dget d ''description'')] @ dump_tags (dget d ''tags'')"

definition model_version :: "(pyval \<Rightarrow> int option) \<Rightarrow> pydict \<Rightarrow> pyval" where
  "model_version ti d = (case ti (dget_default d ''version'' (PInt 2)) of Some i \<Rightarrow> PInt i | None \<Rightarrow> PNone)"

text \<open>The properties of a body: category, name, query, version, then what is set.\<close>

definition search_properties :: "(pyval \<Rightarrow> int option) \<Rightarrow> string \<Rightarrow> pydict \<Rightarrow> pydict" where
  "search_properties ti category d =
    [(''category'', PStr category), (''displayName'', dget d ''displayName''), (''query'', dget d ''query''),
     (''version'', model_version ti d)]"

definition properties_body :: "pydict \<Rightarrow> pyval" where
  "properties_body p = PDict [(''properties'', PDict p)]"

definition to_savedsearch_arm_body :: "(pyval \<Rightarrow> int option) \<Rightarrow> pyval \<Rightarrow> py_exc + pyval" where
  "to_savedsearch_arm_body ti payload = (case payload of
     PDict d \<Rightarrow>
       (if \<not> fits ti SentinelHuntingPayload payload then Inl (Payload_error ''payload'')
        else let tags = hunting_tags_for d in
          Inr (properties_body (search_properties ti HUNTING_CATEGORY d @
            when_truthy (dget d ''functionAlias'') [(''functionAlias'', dget d ''functionAlias'')] @
            when_truthy (dget d ''functionParameters'') [(''functionParameters'', dget d ''functionParameters'')] @
            (if tags = [] then [] else [(''tags'', PList tags)]))))
   | _ \<Rightarrow> Inl Type_error)"

definition to_parser_arm_body :: "(pyval \<Rightarrow> int option) \<Rightarrow> pyval \<Rightarrow> py_exc + pyval" where
  "to_parser_arm_body ti payload = (case payload of
     PDict d \<Rightarrow>
       (if \<not> fits ti SentinelParserPayload payload then Inl (Payload_error ''payload'')
        else let tags = parser_tags_for d in
          Inr (properties_body (search_properties ti PARSER_CATEGORY d @ [(''functionAlias'', dget d ''functionAlias'')] @
            when_truthy (dget d ''functionParameters'') [(''functionParameters'', dget d ''functionParameters'')] @
            (if tags = [] then [] else [(''tags'', PList tags)]))))
   | _ \<Rightarrow> Inl Type_error)"

section \<open>The handlers\<close>

definition HUNTING_HASHED_FIELDS :: "string list" where
  "HUNTING_HASHED_FIELDS = [''properties.displayName'', ''properties.query'', ''properties.category'', ''properties.tags'']"

definition PARSER_HASHED_FIELDS :: "string list" where
  "PARSER_HASHED_FIELDS = [''properties.displayName'', ''properties.query'', ''properties.category'',
     ''properties.functionAlias'', ''properties.functionParameters'', ''properties.tags'']"

definition strip_hunting :: "pydict \<Rightarrow> pydict" where
  "strip_hunting = strip_server_fields [''etag'', ''type'', ''systemData''] [''etag'', ''provisioningState'']"

definition strip_parser :: "pydict \<Rightarrow> pydict" where
  "strip_parser = strip_server_fields [''etag'', ''type'', ''systemData''] [''etag'', ''version'', ''provisioningState'']"

text \<open>The plan of the handlers that leave a deprecated asset alone.\<close>

definition plan_unless_retired :: "asset_kind \<Rightarrow> string \<Rightarrow> loaded_asset \<Rightarrow> action_result" where
  "plan_unless_retired k noun la =
    (let i = env_id (la_envelope la); st = env_status (la_envelope la) in
     if st = ''experimental'' then own_result i k SKIP ''planned'' ''experimental status - skipped''
     else if st = ''deprecated''
       then own_result i k SKIP ''planned'' (''deprecated '' @ noun @ '' are not deleted by deploy; use `prune`'')
     else own_result i k UPDATE ''planned'' [])"

definition hunting_plan :: "loaded_asset \<Rightarrow> action_result" where
  "hunting_plan = plan_unless_retired SENTINEL_HUNTING ''hunting queries''"

definition parser_plan :: "loaded_asset \<Rightarrow> action_result" where
  "parser_plan = plan_unless_retired SENTINEL_PARSER ''parsers''"

definition skipped_by :: "action_result \<Rightarrow> action_result" where
  "skipped_by r = r\<lparr>r_status := ''skipped''\<rparr>"

text \<open>
  The etag of the first read. Any status but 200 leaves it empty, and the PUT is then sent without
  \<open>If-Match\<close>. A header that is no text is refused by the transport.
\<close>

definition search_etag :: "response \<Rightarrow> py_exc + string option" where
  "search_etag r =
    (if status_code r \<noteq> 200 then Inr None
     else rbind (read_json r) (\<lambda>v. case v of
       PDict d \<Rightarrow>
         (let etag = (\<lambda>x. if \<not> truthy x then Inr None else case x of PStr s \<Rightarrow> Inr (Some s) | _ \<Rightarrow> Inl Type_error)
          in if truthy (dget d ''etag'') then etag (dget d ''etag'')
             else case sub_dict d ''properties'' of None \<Rightarrow> Inl Type_error | Some p \<Rightarrow> etag (dget p ''etag''))
     | _ \<Rightarrow> Inl Type_error))"

definition search_readback :: "'w arm \<Rightarrow> string \<Rightarrow> ('w, string + pyval) eff" where
  "search_readback A url =
    ebind (arm_request A ''GET'' url None None) (\<lambda>r.
      if status_code r \<noteq> 200 then eret (Inl (''post-apply GET returned '' @ show_nat (status_code r)))
      else ebind (elift (read_json r)) (\<lambda>v. eret (Inr v)))"

definition search_put :: "(string \<Rightarrow> string) \<Rightarrow> 'w arm \<Rightarrow> asset_kind \<Rightarrow> string list \<Rightarrow> string \<Rightarrow> pyval \<Rightarrow> ('w, action_result) eff" where
  "search_put h A k fs i body =
    ebind (elift (la_resource_url A SAVED_SEARCHES (Some i) LA_API_VERSION)) (\<lambda>url.
    ebind (arm_request A ''GET'' url None None) (\<lambda>existing.
    ebind (elift (search_etag existing)) (\<lambda>etag.
      put_and_verify i k put_action (\<lambda>v. Inr (compute_content_hash h v fs)) body
        (arm_request A ''PUT'' url (Some body) etag) (search_readback A url))))"

definition search_apply ::
  "(string \<Rightarrow> string) \<Rightarrow> action_result \<Rightarrow> py_exc + pyval \<Rightarrow> asset_kind \<Rightarrow> string list \<Rightarrow> 'w arm option \<Rightarrow>
   loaded_asset \<Rightarrow> bool \<Rightarrow> ('w, action_result) eff" where
  "search_apply h plan body k fs prov la dry_run =
    (let i = env_id (la_envelope la) in
     if r_action plan = SKIP then eret (skipped_by plan)
     else ebind (elift body) (\<lambda>b.
       if dry_run then eret (own_result i k UPDATE ''dry-run'' [])
       else case prov of None \<Rightarrow> elift (Inl No_provider) | Some A \<Rightarrow> search_put h A k fs i b))"

definition hunting_apply ::
  "(pyval \<Rightarrow> int option) \<Rightarrow> (string \<Rightarrow> string) \<Rightarrow> 'w arm option \<Rightarrow> loaded_asset \<Rightarrow> bool \<Rightarrow> ('w, action_result) eff" where
  "hunting_apply ti h prov la =
    search_apply h (hunting_plan la) (to_savedsearch_arm_body ti (la_payload la)) SENTINEL_HUNTING HUNTING_HASHED_FIELDS prov la"

definition parser_apply ::
  "(pyval \<Rightarrow> int option) \<Rightarrow> (string \<Rightarrow> string) \<Rightarrow> 'w arm option \<Rightarrow> loaded_asset \<Rightarrow> bool \<Rightarrow> ('w, action_result) eff" where
  "parser_apply ti h prov la =
    search_apply h (parser_plan la) (to_parser_arm_body ti (la_payload la)) SENTINEL_PARSER PARSER_HASHED_FIELDS prov la"

definition payload_validate :: "bool \<Rightarrow> py_exc option" where
  "payload_validate ok = (if ok then None else Some (Payload_error ''payload''))"

definition hunting_validate :: "(pyval \<Rightarrow> int option) \<Rightarrow> loaded_asset \<Rightarrow> py_exc option" where
  "hunting_validate ti la = payload_validate (fits ti SentinelHuntingPayload (la_payload la))"

definition parser_validate :: "(pyval \<Rightarrow> int option) \<Rightarrow> loaded_asset \<Rightarrow> py_exc option" where
  "parser_validate ti la = payload_validate (fits ti SentinelParserPayload (la_payload la))"

definition search_delete ::
  "(py_exc \<Rightarrow> string) \<Rightarrow> asset_kind \<Rightarrow> 'w arm option \<Rightarrow> string \<Rightarrow> 'w \<Rightarrow> (py_exc + action_result) \<times> 'w" where
  "search_delete msg k prov remote_id w = (case prov of
     None \<Rightarrow> (Inl Not_supported, w)
   | Some A \<Rightarrow> (case la_resource_url A SAVED_SEARCHES (Some remote_id) LA_API_VERSION of
       Inl e \<Rightarrow> (Inl e, w)
     | Inr url \<Rightarrow> (case delete_by msg remote_id k (arm_request A ''DELETE'' url None None) w of (r, w') \<Rightarrow> (Inr r, w'))))"

text \<open>The items of a category; \<open>None\<close> where an item or its properties are no mapping.\<close>

definition category_of :: "pyval \<Rightarrow> pyval option" where
  "category_of item = (case item of
     PDict d \<Rightarrow> map_option (\<lambda>p. dget p ''category'') (sub_dict d ''properties'') | _ \<Rightarrow> None)"

definition search_list :: "string \<Rightarrow> 'w arm option \<Rightarrow> ('w, pyval list) eff" where
  "search_list category prov = (case prov of
     None \<Rightarrow> eret []
   | Some A \<Rightarrow>
       ebind (elift (la_resource_url A SAVED_SEARCHES None LA_API_VERSION)) (\<lambda>url.
       ebind (arm_request A ''GET'' url None None) (\<lambda>r.
         if \<not> is_success r then elift (Inl (Http_error (status_code r)))
         else ebind (elift (read_json r)) (\<lambda>v. case v of
           PDict d \<Rightarrow>
             (let xs = dget d ''value'' in
              case iterate (if truthy xs then xs else PList []) of
                None \<Rightarrow> elift (Inl Type_error)
              | Some xs \<Rightarrow>
                  if None \<in> set (map category_of xs) then elift (Inl Type_error)
                  else eret (filter (\<lambda>x. category_of x = Some (PStr category)) xs))
         | _ \<Rightarrow> elift (Inl Type_error)))))"

section \<open>Collecting\<close>

text \<open>Description, tactics, techniques and the other tags, while the tags are read.\<close>

type_synonym tag_acc = "pyval \<times> pyval \<times> pyval \<times> pyval list"

definition split_text :: "pyval \<Rightarrow> py_exc + pyval" where
  "split_text v = (case v of
     PStr s \<Rightarrow> Inr (PList (map PStr (filter (\<lambda>t. t \<noteq> []) (split_on CHR '','' s)))) | _ \<Rightarrow> Inl Type_error)"

fun read_tags :: "bool \<Rightarrow> pyval list \<Rightarrow> tag_acc \<Rightarrow> py_exc + tag_acc" where
  "read_tags hunting [] acc = Inr acc"
| "read_tags hunting (t # ts) (desc, tac, tec, extra) = (case t of
     PDict d \<Rightarrow>
       (let name = dget d ''name''; val = dget_default d ''value'' (PStr []) in
        if name = PStr ''description'' then read_tags hunting ts (val, tac, tec, extra)
        else if hunting \<and> name = PStr ''tactics'' then
          rbind (split_text val) (\<lambda>xs. read_tags hunting ts (desc, xs, tec, extra))
        else if hunting \<and> name = PStr ''techniques'' then
          rbind (split_text val) (\<lambda>xs. read_tags hunting ts (desc, tac, xs, extra))
        else read_tags hunting ts (desc, tac, tec, extra @ [tag name val]))
   | _ \<Rightarrow> Inl Type_error)"

definition tag_list :: "pydict \<Rightarrow> py_exc + pyval list" where
  "tag_list p =
    (case iterate (first_truthy (dget p ''tags'') (PList [])) of None \<Rightarrow> Inl Type_error | Some ts \<Rightarrow> Inr ts)"

definition entry_if :: "pydict \<Rightarrow> string \<Rightarrow> pydict" where
  "entry_if p k = when_truthy (dget p k) [(k, dget p k)]"

definition version_entry :: "pydict \<Rightarrow> pydict" where
  "version_entry p = (if ''version'' \<in> set (map fst p) then [(''version'', dget p ''version'')] else [])"

definition named :: "string \<Rightarrow> pyval \<Rightarrow> pydict" where
  "named k v = when_truthy v [(k, v)]"

definition hunting_payload :: "pydict \<Rightarrow> tag_acc \<Rightarrow> pydict" where
  "hunting_payload p = (\<lambda>(desc, tac, tec, extra).
     [(''displayName'', dget_default p ''displayName'' (PStr [])), (''query'', dget_default p ''query'' (PStr [])),
      (''category'', PStr HUNTING_CATEGORY)] @
     version_entry p @ entry_if p ''functionAlias'' @ entry_if p ''functionParameters'' @
     named ''description'' desc @ named ''tactics'' tac @ named ''techniques'' tec @ named ''tags'' (PList extra))"

definition parser_payload :: "pydict \<Rightarrow> pyval \<Rightarrow> tag_acc \<Rightarrow> pydict" where
  "parser_payload p rule_id = (\<lambda>(desc, _, _, extra).
     [(''displayName'', dget_default p ''displayName'' (PStr [])), (''query'', dget_default p ''query'' (PStr [])),
      (''category'', PStr PARSER_CATEGORY), (''functionAlias'', first_truthy (dget p ''functionAlias'') rule_id)] @
     version_entry p @ entry_if p ''functionParameters'' @ named ''description'' desc @ named ''tags'' (PList extra))"

definition search_envelope :: "asset_kind \<Rightarrow> pyval \<Rightarrow> bool \<Rightarrow> pydict \<Rightarrow> pydict" where
  "search_envelope k rule_id with_metadata payload =
    [(''id'', rule_id), (''version'', PStr COLLECT_BASELINE_VERSION), (''asset'', PStr (asset_value k)),
     (''status'', PStr ''production'')] @
    (if with_metadata then [(''metadata'', PDict [(''arm_name'', rule_id)])] else []) @ [(''payload'', PDict payload)]"

definition hunting_to_envelope :: "pydict \<Rightarrow> py_exc + pydict option" where
  "hunting_to_envelope remote =
    (let rule_id = dget remote ''name'' in
     if \<not> truthy rule_id then Inr None
     else case sub_dict remote ''properties'' of
       None \<Rightarrow> Inl Type_error
     | Some p \<Rightarrow>
         if dget p ''category'' \<noteq> PStr HUNTING_CATEGORY then Inr None
         else rbind (rbind (tag_list p) (\<lambda>ts. read_tags True ts (PNone, PNone, PNone, []))) (\<lambda>acc.
           Inr (Some (search_envelope SENTINEL_HUNTING rule_id True (hunting_payload p acc)))))"

definition parser_to_envelope :: "pydict \<Rightarrow> py_exc + pydict option" where
  "parser_to_envelope remote =
    (let rule_id = dget remote ''name'' in
     if \<not> truthy rule_id then Inr None
     else case sub_dict remote ''properties'' of
       None \<Rightarrow> Inl Type_error
     | Some p \<Rightarrow>
         if dget p ''category'' \<noteq> PStr PARSER_CATEGORY then Inr None
         else rbind (rbind (tag_list p) (\<lambda>ts. read_tags False ts (PNone, PNone, PNone, []))) (\<lambda>acc.
           Inr (Some (search_envelope SENTINEL_PARSER rule_id False (parser_payload p rule_id acc)))))"

section \<open>Writing\<close>

lemma reading_search_readback [simp]: "reading A (search_readback A u)"
  unfolding search_readback_def by (intro reading_bind reading_if) auto

definition search_fields :: "asset_kind \<Rightarrow> string list" where
  "search_fields k = (if k = SENTINEL_HUNTING then HUNTING_HASHED_FIELDS else PARSER_HASHED_FIELDS)"

lemma below_search_fields: "below_properties (server_owned k) (search_fields k)"
proof -
  have "below_properties (server_owned SENTINEL_HUNTING) HUNTING_HASHED_FIELDS" by code_simp
  moreover have "list_all (\<lambda>k. below_properties (server_owned k) PARSER_HASHED_FIELDS) [SENTINEL_PARSER, SENTINEL_ANALYTIC,
      SENTINEL_WATCHLIST, SENTINEL_DATA_CONNECTOR, SENTINEL_AUTOMATION_RULE, SENTINEL_PLAYBOOK, DEFENDER_CUSTOM_DETECTION]" by code_simp
  ultimately show ?thesis by (cases k) (simp_all add: search_fields_def server_owned_def)
qed

interpretation search: verified_write
  "\<lambda>A (k, i, body). search_put h A k (search_fields k) i body"
  "\<lambda>A (k, i, body). la_resource_url A SAVED_SEARCHES (Some i) LA_API_VERSION"
  "\<lambda>(k, i, body). body" "\<lambda>(k, i, body). i" "\<lambda>(k, i, body). k" "\<lambda>_. put_action"
  search_etag "\<lambda>(k, i, body) v. Inr (compute_content_hash h v (search_fields k))" search_readback "\<lambda>A x. eret"
  "\<lambda>(k, i, body). server_owned k" for h
proof (unfold_locales, goal_cases)
  case (1 A x ex w)
  then show ?case by (auto simp: search_put_def elift_def split: prod.splits)
next
  case (2 A x u)
  then show ?case by (cases x) (simp add: search_put_def)
next
  case (3 r e)
  then show ?case by (auto simp: search_etag_def shows_etag_def read_json_def)
next
  case (8 A u w r v d e)
  then show ?case by (simp add: search_readback_def ebind_def elift_def read_json_def eret_def)
next
  case (9 d c x)
  then show ?case by (cases x) (simp add: content_hash_properties[OF below_search_fields, where d = d and c = c])
qed (auto simp: search_etag_def)

end
