(* ===== verification/Connector.thy ===== *)
theory Connector
  imports Saved_Search
begin

text \<open>
  Data connectors, \<open>contentops/handlers/sentinel_data_connector.py\<close>. The read-back compares a projection
  of the kind, the tenant and the enabled data types.
\<close>

definition DATA_CONNECTORS :: string where "DATA_CONNECTORS = ''dataConnectors''"

definition SentinelDataConnectorPayload :: schema where
  "SentinelDataConnectorPayload = S_model False [must ''kind'' (S_str 1 None), may ''requiresManualConsent'' S_bool]"

definition to_connector_arm_body :: "(pyval \<Rightarrow> int option) \<Rightarrow> pyval \<Rightarrow> py_exc + pyval" where
  "to_connector_arm_body ti payload = (case payload of
     PDict d \<Rightarrow>
       (if \<not> fits ti SentinelDataConnectorPayload payload then Inl (Payload_error ''payload'')
        else Inr (arm_body (dget d ''kind'') (dpop ''requiresManualConsent'' (dpop ''kind'' d))))
   | _ \<Rightarrow> Inl Type_error)"

definition CONNECTOR_SERVER_PROPERTIES :: "string list" where
  "CONNECTOR_SERVER_PROPERTIES = [''connectorUiConfig'', ''lastModifiedUtc'', ''etag'']"

definition strip_connector :: "pydict \<Rightarrow> pydict" where
  "strip_connector = strip_server_fields [''etag'', ''type'', ''systemData''] CONNECTOR_SERVER_PROPERTIES"

definition enabled_type :: "string \<times> pyval \<Rightarrow> bool" where
  "enabled_type p = (case snd p of PDict cfg \<Rightarrow> dget cfg ''state'' = PStr ''enabled'' | _ \<Rightarrow> False)"

definition connector_projection :: "pyval \<Rightarrow> py_exc + pydict" where
  "connector_projection body = (case body of
     PDict b \<Rightarrow>
       (case sub_dict b ''properties'' of
          None \<Rightarrow> Inl Type_error
        | Some p \<Rightarrow>
            (case sub_dict p ''dataTypes'' of
               None \<Rightarrow> Inl Type_error
             | Some types \<Rightarrow> Inr
                 [(''kind'', dget b ''kind''), (''tenantId'', dget p ''tenantId''),
                  (''enabledDataTypes'', PList (map PStr (sort (map fst (filter enabled_type types))))),
                  (''dataTypeCount'', PInt (int (length types)))]))
   | _ \<Rightarrow> Inl Type_error)"

definition projection_hash :: "(string \<Rightarrow> string) \<Rightarrow> (pyval \<Rightarrow> py_exc + pydict) \<Rightarrow> pyval \<Rightarrow> py_exc + string" where
  "projection_hash h proj v = rbind (proj v) (\<lambda>p. Inr (compute_projection_hash h p))"

definition connector_validate :: "(pyval \<Rightarrow> int option) \<Rightarrow> loaded_asset \<Rightarrow> py_exc option" where
  "connector_validate ti la = payload_validate (fits ti SentinelDataConnectorPayload (la_payload la))"

definition connector_plan :: "loaded_asset \<Rightarrow> action_result" where
  "connector_plan = plan_unless_retired SENTINEL_DATA_CONNECTOR ''connectors''"

text \<open>A mismatch names the consent the kind may still need in its detail only.\<close>

definition consent_note :: "pyval \<Rightarrow> string" where
  "consent_note payload =
    (if truthy (sub payload ''requiresManualConsent'') then '' (manual portal consent still required for this kind)'' else [])"

definition note_mismatch :: "string \<Rightarrow> action_result \<Rightarrow> action_result" where
  "note_mismatch note r =
    (if r_status r = ''success'' \<and> r_verified r = Some False \<and> r_error r \<noteq> Some gone_404
     then r\<lparr>r_detail := r_detail r @ note\<rparr> else r)"

definition connector_put :: "(string \<Rightarrow> string) \<Rightarrow> 'w arm \<Rightarrow> loaded_asset \<Rightarrow> pyval \<Rightarrow> ('w, action_result) eff" where
  "connector_put h A la body =
    (let i = env_id (la_envelope la) in
     ebind (get_resource A DATA_CONNECTORS i API_VERSION) (\<lambda>existing.
     ebind (elift (extract_etag existing)) (\<lambda>etag.
     ebind (put_and_verify i SENTINEL_DATA_CONNECTOR put_action (projection_hash h connector_projection) body
         (put_resource A DATA_CONNECTORS i body etag) (readback_resource A DATA_CONNECTORS i API_VERSION)) (\<lambda>r.
       eret (note_mismatch (consent_note (la_payload la)) r)))))"

definition connector_apply ::
  "(pyval \<Rightarrow> int option) \<Rightarrow> (string \<Rightarrow> string) \<Rightarrow> 'w arm option \<Rightarrow> loaded_asset \<Rightarrow> bool \<Rightarrow> ('w, action_result) eff" where
  "connector_apply ti h prov la dry_run =
    (let plan = connector_plan la in
     if r_action plan = SKIP then eret (skipped_by plan)
     else if dry_run then eret (own_result (env_id (la_envelope la)) SENTINEL_DATA_CONNECTOR UPDATE ''dry-run'' [])
     else case prov of
       None \<Rightarrow> elift (Inl No_provider)
     | Some A \<Rightarrow> ebind (elift (to_connector_arm_body ti (la_payload la))) (connector_put h A la))"

definition resource_delete ::
  "(py_exc \<Rightarrow> string) \<Rightarrow> asset_kind \<Rightarrow> string \<Rightarrow> string \<Rightarrow> 'w arm option \<Rightarrow> string \<Rightarrow> 'w \<Rightarrow> (py_exc + action_result) \<times> 'w" where
  "resource_delete msg k ty api prov remote_id w = (case prov of
     None \<Rightarrow> (Inl Not_supported, w)
   | Some A \<Rightarrow> (case delete_by msg remote_id k (delete_resource A ty remote_id api) w of (r, w') \<Rightarrow> (Inr r, w')))"

definition connector_delete ::
  "(py_exc \<Rightarrow> string) \<Rightarrow> 'w arm option \<Rightarrow> string \<Rightarrow> 'w \<Rightarrow> (py_exc + action_result) \<times> 'w" where
  "connector_delete msg = resource_delete msg SENTINEL_DATA_CONNECTOR DATA_CONNECTORS API_VERSION"

definition connector_list :: "'w arm option \<Rightarrow> ('w, pyval list) eff" where
  "connector_list prov = (case prov of None \<Rightarrow> eret [] | Some A \<Rightarrow> list_resource A DATA_CONNECTORS API_VERSION)"

text \<open>A name of the form of a GUID.\<close>

definition is_hex :: "char \<Rightarrow> bool" where
  "is_hex c \<longleftrightarrow> is_digit c \<or> c \<in> set ''abcdefABCDEF''"

definition guid_name :: "string \<Rightarrow> bool" where
  "guid_name s \<longleftrightarrow> map length (split_on dash s) = [8, 4, 4, 4, 12] \<and> (\<forall>c \<in> set s. is_hex c \<or> c = dash)"

definition connector_to_envelope :: "pydict \<Rightarrow> py_exc + pydict option" where
  "connector_to_envelope remote =
    (let name = dget remote ''name''; kd = dget remote ''kind'' in
     if \<not> truthy name \<or> \<not> truthy kd then Inr None
     else case name of
       PStr n \<Rightarrow>
         (if \<not> is_valid_envelope_id n \<or> guid_name n then Inr None
          else case sub_dict remote ''properties'' of
            None \<Rightarrow> Inl Type_error
          | Some p \<Rightarrow> Inr (Some
              [(''id'', name), (''version'', PStr COLLECT_BASELINE_VERSION), (''asset'', PStr (asset_value SENTINEL_DATA_CONNECTOR)),
               (''status'', PStr ''production''),
               (''payload'', PDict (mk_dict ((''kind'', kd) # without CONNECTOR_SERVER_PROPERTIES p)))]))
     | _ \<Rightarrow> Inl Type_error)"

section \<open>Writing\<close>

lemma note_mismatch_keeps [simp]: "r_status (note_mismatch n r) = r_status r" "r_verified (note_mismatch n r) = r_verified r"
  by (simp_all add: note_mismatch_def)

text \<open>What a block of \<open>properties\<close> reads as, when the one shown is not the one sent.\<close>

lemma same_outside_sub_dict:
  assumes "same_outside own (dget d k) (dget c k)"
  obtains (none) "sub_dict d k = None" "sub_dict c k = None"
    | (some) p q where "sub_dict d k = Some p" "sub_dict c k = Some q" "\<And>j. j \<notin> set own \<Longrightarrow> dget p j = dget q j"
proof (cases "dget d k = dget c k")
  case True
  then have eq: "sub_dict d k = sub_dict c k" by (simp add: sub_dict_def)
  show thesis
  proof (cases "sub_dict c k")
    case None
    then show thesis using none eq by simp
  next
    case (Some q)
    then show thesis using some[of q q] eq by simp
  qed
next
  case False
  then obtain p q where d: "dget d k = PDict p" "dget c k = PDict q" "\<forall>j. j \<notin> set own \<longrightarrow> dget p j = dget q j"
    using assms by (auto simp: same_outside_def)
  then have "sub_dict d k = Some p" "sub_dict c k = Some q" by (auto simp: sub_dict_def Let_def)
  then show thesis using some d(3) by blast
qed

lemma connector_projection_sent:
  assumes "dget d ''kind'' = dget c ''kind''"
    and "same_outside (server_owned SENTINEL_DATA_CONNECTOR) (dget d ''properties'') (dget c ''properties'')"
  shows "connector_projection (PDict d) = connector_projection (PDict c)"
  using assms(2)
proof (cases rule: same_outside_sub_dict)
  case (some p q)
  have "dget p ''tenantId'' = dget q ''tenantId''" "dget p ''dataTypes'' = dget q ''dataTypes''"
    by (simp_all add: some(3) server_owned_def)
  then have "sub_dict p ''dataTypes'' = sub_dict q ''dataTypes''" by (simp add: sub_dict_def)
  then show ?thesis
    using some(1,2) assms(1) \<open>dget p ''tenantId'' = _\<close> by (simp add: connector_projection_def cong: option.case_cong)
qed (simp add: connector_projection_def)

interpretation connector: verified_write
  "\<lambda>A (la, body). connector_put h A la body"
  "\<lambda>A (la, body). resource_url A DATA_CONNECTORS (Some (env_id (la_envelope la))) API_VERSION None"
  snd "\<lambda>(la, body). env_id (la_envelope la)" "\<lambda>_. SENTINEL_DATA_CONNECTOR" "\<lambda>_. put_action"
  resource_etag "\<lambda>_. projection_hash h connector_projection" readback_url
  "\<lambda>A (la, body) r. eret (note_mismatch (consent_note (la_payload la)) r)" "\<lambda>_. server_owned SENTINEL_DATA_CONNECTOR" for h
proof (unfold_locales, goal_cases)
  case (1 A x ex w)
  then show ?case by (auto simp: connector_put_def Let_def get_bad_url split: prod.splits)
next
  case (2 A x u)
  then show ?case by (cases x) (simp add: connector_put_def Let_def by_url)
next
  case (9 d c x)
  then show ?case by (simp add: projection_hash_def connector_projection_sent[of d c])
qed (auto simp: by_read split: prod.splits)

end
