(* ===== verification/Watchlist.thy ===== *)
theory Watchlist
  imports Connector
begin

text \<open>
  Watchlists, \<open>contentops/handlers/sentinel_watchlist.py\<close> and \<open>sentinel_watchlist_models.py\<close>: the payload
  model with its validators, the protected PUT, the count of the ingested items and the reverse mapping.
  \<open>int()\<close> of a value is the parameter \<open>to_py_int\<close>.
\<close>

section \<open>The payload\<close>

definition one_ingestion_path :: "pyval \<Rightarrow> bool" where
  "one_ingestion_path v \<longleftrightarrow> \<not> (truthy (sub v ''rawContent'') \<and> truthy (sub v ''sasUri''))"

definition skip_of :: "(pyval \<Rightarrow> int option) \<Rightarrow> pyval \<Rightarrow> nat" where
  "skip_of ti v = (case v of
     PDict d \<Rightarrow> (case ti (dget_default d ''numberOfLinesToSkip'' (PInt 0)) of Some i \<Rightarrow> nat i | None \<Rightarrow> 0) | _ \<Rightarrow> 0)"

definition search_key_in_header :: "(pyval \<Rightarrow> int option) \<Rightarrow> pyval \<Rightarrow> bool" where
  "search_key_in_header ti v =
    (let raw = text_of (sub v ''rawContent''); lines = splitlines raw; skip = skip_of ti v in
     raw = [] \<or> skip < length lines \<and>
       text_of (sub v ''itemsSearchKey'') \<in> set (map strip (split_on CHR '','' (lines ! skip))))"

definition utf8_length :: "string \<Rightarrow> nat" where
  "utf8_length s = sum_list (map (\<lambda>c. if code c < 128 then 1 else 2) s)"

definition content_size_ok :: "pyval \<Rightarrow> bool" where
  "content_size_ok v \<longleftrightarrow> utf8_length (text_of (sub v ''rawContent'')) \<le> 3500000"

definition contains :: "string \<Rightarrow> string \<Rightarrow> bool" where
  "contains s t \<longleftrightarrow> (\<exists>i \<in> set [0..<Suc (length s)]. take (length t) (drop i s) = t)"

definition sas_url_shape :: "pyval \<Rightarrow> bool" where
  "sas_url_shape v =
    (let s = text_of (sub v ''sasUri'') in s = [] \<or> startswith s ''https://'' \<and> contains s ''sig='')"

definition SentinelWatchlistPayload :: "(pyval \<Rightarrow> int option) \<Rightarrow> schema" where
  "SentinelWatchlistPayload ti = S_where (S_model False
    [must ''displayName'' (S_str 1 (Some 255)), nullable ''description'' text_ty, may ''provider'' (S_str 1 None),
     may ''source'' text_ty, nullable ''sourceType'' text_ty, must ''itemsSearchKey'' (S_str 1 None),
     may ''contentType'' text_ty, may ''numberOfLinesToSkip'' (S_int (Some 0) None), nullable ''rawContent'' text_ty,
     nullable ''sasUri'' text_ty, nullable ''labels'' texts_ty, nullable ''defaultDuration'' text_ty])
    (\<lambda>v. one_ingestion_path v \<and> search_key_in_header ti v \<and> content_size_ok v \<and> sas_url_shape v)"

section \<open>The handler\<close>

definition WATCHLISTS :: string where "WATCHLISTS = ''watchlists''"

definition WATCHLIST_HASHED_FIELDS :: "string list" where
  "WATCHLIST_HASHED_FIELDS = [''properties.displayName'', ''properties.itemsSearchKey'', ''properties.provider'',
     ''properties.contentType'']"

definition WATCHLIST_SERVER_PROPERTIES :: "string list" where
  "WATCHLIST_SERVER_PROPERTIES = [''etag'', ''created'', ''updated'', ''createdBy'', ''updatedBy'', ''watchlistId'', ''tenantId'',
     ''watchlistAlias'', ''isDeleted'', ''provisioningState'']"

definition strip_watchlist :: "pydict \<Rightarrow> pydict" where
  "strip_watchlist = strip_server_fields [''etag'', ''type'', ''systemData'']
    (WATCHLIST_SERVER_PROPERTIES @ [''itemsCount'', ''numberOfLinesToSkip''])"

definition alias_to_envelope_id :: "string \<Rightarrow> string option" where
  "alias_to_envelope_id alias =
    (let slug = strip_by ((=) dash) (sub_non_slug (lower alias)) in
     if length slug < 2 \<or> \<not> is_valid_envelope_id slug then None else Some slug)"

text \<open>The loop over the lines: blank lines are passed over, the first other line is the header.\<close>

fun count_rows :: "bool \<Rightarrow> string list \<Rightarrow> nat" where
  "count_rows header_dropped [] = 0"
| "count_rows header_dropped (l # ls) =
    (if strip l = [] then count_rows header_dropped ls
     else if \<not> header_dropped then count_rows True ls
     else Suc (count_rows header_dropped ls))"

definition expected_item_count :: "string \<Rightarrow> int \<Rightarrow> nat" where
  "expected_item_count raw skip =
    (let ls = splitlines raw in count_rows False (if 0 < skip then drop (nat skip) ls else ls))"

definition item_count_mismatch_error :: "nat \<Rightarrow> nat \<Rightarrow> string" where
  "item_count_mismatch_error expected actual =
    ''post-apply item-count mismatch: expected='' @ show_nat expected @ '' actual='' @ show_nat actual @
    '' (rawContent rows vs. remote watchlistItems)''"

definition item_fetch_error :: "string \<Rightarrow> string" where
  "item_fetch_error detail = ''post-apply watchlistItems GET failed: '' @ detail"

definition watchlist_validate :: "(pyval \<Rightarrow> int option) \<Rightarrow> loaded_asset \<Rightarrow> py_exc option" where
  "watchlist_validate ti la = payload_validate (fits ti (SentinelWatchlistPayload ti) (la_payload la))"

definition watchlist_plan :: "loaded_asset \<Rightarrow> action_result" where
  "watchlist_plan = plan_unless_retired SENTINEL_WATCHLIST ''watchlists''"

definition to_watchlist_arm_body :: "pyval \<Rightarrow> pyval" where
  "to_watchlist_arm_body payload = PDict [(''properties'', payload)]"

definition size_of :: "pyval \<Rightarrow> nat option" where
  "size_of v = map_option length (iterate v)"

text \<open>
  The count of the items after a verified PUT: one GET of the sub-resource and the length of its \<open>value\<close>,
  against the rows of the inline content.
\<close>

definition items_of_reply :: "(py_exc \<Rightarrow> string) \<Rightarrow> py_exc + response \<Rightarrow> py_exc + string + nat" where
  "items_of_reply msg res = (case res of
     Inl e \<Rightarrow> Inr (Inl (item_fetch_error (msg e)))
   | Inr r \<Rightarrow>
       (if status_code r \<noteq> 200
        then Inr (Inl (item_fetch_error (show_nat (status_code r) @ '' '' @ take 160 (body_text r))))
        else case json_body r of
          None \<Rightarrow> Inr (Inl (item_fetch_error (''invalid JSON: '' @ msg Bad_json)))
        | Some (PDict d) \<Rightarrow>
            (case size_of (first_truthy (dget d ''value'') (PList [])) of
               None \<Rightarrow> Inl Type_error | Some n \<Rightarrow> Inr (Inr n))
        | Some _ \<Rightarrow> Inl Type_error))"

definition check_items ::
  "(py_exc \<Rightarrow> string) \<Rightarrow> (pyval \<Rightarrow> int option) \<Rightarrow> 'w arm \<Rightarrow> string \<Rightarrow> pydict \<Rightarrow> action_result \<Rightarrow> ('w, action_result) eff" where
  "check_items msg to_py_int A name d r w =
    (if r_verified r \<noteq> Some True \<or> \<not> truthy (dget d ''rawContent'') then (Inr r, w)
     else case to_py_int (first_truthy (dget d ''numberOfLinesToSkip'') (PInt 0)) of
       None \<Rightarrow> (Inl Type_error, w)
     | Some skip \<Rightarrow>
         (case dget d ''rawContent'' of
            PStr raw \<Rightarrow>
              (case ebind (elift (resource_url A WATCHLISTS (Some name) API_VERSION (Some ''watchlistItems'')))
                  (\<lambda>url. arm_request A ''GET'' url None None) w of
                 (res, w') \<Rightarrow>
                   (case items_of_reply msg res of
                      Inl e \<Rightarrow> (Inl e, w')
                    | Inr (Inl err) \<Rightarrow> (Inr (r\<lparr>r_detail := err, r_verified := Some False, r_error := Some err\<rparr>), w')
                    | Inr (Inr n) \<Rightarrow>
                        (let expected = expected_item_count raw skip; err = item_count_mismatch_error expected n in
                         if n \<noteq> expected then (Inr (r\<lparr>r_detail := err, r_verified := Some False, r_error := Some err\<rparr>), w')
                         else (Inr r, w'))))
          | _ \<Rightarrow> (Inl Type_error, w)))"

definition watchlist_name :: "loaded_asset \<Rightarrow> pydict \<Rightarrow> string" where
  "watchlist_name la d =
    (if truthy (dget d ''watchlistAlias'') then py_str (dget d ''watchlistAlias'') else env_id (la_envelope la))"

definition watchlist_put ::
  "(py_exc \<Rightarrow> string) \<Rightarrow> (pyval \<Rightarrow> int option) \<Rightarrow> (string \<Rightarrow> string) \<Rightarrow> 'w arm \<Rightarrow> loaded_asset \<Rightarrow> pydict \<Rightarrow> ('w, action_result) eff" where
  "watchlist_put msg to_py_int h A la d =
    (let i = env_id (la_envelope la); name = watchlist_name la d; body = to_watchlist_arm_body (PDict d) in
     ebind (get_resource A WATCHLISTS name API_VERSION) (\<lambda>existing.
     ebind (elift (extract_etag existing)) (\<lambda>etag.
     ebind (put_and_verify i SENTINEL_WATCHLIST put_action (\<lambda>v. Inr (compute_content_hash h v WATCHLIST_HASHED_FIELDS)) body
         (put_resource A WATCHLISTS name body etag) (readback_resource A WATCHLISTS name API_VERSION)) (\<lambda>r.
       check_items msg to_py_int A name d r))))"

definition NO_CONTENT :: string where
  "NO_CONTENT = ''watchlist has neither rawContent nor sasUri set. '' @
     ''This envelope was almost certainly produced by `contentops collect` '' @
     ''(the API doesn'' @ [CHR 0x27] @ ''t return CSV bodies on GET, so collected watchlists '' @
     ''are intentionally not deployable). To deploy, populate rawContent '' @
     ''with the CSV body or sasUri with a SAS-protected blob URL.''"

definition watchlist_apply ::
  "(py_exc \<Rightarrow> string) \<Rightarrow> (pyval \<Rightarrow> int option) \<Rightarrow> (string \<Rightarrow> string) \<Rightarrow> 'w arm option \<Rightarrow> loaded_asset \<Rightarrow> bool \<Rightarrow>
   ('w, action_result) eff" where
  "watchlist_apply msg to_py_int h prov la dry_run =
    (let plan = watchlist_plan la; i = env_id (la_envelope la) in
     if r_action plan = SKIP then eret (skipped_by plan)
     else case la_payload la of
       PDict d \<Rightarrow>
         (if \<not> truthy (dget d ''rawContent'') \<and> \<not> truthy (dget d ''sasUri'')
          then eret (own_result i SENTINEL_WATCHLIST SKIP ''skipped'' NO_CONTENT)
          else if dry_run then eret (own_result i SENTINEL_WATCHLIST UPDATE ''dry-run'' [])
          else case prov of None \<Rightarrow> elift (Inl No_provider) | Some A \<Rightarrow> watchlist_put msg to_py_int h A la d)
     | _ \<Rightarrow> elift (Inl Type_error))"

definition watchlist_delete ::
  "(py_exc \<Rightarrow> string) \<Rightarrow> 'w arm option \<Rightarrow> string \<Rightarrow> 'w \<Rightarrow> (py_exc + action_result) \<times> 'w" where
  "watchlist_delete msg = resource_delete msg SENTINEL_WATCHLIST WATCHLISTS API_VERSION"

definition watchlist_list :: "'w arm option \<Rightarrow> ('w, pyval list) eff" where
  "watchlist_list prov = (case prov of None \<Rightarrow> eret [] | Some A \<Rightarrow> list_resource A WATCHLISTS API_VERSION)"

section \<open>Collecting\<close>

text \<open>The properties with the full body where the listing left the content out.\<close>

definition full_properties :: "'w arm option \<Rightarrow> string \<Rightarrow> pydict \<Rightarrow> ('w, pydict) eff" where
  "full_properties prov name p =
    (if truthy (dget p ''rawContent'') then eret p
     else case prov of
       None \<Rightarrow> eret p
     | Some A \<Rightarrow> ebind (get_resource A WATCHLISTS name API_VERSION) (\<lambda>full. case full of
         PNone \<Rightarrow> eret p
       | PDict f \<Rightarrow> (case sub_dict f ''properties'' of None \<Rightarrow> elift (Inl Type_error) | Some q \<Rightarrow> eret q)
       | _ \<Rightarrow> elift (Inl Type_error)))"

definition clean_watchlist :: "pydict \<Rightarrow> pydict" where
  "clean_watchlist p =
    (let p = without (WATCHLIST_SERVER_PROPERTIES @ [''sasUri'']) p in
     if py_eq (dget p ''numberOfLinesToSkip'') (PInt 0) then dpop ''numberOfLinesToSkip'' p else p)"

definition watchlist_to_envelope :: "'w arm option \<Rightarrow> pydict \<Rightarrow> ('w, pydict option) eff" where
  "watchlist_to_envelope prov remote =
    (let name = dget remote ''name'' in
     if \<not> truthy name then eret None
     else case (sub_dict remote ''properties'', name) of
       (Some p, PStr n) \<Rightarrow>
         ebind (full_properties prov n p) (\<lambda>q.
           let q = clean_watchlist q in
           case alias_to_envelope_id n of
             None \<Rightarrow> eret None
           | Some i \<Rightarrow>
               let q = (if i \<noteq> n \<and> map_of q ''watchlistAlias'' = None then dset ''watchlistAlias'' name q else q) in
               eret (Some [(''id'', PStr i), (''version'', PStr COLLECT_BASELINE_VERSION),
                 (''asset'', PStr (asset_value SENTINEL_WATCHLIST)), (''status'', PStr ''production''),
                 (''payload'', PDict q)]))
     | _ \<Rightarrow> elift (Inl Type_error))"

section \<open>Writing\<close>

lemma check_items_reads [simp]: "reading A (check_items msg to_py_int A name d r)"
proof -
  have "reading A (ebind (elift (resource_url A WATCHLISTS (Some name) API_VERSION (Some ''watchlistItems'')))
      (\<lambda>url. arm_request A ''GET'' url None None))"
    by (intro reading_bind) auto
  then show ?thesis
    unfolding reading_def check_items_def
    by (auto simp: Let_def reads.refl split: option.splits pyval.splits prod.splits sum.splits) (metis snd_conv)+
qed

lemma check_items_keeps:
  "check_items msg to_py_int A name d r w = (Inr r', w') \<Longrightarrow>
    r_status r' = r_status r \<and> (r_verified r' = Some True \<longrightarrow> r_verified r = Some True)"
  by (auto simp: check_items_def Let_def split: if_splits option.splits pyval.splits prod.splits sum.splits)

interpretation watchlist: verified_write
  "\<lambda>A (la, d). watchlist_put msg to_py_int h A la d"
  "\<lambda>A (la, d). resource_url A WATCHLISTS (Some (watchlist_name la d)) API_VERSION None"
  "\<lambda>(la, d). to_watchlist_arm_body (PDict d)" "\<lambda>(la, d). env_id (la_envelope la)" "\<lambda>_. SENTINEL_WATCHLIST" "\<lambda>_. put_action"
  resource_etag "\<lambda>_ v. Inr (compute_content_hash h v WATCHLIST_HASHED_FIELDS)" readback_url
  "\<lambda>A (la, d) r. check_items msg to_py_int A (watchlist_name la d) d r" "\<lambda>_. server_owned SENTINEL_WATCHLIST"
  for msg to_py_int h
proof (unfold_locales, goal_cases)
  case (1 A x ex w)
  then show ?case by (auto simp: watchlist_put_def Let_def get_bad_url split: prod.splits)
next
  case (2 A x u)
  then show ?case by (cases x) (simp add: watchlist_put_def Let_def by_url)
next
  case (6 A x q w q' w')
  then show ?case by (cases x) (auto dest: check_items_keeps)
next
  case (9 d c x)
  have "below_properties (server_owned SENTINEL_WATCHLIST) WATCHLIST_HASHED_FIELDS" by code_simp
  from content_hash_properties[OF this 9(2)] show ?case by simp
qed (auto simp: by_read split: prod.splits)

end
