(* ===== verification/Automation.thy ===== *)
theory Automation
  imports Connector
begin

text \<open>
  Automation rules, \<open>contentops/handlers/sentinel_automation_rule.py\<close> and
  \<open>sentinel_automation_rule_models.py\<close>: the payload model, the references to playbooks and analytic rules
  and their resolution, the handler and the reverse mapping. \<open>uuid5\<close> and the reading and writing of an
  expiration (as seconds) are the fields of \<open>auto_env\<close>.
\<close>

record auto_env =
  ae_int :: "pyval \<Rightarrow> int option"
  ae_iso :: "string \<Rightarrow> int option"        \<comment> \<open>\<open>fromisoformat\<close>, a naive value taken as UTC\<close>
  ae_strftime :: "int \<Rightarrow> string"
  ae_now :: int
  ae_uuid5 :: "string \<Rightarrow> string"

section \<open>Expiration\<close>

definition parse_expiration :: "auto_env \<Rightarrow> pyval \<Rightarrow> int option" where
  "parse_expiration E v = (case v of
     PStr (c # s) \<Rightarrow>
       (let t = strip (c # s) in ae_iso E (if endswith t ''Z'' then butlast t @ ''+00:00'' else t))
   | _ \<Rightarrow> None)"

definition normalize_expiration :: "auto_env \<Rightarrow> pyval \<Rightarrow> pyval" where
  "normalize_expiration E v = (case parse_expiration E v of None \<Rightarrow> v | Some t \<Rightarrow> PStr (ae_strftime E t))"

definition is_expired :: "auto_env \<Rightarrow> pyval \<Rightarrow> bool" where
  "is_expired E v = (case parse_expiration E v of None \<Rightarrow> False | Some t \<Rightarrow> t \<le> ae_now E)"

section \<open>The payload\<close>

text \<open>The segments of a Logic App id: subscription, resource group and workflow.\<close>

definition logic_app_parts :: "string \<Rightarrow> (string \<times> string \<times> string) option" where
  "logic_app_parts s = (case split_on CHR ''/'' s of
     [e, a, sb, b, rg, c, d, f, nm] \<Rightarrow>
       (if e = [] \<and> map lower [a, b, c, d, f] =
            [''subscriptions'', ''resourcegroups'', ''providers'', ''microsoft.logic'', ''workflows''] \<and>
          sb \<noteq> [] \<and> rg \<noteq> [] \<and> nm \<noteq> [] then Some (sb, rg, nm) else None)
   | _ \<Rightarrow> None)"

definition exactly_one_target :: "pyval \<Rightarrow> bool" where
  "exactly_one_target v =
    (let raw = sub v ''logicAppResourceId'' in
     truthy (sub v ''playbook'') \<noteq> truthy raw \<and> (truthy raw \<longrightarrow> logic_app_parts (text_of raw) \<noteq> None))"

definition RunPlaybookConfig :: schema where
  "RunPlaybookConfig = S_where (S_model True
    [nullable ''playbook'' text_ty, nullable ''logicAppResourceId'' text_ty, nullable ''tenantId'' text_ty]) exactly_one_target"

definition closing_is_well_formed :: "pyval \<Rightarrow> bool" where
  "closing_is_well_formed v =
    ((sub v ''status'' = PStr ''Closed'') = truthy (sub v ''classification'') \<and>
     list_ex (\<lambda>k. sub v k \<noteq> PNone) [''severity'', ''status'', ''classification'', ''owner'', ''labels''])"

definition ModifyPropertiesConfig :: schema where
  "ModifyPropertiesConfig = S_where (S_model True
    [nullable ''severity'' (S_lit [''Informational'', ''Low'', ''Medium'', ''High'']),
     nullable ''status'' (S_lit [''New'', ''Active'', ''Closed'']),
     nullable ''classification'' (S_lit [''Undetermined'', ''TruePositive'', ''BenignPositive'', ''FalsePositive'']),
     nullable ''classificationReason''
       (S_lit [''SuspiciousActivity'', ''SuspiciousButExpected'', ''IncorrectAlertLogic'', ''InaccurateData'']),
     nullable ''classificationComment'' text_ty, nullable ''owner'' S_dict, nullable ''labels'' (S_list S_dict 0 None)])
    closing_is_well_formed"

definition AddIncidentTaskConfig :: schema where
  "AddIncidentTaskConfig = S_model True [must ''title'' (S_str 1 None), nullable ''description'' text_ty]"

definition CONFIG_MODELS :: "(string \<times> schema) list" where
  "CONFIG_MODELS = [(''ModifyProperties'', ModifyPropertiesConfig), (''RunPlaybook'', RunPlaybookConfig),
     (''AddIncidentTask'', AddIncidentTaskConfig)]"

definition config_matches_type :: "(pyval \<Rightarrow> int option) \<Rightarrow> pyval \<Rightarrow> bool" where
  "config_matches_type ti v = (case v of
     PDict d \<Rightarrow> (case map_of CONFIG_MODELS (text_of (dget d ''actionType'')) of
       None \<Rightarrow> False | Some m \<Rightarrow> fits ti m (dget_default d ''actionConfiguration'' (PDict [])))
   | _ \<Rightarrow> False)"

definition AutomationAction :: "(pyval \<Rightarrow> int option) \<Rightarrow> schema" where
  "AutomationAction ti = S_where (S_model True
    [must ''order'' (S_int (Some 1) None), must ''actionType'' (S_lit (map fst CONFIG_MODELS)), may ''actionConfiguration'' S_dict])
    (config_matches_type ti)"

definition AutomationCondition :: schema where
  "AutomationCondition = S_model True
    [must ''conditionType'' (S_lit [''Boolean'', ''Property'', ''PropertyArray'', ''PropertyArrayChanged'', ''PropertyChanged'']),
     may ''conditionProperties'' S_dict]"

definition trigger_ok :: "auto_env \<Rightarrow> pyval \<Rightarrow> bool" where
  "trigger_ok E v =
    ((sub v ''expirationTimeUtc'' \<noteq> PNone \<longrightarrow> parse_expiration E (sub v ''expirationTimeUtc'') \<noteq> None) \<and>
     (sub v ''triggersOn'' = PStr ''Alerts'' \<longrightarrow> sub v ''triggersWhen'' \<in> {PNone, PStr ''Created''}))"

definition TriggeringLogic :: "auto_env \<Rightarrow> schema" where
  "TriggeringLogic E = S_where (S_model True
    [may ''isEnabled'' S_bool, may ''triggersOn'' (S_lit [''Incidents'', ''Alerts'']),
     may ''triggersWhen'' (S_lit [''Created'', ''Updated'']), may ''conditions'' (S_list AutomationCondition 0 None),
     nullable ''expirationTimeUtc'' text_ty]) (trigger_ok E)"

definition closes :: "pyval \<Rightarrow> bool" where
  "closes a \<longleftrightarrow> sub a ''actionType'' = PStr ''ModifyProperties'' \<and>
     sub (sub a ''actionConfiguration'') ''status'' = PStr ''Closed''"

definition closes_incidents :: "pyval \<Rightarrow> bool" where
  "closes_incidents payload \<longleftrightarrow> (\<exists>a \<in> set (items (sub payload ''actions'')). closes a)"

definition cross_field :: "(pyval \<Rightarrow> int option) \<Rightarrow> pyval \<Rightarrow> bool" where
  "cross_field ti v =
    (let acts = items (sub v ''actions''); logic = sub v ''triggeringLogic'' in
     distinct (map (\<lambda>a. ti (sub a ''order'')) acts) \<and>
     (sub logic ''triggersOn'' = PStr ''Alerts'' \<longrightarrow> (\<forall>a \<in> set acts. sub a ''actionType'' = PStr ''RunPlaybook'')) \<and>
     \<not> (closes_incidents v \<and> items (sub logic ''conditions'') = []))"

definition SentinelAutomationRulePayload :: "auto_env \<Rightarrow> schema" where
  "SentinelAutomationRulePayload E = S_where (S_model True
    [must ''displayName'' (S_str 1 (Some 500)), must ''order'' (S_int (Some 1) (Some 1000)),
     must ''triggeringLogic'' (TriggeringLogic E), must ''actions'' (S_list (AutomationAction (ae_int E)) 1 None)])
    (cross_field (ae_int E))"

section \<open>References\<close>

definition AUTOMATION_API_VERSION :: string where "AUTOMATION_API_VERSION = ''2025-09-01''"

definition logic_app_resource_id :: "string \<Rightarrow> string \<Rightarrow> string \<Rightarrow> string" where
  "logic_app_resource_id subscription rg workflow_name =
    ''/subscriptions/'' @ subscription @ ''/resourceGroups/'' @ rg @ ''/providers/Microsoft.Logic/workflows/'' @ workflow_name"

definition playbook_id_from_resource_id :: "string \<Rightarrow> string \<Rightarrow> string \<Rightarrow> string option" where
  "playbook_id_from_resource_id resource_id subscription rg = (case logic_app_parts resource_id of
     None \<Rightarrow> None
   | Some (sb, r, name) \<Rightarrow>
       (let slug = displayname_slug (Some name) (Some name) in
        if lower sb \<noteq> lower subscription \<or> lower r \<noteq> lower rg \<or> slug = [] then None else Some slug))"

definition analytic_rule_resource_id :: "string \<Rightarrow> string \<Rightarrow> string" where
  "analytic_rule_resource_id ws_path name =
    ws_path @ ''/providers/Microsoft.SecurityInsights/alertRules/'' @ name"

text \<open>The greedy workspace of the pattern is everything before the last four segments.\<close>

definition analytic_arm_name_from_resource_id :: "string \<Rightarrow> string \<Rightarrow> string option" where
  "analytic_arm_name_from_resource_id resource_id ws_path =
    (case rev (split_on CHR ''/'' resource_id) of
       name # a # b # c # ws \<Rightarrow>
         (let w = join ''/'' (rev ws) in
          if name \<noteq> [] \<and> map lower [a, b, c] = [''alertrules'', ''microsoft.securityinsights'', ''providers''] \<and>
             w \<noteq> [] \<and> NL \<notin> set w \<and> lower w = lower ws_path then Some name else None)
     | _ \<Rightarrow> None)"

text \<open>\<open>_analytics\<close>: the ARM name of every local analytic rule.\<close>

definition analytics_index :: "loaded_asset list \<Rightarrow> (string \<times> string) list" where
  "analytics_index loaded =
    fold (\<lambda>la d. dset (env_id (la_envelope la)) (resource_name la) d)
      (filter (\<lambda>la. kind (la_envelope la) = SENTINEL_ANALYTIC) loaded) []"

record auto_ctx =
  ac_subscription :: string
  ac_playbooks_rg :: string
  ac_workspace :: string
  ac_tenant :: "string option"
  ac_analytics :: "(string \<times> string) list"

definition ctx_of :: "'w arm \<Rightarrow> string option \<Rightarrow> loaded_asset list \<Rightarrow> auto_ctx" where
  "ctx_of A tenant loaded =
    (let c = a_config A in
     \<lparr>ac_subscription = subscriptionId c,
      ac_playbooks_rg = (case playbooksResourceGroup c of None \<Rightarrow> resourceGroup c | Some [] \<Rightarrow> resourceGroup c | Some r \<Rightarrow> r),
      ac_workspace = la_workspace_path A, ac_tenant = tenant, ac_analytics = analytics_index loaded\<rparr>)"

definition resolve_analytic :: "auto_ctx \<Rightarrow> string \<Rightarrow> py_exc + string" where
  "resolve_analytic C i = (case map_of (ac_analytics C) i of
     None \<Rightarrow> Inl (Payload_error ''analytic'') | Some n \<Rightarrow> Inr (analytic_rule_resource_id (ac_workspace C) n))"

text \<open>The first error of a list of results, or all of their values.\<close>

fun collect_results :: "('e + 'a) list \<Rightarrow> 'e + 'a list" where
  "collect_results [] = Inr []"
| "collect_results (r # rs) = rbind r (\<lambda>x. rbind (collect_results rs) (\<lambda>xs. Inr (x # xs)))"

definition resolve_value :: "auto_ctx \<Rightarrow> pyval \<Rightarrow> py_exc + pyval" where
  "resolve_value C v = (case v of
     PStr s \<Rightarrow>
       (if startswith s ANALYTIC_REF_PREFIX
        then rbind (resolve_analytic C (drop (length ANALYTIC_REF_PREFIX) s)) (\<lambda>r. Inr (PStr r)) else Inr v)
   | _ \<Rightarrow> Inr v)"

text \<open>The values of a condition on analytic rules; a name that cannot be hashed raises.\<close>

definition map_values :: "(pyval \<Rightarrow> py_exc + pyval) \<Rightarrow> pydict \<Rightarrow> py_exc + pydict" where
  "map_values f props =
    (case names_rule_ids (dget props ''propertyName'') of
       None \<Rightarrow> Inl Type_error
     | Some False \<Rightarrow> Inr props
     | Some True \<Rightarrow>
         (case dget props ''propertyValues'' of
            PList vs \<Rightarrow> rbind (collect_results (map f vs)) (\<lambda>ws. Inr (dset ''propertyValues'' (PList ws) props))
          | _ \<Rightarrow> Inr props))"

text \<open>
  The walk through nested conditions that \<open>_resolve_condition\<close> and \<open>_reverse_condition\<close> share; \<open>f\<close> is what
  each does to the properties after the nested lists.
\<close>

lemma size_entry: "size (dget d k) < size (PDict d)"
proof (cases "map_of d k")
  case (Some v)
  then have "(k, v) \<in> set d" by (rule map_of_SomeD)
  moreover have "size v \<le> size_prod (\<lambda>_. 0) size (k, v)" by simp
  ultimately have "size v \<le> size_list (size_prod (\<lambda>_. 0) size) d"
    by (meson size_list_estimation' le_refl order_trans)
  then show ?thesis using Some by (simp add: dget_def)
qed (simp add: dget_def)

lemma size_elem: "x \<in> set xs \<Longrightarrow> size x < size (PList xs)"
  using size_list_estimation'[of x xs "size x" size] by simp

definition nested_of :: "pydict \<Rightarrow> string \<Rightarrow> pyval list" where
  "nested_of props key = (case dget props key of PList xs \<Rightarrow> xs | _ \<Rightarrow> [])"

definition set_nested :: "pydict \<Rightarrow> string \<Rightarrow> pyval list \<Rightarrow> pydict \<Rightarrow> pydict" where
  "set_nested props key ys p = (case dget props key of PList _ \<Rightarrow> dset key (PList ys) p | _ \<Rightarrow> p)"

lemma size_nested:
  assumes "dget cond k = PDict props" and "PDict d \<in> set (nested_of props key)"
  shows "size (PDict d) < size (PDict cond)"
proof -
  obtain xs where "dget props key = PList xs" "PDict d \<in> set xs"
    using assms(2) by (cases "dget props key") (auto simp: nested_of_def)
  then show ?thesis
    using size_entry[of props key] size_entry[of cond k] size_elem[of "PDict d" xs] assms(1) by simp
qed

function map_cond :: "(pydict \<Rightarrow> py_exc + pydict) \<Rightarrow> pydict \<Rightarrow> py_exc + pydict" where
  "map_cond f cond = (case dget cond ''conditionProperties'' of
     PDict props \<Rightarrow>
       rbind (collect_results (map (\<lambda>c. case c of PDict d \<Rightarrow> rbind (map_cond f d) (\<lambda>e. Inr (PDict e)) | _ \<Rightarrow> Inr c)
         (nested_of props ''innerConditions''))) (\<lambda>ys.
       rbind (collect_results (map (\<lambda>c. case c of PDict d \<Rightarrow> rbind (map_cond f d) (\<lambda>e. Inr (PDict e)) | _ \<Rightarrow> Inr c)
         (nested_of props ''itemConditions''))) (\<lambda>zs.
       rbind (f (set_nested props ''itemConditions'' zs (set_nested props ''innerConditions'' ys props))) (\<lambda>p.
         Inr (dset ''conditionProperties'' (PDict p) cond))))
   | _ \<Rightarrow> Inr cond)"
  by pat_completeness auto
termination
  by (relation "measure (\<lambda>(f, c). size (PDict c))") (auto dest: size_nested simp del: pyval.size)

declare map_cond.simps [simp del]

definition resolve_condition :: "auto_ctx \<Rightarrow> pyval \<Rightarrow> py_exc + pyval" where
  "resolve_condition C cond = (case cond of
     PDict d \<Rightarrow> rbind (map_cond (map_values (resolve_value C)) d) (\<lambda>e. Inr (PDict e)) | _ \<Rightarrow> Inl Type_error)"

text \<open>One action: a playbook name becomes the resource id and, where none is given, the tenant.\<close>

definition resolve_config :: "auto_ctx \<Rightarrow> pydict \<Rightarrow> pydict" where
  "resolve_config C cfg =
    (let rid = logic_app_resource_id (ac_subscription C) (ac_playbooks_rg C) (py_str (dget cfg ''playbook''));
         cfg = dset ''logicAppResourceId'' (PStr rid) (dpop ''playbook'' cfg)
     in case ac_tenant C of
          Some (t # ts) \<Rightarrow> (if truthy (dget cfg ''tenantId'') then cfg else dset ''tenantId'' (PStr (t # ts)) cfg)
        | _ \<Rightarrow> cfg)"

definition resolve_action :: "auto_ctx \<Rightarrow> pyval \<Rightarrow> py_exc + pyval" where
  "resolve_action C a = (case a of
     PDict d \<Rightarrow> (case sub_dict d ''actionConfiguration'' of
       None \<Rightarrow> Inl Type_error
     | Some cfg \<Rightarrow>
         (let cfg = (if dget d ''actionType'' = PStr ''RunPlaybook'' \<and> truthy (dget cfg ''playbook'') then resolve_config C cfg else cfg)
          in Inr (PDict (dset ''actionConfiguration'' (PDict cfg) d))))
   | _ \<Rightarrow> Inl Type_error)"

text \<open>\<open>for x in d.get(key) or []\<close>.\<close>

definition elements :: "pydict \<Rightarrow> string \<Rightarrow> py_exc + pyval list" where
  "elements d key = (case iterate (first_truthy (dget d key) (PList [])) of None \<Rightarrow> Inl Type_error | Some xs \<Rightarrow> Inr xs)"

definition mapping :: "pydict \<Rightarrow> string \<Rightarrow> py_exc + pydict" where
  "mapping d key = (case sub_dict d key of None \<Rightarrow> Inl Type_error | Some e \<Rightarrow> Inr e)"

definition required_key :: "pydict \<Rightarrow> string \<Rightarrow> py_exc + pyval" where
  "required_key d key = (case map_of d key of None \<Rightarrow> Inl (Key_error key) | Some v \<Rightarrow> Inr v)"

definition norm_logic :: "auto_env \<Rightarrow> pydict \<Rightarrow> pydict" where
  "norm_logic E logic =
    (let e = dget logic ''expirationTimeUtc''
     in if truthy e then dset ''expirationTimeUtc'' (normalize_expiration E e) logic else logic)"

definition to_automation_rule_arm_body :: "auto_env \<Rightarrow> auto_ctx \<Rightarrow> pyval \<Rightarrow> py_exc + pyval" where
  "to_automation_rule_arm_body E C payload = (case payload of
     PDict d \<Rightarrow>
       rbind (required_key d ''displayName'') (\<lambda>name.
       rbind (required_key d ''order'') (\<lambda>order.
       rbind (mapping d ''triggeringLogic'') (\<lambda>logic.
       rbind (elements (norm_logic E logic) ''conditions'') (\<lambda>cs.
       rbind (collect_results (map (resolve_condition C) cs)) (\<lambda>conds.
       rbind (elements d ''actions'') (\<lambda>as.
       rbind (collect_results (map (resolve_action C) as)) (\<lambda>acts.
         Inr (properties_body
           [(''displayName'', name), (''order'', order),
            (''triggeringLogic'', PDict (dset ''conditions'' (PList conds) (norm_logic E logic))),
            (''actions'', PList acts)]))))))))
   | _ \<Rightarrow> Inl Type_error)"

section \<open>The projection\<close>

text \<open>\<open>(x or {}).get\<close> on an item.\<close>

definition dict_or_empty :: "pyval \<Rightarrow> py_exc + pydict" where
  "dict_or_empty v = (if \<not> truthy v then Inr [] else case v of PDict d \<Rightarrow> Inr d | _ \<Rightarrow> Inl Type_error)"

definition str_or_empty :: "pyval \<Rightarrow> string" where
  "str_or_empty v = (if truthy v then py_str v else [])"

definition action_type :: "pyval \<Rightarrow> py_exc + string" where
  "action_type a = rbind (dict_or_empty a) (\<lambda>d. Inr (str_or_empty (dget d ''actionType'')))"

definition condition_key :: "pyval \<Rightarrow> py_exc + string" where
  "condition_key c =
    rbind (dict_or_empty c) (\<lambda>d. rbind (mapping d ''conditionProperties'') (\<lambda>cp.
      Inr (str_or_empty (dget d ''conditionType'') @ '':'' @ str_or_empty (dget cp ''propertyName'') @ '':'' @
        str_or_empty (dget cp ''operator''))))"

definition playbook_target :: "pyval \<Rightarrow> py_exc + string list" where
  "playbook_target a =
    rbind (dict_or_empty a) (\<lambda>d.
      if dget d ''actionType'' \<noteq> PStr ''RunPlaybook'' then Inr []
      else rbind (mapping d ''actionConfiguration'') (\<lambda>cfg.
        let rid = dget cfg ''logicAppResourceId'' in Inr (if truthy rid then [lower (py_str rid)] else [])))"

definition strings :: "string list \<Rightarrow> pyval" where
  "strings xs = PList (map PStr (sort xs))"

definition automation_projection :: "pyval \<Rightarrow> py_exc + pydict" where
  "automation_projection body = (case body of
     PDict b \<Rightarrow>
       rbind (mapping b ''properties'') (\<lambda>props.
       rbind (mapping props ''triggeringLogic'') (\<lambda>logic.
       rbind (elements props ''actions'') (\<lambda>acts.
       rbind (elements logic ''conditions'') (\<lambda>conds.
       rbind (collect_results (map action_type acts)) (\<lambda>types.
       rbind (collect_results (map playbook_target acts)) (\<lambda>targets.
       rbind (collect_results (map condition_key conds)) (\<lambda>keys.
         Inr [(''displayName'', dget props ''displayName''), (''order'', dget props ''order''),
              (''isEnabled'', dget logic ''isEnabled''), (''triggersOn'', dget logic ''triggersOn''),
              (''triggersWhen'', dget logic ''triggersWhen''),
              (''hasExpiration'', PBool (truthy (dget logic ''expirationTimeUtc''))),
              (''actionCount'', PInt (int (length acts))), (''actionTypes'', strings types),
              (''playbookIds'', strings (concat targets)), (''conditionCount'', PInt (int (length conds))),
              (''conditionKeys'', strings keys)])))))))
   | _ \<Rightarrow> Inl Type_error)"

section \<open>The handler\<close>

definition AUTOMATION_RULES :: string where "AUTOMATION_RULES = ''automationRules''"

definition EXPIRED_DETAIL :: string where
  "EXPIRED_DETAIL = ''expirationTimeUtc is in the past; ARM rejects expired automation rules - '' @
     ''bump or remove expirationTimeUtc, or mark the envelope deprecated''"

definition strip_automation :: "pydict \<Rightarrow> pydict" where
  "strip_automation = strip_server_fields [''id'', ''type'', ''etag'', ''systemData'']
    [''createdBy'', ''createdTimeUtc'', ''lastModifiedBy'', ''lastModifiedTimeUtc'']"

definition automation_validate :: "auto_env \<Rightarrow> loaded_asset \<Rightarrow> py_exc option" where
  "automation_validate E la = payload_validate (fits (ae_int E) (SentinelAutomationRulePayload E) (la_payload la))"

definition automation_plan :: "auto_env \<Rightarrow> loaded_asset \<Rightarrow> py_exc + action_result" where
  "automation_plan E la =
    (let plan = plan_unless_retired SENTINEL_AUTOMATION_RULE ''automation rules'' la in
     if r_action plan = SKIP then Inr plan
     else case la_payload la of
       PDict d \<Rightarrow> rbind (mapping d ''triggeringLogic'') (\<lambda>logic.
         Inr (if is_expired E (dget logic ''expirationTimeUtc'')
              then own_result (env_id (la_envelope la)) SENTINEL_AUTOMATION_RULE SKIP ''planned'' EXPIRED_DETAIL else plan))
     | _ \<Rightarrow> Inl Type_error)"

definition automation_name :: "auto_env \<Rightarrow> loaded_asset \<Rightarrow> string" where
  "automation_name E la = (case envelope.arm_name (la_envelope la) of
     Some (c # n) \<Rightarrow> c # n | _ \<Rightarrow> ae_uuid5 E (env_id (la_envelope la)))"

definition automation_put :: "auto_env \<Rightarrow> (string \<Rightarrow> string) \<Rightarrow> 'w arm \<Rightarrow> loaded_asset \<Rightarrow> pyval \<Rightarrow> ('w, action_result) eff" where
  "automation_put E h A la body =
    (let guid = automation_name E la in
     ebind (elift (resource_url A AUTOMATION_RULES (Some guid) AUTOMATION_API_VERSION None)) (\<lambda>url.
     ebind (get_resource A AUTOMATION_RULES guid AUTOMATION_API_VERSION) (\<lambda>existing.
     ebind (elift (extract_etag existing)) (\<lambda>etag.
       put_and_verify (env_id (la_envelope la)) SENTINEL_AUTOMATION_RULE put_action (projection_hash h automation_projection)
         body (arm_request A ''PUT'' url (Some body) etag)
         (readback_resource A AUTOMATION_RULES guid AUTOMATION_API_VERSION)))))"

definition automation_apply ::
  "auto_env \<Rightarrow> string option \<Rightarrow> loaded_asset list \<Rightarrow> (string \<Rightarrow> string) \<Rightarrow> 'w arm option \<Rightarrow> loaded_asset \<Rightarrow> bool \<Rightarrow>
   ('w, action_result) eff" where
  "automation_apply E tenant loaded h prov la dry_run =
    ebind (elift (automation_plan E la)) (\<lambda>plan.
      if r_action plan = SKIP then eret (skipped_by plan)
      else if dry_run then eret (own_result (env_id (la_envelope la)) SENTINEL_AUTOMATION_RULE UPDATE ''dry-run'' [])
      else case prov of
        None \<Rightarrow> elift (Inl No_provider)
      | Some A \<Rightarrow>
          ebind (elift (to_automation_rule_arm_body E (ctx_of A tenant loaded) (la_payload la))) (automation_put E h A la))"

definition automation_delete ::
  "(py_exc \<Rightarrow> string) \<Rightarrow> 'w arm option \<Rightarrow> string \<Rightarrow> 'w \<Rightarrow> (py_exc + action_result) \<times> 'w" where
  "automation_delete msg = resource_delete msg SENTINEL_AUTOMATION_RULE AUTOMATION_RULES AUTOMATION_API_VERSION"

definition automation_list :: "'w arm option \<Rightarrow> ('w, pyval list) eff" where
  "automation_list prov = (case prov of None \<Rightarrow> eret [] | Some A \<Rightarrow> list_resource A AUTOMATION_RULES AUTOMATION_API_VERSION)"

section \<open>Collecting\<close>

text \<open>The rule of an ARM name: the last entry of the index that has it.\<close>

definition by_arm :: "auto_ctx \<Rightarrow> string \<Rightarrow> string option" where
  "by_arm C n = map_of (rev (map (\<lambda>p. (snd p, fst p)) (ac_analytics C))) n"

definition reverse_value :: "auto_ctx \<Rightarrow> pyval \<Rightarrow> py_exc + pyval" where
  "reverse_value C v = Inr (case v of
     PStr s \<Rightarrow> (case analytic_arm_name_from_resource_id s (ac_workspace C) of
       None \<Rightarrow> v
     | Some n \<Rightarrow> (case by_arm C n of Some (c # i) \<Rightarrow> PStr (ANALYTIC_REF_PREFIX @ c # i) | _ \<Rightarrow> v))
   | _ \<Rightarrow> v)"

definition reverse_condition :: "auto_ctx option \<Rightarrow> pyval \<Rightarrow> py_exc + pyval" where
  "reverse_condition prov cond =
    rbind (dict_or_empty cond) (\<lambda>d.
    rbind (map_cond (case prov of None \<Rightarrow> Inr | Some C \<Rightarrow> map_values (reverse_value C)) d) (\<lambda>e. Inr (PDict e)))"

definition reverse_config :: "auto_ctx \<Rightarrow> pydict \<Rightarrow> pydict" where
  "reverse_config C cfg =
    (let rid = dget cfg ''logicAppResourceId'' in
     if \<not> truthy rid then cfg
     else case playbook_id_from_resource_id (py_str rid) (ac_subscription C) (ac_playbooks_rg C) of
       None \<Rightarrow> cfg
     | Some pid \<Rightarrow>
         (let cfg = dset ''playbook'' (PStr pid) (dpop ''logicAppResourceId'' cfg)
          in case ac_tenant C of
               Some (t # ts) \<Rightarrow>
                 (if lower (py_str (dget_default cfg ''tenantId'' (PStr []))) = lower (t # ts) then dpop ''tenantId'' cfg else cfg)
             | _ \<Rightarrow> cfg))"

definition reverse_action :: "auto_ctx option \<Rightarrow> pyval \<Rightarrow> py_exc + pyval" where
  "reverse_action prov a =
    rbind (dict_or_empty a) (\<lambda>d.
      if dget d ''actionType'' \<noteq> PStr ''RunPlaybook'' then Inr (PDict d)
      else rbind (mapping d ''actionConfiguration'') (\<lambda>cfg.
        Inr (PDict (dset ''actionConfiguration''
          (PDict (case prov of None \<Rightarrow> cfg | Some C \<Rightarrow> reverse_config C cfg)) d))))"

definition automation_to_envelope :: "auto_env \<Rightarrow> auto_ctx option \<Rightarrow> pydict \<Rightarrow> py_exc + pydict option" where
  "automation_to_envelope E prov remote =
    (let name = dget remote ''name'' in
     if \<not> truthy name then Inr None
     else
       rbind (mapping (strip_automation remote) ''properties'') (\<lambda>props.
       let display_name = (if truthy (dget props ''displayName'') then dget props ''displayName'' else PStr []) in
       rbind (slug_of display_name (PStr (py_str name))) (\<lambda>i.
         if i = [] then Inr None
         else
           rbind (mapping props ''triggeringLogic'') (\<lambda>logic.
           rbind (elements (norm_logic E logic) ''conditions'') (\<lambda>cs.
           rbind (collect_results (map (reverse_condition prov) cs)) (\<lambda>conds.
           rbind (elements props ''actions'') (\<lambda>as.
           rbind (collect_results (map (reverse_action prov) as)) (\<lambda>acts.
             let logic = dset ''conditions'' (PList conds) (norm_logic E logic);
                 st = (if is_expired E (dget logic ''expirationTimeUtc'') then ''deprecated'' else ''production'')
             in Inr (Some
               [(''id'', PStr i), (''version'', PStr COLLECT_BASELINE_VERSION),
                (''asset'', PStr (asset_value SENTINEL_AUTOMATION_RULE)), (''status'', PStr st),
                (''metadata'', PDict [(''arm_name'', PStr (py_str name))]),
                (''payload'', PDict [(''displayName'', display_name), (''order'', dget_default props ''order'' (PInt 1)),
                   (''triggeringLogic'', PDict logic), (''actions'', PList acts)])])))))))))"

section \<open>Writing\<close>

lemma automation_projection_sent:
  assumes "same_outside (server_owned SENTINEL_AUTOMATION_RULE) (dget d ''properties'') (dget c ''properties'')"
  shows "automation_projection (PDict d) = automation_projection (PDict c)"
  using assms
proof (cases rule: same_outside_sub_dict)
  case (some p q)
  have "dget p k = dget q k" if "k \<in> {''displayName'', ''order'', ''triggeringLogic'', ''actions''}" for k
    using that by (intro some(3)) (auto simp: server_owned_def)
  then show ?thesis
    using some(1,2) by (simp add: automation_projection_def mapping_def elements_def sub_dict_def)
qed (simp add: automation_projection_def mapping_def)

interpretation automation: verified_write
  "\<lambda>A (la, body). automation_put E h A la body"
  "\<lambda>A (la, body). resource_url A AUTOMATION_RULES (Some (automation_name E la)) AUTOMATION_API_VERSION None"
  snd "\<lambda>(la, body). env_id (la_envelope la)" "\<lambda>_. SENTINEL_AUTOMATION_RULE" "\<lambda>_. put_action"
  resource_etag "\<lambda>_. projection_hash h automation_projection" readback_url "\<lambda>A x. eret"
  "\<lambda>_. server_owned SENTINEL_AUTOMATION_RULE" for E h
proof (unfold_locales, goal_cases)
  case (1 A x ex w)
  then show ?case by (auto simp: automation_put_def Let_def elift_def split: prod.splits)
next
  case (2 A x u)
  then show ?case by (cases x) (simp add: automation_put_def Let_def by_url)
next
  case (9 d c x)
  then show ?case by (simp add: projection_hash_def automation_projection_sent[of d c])
qed (auto simp: by_read)

end
