(* ===== verification/Sentinel.thy ===== *)
theory Sentinel
  imports Watchlist Automation Apply
begin

text \<open>
  The Sentinel handlers behind one table, as \<open>contentops/cli/handler_factories.py\<close> registers them, the
  instance cache of \<open>contentops/core/registry.py\<close>, and the properties of every write to a workspace.
  A kind without a handler here raises the \<open>KeyError\<close> of the registry.
\<close>

section \<open>The registry\<close>

record 'h registry =
  factories :: "(asset_kind \<times> (nat \<Rightarrow> 'h)) list"
  instances :: "(asset_kind \<times> 'h) list"
  built :: nat                      \<comment> \<open>how many handlers were constructed so far\<close>

definition registry_register :: "asset_kind \<Rightarrow> (nat \<Rightarrow> 'h) \<Rightarrow> 'h registry \<Rightarrow> 'h registry" where
  "registry_register k mk R = R\<lparr>factories := dset k mk (factories R)\<rparr>"

definition registry_get :: "asset_kind \<Rightarrow> 'h registry \<Rightarrow> (py_exc + 'h) \<times> 'h registry" where
  "registry_get k R = (case map_of (instances R) k of
     Some h \<Rightarrow> (Inr h, R)
   | None \<Rightarrow> (case map_of (factories R) k of
       None \<Rightarrow> (Inl (Key_error (asset_value k)), R)
     | Some mk \<Rightarrow> (Inr (mk (built R)), R\<lparr>instances := dset k (mk (built R)) (instances R), built := Suc (built R)\<rparr>)))"

definition registry_has :: "asset_kind \<Rightarrow> 'h registry \<Rightarrow> bool" where
  "registry_has k R \<longleftrightarrow> map_of (factories R) k \<noteq> None"

definition registry_reset :: "'h registry \<Rightarrow> 'h registry" where
  "registry_reset R = R\<lparr>instances := []\<rparr>"

definition registry_reset_all :: "'h registry \<Rightarrow> 'h registry" where
  "registry_reset_all R = (registry_reset R)\<lparr>factories := []\<rparr>"

definition active_workspace :: "tenant \<Rightarrow> string option \<Rightarrow> config_error + workspace" where
  "active_workspace cfg env_name = (case env_name of
     Some (c # n) \<Rightarrow> workspace_by_name cfg (c # n)
   | _ \<Rightarrow> rbind (select_workspaces cfg None None) (\<lambda>ws. case ws of [w] \<Rightarrow> Inr w | _ \<Rightarrow> Inl Ambiguous))"

section \<open>The handlers of a provider\<close>

record sentinel_env =
  se_int :: "pyval \<Rightarrow> int option"
  se_py_int :: "pyval \<Rightarrow> int option"
  se_hash :: "string \<Rightarrow> string"
  se_msg :: "py_exc \<Rightarrow> string"
  se_auto :: auto_env
  se_tenant :: "string option"
  se_loaded :: "loaded_asset list"

definition sentinel_apply ::
  "sentinel_env \<Rightarrow> 'w arm option \<Rightarrow> asset_kind \<Rightarrow> loaded_asset \<Rightarrow> bool \<Rightarrow> ('w, action_result) eff" where
  "sentinel_apply S prov k la dry = (case k of
     SENTINEL_ANALYTIC \<Rightarrow> analytic_apply (se_hash S) prov la dry
   | SENTINEL_HUNTING \<Rightarrow> hunting_apply (se_int S) (se_hash S) prov la dry
   | SENTINEL_PARSER \<Rightarrow> parser_apply (se_int S) (se_hash S) prov la dry
   | SENTINEL_DATA_CONNECTOR \<Rightarrow> connector_apply (se_int S) (se_hash S) prov la dry
   | SENTINEL_WATCHLIST \<Rightarrow> watchlist_apply (se_msg S) (se_py_int S) (se_hash S) prov la dry
   | SENTINEL_AUTOMATION_RULE \<Rightarrow> automation_apply (se_auto S) (se_tenant S) (se_loaded S) (se_hash S) prov la dry
   | _ \<Rightarrow> elift (Inl (Key_error (asset_value k))))"

definition sentinel_validate :: "sentinel_env \<Rightarrow> asset_kind \<Rightarrow> loaded_asset \<Rightarrow> py_exc option" where
  "sentinel_validate S k la = (case k of
     SENTINEL_ANALYTIC \<Rightarrow> analytic_validate (se_int S) la
   | SENTINEL_HUNTING \<Rightarrow> hunting_validate (se_int S) la
   | SENTINEL_PARSER \<Rightarrow> parser_validate (se_int S) la
   | SENTINEL_DATA_CONNECTOR \<Rightarrow> connector_validate (se_int S) la
   | SENTINEL_WATCHLIST \<Rightarrow> watchlist_validate (se_int S) la
   | SENTINEL_AUTOMATION_RULE \<Rightarrow> automation_validate (se_auto S) la
   | _ \<Rightarrow> Some (Key_error (asset_value k)))"

definition sentinel_plan :: "sentinel_env \<Rightarrow> asset_kind \<Rightarrow> loaded_asset \<Rightarrow> py_exc + action_result" where
  "sentinel_plan S k la = (case k of
     SENTINEL_ANALYTIC \<Rightarrow> Inr (analytic_plan la)
   | SENTINEL_HUNTING \<Rightarrow> Inr (hunting_plan la)
   | SENTINEL_PARSER \<Rightarrow> Inr (parser_plan la)
   | SENTINEL_DATA_CONNECTOR \<Rightarrow> Inr (connector_plan la)
   | SENTINEL_WATCHLIST \<Rightarrow> Inr (watchlist_plan la)
   | SENTINEL_AUTOMATION_RULE \<Rightarrow> automation_plan (se_auto S) la
   | _ \<Rightarrow> Inl (Key_error (asset_value k)))"

definition as_text :: "(py_exc \<Rightarrow> string) \<Rightarrow> py_exc + 'a \<Rightarrow> string + 'a" where
  "as_text msg r = (case r of Inl e \<Rightarrow> Inl (msg e) | Inr x \<Rightarrow> Inr x)"

text \<open>The handler of a kind as the commands call it: an exception is the text it is caught with.\<close>

definition sentinel_ops :: "sentinel_env \<Rightarrow> 'w arm option \<Rightarrow> asset_kind \<Rightarrow> 'w handler_ops" where
  "sentinel_ops S prov k =
    \<lparr>h_validate = \<lambda>la. map_option (se_msg S) (sentinel_validate S k la),
     h_plan = \<lambda>la. as_text (se_msg S) (sentinel_plan S k la),
     h_apply = \<lambda>la dry w. (case sentinel_apply S prov k la dry w of (r, w') \<Rightarrow> (as_text (se_msg S) r, w'))\<rparr>"

section \<open>What a write is\<close>

text \<open>The URL an asset goes to and the body it is sent with.\<close>

definition watch_dict :: "loaded_asset \<Rightarrow> pydict" where
  "watch_dict la = (case la_payload la of PDict d \<Rightarrow> d | _ \<Rightarrow> [])"

definition target :: "sentinel_env \<Rightarrow> 'w arm \<Rightarrow> asset_kind \<Rightarrow> loaded_asset \<Rightarrow> py_exc + string" where
  "target S A k la = (case k of
     SENTINEL_ANALYTIC \<Rightarrow> resource_url A ALERT_RULES (Some (resource_name la)) API_VERSION None
   | SENTINEL_DATA_CONNECTOR \<Rightarrow> resource_url A DATA_CONNECTORS (Some (env_id (la_envelope la))) API_VERSION None
   | SENTINEL_WATCHLIST \<Rightarrow> resource_url A WATCHLISTS (Some (watchlist_name la (watch_dict la))) API_VERSION None
   | SENTINEL_AUTOMATION_RULE \<Rightarrow>
       resource_url A AUTOMATION_RULES (Some (automation_name (se_auto S) la)) AUTOMATION_API_VERSION None
   | _ \<Rightarrow> la_resource_url A SAVED_SEARCHES (Some (env_id (la_envelope la))) LA_API_VERSION)"

definition sent_body :: "sentinel_env \<Rightarrow> 'w arm \<Rightarrow> asset_kind \<Rightarrow> loaded_asset \<Rightarrow> py_exc + pyval" where
  "sent_body S A k la = (case k of
     SENTINEL_ANALYTIC \<Rightarrow> rbind (to_sentinel_body (la_payload la)) (\<lambda>(kd, p).
       Inr (arm_body kd (analytic_properties (env_status (la_envelope la)) kd p)))
   | SENTINEL_HUNTING \<Rightarrow> to_savedsearch_arm_body (se_int S) (la_payload la)
   | SENTINEL_PARSER \<Rightarrow> to_parser_arm_body (se_int S) (la_payload la)
   | SENTINEL_DATA_CONNECTOR \<Rightarrow> to_connector_arm_body (se_int S) (la_payload la)
   | SENTINEL_WATCHLIST \<Rightarrow> (case la_payload la of PDict d \<Rightarrow> Inr (to_watchlist_arm_body (PDict d)) | _ \<Rightarrow> Inl Type_error)
   | SENTINEL_AUTOMATION_RULE \<Rightarrow>
       to_automation_rule_arm_body (se_auto S) (ctx_of A (se_tenant S) (se_loaded S)) (la_payload la)
   | _ \<Rightarrow> Inl (Key_error (asset_value k)))"

text \<open>A call that writes: it is the \<open>wr\<close> of the kind's interpretation.\<close>

definition write_step :: "sentinel_env \<Rightarrow> 'w arm \<Rightarrow> asset_kind \<Rightarrow> loaded_asset \<Rightarrow> ('w, action_result) eff \<Rightarrow> bool" where
  "write_step S A k la m \<longleftrightarrow> (case k of
     SENTINEL_ANALYTIC \<Rightarrow> (\<exists>kd p. to_sentinel_body (la_payload la) = Inr (kd, p) \<and>
       m = analytic_put (se_hash S) A la kd (analytic_properties (env_status (la_envelope la)) kd p))
   | SENTINEL_DATA_CONNECTOR \<Rightarrow> (\<exists>b. sent_body S A k la = Inr b \<and> m = connector_put (se_hash S) A la b)
   | SENTINEL_WATCHLIST \<Rightarrow> (\<exists>d. la_payload la = PDict d \<and> m = watchlist_put (se_msg S) (se_py_int S) (se_hash S) A la d)
   | SENTINEL_AUTOMATION_RULE \<Rightarrow> (\<exists>b. sent_body S A k la = Inr b \<and> m = automation_put (se_auto S) (se_hash S) A la b)
   | _ \<Rightarrow> k \<in> {SENTINEL_HUNTING, SENTINEL_PARSER} \<and> (\<exists>b. sent_body S A k la = Inr b \<and>
       m = search_put (se_hash S) A k (search_fields k) (env_id (la_envelope la)) b))"

lemma skip_cases:
  "r_action (plan_unless_retired k noun la) = SKIP \<or> r_action (plan_unless_retired k noun la) = UPDATE"
  by (auto simp: plan_unless_retired_def own_result_def Let_def)

definition quiet :: "('w, action_result) eff \<Rightarrow> bool" where
  "quiet m \<longleftrightarrow> (\<forall>w r w'. m w = (r, w') \<longrightarrow> w' = w \<and> (\<forall>x. r = Inr x \<longrightarrow> r_status x \<in> {''skipped'', ''dry-run''}))"

lemma quiet_ret [simp]: "quiet (elift (Inl e))" "quiet (eret x) \<longleftrightarrow> r_status x \<in> {''skipped'', ''dry-run''}"
  by (auto simp: quiet_def elift_def eret_def)

lemma status_simps [simp]: "r_status (own_result i k a st d) = st" "r_status (skipped_by r) = ''skipped''"
  by (simp_all add: own_result_def skipped_by_def)

text \<open>Every \<open>apply\<close> either sends nothing or is a write of the asset's body.\<close>

lemma apply_steps:
  "quiet (sentinel_apply S prov k la dry) \<or>
   (\<exists>A. prov = Some A \<and> \<not> dry \<and> write_step S A k la (sentinel_apply S prov k la dry))"
proof (cases k)
  case SENTINEL_ANALYTIC
  then show ?thesis
    by (cases prov; cases "to_sentinel_body (la_payload la)")
       (auto simp: sentinel_apply_def analytic_apply_def write_step_def Let_def)
next
  case SENTINEL_HUNTING
  then show ?thesis
    by (cases prov; cases "to_savedsearch_arm_body (se_int S) (la_payload la)")
       (auto simp: sentinel_apply_def hunting_apply_def search_apply_def write_step_def sent_body_def search_fields_def Let_def)
next
  case SENTINEL_PARSER
  then show ?thesis
    by (cases prov; cases "to_parser_arm_body (se_int S) (la_payload la)")
       (auto simp: sentinel_apply_def parser_apply_def search_apply_def write_step_def sent_body_def search_fields_def Let_def)
next
  case SENTINEL_DATA_CONNECTOR
  then show ?thesis
    by (cases prov; cases "to_connector_arm_body (se_int S) (la_payload la)")
       (auto simp: sentinel_apply_def connector_apply_def write_step_def sent_body_def Let_def)
next
  case SENTINEL_WATCHLIST
  then show ?thesis
    by (cases prov; cases "la_payload la")
       (auto simp: sentinel_apply_def watchlist_apply_def write_step_def Let_def)
next
  case SENTINEL_AUTOMATION_RULE
  then show ?thesis
    by (cases prov; cases "automation_plan (se_auto S) la")
       (auto simp: sentinel_apply_def automation_apply_def write_step_def sent_body_def Let_def
         split: sum.splits, (metis ebind_elift(1) ebind_elift(2) quiet_ret(1) sum.exhaust)+)
qed (simp_all add: sentinel_apply_def)

text \<open>What the interpretations give for a write of any kind.\<close>

lemma write_no_lost_update:
  assumes "write_step S A k la m" and "etag_server A hist" and "m w = (Inr r, w')" and "r_status r = ''success''"
  shows "\<exists>u b r1 w1. target S A k la = Inr u \<and> sent_body S A k la = Inr b \<and>
    arm_request A ''GET'' u None None w = (Inr r1, w1) \<and>
    (status_code r1 = 200 \<longrightarrow> (\<exists>newer e. hist w' u = newer @ (e, Some b) # hist w1 u))"
proof (cases k)
  case SENTINEL_ANALYTIC
  then show ?thesis
    using assms analytic.no_lost_update[OF assms(2), where h = "se_hash S"]
    by (fastforce simp: write_step_def target_def sent_body_def)
next
  case SENTINEL_DATA_CONNECTOR
  then show ?thesis
    using assms connector.no_lost_update[OF assms(2), where h = "se_hash S"]
    by (fastforce simp: write_step_def target_def sent_body_def)
next
  case SENTINEL_WATCHLIST
  then show ?thesis
    using assms watchlist.no_lost_update[OF assms(2), where h = "se_hash S" and msg = "se_msg S" and to_py_int = "se_py_int S"]
    by (fastforce simp: write_step_def target_def sent_body_def watch_dict_def)
next
  case SENTINEL_AUTOMATION_RULE
  then show ?thesis
    using assms automation.no_lost_update[OF assms(2), where h = "se_hash S" and E = "se_auto S"]
    by (fastforce simp: write_step_def target_def sent_body_def)
next
  case SENTINEL_HUNTING
  then show ?thesis
    using assms search.no_lost_update[OF assms(2), where h = "se_hash S"]
    by (fastforce simp: write_step_def target_def sent_body_def)
next
  case SENTINEL_PARSER
  then show ?thesis
    using assms search.no_lost_update[OF assms(2), where h = "se_hash S"]
    by (fastforce simp: write_step_def target_def sent_body_def)
qed (use assms(1) in \<open>simp_all add: write_step_def\<close>)

lemma write_invariant:
  assumes "write_step S A k la m"
    and "\<And>u v. P v \<Longrightarrow> P (snd (a_http A (get_rq u) v))"
    and "\<And>u b etag v. target S A k la = Inr u \<Longrightarrow> sent_body S A k la = Inr b \<Longrightarrow> P v \<Longrightarrow> P (snd (a_http A (put_rq u b etag) v))"
    and "P w"
  shows "P (snd (m w))"
proof (cases k)
  case SENTINEL_ANALYTIC
  then obtain kd p where m: "to_sentinel_body (la_payload la) = Inr (kd, p)"
      "m = analytic_put (se_hash S) A la kd (analytic_properties (env_status (la_envelope la)) kd p)"
    using assms(1) by (auto simp: write_step_def)
  show ?thesis
    using analytic.wr_invariant[of P A "(la, kd, analytic_properties (env_status (la_envelope la)) kd p)" w "se_hash S"] assms(2-4) m
      SENTINEL_ANALYTIC by (simp add: target_def sent_body_def)
next
  case SENTINEL_DATA_CONNECTOR
  then obtain b where m: "sent_body S A k la = Inr b" "m = connector_put (se_hash S) A la b"
    using assms(1) by (auto simp: write_step_def)
  show ?thesis
    using connector.wr_invariant[of P A "(la, b)" w "se_hash S"] assms(2-4) m SENTINEL_DATA_CONNECTOR
    by (simp add: target_def)
next
  case SENTINEL_WATCHLIST
  then obtain d where m: "la_payload la = PDict d" "m = watchlist_put (se_msg S) (se_py_int S) (se_hash S) A la d"
    using assms(1) by (auto simp: write_step_def)
  show ?thesis
    using watchlist.wr_invariant[of P A "(la, d)" w "se_msg S" "se_py_int S" "se_hash S"] assms(2-4) m SENTINEL_WATCHLIST
    by (simp add: target_def sent_body_def watch_dict_def)
next
  case SENTINEL_AUTOMATION_RULE
  then obtain b where m: "sent_body S A k la = Inr b" "m = automation_put (se_auto S) (se_hash S) A la b"
    using assms(1) by (auto simp: write_step_def)
  show ?thesis
    using automation.wr_invariant[of P A "se_auto S" "(la, b)" w "se_hash S"] assms(2-4) m SENTINEL_AUTOMATION_RULE
    by (simp add: target_def)
next
  case SENTINEL_HUNTING
  then obtain b where m: "sent_body S A k la = Inr b"
      "m = search_put (se_hash S) A k (search_fields k) (env_id (la_envelope la)) b"
    using assms(1) by (auto simp: write_step_def)
  show ?thesis
    using search.wr_invariant[of P A "(k, env_id (la_envelope la), b)" w "se_hash S"] assms(2-4) m SENTINEL_HUNTING
    by (simp add: target_def)
next
  case SENTINEL_PARSER
  then obtain b where m: "sent_body S A k la = Inr b"
      "m = search_put (se_hash S) A k (search_fields k) (env_id (la_envelope la)) b"
    using assms(1) by (auto simp: write_step_def)
  show ?thesis
    using search.wr_invariant[of P A "(k, env_id (la_envelope la), b)" w "se_hash S"] assms(2-4) m SENTINEL_PARSER
    by (simp add: target_def)
qed (use assms(1) in \<open>simp_all add: write_step_def\<close>)

text \<open>What is compared after the write can be read off the body, and no item count follows.\<close>

definition comparable :: "sentinel_env \<Rightarrow> 'w arm \<Rightarrow> asset_kind \<Rightarrow> loaded_asset \<Rightarrow> bool" where
  "comparable S A k la \<longleftrightarrow> (\<forall>b. sent_body S A k la = Inr b \<longrightarrow>
     (k = SENTINEL_DATA_CONNECTOR \<longrightarrow> (\<exists>p. connector_projection b = Inr p)) \<and>
     (k = SENTINEL_AUTOMATION_RULE \<longrightarrow> (\<exists>p. automation_projection b = Inr p))) \<and>
   (k = SENTINEL_WATCHLIST \<longrightarrow> \<not> truthy (sub (la_payload la) ''rawContent''))"

definition store_action :: "asset_kind \<Rightarrow> loaded_asset \<Rightarrow> (string \<times> pyval) option \<Rightarrow> plan_action" where
  "store_action k la cur =
    (if k = SENTINEL_ANALYTIC \<and> env_status (la_envelope la) = ''deprecated'' then DISABLE
     else if cur = None then CREATE else UPDATE)"

lemma put_action_store: "status_code q = (if cur = None then 201 else 200) \<Longrightarrow> put_action q = (if cur = None then CREATE else UPDATE)"
  by (auto simp: put_action_def)

lemma analytic_refines:
  assumes "store_server A own res" and "set (own u) \<subseteq> set (server_owned SENTINEL_ANALYTIC)"
    and "resource_url A ALERT_RULES (Some (resource_name la)) API_VERSION None = Inr u"
  shows "\<exists>v e. res v = (res w)(u \<mapsto> (e, arm_body kd p)) \<and> analytic_put h A la kd p w =
    (Inr (verified (env_id (la_envelope la)) SENTINEL_ANALYTIC (store_action SENTINEL_ANALYTIC la (res w u))), v)"
proof -
  have "\<exists>sent. analytic_hash h (la, kd, p) (PDict [(''kind'', kd), (''properties'', PDict p)]) = Inr sent"
    by (simp add: analytic_hash_def)
  then obtain sent where "analytic_hash h (la, kd, p) (PDict [(''kind'', kd), (''properties'', PDict p)]) = Inr sent" ..
  from analytic.refines_store[OF assms(1) _ _ _ this, of u w] assms(2,3) obtain q v e where
    "analytic_put h A la kd p w = eret (verified (env_id (la_envelope la)) SENTINEL_ANALYTIC
       (if env_status (la_envelope la) = ''deprecated'' then DISABLE else put_action q)) v"
    "res v = (res w)(u \<mapsto> (e, arm_body kd p))" "status_code q = (if res w u = None then 201 else 200)"
    by (auto simp: arm_body_def)
  then show ?thesis
    using put_action_store[of q "res w u"]
    by (intro exI[of _ v] exI[of _ e]) (simp add: store_action_def eret_def)
qed

lemma search_refines:
  assumes "store_server A own res" and "set (own u) \<subseteq> set (server_owned k)"
    and "la_resource_url A SAVED_SEARCHES (Some i) LA_API_VERSION = Inr u"
    and "k \<noteq> SENTINEL_ANALYTIC"
  shows "\<exists>v e. res v = (res w)(u \<mapsto> (e, PDict d)) \<and>
    search_put h A k (search_fields k) i (PDict d) w = (Inr (verified i k (store_action k la (res w u))), v)"
proof -
  from search.refines_store[OF assms(1), of "(k, i, PDict d)" u d h "compute_content_hash h (PDict d) (search_fields k)" w] assms(2,3)
  obtain q v e where "search_put h A k (search_fields k) i (PDict d) w = eret (verified i k (put_action q)) v"
    "res v = (res w)(u \<mapsto> (e, PDict d))" "status_code q = (if res w u = None then 201 else 200)"
    by auto
  then show ?thesis
    using put_action_store[of q "res w u"] assms(4)
    by (intro exI[of _ v] exI[of _ e]) (simp add: store_action_def eret_def)
qed

lemma connector_refines:
  assumes "store_server A own res" and "set (own u) \<subseteq> set (server_owned SENTINEL_DATA_CONNECTOR)"
    and "resource_url A DATA_CONNECTORS (Some (env_id (la_envelope la))) API_VERSION None = Inr u"
    and "connector_projection (PDict d) = Inr p"
  shows "\<exists>v e. res v = (res w)(u \<mapsto> (e, PDict d)) \<and> connector_put h A la (PDict d) w =
    (Inr (verified (env_id (la_envelope la)) SENTINEL_DATA_CONNECTOR (store_action SENTINEL_DATA_CONNECTOR la (res w u))), v)"
proof -
  from connector.refines_store[OF assms(1), of "(la, PDict d)" u d h "compute_projection_hash h p" w] assms(2,3,4)
  obtain q v e where "connector_put h A la (PDict d) w =
      eret (note_mismatch (consent_note (la_payload la)) (verified (env_id (la_envelope la)) SENTINEL_DATA_CONNECTOR (put_action q))) v"
    "res v = (res w)(u \<mapsto> (e, PDict d))" "status_code q = (if res w u = None then 201 else 200)"
    by (auto simp: projection_hash_def)
  then show ?thesis
    using put_action_store[of q "res w u"]
    by (intro exI[of _ v] exI[of _ e]) (simp add: store_action_def eret_def note_mismatch_def verified_def own_result_def)
qed

lemma watchlist_refines:
  assumes "store_server A own res" and "set (own u) \<subseteq> set (server_owned SENTINEL_WATCHLIST)"
    and "resource_url A WATCHLISTS (Some (watchlist_name la d)) API_VERSION None = Inr u"
    and "\<not> truthy (dget d ''rawContent'')"
  shows "\<exists>v e. res v = (res w)(u \<mapsto> (e, to_watchlist_arm_body (PDict d))) \<and> watchlist_put msg ti h A la d w =
    (Inr (verified (env_id (la_envelope la)) SENTINEL_WATCHLIST (store_action SENTINEL_WATCHLIST la (res w u))), v)"
proof -
  from watchlist.refines_store[OF assms(1), of "(la, d)" u "[(''properties'', PDict d)]" h _ msg ti w] assms(2,3)
  obtain q v e where "watchlist_put msg ti h A la d w = check_items msg ti A (watchlist_name la d) d
      (verified (env_id (la_envelope la)) SENTINEL_WATCHLIST (put_action q)) v"
    "res v = (res w)(u \<mapsto> (e, to_watchlist_arm_body (PDict d)))" "status_code q = (if res w u = None then 201 else 200)"
    by (auto simp: to_watchlist_arm_body_def)
  then show ?thesis
    using put_action_store[of q "res w u"] assms(4)
    by (intro exI[of _ v] exI[of _ e]) (simp add: store_action_def check_items_def)
qed

lemma automation_refines:
  assumes "store_server A own res" and "set (own u) \<subseteq> set (server_owned SENTINEL_AUTOMATION_RULE)"
    and "resource_url A AUTOMATION_RULES (Some (automation_name E la)) AUTOMATION_API_VERSION None = Inr u"
    and "automation_projection (PDict d) = Inr p"
  shows "\<exists>v e. res v = (res w)(u \<mapsto> (e, PDict d)) \<and> automation_put E h A la (PDict d) w =
    (Inr (verified (env_id (la_envelope la)) SENTINEL_AUTOMATION_RULE (store_action SENTINEL_AUTOMATION_RULE la (res w u))), v)"
proof -
  from automation.refines_store[OF assms(1), of E "(la, PDict d)" u d h "compute_projection_hash h p" w] assms(2,3,4)
  obtain q v e where "automation_put E h A la (PDict d) w =
      eret (verified (env_id (la_envelope la)) SENTINEL_AUTOMATION_RULE (put_action q)) v"
    "res v = (res w)(u \<mapsto> (e, PDict d))" "status_code q = (if res w u = None then 201 else 200)"
    by (auto simp: projection_hash_def)
  then show ?thesis
    using put_action_store[of q "res w u"]
    by (intro exI[of _ v] exI[of _ e]) (simp add: store_action_def eret_def)
qed

lemma body_dict:
  "to_savedsearch_arm_body ti v = Inr b \<Longrightarrow> \<exists>d. b = PDict d" "to_parser_arm_body ti v = Inr b \<Longrightarrow> \<exists>d. b = PDict d"
  "to_connector_arm_body ti v = Inr b \<Longrightarrow> \<exists>d. b = PDict d" "automation_projection b = Inr p \<Longrightarrow> \<exists>d. b = PDict d"
  by (auto simp: to_savedsearch_arm_body_def to_parser_arm_body_def to_connector_arm_body_def properties_body_def
      arm_body_def automation_projection_def Let_def split: pyval.splits if_splits)

lemma write_refines_store:
  assumes "write_step S A k la m" and srv: "store_server A own res" and own: "set (own u) \<subseteq> set (server_owned k)"
    and u: "target S A k la = Inr u" and c: "comparable S A k la"
  shows "\<exists>b v e. sent_body S A k la = Inr b \<and> res v = (res w)(u \<mapsto> (e, b)) \<and>
    m w = (Inr (verified (env_id (la_envelope la)) k (store_action k la (res w u))), v)"
proof (cases k)
  case SENTINEL_ANALYTIC
  then obtain kd p where m: "to_sentinel_body (la_payload la) = Inr (kd, p)"
      "m = analytic_put (se_hash S) A la kd (analytic_properties (env_status (la_envelope la)) kd p)"
    using assms(1) by (auto simp: write_step_def)
  show ?thesis
    using analytic_refines[OF srv own[unfolded SENTINEL_ANALYTIC], of la w kd _ "se_hash S"] m u unfolding SENTINEL_ANALYTIC
    by (simp add: target_def sent_body_def)
next
  case SENTINEL_DATA_CONNECTOR
  then obtain b where m: "sent_body S A k la = Inr b" "m = connector_put (se_hash S) A la b"
    using assms(1) by (auto simp: write_step_def)
  moreover obtain d where "b = PDict d"
    using m(1) body_dict(3)[of "se_int S" "la_payload la" b] SENTINEL_DATA_CONNECTOR by (auto simp: sent_body_def)
  moreover obtain p where "connector_projection b = Inr p" using c m(1) SENTINEL_DATA_CONNECTOR by (auto simp: comparable_def)
  ultimately show ?thesis
    using connector_refines[OF srv own[unfolded SENTINEL_DATA_CONNECTOR], of la d p w "se_hash S"] u SENTINEL_DATA_CONNECTOR by (simp add: target_def)
next
  case SENTINEL_WATCHLIST
  then obtain d where m: "la_payload la = PDict d" "m = watchlist_put (se_msg S) (se_py_int S) (se_hash S) A la d"
    using assms(1) by (auto simp: write_step_def)
  then have "\<not> truthy (dget d ''rawContent'')" using c SENTINEL_WATCHLIST by (simp add: comparable_def sub_def)
  then show ?thesis
    using watchlist_refines[OF srv own[unfolded SENTINEL_WATCHLIST], of la d w "se_msg S" "se_py_int S" "se_hash S"] u m unfolding SENTINEL_WATCHLIST
    by (simp add: target_def sent_body_def watch_dict_def)
next
  case SENTINEL_AUTOMATION_RULE
  then obtain b where m: "sent_body S A k la = Inr b" "m = automation_put (se_auto S) (se_hash S) A la b"
    using assms(1) by (auto simp: write_step_def)
  obtain p where p: "automation_projection b = Inr p" using c m(1) SENTINEL_AUTOMATION_RULE by (auto simp: comparable_def)
  from body_dict(4)[OF p] obtain d where "b = PDict d" ..
  then show ?thesis
    using automation_refines[OF srv own[unfolded SENTINEL_AUTOMATION_RULE], of "se_auto S" la d p w "se_hash S"] u m p SENTINEL_AUTOMATION_RULE
    by (simp add: target_def)
next
  case SENTINEL_HUNTING
  then obtain b where m: "sent_body S A k la = Inr b"
      "m = search_put (se_hash S) A k (search_fields k) (env_id (la_envelope la)) b"
    using assms(1) by (auto simp: write_step_def)
  moreover obtain d where "b = PDict d"
    using m(1) body_dict(1)[of "se_int S" "la_payload la" b] SENTINEL_HUNTING by (auto simp: sent_body_def)
  ultimately show ?thesis
    using search_refines[OF srv own, of "env_id (la_envelope la)" w d "se_hash S" la] u SENTINEL_HUNTING by (simp add: target_def)
next
  case SENTINEL_PARSER
  then obtain b where m: "sent_body S A k la = Inr b"
      "m = search_put (se_hash S) A k (search_fields k) (env_id (la_envelope la)) b"
    using assms(1) by (auto simp: write_step_def)
  moreover obtain d where "b = PDict d"
    using m(1) body_dict(2)[of "se_int S" "la_payload la" b] SENTINEL_PARSER by (auto simp: sent_body_def)
  ultimately show ?thesis
    using search_refines[OF srv own, of "env_id (la_envelope la)" w d "se_hash S" la] u SENTINEL_PARSER by (simp add: target_def)
qed (use assms(1) in \<open>simp_all add: write_step_def\<close>)

text \<open>An asset its handler sends: planned, with a body, and a watchlist with content.\<close>

definition deployable :: "sentinel_env \<Rightarrow> 'w arm \<Rightarrow> asset_kind \<Rightarrow> loaded_asset \<Rightarrow> bool" where
  "deployable S A k la \<longleftrightarrow> (\<exists>p. sentinel_plan S k la = Inr p \<and> r_action p \<noteq> SKIP) \<and> (\<exists>b. sent_body S A k la = Inr b) \<and>
     (k = SENTINEL_WATCHLIST \<longrightarrow> truthy (sub (la_payload la) ''rawContent'') \<or> truthy (sub (la_payload la) ''sasUri''))"

lemma deployable_writes:
  assumes "deployable S A k la"
  shows "write_step S A k la (sentinel_apply S (Some A) k la False)"
  using assms
  by (cases k; cases "to_sentinel_body (la_payload la)"; cases "la_payload la")
     (auto simp: deployable_def sentinel_plan_def sent_body_def write_step_def sentinel_apply_def analytic_plan_def
       analytic_apply_def hunting_apply_def parser_apply_def search_apply_def connector_apply_def watchlist_apply_def
       automation_apply_def search_fields_def sub_def own_result_def Let_def split: if_splits)

section \<open>An example workspace\<close>

text \<open>The world is the list of the stored versions, newest first; an etag tells the length below.\<close>

type_synonym log = "(string \<times> pydict) list"

definition demo_etag :: "nat \<Rightarrow> string" where
  "demo_etag n = CHR ''e'' # show_nat n"

fun current :: "log \<Rightarrow> store" where
  "current [] u = None"
| "current ((x, d) # w) u = (if x = u then Some (demo_etag (length w), PDict d) else current w u)"

fun versions :: "log \<Rightarrow> string \<Rightarrow> (string \<times> pyval option) list" where
  "versions [] u = []"
| "versions ((x, d) # w) u = (if x = u then [(demo_etag (length w), Some (PDict d))] else []) @ versions w u"

definition demo_response :: "nat \<Rightarrow> pyval option \<Rightarrow> response" where
  "demo_response n body = \<lparr>status_code = n, retry_after = None, json_body = body, body_text = []\<rparr>"

text \<open>A read shows a version with a timestamp of the server's among the properties.\<close>

fun demo_show :: "string \<Rightarrow> pyval \<Rightarrow> pyval" where
  "demo_show e (PDict d) = PDict (dset ''etag'' (PStr e) (case dget d ''properties'' of
     PDict p \<Rightarrow> dset ''properties'' (PDict (dset ''lastModifiedUtc'' (PStr e) p)) d | _ \<Rightarrow> d))"
| "demo_show e v = v"

definition demo_http :: "request \<Rightarrow> log \<Rightarrow> outcome \<times> log" where
  "demo_http rq w =
    (if rq_method rq = ''GET'' then
       (case current w (rq_url rq) of
          None \<Rightarrow> (Inr (demo_response 404 None), w)
        | Some (e, b) \<Rightarrow> (Inr (demo_response 200 (Some (demo_show e b))), w))
     else if rq_method rq = ''PUT'' then
       (case rq_body rq of
          Some (PDict d) \<Rightarrow>
            (if matches (rq_if_match rq) (current w (rq_url rq))
             then (Inr (demo_response (if current w (rq_url rq) = None then 201 else 200) None), (rq_url rq, d) # w)
             else (Inr (demo_response 412 None), w))
        | _ \<Rightarrow> (Inr (demo_response 400 None), w))
     else (Inr (demo_response 400 None), w))"

definition demo_arm :: "workspace \<Rightarrow> log arm" where
  "demo_arm c = \<lparr>a_http = demo_http, a_header = \<lparr>he_float = \<lambda>_. None, he_date = \<lambda>_. None\<rparr>, a_brackets = \<lambda>_. True, a_config = c\<rparr>"

lemma demo_etag_inj: "demo_etag m = demo_etag n \<longleftrightarrow> m = n"
  unfolding demo_etag_def by (metis digits_val_show_nat list.inject)

lemma versions_below: "e \<in> fst ` set (versions w u) \<Longrightarrow> \<exists>n < length w. e = demo_etag n"
  by (induction w u rule: versions.induct) (auto split: if_splits intro: less_SucI)

lemma versions_distinct: "distinct (map fst (versions w u))"
proof (induction w u rule: versions.induct)
  case (2 x d w u)
  have "demo_etag (length w) \<notin> fst ` set (versions w u)"
    using versions_below[of "demo_etag (length w)" w u] demo_etag_inj by auto
  with 2 show ?case by simp
qed simp

lemma current_versions: "current w u = (case versions w u of [] \<Rightarrow> None | (e, b) # _ \<Rightarrow> Some (e, the b))"
  by (induction w u rule: versions.induct) auto

lemma current_dict: "current w u = Some (e, b) \<Longrightarrow> e \<noteq> [] \<and> (\<exists>d. b = PDict d)"
  by (induction w u rule: current.induct) (auto simp: demo_etag_def split: if_splits)

lemma demo_shows: "current w u = Some (e, b) \<Longrightarrow>
    shows_body [''lastModifiedUtc''] (demo_response 200 (Some (demo_show e b))) e b \<and> shows_etag (demo_response 200 (Some (demo_show e b))) e"
  using current_dict[of w u e b]
  by (auto simp: shows_body_def same_outside_def shows_etag_def demo_response_def dget_def split: pyval.splits)

lemma demo_store: "store_server (demo_arm c) (\<lambda>_. [''lastModifiedUtc'']) current"
proof -
  have "current ((u, d) # w) = (current w)(u \<mapsto> (demo_etag (length w), PDict d))" for u d w
    by (auto simp: fun_eq_iff)
  then show ?thesis
    using current_dict demo_shows
    by (auto simp: store_server_def demo_arm_def demo_http_def demo_response_def split: option.splits if_splits)
       (auto simp: demo_response_def)
qed

lemma versions_hd: "current w u = Some (e, b) \<Longrightarrow> versions w u \<noteq> [] \<and> fst (hd (versions w u)) = e"
  by (auto simp: current_versions split: list.splits)

lemma demo_put_on:
  assumes "matches (Some e) (current w u)"
  shows "versions w u \<noteq> [] \<and> fst (hd (versions w u)) = e"
  using assms versions_hd[of w u] by (auto simp: matches_def)

lemma demo_etags: "etag_server (demo_arm c) versions"
proof -
  have g: "ge_hist versions w w'" if "demo_http rq w = (x, w')" for rq w x w'
    using that
    by (auto simp: demo_http_def ge_hist_def suffix_def split: if_splits option.splits pyval.splits)
  have r: "versions w' (rq_url rq) \<noteq> [] \<and> shows_etag r (fst (hd (versions w' (rq_url rq))))"
    if "demo_http rq w = (Inr r, w')" "rq_method rq = ''GET''" "status_code r = 200" for rq w r w'
    using that versions_hd[of w "rq_url rq"] demo_shows[of w "rq_url rq"]
    by (auto simp: demo_http_def demo_response_def split: option.splits)
  have p: "\<exists>newer e' below. versions w' (rq_url rq) = newer @ (e', rq_body rq) # below \<and>
      suffix (versions w (rq_url rq)) below \<and> below \<noteq> [] \<and> fst (hd below) = e"
    if a: "demo_http rq w = (Inr r, w')" "rq_method rq = ''PUT''" "rq_if_match rq = Some e" "status_code r \<in> {200, 201}"
    for rq w r w' e
  proof -
    obtain d where d: "rq_body rq = Some (PDict d)" "matches (Some e) (current w (rq_url rq))" "w' = (rq_url rq, d) # w"
      using a by (auto simp: demo_http_def demo_response_def split: option.splits pyval.splits if_splits)
    then show ?thesis
      using demo_put_on[OF d(2)]
      by (intro exI[of _ "[]"] exI[of _ "demo_etag (length w)"] exI[of _ "versions w (rq_url rq)"]) simp
  qed
  show ?thesis
    unfolding etag_server_def demo_arm_def using versions_distinct g r p by simp blast
qed

section \<open>Reads that fail, and whole runs\<close>

definition unreadable :: "response \<Rightarrow> bool" where
  "unreadable r \<longleftrightarrow> status_code r \<noteq> 404 \<and> \<not> is_success r"

lemma write_unreadable:
  assumes "write_step S A k la m" and "target S A k la = Inr u" and g: "arm_request A ''GET'' u None None w = (Inr r1, w1)"
    and bad: "unreadable r1"
  shows "if k \<in> {SENTINEL_HUNTING, SENTINEL_PARSER}
    then \<exists>b. sent_body S A k la = Inr b \<and>
      m w = put_and_verify (env_id (la_envelope la)) k put_action (\<lambda>v. Inr (compute_content_hash (se_hash S) v (search_fields k))) b
        (arm_request A ''PUT'' u (Some b) None) (search_readback A u) w1
    else m w = (Inl (Http_error (status_code r1)), w1)"
proof -
  have e: "resource_etag r1 = Inl (Http_error (status_code r1))" and se: "search_etag r1 = Inr None"
    using bad by (auto simp: unreadable_def resource_etag_def search_etag_def is_success_def)
  show ?thesis
  proof (cases k)
    case SENTINEL_ANALYTIC
    then show ?thesis
      using assms(1,2) analytic.steps[of A "(la, _, _)" u "se_hash S"]
      by (auto simp: write_step_def target_def ebind_def g e elift_def)
  next
    case SENTINEL_DATA_CONNECTOR
    then show ?thesis
      using assms(1,2) connector.steps[of A "(la, _)" u "se_hash S"]
      by (auto simp: write_step_def target_def ebind_def g e elift_def)
  next
    case SENTINEL_WATCHLIST
    then show ?thesis
      using assms(1,2) watchlist.steps[of A "(la, _)" u "se_msg S" "se_py_int S" "se_hash S"]
      by (auto simp: write_step_def target_def watch_dict_def ebind_def g e elift_def)
  next
    case SENTINEL_AUTOMATION_RULE
    then show ?thesis
      using assms(1,2) automation.steps[of A "se_auto S" "(la, _)" u "se_hash S"]
      by (auto simp: write_step_def target_def ebind_def g e elift_def)
  next
    case SENTINEL_HUNTING
    then obtain b where "sent_body S A k la = Inr b" "m = search_put (se_hash S) A k (search_fields k) (env_id (la_envelope la)) b"
      using assms(1) by (auto simp: write_step_def)
    then show ?thesis
      using SENTINEL_HUNTING assms(2) search.steps[of A "(k, env_id (la_envelope la), b)" u "se_hash S"]
      by (simp add: target_def) (simp add: ebind_def g se elift_def)
  next
    case SENTINEL_PARSER
    then obtain b where "sent_body S A k la = Inr b" "m = search_put (se_hash S) A k (search_fields k) (env_id (la_envelope la)) b"
      using assms(1) by (auto simp: write_step_def)
    then show ?thesis
      using SENTINEL_PARSER assms(2) search.steps[of A "(k, env_id (la_envelope la), b)" u "se_hash S"]
      by (simp add: target_def) (simp add: ebind_def g se elift_def)
  qed (use assms(1) in \<open>simp_all add: write_step_def\<close>)
qed

lemma ops_invariant:
  assumes "\<And>u v. P v \<Longrightarrow> P (snd (a_http A (get_rq u) v))"
    and "\<And>u b etag v. \<not> dry \<Longrightarrow> target S A k la = Inr u \<Longrightarrow> sent_body S A k la = Inr b \<Longrightarrow> P v \<Longrightarrow>
      P (snd (a_http A (put_rq u b etag) v))"
    and "P w"
  shows "P (snd (h_apply (sentinel_ops S (Some A) k) la dry w))"
proof -
  have "P (snd (sentinel_apply S (Some A) k la dry w))"
    using apply_steps[of S "Some A" k la dry]
  proof
    assume "quiet (sentinel_apply S (Some A) k la dry)"
    then show ?thesis using assms(3) unfolding quiet_def by (metis surjective_pairing)
  next
    assume "\<exists>A'. Some A = Some A' \<and> \<not> dry \<and> write_step S A' k la (sentinel_apply S (Some A) k la dry)"
    then show ?thesis using write_invariant[of S A k la _ P w] assms by blast
  qed
  then show ?thesis by (auto simp: sentinel_ops_def split: prod.splits)
qed

definition demo_sentinel :: sentinel_env where
  "demo_sentinel = \<lparr>se_int = num_of, se_py_int = num_of, se_hash = id, se_msg = \<lambda>_. ''error'',
     se_auto = \<lparr>ae_int = num_of, ae_iso = \<lambda>_. None, ae_strftime = \<lambda>_. [], ae_now = 0, ae_uuid5 = \<lambda>s. ''u-'' @ s\<rparr>,
     se_tenant = None, se_loaded = []\<rparr>"

definition demo_asset :: "asset_kind \<Rightarrow> pyval \<Rightarrow> loaded_asset" where
  "demo_asset k payload = \<lparr>la_path = [''rule.yml''],
     la_envelope = \<lparr>env_id = ''rule'', version = ''1.0.0'', kind = k, env_status = ''production'', env_metadata = None,
       arm_name = None, lifecycleStage = None\<rparr>,
     la_payload = payload, la_raw = PNone\<rparr>"

definition demo_rule :: loaded_asset where
  "demo_rule = demo_asset SENTINEL_ANALYTIC (PDict [(''kind'', PStr ''NRT''), (''displayName'', PStr ''New'')])"

definition demo_url :: string where
  "demo_url = ''/subscriptions/s/resourceGroups/g/providers/Microsoft.OperationalInsights/workspaces/Main'' @
     ''/providers/Microsoft.SecurityInsights/alertRules/rule?api-version=2025-07-01-preview''"

definition demo_place :: workspace where
  "demo_place = plain_workspace\<lparr>subscriptionId := ''s'', resourceGroup := ''g'', workspaceName := ''Main''\<rparr>"

definition demo_old :: log where
  "demo_old = [(demo_url, [(''kind'', PStr ''NRT''), (''properties'', PDict [(''displayName'', PStr ''Old'')])])]"

lemma demo_target: "target demo_sentinel (demo_arm demo_place) SENTINEL_ANALYTIC demo_rule = Inr demo_url"
  by code_simp

lemma demo_runs: "sentinel_apply demo_sentinel (Some (demo_arm demo_place)) SENTINEL_ANALYTIC demo_rule False demo_old =
    (Inr (verified ''rule'' SENTINEL_ANALYTIC UPDATE),
     (demo_url, [(''kind'', PStr ''NRT''), (''properties'', PDict [(''displayName'', PStr ''New'')])]) # demo_old)"
  by code_simp

section \<open>Two races\<close>

text \<open>A gateway that answers 503 to the first PUT although the workspace stored it.\<close>

definition flaky_arm :: "workspace \<Rightarrow> log arm" where
  "flaky_arm c = (demo_arm c)\<lparr>a_http := \<lambda>rq w. case demo_http rq w of
     (x, w') \<Rightarrow> (if length w = 1 \<and> length w' = 2 then Inr (demo_response 503 None) else x, w')\<rparr>"

text \<open>The retry meets the etag of its own write: the rule is live and reported as a conflict.\<close>

lemma committed_put_reported_as_conflict:
  "case sentinel_apply demo_sentinel (Some (flaky_arm demo_place)) SENTINEL_ANALYTIC demo_rule False demo_old of
     (Inr r, w') \<Rightarrow> r_status r = ''error-412'' \<and>
       map_option snd (current w' demo_url) = Some (PDict [(''kind'', PStr ''NRT''), (''properties'', PDict [(''displayName'', PStr ''New'')])])
   | _ \<Rightarrow> False"
  by code_simp

text \<open>Somebody else creates the rule between the first read and the PUT.\<close>

definition racing_arm :: "workspace \<Rightarrow> log arm" where
  "racing_arm c = (demo_arm c)\<lparr>a_http := \<lambda>rq w.
     demo_http rq (if rq_method rq = ''PUT'' \<and> w = [] then demo_old else w)\<rparr>"

lemma create_overwrites_a_concurrent_create:
  "case sentinel_apply demo_sentinel (Some (racing_arm demo_place)) SENTINEL_ANALYTIC demo_rule False [] of
     (Inr r, w') \<Rightarrow> r_status r = ''success'' \<and> r_verified r = Some True \<and> tl w' = demo_old
   | _ \<Rightarrow> False"
  by code_simp

section \<open>Properties\<close>

text \<open>
  C27. What a successful write replaces, for the six kinds with a handler here (a playbook has none and is never a
  success). When \<open>apply\<close> reports success and its first read returned the resource (200), the body it sent lies in
  the resource's history directly on what that read saw, and whatever others wrote came after: no update is lost.
  A first read that failed (neither a success nor 404) is followed by a successful write for hunting queries and
  parsers only. After a 404 nothing protects a concurrent create, \<open>create_overwrites_a_concurrent_create\<close>.
\<close>

theorem sentinel_no_lost_update:
  assumes "etag_server A hist" and "sentinel_apply S (Some A) k la dry w = (Inr r, w')" and "r_status r = ''success''"
  shows "\<exists>u b r1 w1. target S A k la = Inr u \<and> sent_body S A k la = Inr b \<and>
    arm_request A ''GET'' u None None w = (Inr r1, w1) \<and>
    (status_code r1 = 200 \<longrightarrow> (\<exists>newer e. hist w' u = newer @ (e, Some b) # hist w1 u)) \<and>
    (unreadable r1 \<longrightarrow> k \<in> {SENTINEL_HUNTING, SENTINEL_PARSER})"
  using apply_steps[of S "Some A" k la dry]
proof
  assume "quiet (sentinel_apply S (Some A) k la dry)"
  then have "r_status r \<in> {''skipped'', ''dry-run''}" using assms(2) unfolding quiet_def by blast
  then show ?thesis using assms(3) by auto
next
  assume "\<exists>A'. Some A = Some A' \<and> \<not> dry \<and> write_step S A' k la (sentinel_apply S (Some A) k la dry)"
  then have w: "write_step S A k la (sentinel_apply S (Some A) k la dry)" by blast
  from write_no_lost_update[OF this assms] obtain u b r1 w1 where
    s: "target S A k la = Inr u" "sent_body S A k la = Inr b" "arm_request A ''GET'' u None None w = (Inr r1, w1)"
      "status_code r1 = 200 \<longrightarrow> (\<exists>newer e. hist w' u = newer @ (e, Some b) # hist w1 u)" by blast
  have "k \<in> {SENTINEL_HUNTING, SENTINEL_PARSER}" if "unreadable r1"
    using write_unreadable[OF w s(1,3) that] assms(2) by (auto split: if_splits)
  with s show ?thesis by blast
qed

theorem sentinel_no_lost_update_witness:
  "\<exists>u b. target demo_sentinel (demo_arm demo_place) SENTINEL_ANALYTIC demo_rule = Inr u \<and>
    sent_body demo_sentinel (demo_arm demo_place) SENTINEL_ANALYTIC demo_rule = Inr b \<and>
    versions (snd (sentinel_apply demo_sentinel (Some (demo_arm demo_place)) SENTINEL_ANALYTIC demo_rule False demo_old)) u =
      (demo_etag 1, Some b) # versions demo_old u"
proof -
  have "r_status (verified ''rule'' SENTINEL_ANALYTIC UPDATE) = ''success''" by code_simp
  from sentinel_no_lost_update[OF demo_etags demo_runs this] obtain u b where
    "target demo_sentinel (demo_arm demo_place) SENTINEL_ANALYTIC demo_rule = Inr u"
    "sent_body demo_sentinel (demo_arm demo_place) SENTINEL_ANALYTIC demo_rule = Inr b" by blast
  moreover have "sent_body demo_sentinel (demo_arm demo_place) SENTINEL_ANALYTIC demo_rule =
      Inr (PDict [(''kind'', PStr ''NRT''), (''properties'', PDict [(''displayName'', PStr ''New'')])])"
    by code_simp
  ultimately show ?thesis using demo_target by (simp add: demo_runs) (simp add: demo_old_def)
qed

text \<open>
  C28. Deploying refines an update of the abstract workspace, for analytic rules, hunting queries, parsers, data
  connectors, automation rules, and watchlists without inline content. The server stores what it is sent and has no
  other writer, but in a read it may show the properties that the kind leaves to it (\<open>server_owned\<close>) with any
  value, or none. Then the apply of a deployable asset reports a verified success with the right action and maps
  the URL of the asset to its body, and nothing else.
\<close>

theorem sentinel_refines_store:
  assumes "store_server A own res" and "set (own u) \<subseteq> set (server_owned k)"
    and "deployable S A k la" and "target S A k la = Inr u" and "comparable S A k la"
  shows "\<exists>b v e. sent_body S A k la = Inr b \<and> res v = (res w)(u \<mapsto> (e, b)) \<and>
    sentinel_apply S (Some A) k la False w =
      (Inr (verified (env_id (la_envelope la)) k (store_action k la (res w u))), v)"
  using write_refines_store[OF deployable_writes[OF assms(3)] assms(1,2,4,5)] .

theorem sentinel_refines_store_witness:
  "\<exists>b v e. sent_body demo_sentinel (demo_arm demo_place) SENTINEL_ANALYTIC demo_rule = Inr b \<and>
    current v = (current [])(demo_url \<mapsto> (e, b)) \<and>
    sentinel_apply demo_sentinel (Some (demo_arm demo_place)) SENTINEL_ANALYTIC demo_rule False [] =
      (Inr (verified (env_id (la_envelope demo_rule)) SENTINEL_ANALYTIC (store_action SENTINEL_ANALYTIC demo_rule (current [] demo_url))), v)"
proof (rule sentinel_refines_store[OF demo_store _ _ demo_target])
  show "set [''lastModifiedUtc''] \<subseteq> set (server_owned SENTINEL_ANALYTIC)" by code_simp
  have "case sentinel_plan demo_sentinel SENTINEL_ANALYTIC demo_rule of Inr p \<Rightarrow> r_action p = UPDATE | _ \<Rightarrow> False" by code_simp
  moreover have "case sent_body demo_sentinel (demo_arm demo_place) SENTINEL_ANALYTIC demo_rule of Inr b \<Rightarrow> True | _ \<Rightarrow> False"
    by code_simp
  ultimately show "deployable demo_sentinel (demo_arm demo_place) SENTINEL_ANALYTIC demo_rule"
    by (auto simp: deployable_def split: sum.splits)
  show "comparable demo_sentinel (demo_arm demo_place) SENTINEL_ANALYTIC demo_rule" by (simp add: comparable_def)
qed

text \<open>
  C29. A first read that fails (403, or 503 after the retries) ends the apply of an analytic rule, a
  connector, a watchlist or an automation rule before anything is sent. A hunting query or a parser is
  then PUT without an etag, so the version that could not be read is overwritten unseen.
\<close>

theorem unreadable_search_is_overwritten:
  assumes "deployable S A k la" and "target S A k la = Inr u" and "arm_request A ''GET'' u None None w = (Inr r1, w1)"
    and "unreadable r1"
  shows "if k \<in> {SENTINEL_HUNTING, SENTINEL_PARSER}
    then \<exists>b. sent_body S A k la = Inr b \<and> sentinel_apply S (Some A) k la False w =
      put_and_verify (env_id (la_envelope la)) k put_action (\<lambda>v. Inr (compute_content_hash (se_hash S) v (search_fields k))) b
        (arm_request A ''PUT'' u (Some b) None) (search_readback A u) w1
    else sentinel_apply S (Some A) k la False w = (Inl (Http_error (status_code r1)), w1)"
  using write_unreadable[OF deployable_writes[OF assms(1)] assms(2-4)] .

text \<open>A workspace whose saved searches cannot be read, only written.\<close>

definition blind_arm :: "workspace \<Rightarrow> log arm" where
  "blind_arm c = (demo_arm c)\<lparr>a_http := \<lambda>rq w. if rq_method rq = ''GET'' then (Inr (demo_response 403 None), w) else demo_http rq w\<rparr>"

definition demo_hunt :: loaded_asset where
  "demo_hunt = demo_asset SENTINEL_HUNTING (PDict [(''displayName'', PStr ''H''), (''query'', PStr ''T'')])"

theorem unreadable_search_is_overwritten_witness:
  "\<exists>b. sent_body demo_sentinel (blind_arm demo_place) SENTINEL_HUNTING demo_hunt = Inr b \<and>
    sentinel_apply demo_sentinel (Some (blind_arm demo_place)) SENTINEL_HUNTING demo_hunt False [] =
      put_and_verify ''rule'' SENTINEL_HUNTING put_action (\<lambda>v. Inr (compute_content_hash id v (search_fields SENTINEL_HUNTING))) b
        (arm_request (blind_arm demo_place) ''PUT''
          (''/subscriptions/s/resourceGroups/g/providers/Microsoft.OperationalInsights/workspaces/Main/savedSearches/rule'' @
           ''?api-version=2023-09-01'') (Some b) None)
        (search_readback (blind_arm demo_place)
          (''/subscriptions/s/resourceGroups/g/providers/Microsoft.OperationalInsights/workspaces/Main/savedSearches/rule'' @
           ''?api-version=2023-09-01'')) []"
proof -
  let ?u = "''/subscriptions/s/resourceGroups/g/providers/Microsoft.OperationalInsights/workspaces/Main/savedSearches/rule'' @
    ''?api-version=2023-09-01''"
  have "case sentinel_plan demo_sentinel SENTINEL_HUNTING demo_hunt of Inr p \<Rightarrow> r_action p = UPDATE | _ \<Rightarrow> False" by code_simp
  moreover have "case sent_body demo_sentinel (blind_arm demo_place) SENTINEL_HUNTING demo_hunt of Inr b \<Rightarrow> True | _ \<Rightarrow> False"
    by code_simp
  ultimately have d: "deployable demo_sentinel (blind_arm demo_place) SENTINEL_HUNTING demo_hunt"
    by (auto simp: deployable_def split: sum.splits)
  have t: "target demo_sentinel (blind_arm demo_place) SENTINEL_HUNTING demo_hunt = Inr ?u" by code_simp
  have g: "arm_request (blind_arm demo_place) ''GET'' ?u None None [] = (Inr (demo_response 403 None), [])" by code_simp
  have un: "unreadable (demo_response 403 None)" by code_simp
  have i: "env_id (la_envelope demo_hunt) = ''rule''" "se_hash demo_sentinel = id" by code_simp (simp add: demo_sentinel_def)
  from unreadable_search_is_overwritten[OF d t g un] show ?thesis unfolding i by simp
qed

text \<open>
  C30. A run of \<open>apply\<close> with the Sentinel handlers writes nothing but the bodies of authorised assets to their
  own URLs: what every GET preserves, and every PUT of an authorised asset's body to its URL in a run that
  is not dry, holds after the run.
\<close>

theorem apply_puts_are_gated:
  assumes "\<And>ws k. e_ops E ws k = sentinel_ops S (Some (prov ws)) k"
    and "\<And>ws u v. P v \<Longrightarrow> P (snd (a_http (prov ws) (get_rq u) v))"
    and "\<And>la ws res ws' u b etag v. authorised E inp opt la ws res \<Longrightarrow> \<not> a_dry_run opt \<Longrightarrow>
      ws' = (if ws = None then i_pipeline_ws inp else ws) \<Longrightarrow>
      target S (prov ws') (la_kind la) res = Inr u \<Longrightarrow> sent_body S (prov ws') (la_kind la) res = Inr b \<Longrightarrow>
      P v \<Longrightarrow> P (snd (a_http (prov ws') (put_rq u b etag) v))"
    and "P w"
  shows "P (world (f_ctx (apply_cmd E inp opt w d file)))"
proof (rule gated_world)
  fix la ws res v
  assume "authorised E inp opt la ws res" and "P v"
  then show "P (snd (h_apply (e_ops E (if ws = None then i_pipeline_ws inp else ws) (la_kind la)) res (a_dry_run opt) v))"
    unfolding assms(1) using ops_invariant[of P, OF assms(2)] assms(3) by blast
qed (rule assms(4))

definition demo_run :: "log apply_env" where
  "demo_run = \<lparr>e_outcome = Loaded plain_tenant, e_registered = [],
     e_ops = (\<lambda>ws. sentinel_ops demo_sentinel (Some (demo_arm demo_place))),
     e_yload = demo_documents, e_to_int = num_of, e_detections = demo_detections, e_overrides = [],
     e_root = [''overrides''], e_changed = (\<lambda>_. None), e_graph = [], e_hash = demo_hash,
     e_snippet_msg = (\<lambda>_. ''snippet''), e_mode_msg = (\<lambda>_. ''monitor''), e_config_msg = ''config''\<rparr>"

theorem apply_puts_are_gated_witness:
  "list_all (\<lambda>p. is_dict (PDict (snd p)) \<and> fst p = ''/subscriptions/s/resourceGroups/g/providers'' @
      ''/Microsoft.OperationalInsights/workspaces/Main/savedSearches/hunt?api-version=2023-09-01'')
    (world (f_ctx (apply_cmd demo_run demo_inputs (demo_opts None) [] None None)))"
proof (rule apply_puts_are_gated[where S = demo_sentinel and prov = "\<lambda>_. demo_arm demo_place"])
  show "e_ops demo_run ws k = sentinel_ops demo_sentinel (Some (demo_arm demo_place)) k" for ws k by (simp add: demo_run_def)
next
  let ?U = "''/subscriptions/s/resourceGroups/g/providers'' @
      ''/Microsoft.OperationalInsights/workspaces/Main/savedSearches/hunt?api-version=2023-09-01''"
  fix la ws res ws' u b etag and v :: log
  assume a: "authorised demo_run demo_inputs (demo_opts None) la ws res"
    and u: "target demo_sentinel (demo_arm demo_place) (la_kind la) res = Inr u"
    and v: "list_all (\<lambda>p. is_dict (PDict (snd p)) \<and> fst p = ?U) v"
  have all: "\<forall>la \<in> set (fst (iter_loaded_assets (e_yload demo_run) (e_to_int demo_run) (e_detections demo_run))).
      la_kind la = SENTINEL_HUNTING \<and> la_id la = ''hunt'' \<or> la_kind la = SENTINEL_PLAYBOOK"
    by code_simp
  have sel: "select_workspaces plain_tenant None None = Inr [plain_workspace]" by code_simp
  have mode: "mode_in demo_run None (Some ''Main'') SENTINEL_PLAYBOOK = Some Monitor" by code_simp
  have n: "workspaceName plain_workspace = ''Main''" by code_simp
  have "ws = Some ''Main''" using a sel n by (auto simp: authorised_def demo_run_def demo_opts_def)
  then have k: "la_kind la = SENTINEL_HUNTING" "la_id la = ''hunt''"
    using a all mode by (auto simp: authorised_def demo_inputs_def)
  moreover have "la_id res = la_id la" using a by (auto simp: authorised_def)
  moreover have "la_resource_url (demo_arm demo_place) SAVED_SEARCHES (Some ''hunt'') LA_API_VERSION = Inr ?U" by code_simp
  ultimately have "u = ?U" using u by (simp add: target_def la_id_def)
  then show "list_all (\<lambda>p. is_dict (PDict (snd p)) \<and> fst p = ?U) (snd (a_http (demo_arm demo_place) (put_rq u b etag) v))"
    using v by (simp add: demo_arm_def demo_http_def is_dict_def split: pyval.split)
qed (simp_all add: demo_arm_def demo_http_def split: option.split)

end
