(* ===== verification/Analytic_Collect.thy ===== *)
theory Analytic_Collect
  imports Analytic
begin

text \<open>
  The reverse mapping of analytic rules against the forward one: \<open>to_envelope\<close> followed by the body
  \<open>apply\<close> builds, leaf by leaf of the compared projection.
\<close>

section \<open>Collecting and deploying\<close>

text \<open>The property a hashed field names.\<close>

definition leaf_ok :: "string list \<Rightarrow> string \<Rightarrow> bool" where
  "leaf_ok allowed f \<longleftrightarrow> (case split_on CHR ''.'' f of
     [a, x] \<Rightarrow> a = ''properties'' \<and> x \<notin> {''lastModifiedUtc'', ''templateVersion'', ''kind''} \<and> (allowed = [] \<or> x \<in> set allowed)
   | _ \<Rightarrow> False)"

definition allowed_of :: "pyval \<Rightarrow> string list" where
  "allowed_of kd = (if kd = PStr ''Fusion'' then FUSION_BODY_ALLOWLIST
     else if kd = PStr ''MLBehaviorAnalytics'' then MLBA_BODY_ALLOWLIST else [])"

lemma hashed_leaves: "f \<in> set (hashed_fields_for_kind kd b) \<Longrightarrow> leaf_ok (allowed_of kd) f"
proof -
  have "list_all (leaf_ok []) (''properties.alertRuleTemplateName'' # SCHEDULED_HASHED_FIELDS)"
    "list_all (leaf_ok []) NRT_HASHED_FIELDS" "list_all (leaf_ok []) MSI_HASHED_FIELDS" "list_all (leaf_ok []) TEMPLATED_HASHED_FIELDS"
    "list_all (leaf_ok FUSION_BODY_ALLOWLIST) TEMPLATED_HASHED_FIELDS" "list_all (leaf_ok MLBA_BODY_ALLOWLIST) TEMPLATED_HASHED_FIELDS"
    by code_simp+
  then show "f \<in> set (hashed_fields_for_kind kd b) \<Longrightarrow> leaf_ok (allowed_of kd) f"
    by (auto simp: hashed_fields_for_kind_def fields_of_kind_def template_bound_projection_def allowed_of_def
        TEMPLATE_BINDABLE_KINDS_def list_all_iff split: if_splits)
qed

lemma map_of_filter_None: "k \<notin> fst ` set d \<Longrightarrow> map_of (filter P d) k = None"
  by (auto simp: map_of_eq_None_iff)

lemma dget_filter:
  assumes "distinct (map fst d)"
  shows "dget (filter P d) k = (if map_of d k = None \<or> P (k, dget d k) then dget d k else PNone)"
  using assms by (induction d) (auto simp: dget_def map_of_filter_None split: option.splits)

lemma dget_dpop: "dget (dpop k d) x = (if x = k then PNone else dget d x)"
  by (simp add: dget_def)

lemma dget_update: "dget (dset k v d) x = (if x = k then v else dget d x)"
  by (simp add: dget_def)

lemma map_of_filter_key:
  "distinct (map fst d) \<Longrightarrow> (\<And>v. P (k, v)) \<Longrightarrow> map_of (filter P d) k = map_of d k"
  by (induction d) auto

lemma distinct_filter_fst: "distinct (map fst d) \<Longrightarrow> distinct (map fst (filter P d))"
  by (induction d) auto

lemma sanitise_leaf:
  assumes d: "distinct (map fst p)" and x: "x \<noteq> ''templateVersion''"
    and al: "allowed_of (kind_or_scheduled kd) = [] \<or> x \<in> set (allowed_of (kind_or_scheduled kd))"
  shows "dget (sanitise kd p) x = dget p x"
proof -
  define q where "q = (if dangling_template p then dpop ''templateVersion'' p else p)"
  have q: "distinct (map fst q)" "dget q x = dget p x" using d x by (auto simp: q_def dget_dpop)
  have f: "dget (filter (\<lambda>y. fst y \<in> set ks) q) x = dget p x" if "x \<in> set ks" for ks
    using q that by (simp add: dget_filter)
  have "FUSION_BODY_ALLOWLIST \<noteq> []" "MLBA_BODY_ALLOWLIST \<noteq> []"
    by (simp_all add: FUSION_BODY_ALLOWLIST_def MLBA_BODY_ALLOWLIST_def)
  then show ?thesis
    using al q f unfolding sanitise_def Let_def q_def[symmetric] by (simp add: allowed_of_def split: if_splits)
qed

lemma collected_leaf:
  assumes d: "distinct (map fst p)" and x: "x \<notin> {''lastModifiedUtc'', ''templateVersion'', ''kind''}"
    and "dget p ''alertRuleTemplateName'' \<noteq> PStr []"
  shows "dget (dpop ''kind'' (collected_properties kd p)) x = dget p x"
proof -
  have d': "distinct (map fst (dpop ''lastModifiedUtc'' p))" using d by simp
  show ?thesis
    using x assms(3) unfolding collected_properties_def drop_empty_def
    by (cases "x = ''alertRuleTemplateName''") (auto simp: dget_filter[OF d'] dget_dpop dget_update)
qed

lemma distinct_collected: "distinct (map fst p) \<Longrightarrow> distinct (map fst (dpop ''kind'' (collected_properties kd p)))"
  by (simp add: collected_properties_def drop_empty_def distinct_filter_fst)

text \<open>
  C31. Collecting an analytic rule and deploying the file again changes nothing that is compared: the body
  \<open>apply\<close> sends for the collected envelope has the content hash of the rule it was collected from.
\<close>

theorem collected_rule_is_stable:
  assumes env: "analytic_to_envelope remote = Inr (Some env)" and wf: "wf_val (PDict remote)"
    and p: "dget remote ''properties'' = PDict p" and "dget p ''alertRuleTemplateName'' \<noteq> PStr []"
    and en: "map_of p ''enabled'' = None \<or> (\<exists>b. dget p ''enabled'' = PBool b)"
    and body: "to_sentinel_body (dget env ''payload'') = Inr (kd, q)"
  defines "sent \<equiv> analytic_properties (text_of (dget env ''status'')) kd q"
  shows "analytic_hash h (la, kd, sent) (arm_body kd sent) = analytic_hash h (la, kd, sent) (PDict remote)"
proof -
  obtain k where k: "dget env ''payload'' = PDict (collected_properties k p)"
      "text_of (dget env ''status'') =
        (if truthy (dget_default (collected_properties k p) ''enabled'' (PBool True)) then ''production'' else ''deprecated'')"
    using env p
    by (cases "p = []") (auto simp: analytic_to_envelope_def sub_dict_def rbind_Inr_iff dget_def[of "_ # _"] text_of_def
        dget_def[of "[]"] Let_def split: if_splits)
  have d: "distinct (map fst p)" using wf wf_val_dget[of remote "''properties''"] p by simp
  have q: "q = dpop ''kind'' (collected_properties k p)"
    using body k(1) by (auto simp: to_sentinel_body_def split: option.splits)
  have df: "distinct (map fst (drop_empty ks (dpop y p)))" for ks y
    using d by (simp add: drop_empty_def distinct_filter_fst)
  have e: "map_of (collected_properties k p) ''enabled'' = map_of p ''enabled''"
    using d by (simp add: collected_properties_def drop_empty_def map_of_filter_key)
  have "get_path (arm_body kd sent) f = get_path (PDict remote) f"
    if f: "f \<in> set (hashed_fields_for_kind (kind_or_scheduled kd) (truthy (dget sent ''alertRuleTemplateName'')))" for f
  proof -
    obtain x where x: "split_on CHR ''.'' f = [''properties'', x]" "x \<notin> {''lastModifiedUtc'', ''templateVersion'', ''kind''}"
      "allowed_of (kind_or_scheduled kd) = [] \<or> x \<in> set (allowed_of (kind_or_scheduled kd))"
      using hashed_leaves[OF f] by (auto simp: leaf_ok_def split: list.splits)
    have leaf: "dget (sanitise kd q) x = dget p x"
      using x(2,3) d assms(4) unfolding q by (subst sanitise_leaf) (simp_all add: distinct_collected collected_leaf)
    have "dget p ''enabled'' = PBool False" if "text_of (dget env ''status'') = ''deprecated''"
      using that k(2) e en by (auto simp: dget_default_def dget_def split: option.splits if_splits)
    then have "dget sent x = dget p x"
      using leaf by (auto simp: sent_def analytic_properties_def Let_def dget_update)
    then show ?thesis using x(1) p by (simp add: get_path_def arm_body_def dget_def[of "[_, _]"])
  qed
  then show ?thesis
    by (simp add: analytic_hash_def compute_content_hash_def project_fields_def cong: map_cong)
qed

definition demo_rule :: pydict where
  "demo_rule = [(''name'', PStr ''r1''), (''etag'', PStr ''e''), (''kind'', PStr ''Fusion''),
     (''properties'', PDict [(''displayName'', PStr ''Fusion''), (''alertRuleTemplateName'', PStr ''t1''),
        (''enabled'', PBool False), (''lastModifiedUtc'', PStr ''now'')])]"

lemma demo_collected:
  "analytic_to_envelope demo_rule = Inr (Some
     [(''id'', PStr ''fusion''), (''version'', PStr COLLECT_BASELINE_VERSION), (''asset'', PStr (asset_value SENTINEL_ANALYTIC)),
      (''status'', PStr ''deprecated''), (''metadata'', PDict [(''arm_name'', PStr ''r1'')]),
      (''payload'', PDict [(''displayName'', PStr ''Fusion''), (''alertRuleTemplateName'', PStr ''t1''),
         (''enabled'', PBool False), (''kind'', PStr ''Fusion'')])])"
  by code_simp

theorem collected_rule_is_stable_witness:
  "\<forall>la. analytic_hash id (la, PStr ''Fusion'', analytic_properties ''deprecated'' (PStr ''Fusion'')
        [(''displayName'', PStr ''Fusion''), (''alertRuleTemplateName'', PStr ''t1''), (''enabled'', PBool False)])
      (arm_body (PStr ''Fusion'') (analytic_properties ''deprecated'' (PStr ''Fusion'')
        [(''displayName'', PStr ''Fusion''), (''alertRuleTemplateName'', PStr ''t1''), (''enabled'', PBool False)])) =
   analytic_hash id (la, PStr ''Fusion'', analytic_properties ''deprecated'' (PStr ''Fusion'')
        [(''displayName'', PStr ''Fusion''), (''alertRuleTemplateName'', PStr ''t1''), (''enabled'', PBool False)]) (PDict demo_rule)" (is "\<forall>la. ?P la")
proof
  fix la
  have p: "dget demo_rule ''properties'' = PDict [(''displayName'', PStr ''Fusion''), (''alertRuleTemplateName'', PStr ''t1''),
        (''enabled'', PBool False), (''lastModifiedUtc'', PStr ''now'')]"
    by (simp add: demo_rule_def dget_def)
  then show "?P la"
    using collected_rule_is_stable[OF demo_collected _ p, of "PStr ''Fusion''" _ id la]
    by (simp add: demo_rule_def dget_def to_sentinel_body_def dpop_def text_of_def ex_bool_eq)
qed

end
