(* ===== verification/Defender.thy ===== *)
theory Defender
  imports Analytic
begin

text \<open>
  Defender custom detections: the Graph client \<open>contentops/defender/client.py\<close>, the index and the
  matching of \<open>contentops/defender/deploy.py\<close>, \<open>contentops/defender/rule_status.py\<close> and the handler
  \<open>contentops/handlers/defender_custom_detection.py\<close>. The handler keeps the index of a run, so its
  operations act on that state and on the world. Names are compared as the values they are; the sleeps
  between the reads of the verification are left out.
\<close>

section \<open>The Graph client\<close>

record 'w graph =
  g_http :: "request \<Rightarrow> 'w \<Rightarrow> outcome \<times> 'w"
  g_header :: header_env
  g_brackets :: "string \<Rightarrow> bool"

definition BASE_URL :: string where
  "BASE_URL = ''https://graph.microsoft.com/beta/security/rules''"

definition graph_call :: "'w graph \<Rightarrow> policy \<Rightarrow> request \<Rightarrow> 'w \<Rightarrow> (call_error + response) \<times> 'w" where
  "graph_call G pol rq w = (case request_with_retry (g_header G) pol 3 (g_http G rq) w of (res, _, w') \<Rightarrow> (res, w'))"

definition plain_request :: "string \<Rightarrow> string \<Rightarrow> pyval option \<Rightarrow> request" where
  "plain_request meth url body = \<lparr>rq_method = meth, rq_url = url, rq_body = body, rq_if_match = None\<rparr>"

definition graph_request :: "'w graph \<Rightarrow> bool \<Rightarrow> string \<Rightarrow> string \<Rightarrow> pyval option \<Rightarrow> ('w, response) eff" where
  "graph_request G idempotent meth url body w =
    (case graph_call G (if idempotent then RETRYABLE else NON_IDEMPOTENT) (plain_request meth url body) w of
       (Inl e, w') \<Rightarrow> (Inl (Call_failed e), w') | (Inr r, w') \<Rightarrow> (Inr r, w'))"

definition list_rules :: "'w graph \<Rightarrow> ('w, pyval list) eff" where
  "list_rules G w =
    (case paginate (g_brackets G) (\<lambda>u. graph_call G RETRYABLE (plain_request ''GET'' u None)) ''/detectionRules''
       ''@odata.nextLink'' MAX_PAGES (Some BASE_URL) w of
       (Inl e, w') \<Rightarrow> (Inl (Listing e), w') | (Inr xs, w') \<Rightarrow> (Inr xs, w'))"

definition rule_path :: "string \<Rightarrow> py_exc + string" where
  "rule_path graph_id = (case safe_path_segment graph_id of
     None \<Rightarrow> Inl Unsafe_segment | Some s \<Rightarrow> Inr (''/detectionRules/'' @ s))"

definition get_rule :: "'w graph \<Rightarrow> string \<Rightarrow> ('w, pyval) eff" where
  "get_rule G graph_id =
    ebind (elift (rule_path graph_id)) (\<lambda>p.
    ebind (graph_request G True ''GET'' p None) (\<lambda>r.
      if status_code r = 404 then eret PNone
      else if \<not> is_success r then elift (Inl (Http_error (status_code r)))
      else elift (read_json r)))"

definition create_rule :: "'w graph \<Rightarrow> pyval \<Rightarrow> ('w, response) eff" where
  "create_rule G body = graph_request G False ''POST'' ''/detectionRules'' (Some body)"

definition update_rule :: "'w graph \<Rightarrow> string \<Rightarrow> pyval \<Rightarrow> ('w, response) eff" where
  "update_rule G graph_id body =
    ebind (elift (rule_path graph_id)) (\<lambda>p. graph_request G True ''PATCH'' p (Some body))"

definition delete_rule :: "'w graph \<Rightarrow> string \<Rightarrow> ('w, response) eff" where
  "delete_rule G graph_id =
    ebind (elift (rule_path graph_id)) (\<lambda>p. graph_request G True ''DELETE'' p None)"

section \<open>The enabled state\<close>

definition DEFENDER_RULE_STATUSES :: "string list" where
  "DEFENDER_RULE_STATUSES = [''enabled'', ''disabled'', ''autoDisabled'']"

definition AUTO_DISABLED :: string where "AUTO_DISABLED = ''autoDisabled''"

definition rule_status :: "pydict \<Rightarrow> string" where
  "rule_status rule = (case dget rule ''status'' of
     PStr s \<Rightarrow> if s \<in> set DEFENDER_RULE_STATUSES then s
              else if dget_default rule ''isEnabled'' (PBool True) \<noteq> PBool False then ''enabled'' else ''disabled''
   | _ \<Rightarrow> if dget_default rule ''isEnabled'' (PBool True) \<noteq> PBool False then ''enabled'' else ''disabled'')"

definition is_enabled :: "pydict \<Rightarrow> bool" where
  "is_enabled rule \<longleftrightarrow> rule_status rule = ''enabled''"

definition to_wire_body :: "pydict \<Rightarrow> bool \<Rightarrow> pydict" where
  "to_wire_body payload deprecated =
    (let body = dpop ''isEnabled'' payload; st = rule_status payload in
     if deprecated then dset ''status'' (PStr ''disabled'') body
     else if st = AUTO_DISABLED then dpop ''status'' body
     else dset ''status'' (PStr st) body)"

definition status_hashed_fields :: "string list \<Rightarrow> pydict \<Rightarrow> string list" where
  "status_hashed_fields base body = (if truthy (dget body ''description'') then base @ [''description''] else base)"

definition to_defender_body :: "pyval \<Rightarrow> bool \<Rightarrow> py_exc + pydict" where
  "to_defender_body payload deprecated = (case payload of
     PDict d \<Rightarrow> Inr (to_wire_body d deprecated) | _ \<Rightarrow> Inl Type_error)"

section \<open>The index of a run\<close>

type_synonym name_map = "(pyval \<times> string) list"

record defender_state =
  ds_names :: "name_map option"
  ds_ids :: "string list"

definition hashable :: "pyval \<Rightarrow> bool" where
  "hashable v \<longleftrightarrow> (case v of PDict _ \<Rightarrow> False | PList _ \<Rightarrow> False | _ \<Rightarrow> True)"

definition rule_name :: "pydict \<Rightarrow> pyval" where
  "rule_name rule = dget_default rule ''displayName'' (PStr [])"

definition rule_id :: "pydict \<Rightarrow> string" where
  "rule_id rule = py_str (dget_default rule ''id'' (PStr []))"

fun index_rules :: "pyval list \<Rightarrow> name_map \<Rightarrow> string list \<Rightarrow> pyval list \<Rightarrow> py_exc + name_map \<times> string list \<times> pyval list" where
  "index_rules [] m ids dups = Inr (m, ids, dups)"
| "index_rules (PDict rule # rules) m ids dups =
    (let ids = (if rule_id rule = [] then ids else rule_id rule # ids); name = rule_name rule in
     if \<not> hashable name then Inl Type_error
     else if map_of m name \<noteq> None then index_rules rules m ids (dups @ [name])
     else index_rules rules (m @ [(name, rule_id rule)]) ids dups)"
| "index_rules (_ # rules) m ids dups = Inl Type_error"

definition build_rule_index :: "'w graph \<Rightarrow> ('w, name_map \<times> string list) eff" where
  "build_rule_index G =
    ebind (list_rules G) (\<lambda>rules.
    ebind (elift (index_rules rules [] [] [])) (\<lambda>(m, ids, dups).
      if dups \<noteq> [] then elift (Inl (Click_error ''Duplicate displayNames found in Defender API'')) else eret (m, ids)))"

definition build_display_name_map :: "'w graph \<Rightarrow> ('w, name_map) eff" where
  "build_display_name_map G = ebind (build_rule_index G) (\<lambda>i. eret (fst i))"

definition resolve_graph_id :: "pyval \<Rightarrow> name_map \<Rightarrow> string option \<Rightarrow> string list \<Rightarrow> py_exc + string option" where
  "resolve_graph_id name m arm ids =
    (case arm of
       Some (c # a) \<Rightarrow>
         if c # a \<in> set ids then Inr (Some (c # a))
         else if hashable name then Inr (case map_of m name of Some (g # gs) \<Rightarrow> Some (g # gs) | _ \<Rightarrow> None) else Inl Type_error
     | _ \<Rightarrow> if hashable name then Inr (case map_of m name of Some (g # gs) \<Rightarrow> Some (g # gs) | _ \<Rightarrow> None) else Inl Type_error)"

text \<open>The index is a cell that \<open>record_graph_id\<close> changes in place, also when it raises at the end.\<close>

definition names_of :: "defender_state \<Rightarrow> name_map" where
  "names_of s = (case ds_names s of None \<Rightarrow> [] | Some m \<Rightarrow> m)"

definition record_graph_id :: "pyval \<Rightarrow> string \<Rightarrow> defender_state \<Rightarrow> (py_exc + unit) \<times> defender_state" where
  "record_graph_id name graph_id s =
    (let kept = filter (\<lambda>(n, g). \<not> (g = graph_id \<and> n \<noteq> name)) (names_of s) in
     if hashable name then (Inr (), s\<lparr>ds_names := Some (dset name graph_id kept), ds_ids := graph_id # ds_ids s\<rparr>)
     else (Inl Type_error, s\<lparr>ds_names := Some kept\<rparr>))"

definition on_world :: "('w, 'a) eff \<Rightarrow> (defender_state \<times> 'w, 'a) eff" where
  "on_world m sw = (case m (snd sw) of (r, w') \<Rightarrow> (r, (fst sw, w')))"

definition on_index :: "(defender_state \<Rightarrow> (py_exc + 'a) \<times> defender_state) \<Rightarrow> (defender_state \<times> 'w, 'a) eff" where
  "on_index f sw = (case f (fst sw) of (r, s') \<Rightarrow> (r, (s', snd sw)))"

definition resolved :: "pyval \<Rightarrow> string option \<Rightarrow> (defender_state \<times> 'w, string option) eff" where
  "resolved name arm sw = (resolve_graph_id name (names_of (fst sw)) arm (ds_ids (fst sw)), sw)"

text \<open>The id of a created rule, empty when the reply has none.\<close>

definition created_id :: "response \<Rightarrow> py_exc + string" where
  "created_id r = (case json_body r of
     None \<Rightarrow> Inr []
   | Some v \<Rightarrow> (if \<not> truthy v then Inr [] else case v of
       PDict d \<Rightarrow> Inr (if truthy (dget d ''id'') then py_str (dget d ''id'') else [])
     | _ \<Rightarrow> Inl Type_error))"

definition record_if :: "pyval \<Rightarrow> string \<Rightarrow> (defender_state \<times> 'w, unit) eff" where
  "record_if name graph_id = (if graph_id = [] then eret () else on_index (record_graph_id name graph_id))"

text \<open>\<open>deploy_defender_rule\<close>: the action and the result.\<close>

definition deploy_defender_rule ::
  "'w graph option \<Rightarrow> pyval \<Rightarrow> string \<Rightarrow> bool \<Rightarrow> string option \<Rightarrow> (defender_state \<times> 'w, string \<times> string) eff" where
  "deploy_defender_rule prov payload st dry_run arm =
    ebind (elift (to_defender_body payload (st = ''deprecated''))) (\<lambda>body.
    ebind (resolved (rule_name body) arm) (\<lambda>gid.
      if dry_run then eret (if gid = None then ''create'' else ''update'', ''dry-run'')
      else case prov of
        None \<Rightarrow> elift (Inl Type_error)
      | Some G \<Rightarrow> (case gid of
          Some g \<Rightarrow>
            ebind (on_world (update_rule G g (PDict body))) (\<lambda>r.
              if status_code r = 200
              then ebind (on_index (record_graph_id (rule_name body) g)) (\<lambda>_.
                eret (if st = ''deprecated'' then ''disabled'' else ''updated'', ''success''))
              else eret (''update'', ''error-'' @ show_nat (status_code r)))
        | None \<Rightarrow>
            ebind (on_world (create_rule G (PDict body))) (\<lambda>r.
              if status_code r = 201
              then ebind (elift (created_id r)) (\<lambda>g. ebind (record_if (rule_name body) g) (\<lambda>_.
                eret (''created'', ''success'')))
              else eret (''create'', ''error-'' @ show_nat (status_code r))))))"

section \<open>The handler\<close>

definition DEFENDER_SERVER_FIELDS :: "string list" where
  "DEFENDER_SERVER_FIELDS = [''id'', ''createdDateTime'', ''lastModifiedDateTime'', ''createdBy'', ''lastModifiedBy'',
     ''lastExecutionDateTime'', ''detectorId'', ''lastRunDetails'']"

definition DEFENDER_SERVER_NESTED :: "(string \<times> string list) list" where
  "DEFENDER_SERVER_NESTED = [(''queryCondition'', [''lastModifiedDateTime'']), (''schedule'', [''nextRunDateTime''])]"

definition DEFENDER_HASHED_FIELDS :: "string list" where
  "DEFENDER_HASHED_FIELDS = [''displayName'', ''queryCondition.queryText'', ''schedule'', ''actions'',
     ''detectionAction.alertTemplate.severity'', ''detectionAction.alertTemplate.title'',
     ''detectionAction.alertTemplate.category'']"

definition strip_nested :: "string \<times> string list \<Rightarrow> pydict \<Rightarrow> pydict" where
  "strip_nested pn d = (case map_of d (fst pn) of
     Some (PDict block) \<Rightarrow> dset (fst pn) (PDict (without (snd pn) block)) d | _ \<Rightarrow> d)"

definition strip_defender :: "pydict \<Rightarrow> pydict" where
  "strip_defender remote = fold strip_nested DEFENDER_SERVER_NESTED (without DEFENDER_SERVER_FIELDS remote)"

definition VERIFY_ATTEMPTS :: nat where "VERIFY_ATTEMPTS = 6"

definition defender_hash :: "(string \<Rightarrow> string) \<Rightarrow> string list \<Rightarrow> pyval \<Rightarrow> py_exc + string" where
  "defender_hash h fs v = (case v of
     PDict d \<Rightarrow> Inr (compute_content_hash h (PDict (strip_defender d)) fs) | _ \<Rightarrow> Inl Type_error)"

text \<open>The index of the run, built by the first apply; a dry run goes on without one.\<close>

definition name_map_or_build :: "'w graph option \<Rightarrow> bool \<Rightarrow> (defender_state \<times> 'w, unit) eff" where
  "name_map_or_build prov dry_run sw = (case sw of (s, w) \<Rightarrow>
     (case ds_names s of
        Some m \<Rightarrow> (Inr (), sw)
      | None \<Rightarrow> (case prov of
          None \<Rightarrow> if dry_run then (Inr (), (s\<lparr>ds_names := Some []\<rparr>, w)) else (Inl No_provider, sw)
        | Some G \<Rightarrow> (case build_rule_index G w of
            (Inr (m, ids), w') \<Rightarrow> (Inr (), (\<lparr>ds_names = Some m, ds_ids = ids\<rparr>, w'))
          | (Inl e, w') \<Rightarrow> if dry_run then (Inr (), (s\<lparr>ds_names := Some []\<rparr>, w')) else (Inl e, (s, w'))))))"

definition defender_validate :: "(pyval \<Rightarrow> int option) \<Rightarrow> loaded_asset \<Rightarrow> py_exc option" where
  "defender_validate ti la = (if validate_defender_payload ti (la_payload la) then None else Some (Payload_error ''payload''))"

definition defender_plan :: "loaded_asset \<Rightarrow> action_result" where
  "defender_plan la =
    (let i = env_id (la_envelope la); st = env_status (la_envelope la) in
     if st = ''experimental'' then own_result i DEFENDER_CUSTOM_DETECTION SKIP ''planned'' ''experimental status - skipped''
     else own_result i DEFENDER_CUSTOM_DETECTION (if st = ''deprecated'' then DISABLE else UPDATE) ''planned'' [])"

definition unchanged_rule :: "(string \<Rightarrow> string) \<Rightarrow> string list \<Rightarrow> pydict \<Rightarrow> string \<Rightarrow> pyval \<Rightarrow> py_exc + bool" where
  "unchanged_rule h fs body sent existing =
    (if existing = PNone then Inr False
     else rbind (defender_hash h fs existing) (\<lambda>got. Inr (got = sent \<and>
       (map_of body ''status'' = None \<or>
        (case existing of PDict e \<Rightarrow> PStr (rule_status e) = dget body ''status'' | _ \<Rightarrow> False)))))"

text \<open>Up to \<open>n\<close> reads: the text of a failed read, or the prev reply with its hash.\<close>

fun verify_loop ::
  "(py_exc \<Rightarrow> string) \<Rightarrow> ('w, pyval) eff \<Rightarrow> (pyval \<Rightarrow> py_exc + string) \<Rightarrow> string \<Rightarrow> nat \<Rightarrow> pyval \<times> string \<Rightarrow>
   ('w, string + pyval \<times> string) eff" where
  "verify_loop msg read proj sent 0 prev = eret (Inr prev)"
| "verify_loop msg read proj sent (Suc n) prev =
    (\<lambda>w. case read w of
       (Inl e, w') \<Rightarrow> (Inr (Inl (msg e)), w')
     | (Inr v, w') \<Rightarrow>
         if v = PNone then verify_loop msg read proj sent n (PNone, snd prev) w'
         else ebind (elift (proj v)) (\<lambda>got.
           if got = sent then eret (Inr (v, got)) else verify_loop msg read proj sent n (v, got)) w')"

definition verify_rule ::
  "(py_exc \<Rightarrow> string) \<Rightarrow> (string \<Rightarrow> string) \<Rightarrow> 'w graph \<Rightarrow> string \<Rightarrow> plan_action \<Rightarrow> string list \<Rightarrow> string \<Rightarrow> string \<Rightarrow> ('w, action_result) eff" where
  "verify_rule msg h G i act fs sent graph_id =
    ebind (if graph_id = [] then eret (Inr (PNone, []))
           else verify_loop msg (get_rule G graph_id) (defender_hash h fs) sent VERIFY_ATTEMPTS (PNone, [])) (\<lambda>v.
      case v of
        Inl e \<Rightarrow> (let err = ''post-apply GET failed: '' @ e in eret (unverified i DEFENDER_CUSTOM_DETECTION act err err))
      | Inr (remote, got) \<Rightarrow>
          if remote = PNone then eret (unverified i DEFENDER_CUSTOM_DETECTION act gone_404 gone_404)
          else if got \<noteq> sent
          then let err = hash_mismatch_error sent got in eret (unverified i DEFENDER_CUSTOM_DETECTION act err err)
          else eret (verified i DEFENDER_CUSTOM_DETECTION act))"

definition write_failed :: "string \<Rightarrow> plan_action \<Rightarrow> response \<Rightarrow> action_result" where
  "write_failed i act r =
    (let body = take 200 (body_text r) in
     (own_result i DEFENDER_CUSTOM_DETECTION act (''error-'' @ show_nat (status_code r)) body)
       \<lparr>r_verified := Some False, r_error := Some body\<rparr>)"

definition defender_put ::
  "(py_exc \<Rightarrow> string) \<Rightarrow> (string \<Rightarrow> string) \<Rightarrow> 'w graph \<Rightarrow> loaded_asset \<Rightarrow> pydict \<Rightarrow> (defender_state \<times> 'w, action_result) eff" where
  "defender_put msg h G la body =
    (let i = env_id (la_envelope la); name = rule_name body;
         fs = status_hashed_fields DEFENDER_HASHED_FIELDS body;
         sent = compute_content_hash h (PDict body) fs in
     ebind (resolved name (envelope.arm_name (la_envelope la))) (\<lambda>gid. case gid of
       Some g \<Rightarrow>
         ebind (on_world (get_rule G g)) (\<lambda>existing.
         ebind (elift (unchanged_rule h fs body sent existing)) (\<lambda>same.
           if same
           then eret ((own_result i DEFENDER_CUSTOM_DETECTION NOOP ''success'' ''unchanged; update skipped'')\<lparr>r_verified := Some True\<rparr>)
           else ebind (on_world (update_rule G g (PDict body))) (\<lambda>r.
             if status_code r \<noteq> 200 then eret (write_failed i UPDATE r)
             else ebind (on_index (record_graph_id name g)) (\<lambda>_.
               on_world (verify_rule msg h G i
                 (if env_status (la_envelope la) = ''deprecated'' then DISABLE else UPDATE) fs sent g)))))
     | None \<Rightarrow>
         ebind (on_world (create_rule G (PDict body))) (\<lambda>r.
           if status_code r \<noteq> 201 then eret (write_failed i CREATE r)
           else ebind (elift (created_id r)) (\<lambda>g.
             ebind (record_if name g) (\<lambda>_. on_world (verify_rule msg h G i CREATE fs sent g))))))"

definition action_of :: "string \<Rightarrow> plan_action" where
  "action_of a = (if a \<in> {''create'', ''created''} then CREATE else if a = ''disabled'' then DISABLE
     else if a = ''skipped'' then SKIP else UPDATE)"

definition defender_apply ::
  "(py_exc \<Rightarrow> string) \<Rightarrow> (string \<Rightarrow> string) \<Rightarrow> 'w graph option \<Rightarrow> loaded_asset \<Rightarrow> bool \<Rightarrow> (defender_state \<times> 'w, action_result) eff" where
  "defender_apply msg h prov la dry_run =
    (let i = env_id (la_envelope la); st = env_status (la_envelope la) in
     if st = ''experimental'' then eret (own_result i DEFENDER_CUSTOM_DETECTION SKIP ''skipped'' ''experimental'')
     else ebind (name_map_or_build prov dry_run) (\<lambda>_.
       if dry_run
       then ebind (deploy_defender_rule None (la_payload la) st True (envelope.arm_name (la_envelope la))) (\<lambda>r.
         eret (own_result i DEFENDER_CUSTOM_DETECTION (action_of (fst r)) (snd r) []))
       else case prov of
         None \<Rightarrow> elift (Inl No_provider)
       | Some G \<Rightarrow> ebind (elift (to_defender_body (la_payload la) (st = ''deprecated''))) (defender_put msg h G la)))"

definition defender_delete ::
  "(py_exc \<Rightarrow> string) \<Rightarrow> 'w graph option \<Rightarrow> string \<Rightarrow> 'w \<Rightarrow> (py_exc + action_result) \<times> 'w" where
  "defender_delete msg prov remote_id w = (case prov of
     None \<Rightarrow> (Inl Not_supported, w)
   | Some G \<Rightarrow> (case delete_by msg remote_id DEFENDER_CUSTOM_DETECTION (delete_rule G remote_id) w of (r, w') \<Rightarrow> (Inr r, w')))"

definition defender_list :: "'w graph option \<Rightarrow> ('w, pyval list) eff" where
  "defender_list prov = (case prov of None \<Rightarrow> eret [] | Some G \<Rightarrow> list_rules G)"

definition defender_to_envelope :: "pydict \<Rightarrow> py_exc + pydict option" where
  "defender_to_envelope remote =
    (let name = dget remote ''displayName'' in
     if \<not> truthy name then Inr None
     else
       (let payload = strip_defender remote;
            st = rule_status remote;
            payload = (if map_of payload ''status'' \<noteq> None then dpop ''isEnabled'' payload else payload);
            graph_id = (if truthy (dget remote ''id'') then py_str (dget remote ''id'') else [])
        in rbind (slug_of name (PStr graph_id)) (\<lambda>i.
           if i = [] then Inr None
           else Inr (Some
             [(''id'', PStr i), (''version'', PStr COLLECT_BASELINE_VERSION),
              (''asset'', PStr (asset_value DEFENDER_CUSTOM_DETECTION)),
              (''status'', PStr (if st = ''disabled'' then ''deprecated'' else ''production'')),
              (''metadata'', PDict (if graph_id = [] then [] else [(''arm_name'', PStr graph_id)])),
              (''payload'', PDict payload)]))))"

section \<open>The tenant\<close>

text \<open>
  A tenant nobody else writes to. Reads change nothing. A POST answered with 201 has made a rule under a new id,
  which the reply tells, and a PATCH answered with 200 has given the rule of that id its name. A request that was
  not processed (429, or no connection) has written nothing. Any other answer, a 5xx or a lost reply, leaves it
  open: the write may have been done or not. \<open>rules\<close> gives the display name of each rule, \<open>known\<close> holds the ids
  that were recorded before.
\<close>

definition answered :: "outcome \<Rightarrow> nat \<Rightarrow> response \<Rightarrow> bool" where
  "answered x st r \<longleftrightarrow> x = Inr r \<and> status_code r = st"

definition graph_server :: "'w graph \<Rightarrow> ('w \<Rightarrow> string \<Rightarrow> pyval option) \<Rightarrow> string set \<Rightarrow> bool" where
  "graph_server G rules known \<longleftrightarrow> (\<forall>rq w x w'. g_http G rq w = (x, w') \<longrightarrow>
     rules w [] = None \<and>
     (rq_method rq = ''GET'' \<longrightarrow> rules w' = rules w) \<and>
     (\<forall>b. rq_method rq = ''POST'' \<and> rq_body rq = Some (PDict b) \<longrightarrow>
        ((\<nexists>r. answered x 201 r) \<and> rules w' = rules w) \<or>
        (\<not> never_processed x \<and> (\<exists>g. g \<noteq> [] \<and> g \<notin> known \<and> rules w g = None \<and> rules w' = (rules w)(g \<mapsto> rule_name b) \<and>
           (\<forall>r. answered x 201 r \<longrightarrow> (\<exists>d. json_body r = Some (PDict d) \<and> dget d ''id'' = PStr g))))) \<and>
     (\<forall>b g. rq_method rq = ''PATCH'' \<and> rq_body rq = Some (PDict b) \<and> rule_path g = Inr (rq_url rq) \<longrightarrow>
        ((\<nexists>r. answered x 200 r) \<and> rules w' = rules w) \<or>
        (\<not> never_processed x \<and> rules w g \<noteq> None \<and> rules w' = (rules w)(g \<mapsto> rule_name b))))"

definition lists_all :: "'w graph \<Rightarrow> ('w \<Rightarrow> string \<Rightarrow> pyval option) \<Rightarrow> bool" where
  "lists_all G rules \<longleftrightarrow> (\<forall>w items w' g n. list_rules G w = (Inr items, w') \<longrightarrow> rules w g = Some n \<longrightarrow>
     (\<exists>d. PDict d \<in> set items \<and> rule_id d = g \<and> rule_name d = n))"

text \<open>
  No two rules share a name, and the index names every rule of the tenant but those of the names \<open>F\<close>, whose
  writes were not confirmed.
\<close>

definition one_name_each :: "(string \<Rightarrow> pyval option) \<Rightarrow> bool" where
  "one_name_each R \<longleftrightarrow> (\<forall>g g' n. R g = Some n \<and> R g' = Some n \<longrightarrow> g = g')"

definition index_ok :: "defender_state \<Rightarrow> (string \<Rightarrow> pyval option) \<Rightarrow> pyval set \<Rightarrow> bool" where
  "index_ok s R F \<longleftrightarrow> (case ds_names s of None \<Rightarrow> True
   | Some m \<Rightarrow> distinct (map fst m) \<and> one_name_each R \<and> (\<forall>g n. R g = Some n \<and> n \<notin> F \<longrightarrow> map_of m n = Some g))"

definition asset_name :: "loaded_asset \<Rightarrow> pyval" where
  "asset_name la = (case la_payload la of PDict d \<Rightarrow> rule_name d | _ \<Rightarrow> PStr [])"

subsection \<open>Requests\<close>

lemma request_loop_single:
  assumes "\<And>w x w'. Q w \<Longrightarrow> send w = (x, w') \<Longrightarrow> retryable pol x \<Longrightarrow> Q w'"
    and "Q w" and "request_loop H pol m send k ws w = (res, ws', w')"
  shows "\<exists>w1 x. send w1 = (x, w') \<and> Q w1 \<and> (res = result_of x \<or> res = Inl Bad_sleep \<and> retryable pol x)"
  using assms(2,3)
proof (induction "m - k" arbitrary: k ws w rule: less_induct)
  case less
  obtain x w1 where x: "send w = (x, w1)" by fastforce
  show ?case
  proof (cases "\<not> retryable pol x \<or> m \<le> k \<or> sleep_of H x (Suc k) = Nan")
    case True
    then show ?thesis using less.prems x by (auto simp: request_loop_step[of send, OF x] split: if_splits)
  next
    case False
    then have "m - Suc k < m - k" "request_loop H pol m send (Suc k) (ws @ [sleep_of H x (Suc k)]) w1 = (res, ws', w')"
      using less.prems(2) by (auto simp: request_loop_step[of send, OF x])
    from less.hyps[OF this(1) _ this(2)] show ?thesis using assms(1)[OF less.prems(1) x] False by blast
  qed
qed

lemma graph_call_single:
  assumes "\<And>w x w'. Q w \<Longrightarrow> g_http G rq w = (x, w') \<Longrightarrow> retryable pol x \<Longrightarrow> Q w'" and "Q w" and "graph_call G pol rq w = (res, w')"
  shows "\<exists>w1 x. g_http G rq w1 = (x, w') \<and> Q w1 \<and> (res = result_of x \<or> res = Inl Bad_sleep \<and> retryable pol x)"
  using assms(3) request_loop_single[of Q "g_http G rq" pol w "g_header G" 3 0 "[]", OF assms(1,2)]
  by (auto simp: graph_call_def request_with_retry_def split: prod.splits)

lemma server_reads: "graph_server G rules K \<Longrightarrow> g_http G rq w = (x, w') \<Longrightarrow> rq_method rq = ''GET'' \<Longrightarrow> rules w' = rules w"
  unfolding graph_server_def by blast

lemma server_ids: "graph_server G rules K \<Longrightarrow> rules w [] = None"
  unfolding graph_server_def by (metis surj_pair)

lemma server_posts:
  "graph_server G rules K \<Longrightarrow> g_http G rq w = (x, w') \<Longrightarrow> rq_method rq = ''POST'' \<Longrightarrow> rq_body rq = Some (PDict b) \<Longrightarrow>
   ((\<nexists>r. answered x 201 r) \<and> rules w' = rules w) \<or>
   (\<not> never_processed x \<and> (\<exists>g. g \<noteq> [] \<and> g \<notin> K \<and> rules w g = None \<and> rules w' = (rules w)(g \<mapsto> rule_name b) \<and>
      (\<forall>r. answered x 201 r \<longrightarrow> (\<exists>d. json_body r = Some (PDict d) \<and> dget d ''id'' = PStr g))))"
  unfolding graph_server_def by blast

lemma server_patches:
  "graph_server G rules K \<Longrightarrow> g_http G rq w = (x, w') \<Longrightarrow> rq_method rq = ''PATCH'' \<Longrightarrow> rq_body rq = Some (PDict b) \<Longrightarrow>
   rule_path g = Inr (rq_url rq) \<Longrightarrow>
   ((\<nexists>r. answered x 200 r) \<and> rules w' = rules w) \<or> (rules w g \<noteq> None \<and> rules w' = (rules w)(g \<mapsto> rule_name b))"
  unfolding graph_server_def by blast

lemma plain_request_simps [simp]:
  "rq_method (plain_request m u b) = m" "rq_url (plain_request m u b) = u" "rq_body (plain_request m u b) = b"
  by (simp_all add: plain_request_def)

lemma get_keeps:
  assumes "graph_server G rules K" and "graph_call G pol (plain_request ''GET'' u b) w = (r, w')"
  shows "rules w' = rules w"
proof -
  have g: "rules v' = rules v" if "g_http G (plain_request ''GET'' u b) v = (x, v')" for v x v'
    by (rule server_reads[OF assms(1) that]) simp
  have "\<exists>w1 x. g_http G (plain_request ''GET'' u b) w1 = (x, w') \<and> rules w1 = rules w \<and>
      (r = result_of x \<or> r = Inl Bad_sleep \<and> retryable pol x)"
    by (rule graph_call_single[OF _ _ assms(2)]) (use g in auto)
  then show ?thesis using g by auto
qed

lemma graph_request_single:
  assumes step: "\<And>v x v'. Q v \<Longrightarrow> g_http G (plain_request meth u b) v = (x, v') \<Longrightarrow>
      retryable (if idem then RETRYABLE else NON_IDEMPOTENT) x \<Longrightarrow> Q v'"
    and "Q w" and "graph_request G idem meth u b w = (res, w')"
  shows "\<exists>w1 x. g_http G (plain_request meth u b) w1 = (x, w') \<and> Q w1 \<and> (\<forall>r. res = Inr r \<longrightarrow> x = Inr r) \<and>
    (\<forall>r. x = Inr r \<and> status_code r \<in> {200, 201} \<longrightarrow> res = Inr r)"
proof -
  let ?pol = "if idem then RETRYABLE else NON_IDEMPOTENT"
  obtain q where q: "graph_call G ?pol (plain_request meth u b) w = (q, w')"
      "res = (case q of Inl e \<Rightarrow> Inl (Call_failed e) | Inr r \<Rightarrow> Inr r)"
    using assms(3) by (auto simp: graph_request_def split: prod.splits sum.splits)
  have "\<exists>w1 x. g_http G (plain_request meth u b) w1 = (x, w') \<and> Q w1 \<and> (q = result_of x \<or> q = Inl Bad_sleep \<and> retryable ?pol x)"
    by (rule graph_call_single[where Q = Q, OF _ assms(2) q(1)]) (rule step)
  then obtain w1 x where w1: "g_http G (plain_request meth u b) w1 = (x, w')" "Q w1"
      "q = result_of x \<or> q = Inl Bad_sleep \<and> retryable ?pol x" by blast
  have "x = Inr r" if "res = Inr r" for r
    using w1(3) q(2) that by (auto simp: result_of_def split: sum.splits)
  moreover have "res = Inr r" if "x = Inr r" "status_code r \<in> {200, 201}" for r
  proof -
    have "\<not> retryable ?pol x" using that by (auto simp: retryable_def RETRYABLE_def NON_IDEMPOTENT_def)
    then show ?thesis using w1(3) q(2) that(1) by (auto simp: result_of_def)
  qed
  ultimately show ?thesis using w1(1,2) by blast
qed

text \<open>A create makes one rule at most, whatever its answer; an update writes the one name, once or more often.\<close>

lemma create_step:
  assumes G: "graph_server G rules K" and "create_rule G (PDict b) w = (res, w')"
  shows "(\<forall>r. res = Inr r \<longrightarrow> status_code r \<noteq> 201) \<and> rules w' = rules w \<or>
    (\<exists>g. g \<noteq> [] \<and> g \<notin> K \<and> rules w g = None \<and> rules w' = (rules w)(g \<mapsto> rule_name b) \<and>
       (\<forall>r. res = Inr r \<and> status_code r = 201 \<longrightarrow> (\<exists>d. json_body r = Some (PDict d) \<and> dget d ''id'' = PStr g)))"
proof -
  let ?rq = "plain_request ''POST'' ''/detectionRules'' (Some (PDict b))"
  have server: "((\<nexists>r. answered x 201 r) \<and> rules v' = rules v) \<or>
      (\<not> never_processed x \<and> (\<exists>g. g \<noteq> [] \<and> g \<notin> K \<and> rules v g = None \<and> rules v' = (rules v)(g \<mapsto> rule_name b) \<and>
         (\<forall>r. answered x 201 r \<longrightarrow> (\<exists>d. json_body r = Some (PDict d) \<and> dget d ''id'' = PStr g))))"
    if "g_http G ?rq v = (x, v')" for v x v'
    using server_posts[OF G that, of b] by simp
  have keep: "rules v' = rules w" if "rules v = rules w" "g_http G ?rq v = (x, v')" "retryable (if False then RETRYABLE else NON_IDEMPOTENT) x"
    for v x v'
    using server[OF that(2)] retryable_never_processed[of x] that(1,3) by auto
  have "\<exists>w1 x. g_http G ?rq w1 = (x, w') \<and> rules w1 = rules w \<and> (\<forall>r. res = Inr r \<longrightarrow> x = Inr r) \<and>
      (\<forall>r. x = Inr r \<and> status_code r \<in> {200, 201} \<longrightarrow> res = Inr r)"
  proof (rule graph_request_single[where Q = "\<lambda>v. rules v = rules w", OF _ HOL.refl assms(2)[unfolded create_rule_def]])
    fix v x v' assume "rules v = rules w" "g_http G ?rq v = (x, v')" "retryable (if False then RETRYABLE else NON_IDEMPOTENT) x"
    then show "rules v' = rules w" by (rule keep)
  qed
  then obtain w1 x where x: "g_http G ?rq w1 = (x, w')" "rules w1 = rules w" "\<And>r. res = Inr r \<Longrightarrow> x = Inr r" by blast
  show ?thesis using server[OF x(1)] x(3) unfolding x(2) answered_def by blast
qed

lemma update_step:
  assumes G: "graph_server G rules K" and "update_rule G g (PDict b) w = (res, w')"
  shows "(\<forall>r. res = Inr r \<longrightarrow> status_code r \<noteq> 200) \<and> rules w' = rules w \<or>
    rules w g \<noteq> None \<and> rules w' = (rules w)(g \<mapsto> rule_name b)"
proof (cases "rule_path g")
  case (Inl e)
  then show ?thesis using assms(2) by (auto simp: update_rule_def elift_eq)
next
  case (Inr p)
  let ?rq = "plain_request ''PATCH'' p (Some (PDict b))"
  let ?Q = "\<lambda>v. rules v = rules w \<or> rules w g \<noteq> None \<and> rules v = (rules w)(g \<mapsto> rule_name b)"
  have server: "((\<nexists>r. answered x 200 r) \<and> rules v' = rules v) \<or> (rules v g \<noteq> None \<and> rules v' = (rules v)(g \<mapsto> rule_name b))"
    if "g_http G ?rq v = (x, v')" for v x v'
    using server_patches[OF G that, of b g] Inr by simp
  have keep: "?Q v'" if "?Q v" "g_http G ?rq v = (x, v')" for v x v'
    using server[OF that(2)] that(1) by auto
  have req: "graph_request G True ''PATCH'' p (Some (PDict b)) w = (res, w')"
    using assms(2) Inr by (simp add: update_rule_def)
  have "\<exists>w1 x. g_http G ?rq w1 = (x, w') \<and> ?Q w1 \<and> (\<forall>r. res = Inr r \<longrightarrow> x = Inr r) \<and>
      (\<forall>r. x = Inr r \<and> status_code r \<in> {200, 201} \<longrightarrow> res = Inr r)"
  proof (rule graph_request_single[where Q = ?Q, OF _ disjI1[OF HOL.refl] req])
    fix v x v' assume "?Q v" "g_http G ?rq v = (x, v')"
    then show "?Q v'" by (rule keep)
  qed
  then obtain w1 x where x: "g_http G ?rq w1 = (x, w')" "?Q w1" "\<And>r. res = Inr r \<Longrightarrow> x = Inr r" by blast
  show ?thesis using server[OF x(1)] x(2,3) unfolding answered_def by auto
qed

subsection \<open>Reads\<close>

lemma graph_get_keeps: "graph_server G rules K \<Longrightarrow> graph_request G b ''GET'' u body w = (r, w') \<Longrightarrow> rules w' = rules w"
  by (auto simp: graph_request_def dest: get_keeps split: prod.splits sum.splits)

lemma get_rule_keeps: "graph_server G rules K \<Longrightarrow> get_rule G g w = (r, w') \<Longrightarrow> rules w' = rules w"
  by (auto simp: get_rule_def ebind_def elift_def eret_def dest: graph_get_keeps split: prod.splits sum.splits if_splits)

lemma paginate_loop_keeps:
  assumes "\<And>u w. R (snd (fetch u w)) = R w"
  shows "paginate_loop br allowed fetch key m visited xs0 url w = (x, w') \<Longrightarrow> R w' = R w"
proof (induction "m - length visited" arbitrary: visited xs0 url w rule: less_induct)
  case less
  from less.prems show ?case
  proof (cases rule: paginate_loop_cases)
    case (page u r v xs nxt)
    have "m - length (u # visited) < m - length visited" using page(4) by simp
    from less.hyps[OF this page(7)] show ?thesis using assms[of u w] page(5) by simp
  qed (use assms in auto)
qed

lemma list_rules_keeps:
  assumes G: "graph_server G rules K" and l: "list_rules G w = (r, w')"
  shows "rules w' = rules w"
proof -
  have f: "rules (snd (graph_call G RETRYABLE (plain_request ''GET'' u None) v)) = rules v" for u v
    using get_keeps[OF G, of RETRYABLE u None v] by (metis prod.collapse)
  obtain x where p: "paginate (g_brackets G) (\<lambda>u. graph_call G RETRYABLE (plain_request ''GET'' u None)) ''/detectionRules''
       ''@odata.nextLink'' MAX_PAGES (Some BASE_URL) w = (x, w')"
    using l by (auto simp: list_rules_def split: prod.splits sum.splits)
  then show ?thesis
    using paginate_loop_keeps[of rules, OF f] by (auto simp: paginate_def split: option.splits)
qed

lemma verify_loop_keeps:
  assumes "\<And>w r w'. read w = (r, w') \<Longrightarrow> R w' = R w"
  shows "verify_loop msg read proj sent n prev w = (r, w') \<Longrightarrow> R w' = R w"
  by (induction n arbitrary: prev w)
     (auto simp: eret_def elift_def ebind_def split: prod.splits sum.splits if_splits dest: assms)

lemma verify_rule_keeps:
  assumes "graph_server G rules K" and "verify_rule msg h G i act fs sent g w = (r, w')"
  shows "rules w' = rules w"
proof -
  have l: "verify_loop msg (get_rule G g) proj sent n prev w = (r, w') \<Longrightarrow> rules w' = rules w" for proj n prev w r w'
    using verify_loop_keeps[of "get_rule G g" rules] get_rule_keeps[OF assms(1)] by metis
  show ?thesis
    using assms(2) unfolding verify_rule_def ebind_def
    by (auto simp: eret_def Let_def split: prod.splits sum.splits if_splits dest: l)
qed

subsection \<open>The index\<close>

lemma index_rules_dups: "index_rules xs m ids dups = Inr (m', ids', []) \<Longrightarrow> dups = []"
  by (induction xs m ids dups rule: index_rules.induct) (auto simp: Let_def split: if_splits)

lemma index_rules_ok:
  "index_rules xs m ids dups = Inr (m', ids', []) \<Longrightarrow> distinct (map fst m) \<Longrightarrow>
   distinct (map fst m') \<and> (\<forall>k v. map_of m k = Some v \<longrightarrow> map_of m' k = Some v) \<and>
   (\<forall>d. PDict d \<in> set xs \<longrightarrow> map_of m' (rule_name d) = Some (rule_id d))"
proof (induction xs m ids dups rule: index_rules.induct)
  case (2 rule rules m ids dups)
  have n: "map_of m (rule_name rule) = None"
    using "2.prems"(1) index_rules_dups by (force simp: Let_def split: if_splits)
  then have "rule_name rule \<notin> fst ` set m" by (simp add: map_of_eq_None_iff)
  then show ?case
    using "2.IH"(2)[OF HOL.refl HOL.refl] "2.prems" n by (auto simp: Let_def map_add_Some_iff split: if_splits)
qed auto

lemma build_rule_index_ok:
  assumes G: "graph_server G rules K" "lists_all G rules" and b: "build_rule_index G w = (Inr (m, ids), w')"
  shows "index_ok \<lparr>ds_names = Some m, ds_ids = ids\<rparr> (rules w') F" "rules w' = rules w"
proof -
  obtain items where i: "list_rules G w = (Inr items, w')" "index_rules items [] [] [] = Inr (m, ids, [])"
    using b unfolding build_rule_index_def
    by (auto elim!: ebind_Inr_E simp: elift_eq eret_eq split: if_splits)
  show k: "rules w' = rules w" by (rule list_rules_keeps[OF G(1) i(1)])
  have named: "map_of m n = Some g" if r: "rules w' g = Some n" for g n
  proof -
    obtain d where "PDict d \<in> set items" "rule_id d = g" "rule_name d = n"
      using G(2) i(1) r[unfolded k] unfolding lists_all_def by blast
    then show ?thesis using index_rules_ok[OF i(2)] by auto
  qed
  moreover have "one_name_each (rules w')" using named unfolding one_name_each_def by (metis option.inject)
  ultimately show "index_ok \<lparr>ds_names = Some m, ds_ids = ids\<rparr> (rules w') F"
    using index_rules_ok[OF i(2)] by (simp add: index_ok_def)
qed

lemma index_distinct:
  "index_ok s R F \<Longrightarrow> ds_names s = Some m \<Longrightarrow> R g = Some n \<Longrightarrow> n \<notin> F \<Longrightarrow> map_of m n = Some g"
  by (simp add: index_ok_def)

lemma index_mono: "index_ok s R F \<Longrightarrow> F \<subseteq> F' \<Longrightarrow> index_ok s R F'"
  unfolding index_ok_def by (cases "ds_names s") (simp, simp only: option.case, blast)

lemma one_name_upd: "one_name_each R \<Longrightarrow> \<forall>g'. R g' = Some n \<longrightarrow> g' = g \<Longrightarrow> one_name_each (R(g \<mapsto> n))"
  unfolding one_name_each_def by (metis fun_upd_apply option.inject)

text \<open>A write that was done but not confirmed, and one that was recorded.\<close>

lemma index_unconfirmed:
  assumes "index_ok s R F" "ds_names s = Some m" and "\<forall>g'. R g' = Some n \<longrightarrow> g' = g"
  shows "index_ok s (R(g \<mapsto> n)) (insert n F)"
  using assms one_name_upd[OF _ assms(3)] by (auto simp: index_ok_def)

lemma record_graph_id_ok:
  assumes s: "index_ok s R F" "ds_names s = Some m" and n: "hashable n" and free: "\<forall>g'. R g' = Some n \<longrightarrow> g' = g"
    and r: "record_graph_id n g s = (r, s')"
  shows "r = Inr ()" "index_ok s' (R(g \<mapsto> n)) (insert n F)" "ds_names s' \<noteq> None"
proof -
  define kept where "kept = filter (\<lambda>(k, x). \<not> (x = g \<and> k \<noteq> n)) m"
  have s': "s' = s\<lparr>ds_names := Some (dset n g kept), ds_ids := g # ds_ids s\<rparr>" and "r = Inr ()"
    using r n s(2) by (auto simp: record_graph_id_def names_of_def kept_def)
  have d: "distinct (map fst m)" "one_name_each R" using s by (simp_all add: index_ok_def)
  then have dk: "distinct (map fst kept)" unfolding kept_def by (induction m) auto
  have "map_of kept n2 = Some g2" if "R g2 = Some n2" "g2 \<noteq> g" "n2 \<notin> F" for g2 n2
    using that index_distinct[OF s, of g2 n2] d dk by (auto simp: kept_def)
  then show "index_ok s' (R(g \<mapsto> n)) (insert n F)"
    using free dk one_name_upd[OF d(2) free] by (auto simp: index_ok_def s')
  show "r = Inr ()" "ds_names s' \<noteq> None" using \<open>r = Inr ()\<close> s' by auto
qed

subsection \<open>One apply\<close>

lemma rule_name_wire: "rule_name (to_wire_body d b) = rule_name d"
  by (simp add: rule_name_def to_wire_body_def Let_def dget_default_def)

lemma on_world_eq: "on_world m sw = (r, sw') \<longleftrightarrow> m (snd sw) = (r, snd sw') \<and> fst sw' = fst sw"
  by (cases sw') (auto simp: on_world_def split: prod.splits)

lemma resolve_cases:
  assumes "resolve_graph_id n m arm ids = Inr q"
  obtains (arm) g where "arm = Some g" "g \<in> set ids" "q = Some g"
  | (named) g where "map_of m n = Some g" "q = Some g"
  | (unnamed) "q = None" "map_of m n = None \<or> map_of m n = Some []"
  using assms by (auto simp: resolve_graph_id_def split: option.splits list.splits if_splits)

text \<open>What an apply does to the tenant and to the index.\<close>

definition step_ok ::
  "defender_state \<Rightarrow> (string \<Rightarrow> pyval option) \<Rightarrow> pyval set \<Rightarrow> pyval \<Rightarrow> string set \<Rightarrow> defender_state \<Rightarrow> (string \<Rightarrow> pyval option) \<Rightarrow> bool" where
  "step_ok s R F n K s' R' \<longleftrightarrow> index_ok s' R' (insert n F) \<and> (ds_names s' = None \<longrightarrow> ds_names s = None \<and> R' = R) \<and>
     (R' = R \<or> (\<exists>g. R' = R(g \<mapsto> n) \<and> (R g = None \<longrightarrow> g \<notin> K)))"

lemma step_refl: "index_ok s R F \<Longrightarrow> step_ok s R F n K s R"
  using index_mono[of s R F "insert n F"] by (auto simp: step_ok_def)

lemma step_unconfirmed:
  assumes "index_ok s R F" "ds_names s = Some m" "\<forall>g'. R g' = Some n \<longrightarrow> g' = g" "R g = None \<longrightarrow> g \<notin> K"
  shows "step_ok s R F n K s (R(g \<mapsto> n))"
  using index_unconfirmed[OF assms(1-3)] assms(2,4) by (auto simp: step_ok_def)

lemma step_recorded:
  assumes "index_ok s R F" "ds_names s = Some m" "hashable n" "\<forall>g'. R g' = Some n \<longrightarrow> g' = g" "R g = None \<longrightarrow> g \<notin> K"
    and "record_graph_id n g s = (r, s')"
  shows "r = Inr ()" "step_ok s R F n K s' (R(g \<mapsto> n))"
  using record_graph_id_ok[OF assms(1-4,6)] assms(5) by (auto simp: step_ok_def)

lemma defender_put_step:
  assumes G: "graph_server G rules K" and s: "index_ok s (rules w) F" "ds_names s = Some m"
    and n: "hashable (rule_name b)" "rule_name b \<notin> F"
    and free: "\<And>g g'. envelope.arm_name (la_envelope la) = Some g \<Longrightarrow> rules w g \<noteq> None \<Longrightarrow> rules w g' = Some (rule_name b) \<Longrightarrow> g' = g"
    and p: "defender_put msg h G la b (s, w) = (res, (s', w'))"
  shows "step_ok s (rules w) F (rule_name b) K s' (rules w')"
proof -
  let ?n = "rule_name b" and ?arm = "envelope.arm_name (la_envelope la)"
  define fs where "fs = status_hashed_fields DEFENDER_HASHED_FIELDS b"
  define sent where "sent = compute_content_hash h (PDict b) fs"
  note put = p[unfolded defender_put_def Let_def fs_def[symmetric], folded sent_def]
  have keep: "step_ok s (rules w) F ?n K s' (rules w')" if "rules w' = rules w" "s' = s" using that s step_refl by metis
  show ?thesis
  proof (cases "resolve_graph_id ?n m ?arm (ds_ids s)")
    case (Inl e)
    then show ?thesis using put s keep by (simp add: ebind_def resolved_def names_of_def)
  next
    case (Inr q)
    show ?thesis
    proof (cases q)
      case None
      have none: "map_of m ?n = None \<or> map_of m ?n = Some []" using Inr None by (cases rule: resolve_cases) auto
      obtain r w1 where c: "create_rule G (PDict b) w = (r, w1)" by fastforce
      have fresh: "rules w g' \<noteq> Some ?n" for g'
        using index_distinct[OF s _ n(2), of g'] none server_ids[OF G, of w] by (metis option.distinct(1) option.inject)
      have lost: "s' = s \<and> w' = w1" if "\<forall>x. r = Inr x \<longrightarrow> status_code x \<noteq> 201"
        using put Inr None s c that by (auto simp: ebind_def resolved_def names_of_def on_world_def eret_def split: sum.splits)
      from create_step[OF G c] show ?thesis
      proof (elim disjE exE conjE)
        assume "\<forall>x. r = Inr x \<longrightarrow> status_code x \<noteq> 201" "rules w1 = rules w"
        then show ?thesis using lost keep by simp
      next
        fix g
        assume g: "g \<noteq> []" "g \<notin> K" "rules w g = None" "rules w1 = (rules w)(g \<mapsto> ?n)"
          "\<forall>x. r = Inr x \<and> status_code x = 201 \<longrightarrow> (\<exists>d. json_body x = Some (PDict d) \<and> dget d ''id'' = PStr g)"
        show ?thesis
        proof (cases "\<exists>x. r = Inr x \<and> status_code x = 201")
          case False
          then show ?thesis using lost step_unconfirmed[OF s, of ?n g K] fresh g(2,4) by auto
        next
          case True
          then obtain x d where x: "r = Inr x" "status_code x = 201" "json_body x = Some (PDict d)" "dget d ''id'' = PStr g"
            using g(5) by blast
          have id: "created_id x = Inr g" using x(3,4) g(1) by (cases "d = []") (auto simp: created_id_def dget_def py_str_def)
          obtain u s1 where rec: "record_graph_id ?n g s = (u, s1)" by fastforce
          have ok: "u = Inr ()" "step_ok s (rules w) F ?n K s1 ((rules w)(g \<mapsto> ?n))"
            using step_recorded[OF s n(1) _ _ rec] fresh g(2) by blast+
          obtain v w2 where v: "verify_rule msg h G (env_id (la_envelope la)) CREATE fs sent g w1 = (v, w2)" by fastforce
          have "s' = s1" "w' = w2"
            using put Inr None s c x(1,2) g(1) id rec ok(1) v
            by (auto simp: ebind_def resolved_def names_of_def on_world_def elift_def record_if_def on_index_def split: sum.splits)
          then show ?thesis using ok(2) g(4) verify_rule_keeps[OF G v] by simp
        qed
      qed
    next
      case (Some g)
      have unique: "\<forall>g'. rules w g' = Some ?n \<longrightarrow> g' = g" if "rules w g \<noteq> None"
        using Inr[unfolded Some]
      proof (cases rule: resolve_cases)
        case (arm g0)
        then show ?thesis using free that by auto
      next
        case (named g0)
        then show ?thesis using index_distinct[OF s _ n(2)] by fastforce
      qed auto
      obtain e w1 where e: "get_rule G g w = (e, w1)" by fastforce
      have k1: "rules w1 = rules w" by (rule get_rule_keeps[OF G e])
      show ?thesis
      proof (cases "\<exists>v. e = Inr v \<and> unchanged_rule h fs b sent v = Inr False")
        case False
        then have "s' = s" "w' = w1"
          using put Inr Some s e by (auto simp: ebind_def resolved_def names_of_def on_world_def elift_def eret_def split: sum.splits if_splits)
        then show ?thesis using keep k1 by simp
      next
        case True
        then obtain v where v: "e = Inr v" "unchanged_rule h fs b sent v = Inr False" by blast
        obtain r w2 where u: "update_rule G g (PDict b) w1 = (r, w2)" by fastforce
        have lost: "s' = s \<and> w' = w2" if "\<forall>x. r = Inr x \<longrightarrow> status_code x \<noteq> 200"
          using put Inr Some s e v u that
          by (auto simp: ebind_def resolved_def names_of_def on_world_def elift_def eret_def split: sum.splits)
        from update_step[OF G u] show ?thesis
        proof (elim disjE exE conjE)
          assume "\<forall>x. r = Inr x \<longrightarrow> status_code x \<noteq> 200" "rules w2 = rules w1"
          then show ?thesis using lost keep k1 by simp
        next
          assume x: "rules w1 g \<noteq> None" "rules w2 = (rules w1)(g \<mapsto> ?n)"
          show ?thesis
          proof (cases "\<exists>x. r = Inr x \<and> status_code x = 200")
            case False
            then show ?thesis using lost step_unconfirmed[OF s, of ?n g K] unique x k1 by auto
          next
            case True
            then obtain a where a: "r = Inr a" "status_code a = 200" by blast
            obtain y s1 where rec: "record_graph_id ?n g s = (y, s1)" by fastforce
            have ok: "y = Inr ()" "step_ok s (rules w) F ?n K s1 ((rules w)(g \<mapsto> ?n))"
              using step_recorded[OF s n(1) _ _ rec] unique x(1) k1 by auto
            obtain q w3 where q: "verify_rule msg h G (env_id (la_envelope la))
                (if env_status (la_envelope la) = ''deprecated'' then DISABLE else UPDATE) fs sent g w2 = (q, w3)" by fastforce
            have "s' = s1" "w' = w3"
              using put Inr Some s e v u a rec ok(1) q
              by (auto simp: ebind_def resolved_def names_of_def on_world_def elift_def on_index_def split: sum.splits)
            then show ?thesis using ok(2) x(2) k1 verify_rule_keeps[OF G q] by simp
          qed
        qed
      qed
    qed
  qed
qed

lemma build_rule_index_keeps: "graph_server G rules K \<Longrightarrow> build_rule_index G w = (r, w') \<Longrightarrow> rules w' = rules w"
  by (auto simp: build_rule_index_def ebind_def elift_def eret_def dest: list_rules_keeps split: prod.splits sum.splits if_splits)

lemma name_map_step:
  assumes G: "graph_server G rules K" "lists_all G rules" and s: "index_ok s (rules w) F"
    and b: "name_map_or_build (Some G) False (s, w) = (r, (s', w'))"
  shows "rules w' = rules w" "index_ok s' (rules w') F" "r = Inr () \<Longrightarrow> ds_names s' \<noteq> None" "ds_names s' = None \<Longrightarrow> ds_names s = None"
  using b s build_rule_index_ok(1)[where F = F, OF G, of w] build_rule_index_keeps[OF G(1), of w]
  by (auto simp: name_map_or_build_def split: option.splits prod.splits sum.splits)

lemma defender_apply_step:
  assumes G: "graph_server G rules K" "lists_all G rules" and s: "index_ok s (rules w) F"
    and n: "hashable (asset_name la)" "asset_name la \<notin> F"
    and free: "\<And>g g'. envelope.arm_name (la_envelope la) = Some g \<Longrightarrow> rules w g \<noteq> None \<Longrightarrow> rules w g' = Some (asset_name la) \<Longrightarrow> g' = g"
    and p: "defender_apply msg h (Some G) la False (s, w) = (res, (s', w'))"
  shows "step_ok s (rules w) F (asset_name la) K s' (rules w')"
proof (cases "env_status (la_envelope la) = ''experimental''")
  case True
  then show ?thesis using p step_refl[OF s] by (simp add: defender_apply_def eret_eq)
next
  case False
  obtain r s1 w1 where b: "name_map_or_build (Some G) False (s, w) = (r, (s1, w1))" by (metis surj_pair)
  note nm = name_map_step[OF G s b]
  have keep: "step_ok s (rules w) F (asset_name la) K s1 (rules w1)"
    using nm(1,4) index_mono[OF nm(2), of "insert (asset_name la) F"] by (auto simp: step_ok_def)
  show ?thesis
  proof (cases "r = Inr () \<and> (\<exists>b. to_defender_body (la_payload la) (env_status (la_envelope la) = ''deprecated'') = Inr b)")
    case no: False
    then have "s' = s1 \<and> w' = w1"
      using p False b by (cases r) (auto simp: defender_apply_def Let_def ebind_def elift_def split: sum.splits)
    then show ?thesis using keep by simp
  next
    case True
    then obtain b where body: "to_defender_body (la_payload la) (env_status (la_envelope la) = ''deprecated'') = Inr b" by blast
    then have name: "rule_name b = asset_name la"
      by (auto simp: to_defender_body_def asset_name_def rule_name_wire split: pyval.splits)
    obtain m where m: "ds_names s1 = Some m" using nm(3) True by blast
    have put: "defender_put msg h G la b (s1, w1) = (res, (s', w'))"
      using p False \<open>name_map_or_build _ _ _ = _\<close> True body by (simp add: defender_apply_def Let_def ebind_def elift_def)
    show ?thesis
      using defender_put_step[OF G(1) nm(2) m _ _ _ put] n free nm(1) name m by (auto simp: step_ok_def)
  qed
qed

section \<open>A deployment of Defender rules\<close>

fun defender_run ::
  "(py_exc \<Rightarrow> string) \<Rightarrow> (string \<Rightarrow> string) \<Rightarrow> 'w graph \<Rightarrow> loaded_asset list \<Rightarrow> defender_state \<times> 'w \<Rightarrow> defender_state \<times> 'w" where
  "defender_run msg h G [] sw = sw"
| "defender_run msg h G (la # las) sw = defender_run msg h G las (snd (defender_apply msg h (Some G) la False sw))"

text \<open>A fresh handler has no index.\<close>

definition no_index :: defender_state where
  "no_index = \<lparr>ds_names = None, ds_ids = []\<rparr>"

lemma run_invariant:
  assumes G: "graph_server G rules K" "lists_all G rules"
    and s: "index_ok s (rules w) P" "ds_names s = None \<longrightarrow> rules w = R"
    and old: "\<And>g n. rules w g = Some n \<Longrightarrow> R g = Some n \<or> n \<in> P" "\<And>g. g \<in> K \<Longrightarrow> rules w g \<noteq> None \<Longrightarrow> R g \<noteq> None"
    and las: "distinct (map asset_name las)" "\<forall>la \<in> set las. hashable (asset_name la)" "asset_name ` set las \<inter> P = {}"
    and free: "\<forall>la \<in> set las. \<forall>g. envelope.arm_name (la_envelope la) = Some g \<longrightarrow>
      g \<in> K \<and> (R g \<noteq> None \<longrightarrow> (\<forall>g'. R g' = Some (asset_name la) \<longrightarrow> g' = g))"
    and run: "defender_run msg h G las (s, w) = (s', w')"
  shows "(\<exists>F. index_ok s' (rules w') F) \<and> (ds_names s' = None \<longrightarrow> rules w' = R)"
  using s old las free run
proof (induction las arbitrary: s w P)
  case (Cons la las)
  obtain res s1 w1 where a: "defender_apply msg h (Some G) la False (s, w) = (res, (s1, w1))" by (metis surj_pair)
  have la: "hashable (asset_name la)" "asset_name la \<notin> P" "asset_name la \<notin> asset_name ` set las" using Cons.prems(5-7) by auto
  have "g' = g" if "envelope.arm_name (la_envelope la) = Some g" "rules w g \<noteq> None" "rules w g' = Some (asset_name la)" for g g'
  proof -
    have "g \<in> K" and ok: "R g \<noteq> None \<longrightarrow> (\<forall>g'. R g' = Some (asset_name la) \<longrightarrow> g' = g)" using Cons.prems(8) that(1) by auto
    moreover have "R g' = Some (asset_name la)" using Cons.prems(3)[OF that(3)] la(2) by blast
    ultimately show ?thesis using Cons.prems(4)[OF _ that(2)] by blast
  qed
  then have st: "step_ok s (rules w) P (asset_name la) K s1 (rules w1)"
    by (rule defender_apply_step[OF G Cons.prems(1) la(1,2) _ a])
  show ?case
  proof (rule Cons.IH)
    show "index_ok s1 (rules w1) (insert (asset_name la) P)" "ds_names s1 = None \<longrightarrow> rules w1 = R"
      using st Cons.prems(2) by (auto simp: step_ok_def)
    show "rules w1 g = Some n \<Longrightarrow> R g = Some n \<or> n \<in> insert (asset_name la) P" for g n
      using st Cons.prems(3)[of g n] by (auto simp: step_ok_def split: if_splits)
    show "g \<in> K \<Longrightarrow> rules w1 g \<noteq> None \<Longrightarrow> R g \<noteq> None" for g
      using st Cons.prems(4)[of g] by (auto simp: step_ok_def split: if_splits)
  qed (use Cons.prems(5-9) la a in auto)
qed auto

text \<open>A rename onto a name that is taken.\<close>

lemma index_rules_duplicate:
  assumes "PDict d \<in> set xs" "PDict d' \<in> set xs" "rule_name d = rule_name d'" "rule_id d \<noteq> rule_id d'"
  shows "index_rules xs [] [] [] \<noteq> Inr (m, ids, [])"
proof
  assume "index_rules xs [] [] [] = Inr (m, ids, [])"
  from index_rules_ok[OF this] have "map_of m (rule_name x) = Some (rule_id x)" if "PDict x \<in> set xs" for x using that by simp
  from this[OF assms(1)] this[OF assms(2)] show False using assms(3,4) by simp
qed

lemma duplicate_blocks:
  assumes G: "graph_server G rules K" "lists_all G rules" and d: "rules w g = Some n" "rules w g' = Some n" "g \<noteq> g'"
    and st: "env_status (la_envelope la) \<noteq> ''experimental''"
  shows "\<exists>e w'. defender_apply msg h (Some G) la False (no_index, w) = (Inl e, (no_index, w')) \<and> rules w' = rules w"
proof -
  obtain r w1 where l: "list_rules G w = (r, w1)" by fastforce
  have dup: "index_rules xs [] [] [] \<noteq> Inr (m, ids, [])" if "r = Inr xs" for xs m ids
  proof -
    have "list_rules G w = (Inr xs, w1)" using l that by simp
    then show ?thesis using G(2) d index_rules_duplicate unfolding lists_all_def by metis
  qed
  obtain e where "build_rule_index G w = (Inl e, w1)"
  proof (cases r)
    case (Inr xs)
    then show ?thesis
      using that l dup[OF Inr]
      by (cases "index_rules xs [] [] []") (auto simp: build_rule_index_def ebind_def elift_def split: prod.splits)
  qed (use that l in \<open>auto simp: build_rule_index_def ebind_def\<close>)
  moreover have "rules w1 = rules w" by (rule list_rules_keeps[OF G(1) l])
  ultimately show ?thesis using st by (auto simp: defender_apply_def Let_def ebind_def name_map_or_build_def no_index_def)
qed

subsection \<open>A small tenant\<close>

text \<open>The rule \<open>base\<close> and further ones with the ids \<open>g\<close>, \<open>gg\<close>, ...; single rules cannot be read, and a
  gateway loses the reply to the creation of the rule \<open>lost\<close>.\<close>

type_synonym tenant_world = "pyval \<times> pyval list"

definition demo_id :: "nat \<Rightarrow> string" where "demo_id n = replicate (Suc n) (CHR ''g'')"

definition demo_rules :: "tenant_world \<Rightarrow> string \<Rightarrow> pyval option" where
  "demo_rules t g = (if g = ''base'' then Some (fst t)
     else if g = demo_id (length g - 1) \<and> length g - 1 < length (snd t) then Some (snd t ! (length g - 1)) else None)"

definition demo_items :: "tenant_world \<Rightarrow> pyval list" where
  "demo_items t = map (\<lambda>(g, n). PDict [(''id'', PStr g), (''displayName'', n)])
     ((''base'', fst t) # map (\<lambda>i. (demo_id i, snd t ! i)) [0..<length (snd t)])"

definition demo_reply :: "nat \<Rightarrow> pydict \<Rightarrow> response" where
  "demo_reply st d = \<lparr>status_code = st, retry_after = None, json_body = Some (PDict d), body_text = []\<rparr>"

definition body_of :: "request \<Rightarrow> pydict" where
  "body_of rq = (case rq_body rq of Some (PDict d) \<Rightarrow> d | _ \<Rightarrow> [])"

definition demo_graph_http :: "request \<Rightarrow> tenant_world \<Rightarrow> outcome \<times> tenant_world" where
  "demo_graph_http rq t =
    (if rq_method rq = ''POST'' then (Inr (if rule_name (body_of rq) = PStr ''lost'' then demo_reply 503 []
          else demo_reply 201 [(''id'', PStr (demo_id (length (snd t))))]), (fst t, snd t @ [rule_name (body_of rq)]))
     else if rq_method rq = ''PATCH'' \<and> rq_url rq = ''/detectionRules/base'' then (Inr (demo_reply 200 []), (rule_name (body_of rq), snd t))
     else if rq_method rq = ''GET'' \<and> rq_url rq = ''/detectionRules'' then (Inr (demo_reply 200 [(''value'', PList (demo_items t))]), t)
     else (Inr (demo_reply 404 []), t))"

definition demo_graph :: "tenant_world graph" where
  "demo_graph = \<lparr>g_http = demo_graph_http, g_header = \<lparr>he_float = (\<lambda>_. None), he_date = (\<lambda>_. None)\<rparr>, g_brackets = (\<lambda>_. True)\<rparr>"

lemma base_path: "rule_path g = Inr ''/detectionRules/base'' \<longleftrightarrow> g = ''base''"
proof -
  have b: "safe_path_segment ''base'' = Some ''base''" by code_simp
  moreover have "safe_path_segment g = Some ''base'' \<Longrightarrow> g = ''base''"
    using b quote_inj[of g "''base''"] by (auto simp: safe_path_segment_def split: if_splits)
  ultimately show ?thesis by (auto simp: rule_path_def split: option.splits)
qed

lemma demo_id_not_base: "demo_id n \<noteq> ''base''" "length (demo_id n) = Suc n" "demo_id n \<noteq> []"
  by (auto simp: demo_id_def)

lemma demo_server: "graph_server demo_graph demo_rules {''base''}"
proof -
  have post: "demo_rules (a, xs @ [n]) = (demo_rules (a, xs))(demo_id (length xs) \<mapsto> n)" for a xs n
    using demo_id_not_base[of "length xs"]
    by (auto simp: demo_rules_def fun_eq_iff nth_append less_Suc_eq demo_id_def)
  have none: "demo_rules t (demo_id (length (snd t))) = None" for t
    using demo_id_not_base[of "length (snd t)"] by (auto simp: demo_rules_def)
  have patch: "demo_rules (n, xs) = (demo_rules (a, xs))(''base'' \<mapsto> n)" for a n xs
    by (auto simp: demo_rules_def)
  have req: "rq_method rq = ''GET'' \<Longrightarrow> snd (demo_graph_http rq t) = t"
    "rq_method rq = ''POST'' \<Longrightarrow> demo_graph_http rq t =
      (Inr (if rule_name (body_of rq) = PStr ''lost'' then demo_reply 503 []
         else demo_reply 201 [(''id'', PStr (demo_id (length (snd t))))]), (fst t, snd t @ [rule_name (body_of rq)]))"
    "rq_method rq = ''PATCH'' \<Longrightarrow> demo_graph_http rq t =
      (if rq_url rq = ''/detectionRules/base'' then (Inr (demo_reply 200 []), (rule_name (body_of rq), snd t)) else (Inr (demo_reply 404 []), t))"
    for rq t by (auto simp: demo_graph_http_def)
  show ?thesis
    unfolding graph_server_def
  proof (intro allI impI conjI)
    fix rq w x w' assume "g_http demo_graph rq w = (x, w')"
    then have h: "demo_graph_http rq w = (x, w')" by (simp add: demo_graph_def)
    show "demo_rules w [] = None" by (simp add: demo_rules_def demo_id_def)
    show "rq_method rq = ''GET'' \<Longrightarrow> demo_rules w' = demo_rules w" using req(1)[of rq w] h by simp
    show "(\<nexists>r. answered x 201 r) \<and> demo_rules w' = demo_rules w \<or>
        (\<not> never_processed x \<and> (\<exists>g. g \<noteq> [] \<and> g \<notin> {''base''} \<and> demo_rules w g = None \<and>
           demo_rules w' = (demo_rules w)(g \<mapsto> rule_name b) \<and>
           (\<forall>r. answered x 201 r \<longrightarrow> (\<exists>d. json_body r = Some (PDict d) \<and> dget d ''id'' = PStr g))))"
      if "rq_method rq = ''POST'' \<and> rq_body rq = Some (PDict b)" for b
    proof (intro disjI2 conjI exI[of _ "demo_id (length (snd w))"])
      have x: "x = Inr (if rule_name b = PStr ''lost'' then demo_reply 503 [] else demo_reply 201 [(''id'', PStr (demo_id (length (snd w))))])"
        "w' = (fst w, snd w @ [rule_name b])"
        using h req(2)[of rq w] that by (simp_all add: body_of_def)
      show "\<not> never_processed x" by (auto simp: x(1) never_processed_def demo_reply_def)
      show "demo_id (length (snd w)) \<noteq> []" "demo_id (length (snd w)) \<notin> {''base''}" using demo_id_not_base by simp_all
      show "demo_rules w (demo_id (length (snd w))) = None" by (rule none)
      show "demo_rules w' = (demo_rules w)(demo_id (length (snd w)) \<mapsto> rule_name b)"
        using post[of "fst w" "snd w" "rule_name b"] x(2) by simp
      show "\<forall>r. answered x 201 r \<longrightarrow> (\<exists>d. json_body r = Some (PDict d) \<and> dget d ''id'' = PStr (demo_id (length (snd w))))"
        by (auto simp: x(1) answered_def demo_reply_def dget_def)
    qed
    show "(\<nexists>r. answered x 200 r) \<and> demo_rules w' = demo_rules w \<or>
        \<not> never_processed x \<and> demo_rules w g \<noteq> None \<and> demo_rules w' = (demo_rules w)(g \<mapsto> rule_name b)"
      if "rq_method rq = ''PATCH'' \<and> rq_body rq = Some (PDict b) \<and> rule_path g = Inr (rq_url rq)" for b g
    proof (cases "rq_url rq = ''/detectionRules/base''")
      case True
      then have "g = ''base''" using that base_path by auto
      moreover have "x = Inr (demo_reply 200 [])" "w' = (rule_name b, snd w)"
        using h req(3)[of rq w] that True by (simp_all add: body_of_def)
      ultimately show ?thesis using patch[of "rule_name b" "snd w" "fst w"] by (simp add: never_processed_def demo_reply_def demo_rules_def)
    next
      case False
      then show ?thesis using h req(3)[of rq w] that by (auto simp: answered_def demo_reply_def)
    qed
  qed
qed

lemma demo_listing: "list_rules demo_graph t = (Inr (demo_items t), t)"
proof -
  have call: "graph_call demo_graph RETRYABLE (plain_request ''GET'' ''/detectionRules'' None) t =
      (Inr (demo_reply 200 [(''value'', PList (demo_items t))]), t)"
    by (simp add: graph_call_def request_with_retry_def request_loop.simps demo_graph_def demo_graph_http_def demo_reply_def RETRYABLE_def)
  have o: "allowed_origin (g_brackets demo_graph) ''/detectionRules'' (Some BASE_URL) = Some (Some ''https://graph.microsoft.com'')"
    "is_same_origin (g_brackets demo_graph) ''/detectionRules'' (Some ''https://graph.microsoft.com'') = Some True"
    by code_simp+
  have pg: "page_of ''@odata.nextLink'' (demo_reply 200 [(''value'', PList (demo_items t))]) = Inr (demo_items t, None)"
    by (simp add: page_of_def is_success_def demo_reply_def dget_default_def dget_def iterate_def)
  show ?thesis
    unfolding list_rules_def paginate_def o
    by (simp add: paginate_loop.simps o call pg MAX_PAGES_def)
qed

lemma demo_lists: "lists_all demo_graph demo_rules"
  unfolding lists_all_def demo_listing
proof (intro allI impI)
  fix w its w' g n assume l: "(Inr (demo_items w), w) = (Inr its, w')" and r: "demo_rules w g = Some n"
  have "(g, n) \<in> set ((''base'', fst w) # map (\<lambda>i. (demo_id i, snd w ! i)) [0..<length (snd w)])"
    using r by (auto simp: demo_rules_def split: if_splits)
  then have "PDict [(''id'', PStr g), (''displayName'', n)] \<in> set (demo_items w)" unfolding demo_items_def by (force simp del: upt_Suc)
  then show "\<exists>d. PDict d \<in> set its \<and> rule_id d = g \<and> rule_name d = n"
    using l by (intro exI[of _ "[(''id'', PStr g), (''displayName'', n)]"]) (auto simp: rule_id_def rule_name_def dget_default_def py_str_def)
qed

definition defender_demo :: "string \<Rightarrow> string option \<Rightarrow> loaded_asset" where
  "defender_demo name arm = \<lparr>la_path = [''rule.yml''],
     la_envelope = \<lparr>env_id = ''rule'', version = ''1.0.0'', kind = DEFENDER_CUSTOM_DETECTION, env_status = ''production'',
       env_metadata = None, arm_name = arm, lifecycleStage = None\<rparr>,
     la_payload = PDict [(''displayName'', PStr name)], la_raw = PNone\<rparr>"

lemma demo_run_names:
  "snd (defender_run (\<lambda>_. []) id demo_graph [defender_demo ''B'' (Some ''base''), defender_demo ''lost'' None, defender_demo ''A'' None]
      (no_index, (PStr ''A'', []))) = (PStr ''B'', [PStr ''lost'', PStr ''A''])"
  by code_simp

lemma demo_rename:
  "(case defender_apply (\<lambda>_. []) id (Some demo_graph) (defender_demo ''N'' (Some ''base'')) False
      (\<lparr>ds_names = Some [(PStr ''A'', ''base''), (PStr ''N'', ''g'')], ds_ids = [''base'', ''g'']\<rparr>, (PStr ''A'', [PStr ''N''])) of
     (Inl e, sw) \<Rightarrow> False | (Inr a, sw) \<Rightarrow> r_status a = ''success'' \<and> r_action a = UPDATE \<and> snd sw = (PStr ''N'', [PStr ''N'']))"
  by code_simp

section \<open>Properties\<close>

text \<open>
  C32. A deployment never makes two rules of one name. On a tenant nobody else writes to, a run over rules of
  distinct names, none of which renames a recorded rule onto the name of another one, ends with every display
  name carried by one rule at most, or has written nothing. This holds whatever requests fail on the way, also where
  a request that was answered with an error, or not at all, was done nevertheless: a creation is sent again only
  when it cannot have been done.
\<close>

theorem defender_names_stay_unique:
  assumes G: "graph_server G rules known" "lists_all G rules"
    and las: "distinct (map asset_name las)" "\<forall>la \<in> set las. hashable (asset_name la)"
    and free: "\<forall>la \<in> set las. \<forall>g. envelope.arm_name (la_envelope la) = Some g \<longrightarrow>
      g \<in> known \<and> (rules w g \<noteq> None \<longrightarrow> (\<forall>g'. rules w g' = Some (asset_name la) \<longrightarrow> g' = g))"
    and run: "defender_run msg h G las (no_index, w) = (s', w')"
  shows "rules w' = rules w \<or> (\<forall>g g' n. rules w' g = Some n \<and> rules w' g' = Some n \<longrightarrow> g = g')"
proof -
  have "(\<exists>F. index_ok s' (rules w') F) \<and> (ds_names s' = None \<longrightarrow> rules w' = rules w)"
    by (rule run_invariant[OF G _ _ _ _ las _ free run, of "{}"]) (simp_all add: index_ok_def no_index_def)
  then show ?thesis
    by (cases "ds_names s'") (auto simp: index_ok_def one_name_each_def)
qed

theorem defender_names_stay_unique_witness:
  "snd (defender_run (\<lambda>_. []) id demo_graph [defender_demo ''B'' (Some ''base''), defender_demo ''lost'' None, defender_demo ''A'' None]
      (no_index, (PStr ''A'', []))) = (PStr ''B'', [PStr ''lost'', PStr ''A'']) \<and>
   \<not> (\<exists>g g' n. demo_rules (PStr ''B'', [PStr ''lost'', PStr ''A'']) g = Some n \<and>
      demo_rules (PStr ''B'', [PStr ''lost'', PStr ''A'']) g' = Some n \<and> g \<noteq> g')"
proof -
  let ?las = "[defender_demo ''B'' (Some ''base''), defender_demo ''lost'' None, defender_demo ''A'' None]"
  let ?w = "(PStr ''A'', []) :: tenant_world" and ?v = "(PStr ''B'', [PStr ''lost'', PStr ''A'']) :: tenant_world"
  obtain s' where run: "defender_run (\<lambda>_. []) id demo_graph ?las (no_index, ?w) = (s', ?v)"
    using demo_run_names by (metis prod.collapse)
  have names: "map asset_name ?las = [PStr ''B'', PStr ''lost'', PStr ''A'']" "\<forall>la \<in> set ?las. hashable (asset_name la)"
    by (simp_all add: defender_demo_def asset_name_def rule_name_def dget_default_def hashable_def)
  have arms: "\<forall>la \<in> set ?las. \<forall>g. envelope.arm_name (la_envelope la) = Some g \<longrightarrow>
      g \<in> {''base''} \<and> (demo_rules ?w g \<noteq> None \<longrightarrow> (\<forall>g'. demo_rules ?w g' = Some (asset_name la) \<longrightarrow> g' = g))"
    by (simp add: defender_demo_def demo_rules_def)
  have "demo_rules ?v = demo_rules ?w \<or> (\<forall>g g' n. demo_rules ?v g = Some n \<and> demo_rules ?v g' = Some n \<longrightarrow> g = g')"
    by (rule defender_names_stay_unique[OF demo_server demo_lists _ names(2) arms run]) (simp only: names(1), simp)
  moreover have "demo_rules ?v ''base'' \<noteq> demo_rules ?w ''base''" by (simp add: demo_rules_def)
  ultimately show ?thesis using demo_run_names by metis
qed



end
