(* ===== verification/Rollback.thy ===== *)
theory Rollback
  imports Sentinel
begin

text \<open>
  The command rollback, \<open>contentops/rollback.py\<close> and \<open>contentops/cli/commands/rollback.py\<close>: the
  assets of a commit are replayed against the tenant. What git prints is the record \<open>git_out\<close>
  (\<open>None\<close> is a failed or timed-out process). The tree of the commit is a repository of its own; locks
  and snippet overrides are those of the current checkout. \<open>None\<close> as an exit is an exception.
\<close>

section \<open>What git holds at a commit\<close>

record git_out =
  rev_parse :: "string \<Rightarrow> string option"
  ls_tree :: "string \<Rightarrow> string \<Rightarrow> string option"
  show_object :: "string \<Rightarrow> string option"

definition resolve_sha :: "git_out \<Rightarrow> string \<Rightarrow> string option" where
  "resolve_sha g s =
    (if s = [] then None
     else case rev_parse g (s @ ''^{commit}'') of
       None \<Rightarrow> None
     | Some out \<Rightarrow> (if length (strip out) = 40 then Some (strip out) else None))"

definition list_files_at :: "git_out \<Rightarrow> string \<Rightarrow> string \<Rightarrow> string list option" where
  "list_files_at g s source =
     map_option (\<lambda>out. filter (\<lambda>l. l \<noteq> []) (map strip (splitlines out))) (ls_tree g s source)"

definition show_blob :: "git_out \<Rightarrow> string \<Rightarrow> string \<Rightarrow> string option" where
  "show_blob g s p = show_object g (s @ '':'' @ p)"

text \<open>The parts of \<open>Path(*rel.split("/"))\<close>.\<close>

definition rel_parts :: "string \<Rightarrow> path" where
  "rel_parts rel = filter (\<lambda>x. x \<noteq> [] \<and> x \<noteq> ''.'') (split_on (CHR ''/'') rel)"

definition materialize_at_sha :: "git_out \<Rightarrow> string \<Rightarrow> string \<Rightarrow> repo option" where
  "materialize_at_sha g s source = Option.bind (list_files_at g s source) (\<lambda>rels.
     map_option (\<lambda>files. fold (\<lambda>(p, c) tree. dset p c tree) files [])
       (those (map (\<lambda>rel. map_option (Pair (rel_parts rel)) (show_blob g s rel)) rels)))"

definition rollback_audit_message :: "string \<Rightarrow> string" where
  "rollback_audit_message s = ''rollback to '' @ s"

text \<open>The files below \<open>detections/\<close>, by their path relative to it; none means it is no directory.\<close>

definition rollback_root :: "repo \<Rightarrow> repo" where
  "rollback_root tree = concat (map (\<lambda>(p, c). case p of
     d # r \<Rightarrow> (if d = ''detections'' \<and> r \<noteq> [] then [(r, c)] else []) | [] \<Rightarrow> []) tree)"

section \<open>Selection\<close>

record rollback_opts =
  rb_sha :: string
  rb_asset :: "asset_kind option"
  rb_rule_id :: "string option"
  rb_dry_run :: bool
  rb_yes :: bool
  rb_no_audit :: bool
  rb_role :: "role option"
  rb_workspace :: "string option"
  rb_max_apply :: int

definition will_apply :: "rollback_opts \<Rightarrow> bool" where
  "will_apply opt \<longleftrightarrow> \<not> rb_dry_run opt \<and> rb_yes opt"

text \<open>\<open>None\<close>: the configuration does not load for another reason than a missing file.\<close>

definition rollback_target :: "load_outcome \<Rightarrow> string option \<Rightarrow> (tenant option \<times> workspace list) option" where
  "rollback_target outcome env_name = (case outcome of
     No_config \<Rightarrow> Some (None, [])
   | Bad_config \<Rightarrow> None
   | Loaded t \<Rightarrow>
       (let match = filter (\<lambda>w. env_name \<noteq> Some [] \<and> Some (workspaceName w) = env_name) (sentinelWorkspaces t)
        in Some (Some t, if match \<noteq> [] then match else sentinelWorkspaces t)))"

definition current_assets :: "'w apply_env \<Rightarrow> ((asset_kind \<times> string) \<times> loaded_asset) list" where
  "current_assets E = fold (\<lambda>t cur. dset (la_kind t, la_id t) t cur)
     (fst (iter_loaded_assets (e_yload E) (e_to_int E) (e_detections E))) []"

definition locked_in_current_tree :: "'w apply_env \<Rightarrow> loaded_asset \<Rightarrow> bool" where
  "locked_in_current_tree E la = (case map_of (current_assets E) (la_kind la, la_id la) of
     Some today \<Rightarrow> is_locked (e_yload E) (e_detections E) today
   | None \<Rightarrow> is_locked (e_yload E) (e_detections E) la)"

definition target_name :: "workspace list \<Rightarrow> string option \<Rightarrow> string option" where
  "target_name ws env_name = (case ws of [w] \<Rightarrow> Some (workspaceName w) | _ \<Rightarrow> env_name)"

definition requested :: "rollback_opts \<Rightarrow> loaded_asset \<Rightarrow> bool" where
  "requested opt la \<longleftrightarrow> (case rb_asset opt of None \<Rightarrow> True | Some k \<Rightarrow> la_kind la = k) \<and>
     (case rb_rule_id opt of None \<Rightarrow> True | Some i \<Rightarrow> i = [] \<or> la_id la = i)"

text \<open>The assets of the tree that the filters leave, before the lock; \<open>Inl\<close> is the exit.\<close>

definition rollback_scope ::
  "'w apply_env \<Rightarrow> rollback_opts \<Rightarrow> tenant option \<Rightarrow> workspace list \<Rightarrow> repo \<Rightarrow> nat option + loaded_asset list" where
  "rollback_scope E opt cfg ws base =
    (let loaded = filter (requested opt) (fst (iter_loaded_assets (e_yload E) (e_to_int E) base))
     in if rb_rule_id opt \<notin> {None, Some []} \<and> loaded = [] then Inl (Some 1)
        else case filter_disabled_engines (e_outcome E) la_kind loaded of
          None \<Rightarrow> Inl None
        | Some on \<Rightarrow> Inr (filter_loaded_by_env_status on cfg ws))"

definition plan_ctx ::
  "'w apply_env \<Rightarrow> asset_kind list \<Rightarrow> string option \<Rightarrow> string option \<Rightarrow> loaded_asset list \<Rightarrow> 'w \<Rightarrow> 'w run_ctx" where
  "plan_ctx E kinds ws_name env_name las w =
     fold (\<lambda>la. process_plan_asset (E\<lparr>e_registered := kinds\<rparr>) la ws_name) las (start_ctx env_name w)"

text \<open>The gates before the tree is read: \<open>Inl\<close> is the exit.\<close>

definition rollback_setup ::
  "'w apply_env \<Rightarrow> run_inputs \<Rightarrow> rollback_opts \<Rightarrow>
   nat option + (asset_kind list \<times> tenant option \<times> workspace list \<times> string option)" where
  "rollback_setup E inp opt =
    (if skip_if_integration_role_absent (e_outcome E) (rb_role opt) (rb_workspace opt) then Inl (Some 0)
     else case resolve_single_workspace (e_outcome E) (i_pipeline_ws inp) (rb_role opt) (rb_workspace opt) None of
       Exit n \<Rightarrow> Inl (Some n)
     | Crash \<Rightarrow> Inl None
     | Env env_name \<Rightarrow>
         (case rollback_target (e_outcome E) env_name of
            None \<Rightarrow> Inl None
          | Some (cfg, ws) \<Rightarrow>
              (if apply_write_refused cfg ws (rb_asset opt) (\<not> will_apply opt) then Inl (Some 2)
               else case register_default_handlers (e_outcome E) (i_disabled inp) of
                 None \<Rightarrow> Inl None
               | Some kinds \<Rightarrow> Inr (kinds, cfg, ws, env_name))))"

text \<open>The resolved commit and its tree; \<open>None\<close> is the exit 1.\<close>

definition rollback_tree :: "git_out \<Rightarrow> rollback_opts \<Rightarrow> (string \<times> repo) option" where
  "rollback_tree g opt = (case resolve_sha g (rb_sha opt) of
     None \<Rightarrow> None
   | Some s \<Rightarrow> (case materialize_at_sha g s ''detections'' of
       None \<Rightarrow> None
     | Some tree \<Rightarrow> (if rollback_root tree = [] then None else Some (s, rollback_root tree))))"

definition rollback_select ::
  "'w apply_env \<Rightarrow> git_out \<Rightarrow> run_inputs \<Rightarrow> rollback_opts \<Rightarrow> 'w \<Rightarrow>
   nat option + (asset_kind list \<times> loaded_asset list \<times> string option \<times> string option \<times> string)" where
  "rollback_select E g inp opt w =
    rbind (rollback_setup E inp opt) (\<lambda>(kinds, cfg, ws, env_name).
     case rollback_tree g opt of
       None \<Rightarrow> Inl (Some 1)
     | Some (s, base) \<Rightarrow>
         rbind (rollback_scope E opt cfg ws base) (\<lambda>las.
          let kept = filter (\<lambda>la. \<not> locked_in_current_tree E la) las; name = target_name ws env_name
          in if las = [] then Inl (Some 0)
             else if int (length kept) > rb_max_apply opt then Inl (Some 1)
             else if filter is_error (results (plan_ctx E kinds name env_name kept w)) \<noteq> [] then Inl (Some 1)
             else if \<not> will_apply opt then Inl (Some 0)
             else Inr (kinds, kept, name, env_name, s)))"

section \<open>The replay\<close>

definition mark :: "string \<Rightarrow> audit_record \<Rightarrow> audit_record" where
  "mark s r = r\<lparr>message := Some (case message r of
     None \<Rightarrow> rollback_audit_message s
   | Some m \<Rightarrow> (if m = [] then rollback_audit_message s else rollback_audit_message s @ '': '' @ m))\<rparr>"

definition replay ::
  "'w apply_env \<Rightarrow> asset_kind list \<Rightarrow> string option \<Rightarrow> string option \<Rightarrow> loaded_asset list \<Rightarrow> 'w \<Rightarrow> 'w run_ctx" where
  "replay E kinds ws_name env_name las w =
     fold (\<lambda>la. process_apply_asset (E\<lparr>e_registered := kinds\<rparr>) False la ws_name) las (start_ctx env_name w)"

record 'w rollback_final =
  rbf_exit :: "nat option"
  rbf_ctx :: "'w run_ctx"
  rbf_audit :: audit_dir

definition rollback_cmd ::
  "'w apply_env \<Rightarrow> git_out \<Rightarrow> run_inputs \<Rightarrow> rollback_opts \<Rightarrow> 'w \<Rightarrow> audit_dir \<Rightarrow> 'w rollback_final" where
  "rollback_cmd E g inp opt w d =
    (case rollback_select E g inp opt w of
       Inl ex \<Rightarrow> \<lparr>rbf_exit = ex, rbf_ctx = start_ctx (i_pipeline_ws inp) w, rbf_audit = d\<rparr>
     | Inr (kinds, las, ws_name, env_name, s) \<Rightarrow>
         (let c = replay E kinds ws_name env_name las w;
              final = (\<lambda>d'. \<lparr>rbf_exit = Some (exit_code False (results c)), rbf_ctx = c, rbf_audit = d'\<rparr>)
          in if rb_no_audit opt \<or> audit_pairs c = [] then final d
             else case write_records (e_hash E) (i_today inp) (i_race inp 0)
                 (map (mark s) (audit_batch inp (audit_pairs c))) d of
               (Inl _, d') \<Rightarrow> \<lparr>rbf_exit = None, rbf_ctx = c, rbf_audit = d'\<rparr>
             | (Inr _, d') \<Rightarrow> final d'))"


section \<open>Lemmas\<close>

lemma rollback_setup_cases:
  assumes "rollback_setup E inp opt = Inr (kinds, cfg, ws, env_name)"
  shows "resolve_single_workspace (e_outcome E) (i_pipeline_ws inp) (rb_role opt) (rb_workspace opt) None = Env env_name"
    "rollback_target (e_outcome E) env_name = Some (cfg, ws)"
    "\<not> apply_write_refused cfg ws (rb_asset opt) (\<not> will_apply opt)"
    "register_default_handlers (e_outcome E) (i_disabled inp) = Some kinds"
  using assms by (auto simp: rollback_setup_def split: if_splits option.splits resolution.splits)

lemma rollback_select_cases:
  assumes "rollback_select E g inp opt w = Inr (kinds, las, ws_name, env_name, s)"
  obtains cfg ws base scoped where "rollback_setup E inp opt = Inr (kinds, cfg, ws, env_name)" "will_apply opt"
    "rollback_tree g opt = Some (s, base)" "rollback_scope E opt cfg ws base = Inr scoped"
    "las = filter (\<lambda>la. \<not> locked_in_current_tree E la) scoped" "ws_name = target_name ws env_name"
    "int (length las) \<le> rb_max_apply opt"
proof -
  obtain k cfg ws e where su: "rollback_setup E inp opt = Inr (k, cfg, ws, e)"
    using assms by (cases "rollback_setup E inp opt") (auto simp: rollback_select_def)
  obtain s' base where tree: "rollback_tree g opt = Some (s', base)"
    using assms by (cases "rollback_tree g opt") (auto simp: rollback_select_def su)
  obtain scoped where scope: "rollback_scope E opt cfg ws base = Inr scoped"
    using assms by (cases "rollback_scope E opt cfg ws base") (auto simp: rollback_select_def su tree)
  show thesis
    using assms by (intro that[of cfg ws base scoped])
      (auto simp: rollback_select_def su tree scope Let_def not_less split: if_splits)
qed

lemma rollback_scope_sound:
  assumes "rollback_scope E opt cfg ws base = Inr scoped" and "la \<in> set scoped"
  shows "la \<in> set (fst (iter_loaded_assets (e_yload E) (e_to_int E) base)) \<and>
    requested opt la \<and> (\<forall>t. e_outcome E = Loaded t \<longrightarrow> engine_enabled t (la_kind la)) \<and>
    (\<forall>t. cfg = Some t \<longrightarrow> status_allowed t ws la)"
proof -
  define loaded where "loaded = filter (requested opt) (fst (iter_loaded_assets (e_yload E) (e_to_int E) base))"
  obtain on where on: "filter_disabled_engines (e_outcome E) la_kind loaded = Some on" "la \<in> set on"
      "\<forall>t. cfg = Some t \<longrightarrow> status_allowed t ws la"
    using assms unfolding rollback_scope_def Let_def loaded_def[symmetric]
    by (auto simp: filter_loaded_by_env_status_def split: if_splits option.splits)
  have "la \<in> set loaded \<and> (\<forall>t. e_outcome E = Loaded t \<longrightarrow> engine_enabled t (la_kind la))"
    using on(1,2) by (auto simp: filter_disabled_engines_def split: load_outcome.splits)
  with on(3) show ?thesis by (simp add: loaded_def)
qed

text \<open>The mode cache of a run whose workspace variable does not move.\<close>

definition cache_at :: "'w apply_env \<Rightarrow> 'w run_ctx \<Rightarrow> bool" where
  "cache_at E c \<longleftrightarrow> (\<forall>ws k m. map_of (mode_cache c) (ws, k) = Some m \<longrightarrow>
     asset_mode_for (e_outcome E) (pipeline_ws c) k ws = Some m)"

lemma monitor_mode_at:
  assumes c: "cache_at E c" and m: "monitor_mode_result E st la ws c = (r, c')"
  shows "cache_at E c'" "r = Inr None \<Longrightarrow> asset_mode_for (e_outcome E) (pipeline_ws c) (la_kind la) ws = Some Managed"
proof -
  let ?hit = "map_of (mode_cache c) (ws, la_kind la)" and ?mode = "asset_mode_for (e_outcome E) (pipeline_ws c) (la_kind la) ws"
  have "(case ?hit of Some m \<Rightarrow> Some m | None \<Rightarrow> ?mode) = ?mode"
    using c unfolding cache_at_def by (cases ?hit) auto
  then have eq: "(r, c') = (case ?mode of
      None \<Rightarrow> (Inl (e_config_msg E), c)
    | Some m \<Rightarrow> (Inr (if m \<noteq> Monitor then None
                  else Some (own_result (la_id la) (la_kind la) SKIP st (e_mode_msg E (la_kind la)))),
             if ?hit = None then c\<lparr>mode_cache := dset (ws, la_kind la) m (mode_cache c)\<rparr> else c))"
    using m by (simp add: monitor_mode_result_def Let_def)
  show "cache_at E c'"
    using eq c by (cases ?mode) (auto simp: cache_at_def split: if_splits)
  show "?mode = Some Managed" if "r = Inr None"
    using eq that by (cases ?mode; cases "the ?mode") auto
qed

text \<open>What has to hold for a handler bound by the variable to be called for a workspace.\<close>

definition sent_from :: "'w apply_env \<Rightarrow> string option \<Rightarrow> loaded_asset \<Rightarrow> string option \<Rightarrow> loaded_asset \<Rightarrow> bool" where
  "sent_from E env_name la ws res \<longleftrightarrow> snippets_of E la ws = Inr res \<and>
     h_validate (e_ops E env_name (la_kind la)) res = None \<and>
     asset_mode_for (e_outcome E) env_name (la_kind la) ws = Some Managed"

lemma process_apply_asset_at:
  assumes "cache_at E c"
  shows "cache_at E (process_apply_asset E dry la ws c) \<and> pipeline_ws (process_apply_asset E dry la ws c) = pipeline_ws c \<and>
    (world (process_apply_asset E dry la ws c) = world c \<or>
     (\<exists>res. sent_from E (pipeline_ws c) la ws res \<and> world (process_apply_asset E dry la ws c) =
        snd (h_apply (e_ops E (pipeline_ws c) (la_kind la)) res dry (world c))))"
proof (cases rule: process_apply_asset_cases[of E dry la ws c])
  case (local res r dig c1)
  have "cache_at E c1 \<and> pipeline_ws c1 = pipeline_ws c \<and> world c1 = world c"
    using local(2) monitor_mode_at(1)[OF assms] monitor_mode_result_frame assms by blast
  with local(1) assms show ?thesis by (auto simp: cache_at_def)
next
  case (sent res r dig c1)
  note f = monitor_mode_result_frame[OF sent(4)]
  have "sent_from E (pipeline_ws c) la ws res"
    using sent monitor_mode_at(2)[OF assms sent(4)] by (simp add: sent_from_def)
  then show ?thesis
    using sent(5) f monitor_mode_at(1)[OF assms sent(4)] by (auto simp: cache_at_def)
qed

lemma replay_keeps:
  assumes "\<And>la res v. la \<in> set las \<Longrightarrow> sent_from E env_name la ws res \<Longrightarrow> P v \<Longrightarrow>
      P (snd (h_apply (e_ops E env_name (la_kind la)) res False v))"
    and "P w"
  shows "P (world (replay E kinds ws env_name las w))"
proof -
  let ?E = "E\<lparr>e_registered := kinds\<rparr>"
  have "P (world (fold (\<lambda>la. process_apply_asset ?E False la ws) xs c))"
    if "set xs \<subseteq> set las" "cache_at ?E c" "pipeline_ws c = env_name" "P (world c)" for xs c
    using that
  proof (induction xs arbitrary: c)
    case (Cons la xs)
    let ?c = "process_apply_asset ?E False la ws c"
    note at = process_apply_asset_at[OF Cons.prems(2), of False la ws]
    have "sent_from ?E = sent_from E" by (simp add: fun_eq_iff sent_from_def snippets_of_def)
    then have "P (world ?c)" using at assms(1)[of la] Cons.prems by auto
    then show ?case using at Cons by simp
  qed simp
  then show ?thesis using assms(2) by (simp add: replay_def start_ctx_def cache_at_def)
qed

lemma rollback_cmd_ctx:
  "rbf_ctx (rollback_cmd E g inp opt w d) = (case rollback_select E g inp opt w of
     Inl _ \<Rightarrow> start_ctx (i_pipeline_ws inp) w
   | Inr (kinds, las, ws_name, env_name, s) \<Rightarrow> replay E kinds ws_name env_name las w)"
  by (auto simp: rollback_cmd_def Let_def split: sum.split prod.split)

text \<open>The lock that counts is that of the current file, and there is one when the ids are unique.\<close>

lemma lock_of_current:
  assumes "today \<in> set (fst (iter_loaded_assets (e_yload E) (e_to_int E) (e_detections E)))"
    and "\<forall>x \<in> set (fst (iter_loaded_assets (e_yload E) (e_to_int E) (e_detections E))).
      la_kind x = la_kind today \<and> la_id x = la_id today \<longrightarrow> x = today"
    and "la_kind la = la_kind today" "la_id la = la_id today"
  shows "locked_in_current_tree E la \<longleftrightarrow> is_locked (e_yload E) (e_detections E) today"
proof -
  have "map_of (fold (\<lambda>t. dset (la_kind t, la_id t) t) xs []) (la_kind today, la_id today) = Some today"
    if "today \<in> set xs" "\<forall>x \<in> set xs. la_kind x = la_kind today \<and> la_id x = la_id today \<longrightarrow> x = today" for xs
    using that by (induction xs rule: rev_induct) auto
  then show ?thesis using assms by (simp add: locked_in_current_tree_def current_assets_def)
qed

section \<open>The specification\<close>

text \<open>
  What has to hold for the replay to send an asset through a handler bound to \<open>env_name\<close>; \<open>sel\<close> are
  the workspaces whose safeguards and status gate the command consults.
\<close>

definition rollback_authorised ::
  "'w apply_env \<Rightarrow> git_out \<Rightarrow> rollback_opts \<Rightarrow> string option \<Rightarrow> loaded_asset \<Rightarrow> loaded_asset \<Rightarrow> bool" where
  "rollback_authorised E g opt env_name la res \<longleftrightarrow> will_apply opt \<and> requested opt la \<and>
     (\<exists>s base. rollback_tree g opt = Some (s, base) \<and> la \<in> set (fst (iter_loaded_assets (e_yload E) (e_to_int E) base))) \<and>
     \<not> locked_in_current_tree E la \<and>
     (\<exists>cfg sel. rollback_target (e_outcome E) env_name = Some (cfg, sel) \<and>
        sent_from E env_name la (target_name sel env_name) res \<and>
        (\<forall>t. cfg = Some t \<longrightarrow> engine_enabled t (la_kind la) \<and> status_allowed t sel la \<and> (\<forall>v \<in> set sel. writeAllowed v) \<and>
          (is_defender la \<longrightarrow> (\<forall>d. tenant_defender t = Some d \<longrightarrow> writeAllowed d))))"

lemma rollback_target_loaded: "rollback_target outcome e = Some (Some t, sel) \<Longrightarrow> outcome = Loaded t"
  by (auto simp: rollback_target_def Let_def split: load_outcome.splits)

lemma rollback_select_authorised:
  assumes "rollback_select E g inp opt w = Inr (kinds, las, ws_name, env_name, s)" and "la \<in> set las"
    and "sent_from E env_name la ws_name res"
  shows "rollback_authorised E g opt env_name la res"
  using assms(1)
proof (cases rule: rollback_select_cases)
  case (1 cfg ws base scoped)
  note su = rollback_setup_cases[OF "1"(1)]
  have "la \<in> set scoped" "\<not> locked_in_current_tree E la" using assms(2) "1"(5) by simp_all
  note sc = rollback_scope_sound[OF "1"(4) this(1)]
  have "engine_enabled t (la_kind la) \<and> status_allowed t ws la \<and> (\<forall>v \<in> set ws. writeAllowed v) \<and>
      (is_defender la \<longrightarrow> (\<forall>d. tenant_defender t = Some d \<longrightarrow> writeAllowed d))" if t: "cfg = Some t" for t
  proof -
    have "e_outcome E = Loaded t" using su(2) rollback_target_loaded t by blast
    moreover have "is_defender la \<Longrightarrow> case rb_asset opt of None \<Rightarrow> True | Some k \<Rightarrow> startswith (asset_value k) ''defender_''"
      using sc by (auto simp: requested_def is_defender_def split: option.splits)
    ultimately show ?thesis using su(3) sc t "1"(2) by (auto simp: apply_write_refused_def)
  qed
  then show ?thesis
    unfolding rollback_authorised_def using "1" su(2) sc assms(3) \<open>\<not> locked_in_current_tree E la\<close> by blast
qed

lemma filter_own_name:
  "distinct (map (\<lambda>w. casefold (workspaceName w)) ws) \<Longrightarrow> w \<in> set ws \<Longrightarrow> filter (\<lambda>y. workspaceName y = workspaceName w) ws = [w]"
  by (induction ws) (auto simp: filter_empty_conv image_iff)

text \<open>The variable after the resolution.\<close>

lemma bound_name:
  assumes "resolve_single_workspace (Loaded t) e r name None = Env env_name" and "env_name = Some n"
  shows "sentinelWorkspaces t = [] \<or> n \<in> workspaceName ` set (sentinelWorkspaces t) \<or>
    r = None \<and> name = None \<and> env_name = e"
proof (cases "r = None \<and> name = None \<or> sentinelWorkspaces t = []")
  case True
  then show ?thesis using assms(1) by (auto simp: resolve_single_workspace_def)
next
  case False
  then obtain w where w: "select_workspaces t r name = Inr [w]" "env_name = Some (workspaceName w)"
    using assms(1) by (auto simp: resolve_single_workspace_def Let_def split: sum.splits list.splits)
  have "w \<in> set (sentinelWorkspaces t)"
    using w(1)
  proof (cases rule: select_workspaces_cases)
    case (role x)
    then have "w \<in> set (workspaces_for_role t x)" by (metis list.set_intros(1))
    then show ?thesis by (simp add: workspaces_for_role_def)
  next
    case implicit
    then show ?thesis by (metis list.set_intros(1))
  qed simp
  then show ?thesis using w(2) assms(2) by auto
qed

lemma length_replay:
  "length (results (replay E kinds ws env_name las w)) \<le> length las \<and>
   length (audit_pairs (replay E kinds ws env_name las w)) = length (results (replay E kinds ws env_name las w))"
proof -
  have "length (results (fold (\<lambda>la. process_apply_asset F False la ws) xs c)) \<le> length (results c) + length xs \<and>
    length (audit_pairs (fold (\<lambda>la. process_apply_asset F False la ws) xs c)) + length (results c) =
      length (results (fold (\<lambda>la. process_apply_asset F False la ws) xs c)) + length (audit_pairs c)"
    for F :: "'a apply_env" and xs c
  proof (induction xs arbitrary: c)
    case (Cons la xs)
    obtain ps where ps: "audit_pairs (process_apply_asset F False la ws c) = audit_pairs c @ ps"
      "results (process_apply_asset F False la ws c) = results c @ map (\<lambda>p. fst (snd p)) ps" "length ps \<le> 1"
      using process_apply_asset_log[of F False la ws c] by (metis One_nat_def length_Cons length_map list.size(3) order_refl zero_le_one)
    with Cons[of "process_apply_asset F False la ws c"] show ?case by simp
  qed simp
  from this[of "E\<lparr>e_registered := kinds\<rparr>" las "start_ctx env_name w"] show ?thesis
    by (simp add: replay_def start_ctx_def)
qed

section \<open>Instances\<close>

definition demo_git :: git_out where
  "demo_git = \<lparr>rev_parse = (\<lambda>_. Some (replicate 40 (CHR ''a'') @ [NL])),
     ls_tree = (\<lambda>_ _. Some (''detections/h.yml'' @ [NL] @ ''detections/p.yml'' @ [NL])),
     show_object = (\<lambda>n. if endswith n ''h.yml'' then Some ''hunt'' else if endswith n ''p.yml'' then Some ''play'' else None)\<rparr>"

definition demo_rollback :: rollback_opts where
  "demo_rollback = \<lparr>rb_sha = ''aaaa'', rb_asset = None, rb_rule_id = None, rb_dry_run = False, rb_yes = True,
     rb_no_audit = True, rb_role = None, rb_workspace = None, rb_max_apply = 25\<rparr>"

text \<open>Since the commit the hunting query moved to another file and was locked there.\<close>

definition moved_documents :: "string \<Rightarrow> pyval option" where
  "moved_documents s = (if s = ''locked''
     then (case demo_documents ''hunt'' of Some (PDict d) \<Rightarrow> Some (PDict (d @ [(''localCustomization'', PBool True)])) | x \<Rightarrow> x)
     else demo_documents s)"

definition moved_env :: "string list apply_env" where
  "moved_env = (demo_env (Loaded plain_tenant))\<lparr>e_yload := moved_documents, e_detections := [([''moved.yml''], ''locked'')]\<rparr>"

text \<open>An integration workspace before the production one, and a query that is still under test.\<close>

definition mixed_tenant :: tenant where
  "mixed_tenant = plain_tenant\<lparr>sentinelWorkspaces :=
     [plain_workspace\<lparr>workspaceName := ''Sit'', ws_role := Integration\<rparr>, plain_workspace]\<rparr>"

definition test_documents :: "string \<Rightarrow> pyval option" where
  "test_documents s = (case demo_documents s of Some (PDict d) \<Rightarrow> Some (PDict (dset ''status'' (PStr ''test'') d)) | x \<Rightarrow> x)"

definition mixed_env :: "string list apply_env" where
  "mixed_env = (demo_env (Loaded mixed_tenant))\<lparr>e_yload := test_documents, e_detections := []\<rparr>"

lemma demo_tree: "rollback_tree demo_git demo_rollback = Some (replicate 40 (CHR ''a''), demo_detections)"
  by code_simp

lemma moved_locked:
  "\<forall>la \<in> set (fst (iter_loaded_assets (e_yload moved_env) (e_to_int moved_env) demo_detections)).
     la_id la = ''hunt'' \<longrightarrow> locked_in_current_tree moved_env la"
  by code_simp

lemma demo_replayed: "\<exists>kinds las ws s. rollback_select (demo_env (Loaded plain_tenant)) demo_git demo_inputs demo_rollback [] =
    Inr (kinds, las, ws, None, s) \<and> las \<noteq> []"
proof -
  have "case rollback_select (demo_env (Loaded plain_tenant)) demo_git demo_inputs demo_rollback [] of
      Inr (kinds, las, ws, e, s) \<Rightarrow> e = None \<and> las \<noteq> [] | Inl _ \<Rightarrow> False" by code_simp
  then show ?thesis by (auto split: sum.splits)
qed

lemma plain_tenant_ok: "valid_tenant plain_tenant"
  by (simp add: valid_tenant_def valid_workspaces_def valid_asset_modes_def valid_max_delete_def
      plain_tenant_def plain_workspace_def demo_tenant_def demo_workspace_def dkeys_def)

section \<open>Properties\<close>

text \<open>
  C34. A rollback writes only through its gates: every property of the tenant that the handler calls for
  authorised assets preserve holds after the command. Authorised are the requested assets of the
  resolved commit whose file of today is not locked, in managed mode, of an enabled engine and an
  allowed status, when every workspace in scope (and Defender for its rules) is writable.
\<close>

theorem rollback_writes_are_gated:
  assumes "\<And>la res env_name v. rollback_authorised E g opt env_name la res \<Longrightarrow> P v \<Longrightarrow>
      P (snd (h_apply (e_ops E env_name (la_kind la)) res False v))"
    and "P w"
  shows "P (world (rbf_ctx (rollback_cmd E g inp opt w d)))"
proof (cases "rollback_select E g inp opt w")
  case (Inl ex)
  then show ?thesis using assms(2) by (simp add: rollback_cmd_ctx start_ctx_def)
next
  case (Inr sel)
  obtain kinds las ws_name env_name s where sel: "sel = (kinds, las, ws_name, env_name, s)" by (cases sel)
  have "P (world (replay E kinds ws_name env_name las w))"
  proof (rule replay_keeps)
    fix la res v
    assume a: "la \<in> set las" "sent_from E env_name la ws_name res" and v: "P v"
    show "P (snd (h_apply (e_ops E env_name (la_kind la)) res False v))"
      using rollback_select_authorised[OF Inr[unfolded sel] a] v by (rule assms(1))
  qed (rule assms(2))
  then show ?thesis by (simp add: rollback_cmd_ctx Inr sel)
qed

theorem rollback_writes_are_gated_witness:
  "''hunt'' \<notin> set (world (rbf_ctx (rollback_cmd moved_env demo_git demo_inputs demo_rollback [] None)))"
proof (rule rollback_writes_are_gated[where P = "\<lambda>w. ''hunt'' \<notin> set w"])
  fix la res env_name v
  assume a: "rollback_authorised moved_env demo_git demo_rollback env_name la res" and v: "''hunt'' \<notin> set v"
  then have "la_id la \<noteq> ''hunt''" using moved_locked by (auto simp: rollback_authorised_def demo_tree)
  moreover have "la_id res = la_id la" using a by (auto simp: rollback_authorised_def sent_from_def)
  ultimately show "''hunt'' \<notin> set (snd (h_apply (e_ops moved_env env_name (la_kind la)) res False v))"
    using v by (simp add: moved_env_def demo_env_def demo_ops_def)
qed simp

text \<open>
  A rollback never handles more assets than \<open>--max-apply\<close>, and has one audit pair for each result.
\<close>

theorem rollback_blast_radius:
  "int (length (results (rbf_ctx (rollback_cmd E g inp opt w d)))) \<le> max 0 (rb_max_apply opt) \<and>
   length (audit_pairs (rbf_ctx (rollback_cmd E g inp opt w d))) =
     length (results (rbf_ctx (rollback_cmd E g inp opt w d)))"
proof (cases "rollback_select E g inp opt w")
  case (Inl ex)
  then show ?thesis by (simp add: rollback_cmd_ctx start_ctx_def)
next
  case (Inr sel)
  obtain kinds las ws_name env_name s where sel: "sel = (kinds, las, ws_name, env_name, s)" by (cases sel)
  have "int (length las) \<le> rb_max_apply opt"
    using Inr[unfolded sel] by (rule rollback_select_cases)
  with length_replay[of E kinds ws_name env_name las w] show ?thesis
    by (simp add: rollback_cmd_ctx Inr sel)
qed

text \<open>
  C35. The gates are those of the workspace that is written to, when the variable that binds the handlers
  was set by the command, is unset, or is the configured name letter for letter.
\<close>

theorem rollback_gates_the_written_workspace:
  assumes sel: "rollback_select E g inp opt w = Inr (kinds, las, ws_name, env_name, s)" and la: "la \<in> set las"
    and t: "e_outcome E = Loaded t" "valid_tenant t" and v: "active_workspace t env_name = Inr v"
    and env: "rb_role opt \<noteq> None \<or> rb_workspace opt \<noteq> None \<or>
      i_pipeline_ws inp \<in> {None, Some []} \<union> Some ` workspaceName ` set (sentinelWorkspaces t)"
  shows "ws_name = Some (workspaceName v) \<and> status_allowed t [v] la \<and> writeAllowed v"
  using sel
proof (cases rule: rollback_select_cases)
  case (1 cfg ws base scoped)
  note su = rollback_setup_cases[OF "1"(1)]
  have cfg: "cfg = Some t" using su(2) by (auto simp: rollback_target_def t Let_def split: if_splits)
  have ws: "ws = [v]"
  proof (cases "env_name \<in> {None, Some []}")
    case True
    then have "rbind (select_workspaces t None None) (\<lambda>ws. case ws of [w] \<Rightarrow> Inr w | _ \<Rightarrow> Inl Ambiguous) = Inr v"
      using v by (auto simp: active_workspace_def)
    then have "sentinelWorkspaces t = [v]"
      by (cases "sentinelWorkspaces t"; cases "tl (sentinelWorkspaces t)") (simp_all add: select_workspaces_def)
    then show ?thesis using su(2) True by (auto simp: rollback_target_def t Let_def)
  next
    case False
    then obtain n where n: "env_name = Some n" "n \<noteq> []" by auto
    have vt: "v \<in> set (sentinelWorkspaces t)"
      using v n by (cases n) (auto simp: active_workspace_def dest: workspace_by_name_Inr)
    have "n \<in> workspaceName ` set (sentinelWorkspaces t)"
      using bound_name[OF su(1)[unfolded t(1)]] env n vt by auto
    then obtain x where x: "x \<in> set (sentinelWorkspaces t)" "workspaceName x = n" by blast
    then have "v = x"
      using v n workspace_by_name_own[OF t(2) x(1), of n] by (cases n) (auto simp: active_workspace_def)
    with x have "filter (\<lambda>y. workspaceName y = n) (sentinelWorkspaces t) = [v]"
      using t(2) by (auto simp: valid_tenant_def valid_workspaces_def intro: filter_own_name)
    then show ?thesis using su(2) n by (simp add: rollback_target_def t Let_def)
  qed
  have "status_allowed t ws la" "\<not> apply_write_refused cfg ws (rb_asset opt) False"
    using rollback_scope_sound[OF "1"(4)] la "1"(2,5) su(3) by (auto simp: cfg)
  then show ?thesis by (auto simp: ws "1"(6) target_name_def cfg apply_write_refused_def)
qed

theorem rollback_gates_the_written_workspace_witness:
  "\<exists>kinds las s. rollback_select (demo_env (Loaded plain_tenant)) demo_git demo_inputs demo_rollback [] =
     Inr (kinds, las, Some ''Main'', None, s) \<and> las \<noteq> [] \<and> status_allowed plain_tenant [plain_workspace] (hd las)"
proof -
  obtain kinds las ws s where sel: "rollback_select (demo_env (Loaded plain_tenant)) demo_git demo_inputs demo_rollback [] =
      Inr (kinds, las, ws, None, s)" "las \<noteq> []"
    using demo_replayed by blast
  have v: "active_workspace plain_tenant None = Inr plain_workspace"
    by (simp add: active_workspace_def select_workspaces_def plain_tenant_def)
  have "i_pipeline_ws demo_inputs = None" by (simp add: demo_inputs_def)
  then have "ws = Some (workspaceName plain_workspace) \<and> status_allowed plain_tenant [plain_workspace] (hd las) \<and>
      writeAllowed plain_workspace"
    using rollback_gates_the_written_workspace[OF sel(1) hd_in_set[OF sel(2)] _ plain_tenant_ok v] by (simp add: demo_env_def)
  with sel show ?thesis by (simp add: plain_workspace_def demo_workspace_def)
qed

text \<open>
  With the name in another case in the variable, the handlers write to the production workspace while
  the status gate is that of the first configured workspace, here an integration workspace: a
  query whose status production does not accept is sent to it.
\<close>

theorem rollback_env_case_skips_status_gate:
  "active_workspace mixed_tenant (Some ''main'') = Inr plain_workspace \<and>
   (case rollback_select mixed_env demo_git (demo_inputs\<lparr>i_pipeline_ws := Some ''main''\<rparr>) demo_rollback [] of
      Inr (kinds, las, ws_name, env_name, s) \<Rightarrow> env_name = Some ''main'' \<and>
        (\<exists>la \<in> set las. \<not> status_allowed mixed_tenant [plain_workspace] la) | Inl _ \<Rightarrow> False)"
proof
  show "active_workspace mixed_tenant (Some ''main'') = Inr plain_workspace" by code_simp
next
  have "case rollback_select mixed_env demo_git (demo_inputs\<lparr>i_pipeline_ws := Some ''main''\<rparr>) demo_rollback [] of
      Inr (kinds, las, ws_name, env_name, s) \<Rightarrow> env_name = Some ''main'' \<and>
        list_ex (\<lambda>la. \<not> status_allowed mixed_tenant [plain_workspace] la) las | Inl _ \<Rightarrow> False" by code_simp
  then show "case rollback_select mixed_env demo_git (demo_inputs\<lparr>i_pipeline_ws := Some ''main''\<rparr>) demo_rollback [] of
      Inr (kinds, las, ws_name, env_name, s) \<Rightarrow> env_name = Some ''main'' \<and>
        (\<exists>la \<in> set las. \<not> status_allowed mixed_tenant [plain_workspace] la) | Inl _ \<Rightarrow> False"
    unfolding list_ex_iff .
qed

end
