(* ===== verification/Collect.thy ===== *)
theory Collect
  imports Drift Retry
begin

text \<open>
  The commands collect and clean, \<open>contentops/cli/commands/collect.py\<close> and \<open>collect_support.py\<close>. Paths are
  relative to the detections directory. A time stamp is the pair of whether it names a zone and its
  microseconds; \<open>iso_stamp\<close> is \<open>datetime.fromisoformat\<close>, and comparing a stamp with a zone to one without
  raises. Handlers are those of the drift engine; \<open>ce_handler\<close> gives the drift-capable handler of a
  registered kind on a tenant, which only \<open>ce_adopt\<close> changes. An exception is the exit \<open>None\<close>.
\<close>

section \<open>Time stamps\<close>

type_synonym stamp = "bool \<times> int"

definition collect_since :: "(string \<Rightarrow> stamp option) \<Rightarrow> string option \<Rightarrow> nat + stamp option" where
  "collect_since iso_stamp v = (case v of
     None \<Rightarrow> Inr None
   | Some s \<Rightarrow> (if s = [] then Inr None
       else case iso_stamp (utc_offset s) of None \<Rightarrow> Inl 2 | Some t \<Rightarrow> Inr (Some t)))"

definition TIMESTAMP_FIELDS :: "string list" where
  "TIMESTAMP_FIELDS = [''lastUpdatedTimeUtc'', ''lastModifiedTimeUtc'', ''lastModifiedUtc'',
     ''lastUpdatedDateTime'', ''lastUpdated'', ''createdDateTime'', ''createdTimeUtc'', ''ingestedDateTime'']"

definition stamps_in :: "(string \<Rightarrow> stamp option) \<Rightarrow> pyval \<Rightarrow> stamp list" where
  "stamps_in iso_stamp source = (case source of
     PDict d \<Rightarrow> concat (map (\<lambda>f. case dget d f of
         PStr s \<Rightarrow> (if s = [] then [] else case iso_stamp (utc_offset s) of None \<Rightarrow> [] | Some t \<Rightarrow> [t])
       | _ \<Rightarrow> []) TIMESTAMP_FIELDS)
   | _ \<Rightarrow> [])"

definition remote_timestamp :: "(string \<Rightarrow> stamp option) \<Rightarrow> pydict \<Rightarrow> stamp option" where
  "remote_timestamp iso_stamp r =
    (let props = (if truthy (dget r ''properties'') then dget r ''properties'' else PDict [])
     in case stamps_in iso_stamp props @ stamps_in iso_stamp (PDict r) of [] \<Rightarrow> None | t # _ \<Rightarrow> Some t)"

text \<open>Whether the filter drops a remote; \<open>None\<close> is the \<open>TypeError\<close> of the comparison.\<close>

definition too_old :: "(string \<Rightarrow> stamp option) \<Rightarrow> stamp option \<Rightarrow> pydict \<Rightarrow> bool option" where
  "too_old iso_stamp since r = (case since of
     None \<Rightarrow> Some False
   | Some t \<Rightarrow> (case remote_timestamp iso_stamp r of
       None \<Rightarrow> Some False
     | Some ts \<Rightarrow> (if fst ts \<noteq> fst t then None else Some (snd ts < snd t))))"

section \<open>Listing and classification\<close>

text \<open>The items and the errors by kind, as the two dictionaries of \<open>_list_remote_parallel\<close>.\<close>

definition list_remote_parallel :: "handler list \<Rightarrow> (string \<times> pydict list) list \<times> (string \<times> string) list" where
  "list_remote_parallel hs =
    (fold (\<lambda>h. dset (asset_value (h_asset h)) (case list_remote h of Inl _ \<Rightarrow> [] | Inr rs \<Rightarrow> rs)) hs [],
     fold (\<lambda>h out. case list_remote h of Inl msg \<Rightarrow> dset (asset_value (h_asset h)) msg out | Inr _ \<Rightarrow> out) hs [])"

definition collected_pair ::
  "(string \<Rightarrow> stamp option) \<Rightarrow> stamp option \<Rightarrow> handler \<Rightarrow> pydict \<Rightarrow> (pydict \<times> pydict) list option" where
  "collected_pair iso_stamp since h r = map_option
     (\<lambda>old. if old then [] else case to_envelope h r of None \<Rightarrow> [] | Some e \<Rightarrow> [(e, r)]) (too_old iso_stamp since r)"

text \<open>With a string id the envelope is the one \<open>classify_pair\<close> puts into its entry.\<close>

definition classify_handler ::
  "(string \<Rightarrow> pyval option) \<Rightarrow> (pyval \<Rightarrow> int option) \<Rightarrow> (string \<Rightarrow> stamp option) \<Rightarrow> stamp option \<Rightarrow> repo \<Rightarrow>
   (string \<times> pydict list) list \<Rightarrow> handler \<Rightarrow> drift_entry list option" where
  "classify_handler yload to_int iso_stamp since files listed h =
    (let remotes = (case map_of listed (asset_value (h_asset h)) of None \<Rightarrow> [] | Some rs \<Rightarrow> rs) in
     map_option (\<lambda>pss. let pairs = concat pss in
        concat (map (\<lambda>(e, (_, r)). classify_pair (h_asset h) (local_index yload to_int files (h_asset h))
            (e, r, text_of (dget e ''id'')))
          (zip (disambiguate_envelope_ids (map fst pairs)) pairs)))
       (those (map (collected_pair iso_stamp since h) remotes)))"

definition classify_collected_drift ::
  "(string \<Rightarrow> pyval option) \<Rightarrow> (pyval \<Rightarrow> int option) \<Rightarrow> (string \<Rightarrow> stamp option) \<Rightarrow> stamp option \<Rightarrow> repo \<Rightarrow>
   (string \<times> pydict list) list \<Rightarrow> handler list \<Rightarrow> drift_entry list option" where
  "classify_collected_drift yload to_int iso_stamp since files listed hs =
     map_option concat (those (map (classify_handler yload to_int iso_stamp since files listed) hs))"

text \<open>New, changed, in sync and failed, by kind.\<close>

type_synonym buckets = "(string \<times> (nat \<times> nat \<times> nat \<times> nat)) list"

definition bump_bucket :: "string \<Rightarrow> (nat \<times> nat \<times> nat \<times> nat \<Rightarrow> nat \<times> nat \<times> nat \<times> nat) \<Rightarrow> buckets \<Rightarrow> buckets" where
  "bump_bucket k f b = dset k (f (case map_of b k of None \<Rightarrow> (0, 0, 0, 0) | Some x \<Rightarrow> x)) b"

definition count_entry :: "drift_kind \<Rightarrow> nat \<times> nat \<times> nat \<times> nat \<Rightarrow> nat \<times> nat \<times> nat \<times> nat" where
  "count_entry k = (\<lambda>(n, c, s, f). case k of
     Drift_new \<Rightarrow> (Suc n, c, s, f) | Drift_changed \<Rightarrow> (n, Suc c, s, f) | Drift_in_sync \<Rightarrow> (n, c, Suc s, f)
   | Drift_error \<Rightarrow> (n, c, s, f))"

definition summarize_collect :: "handler list \<Rightarrow> drift_entry list \<Rightarrow> (string \<times> string) list \<Rightarrow> buckets" where
  "summarize_collect hs report failed =
     fold (\<lambda>(k, _). bump_bucket k (\<lambda>(n, c, s, f). (n, c, s, Suc f))) failed
       (fold (\<lambda>en. bump_bucket (asset_value (de_asset en)) (count_entry (de_kind en))) report
         (fold (\<lambda>h. bump_bucket (asset_value (h_asset h)) id) hs []))"

section \<open>Placeholders of a bulk import\<close>

definition ENRICH_TODO_METADATA :: pydict where
  "ENRICH_TODO_METADATA = [(''owner'', PStr ''unknown@example.invalid''),
     (''runbookUrl'', PStr ''https://example.invalid/runbook-todo''), (''severity'', PStr ''low''),
     (''tactics'', PList [PStr ''Execution'']), (''techniques'', PList []), (''expectedAlertsPerDay'', PInt 0),
     (''fpHandling'', PStr ''TODO: describe FP handling and tuning approach.'')]"

definition demote_status :: "pydict \<Rightarrow> pydict" where
  "demote_status e = (if dget e ''status'' = PStr ''production'' then dset ''status'' (PStr ''test'') e else e)"

definition existing_metadata :: "pydict \<Rightarrow> pydict option" where
  "existing_metadata e = (case dget e ''metadata'' of PDict md \<Rightarrow> Some md | _ \<Rightarrow> None)"

definition is_minimal :: "pydict option \<Rightarrow> bool" where
  "is_minimal md = (case md of None \<Rightarrow> True | Some d \<Rightarrow> set (dkeys d) \<subseteq> {''arm_name''})"

definition placeholder_metadata :: "pydict option \<Rightarrow> pydict" where
  "placeholder_metadata md =
    (let n = (case md of None \<Rightarrow> PNone | Some d \<Rightarrow> dget d ''arm_name'')
     in if truthy n then dset ''arm_name'' n ENRICH_TODO_METADATA else ENRICH_TODO_METADATA)"

definition enrich_envelope :: "pydict \<Rightarrow> pydict" where
  "enrich_envelope e0 = (let e = demote_status e0 in
     if is_minimal (existing_metadata e)
     then dset ''metadata'' (PDict (placeholder_metadata (existing_metadata e))) e else e)"

definition enrich_entry :: "drift_entry \<Rightarrow> drift_entry" where
  "enrich_entry en = (if de_kind en \<in> {Drift_new, Drift_changed}
     then en\<lparr>de_envelope := map_option enrich_envelope (de_envelope en)\<rparr> else en)"

definition enriched :: "drift_entry list \<Rightarrow> nat" where
  "enriched report = length (filter (\<lambda>en. de_kind en \<in> {Drift_new, Drift_changed} \<and>
     (case de_envelope en of None \<Rightarrow> False | Some e \<Rightarrow>
        dget e ''status'' = PStr ''production'' \<or> is_minimal (existing_metadata e))) report)"

section \<open>Renaming and cleaning\<close>

definition display_name_of :: "pydict \<Rightarrow> pyval" where
  "display_name_of raw = (case dget raw ''payload'' of
     PDict p \<Rightarrow> (if truthy (dget p ''displayName'') then dget p ''displayName''
                 else if truthy (dget p ''title'') then dget p ''title'' else PStr [])
   | _ \<Rightarrow> PStr [])"

definition stem :: "string \<Rightarrow> string" where
  "stem n = (if n = ''.yml'' then n else take (length n - 4) n)"

text \<open>The path a file is moved to; \<open>None\<close> is the exception of a name that is no text.\<close>

definition rename_target :: "(string \<Rightarrow> pyval option) \<Rightarrow> repo \<Rightarrow> path \<Rightarrow> path option option" where
  "rename_target yload files p = (case Option.bind (map_of files p) yload of
     Some (PDict raw) \<Rightarrow>
       (let v = display_name_of raw in
        if \<not> truthy v then Some None
        else case v of
          PStr s \<Rightarrow>
            (let slug = displayname_slug (Some s) (Some (text_of (dget raw ''id''))); new = butlast p @ [slug @ ''.yml''] in
             Some (if slug = [] \<or> stem (last p) = slug \<or> map_of files new \<noteq> None then None else Some new))
        | _ \<Rightarrow> None)
   | _ \<Rightarrow> Some None)"

definition move_file :: "path \<Rightarrow> path \<Rightarrow> repo \<Rightarrow> repo" where
  "move_file p new files = map (\<lambda>(q, c). (if q = p then new else q, c)) files"

fun rename_each ::
  "(string \<Rightarrow> pyval option) \<Rightarrow> path list \<Rightarrow> repo \<Rightarrow> repo \<times> (path \<times> path) list \<times> bool" where
  "rename_each yload [] files = (files, [], True)"
| "rename_each yload (p # ps) files = (case rename_target yload files p of
     None \<Rightarrow> (files, [], False)
   | Some None \<Rightarrow> rename_each yload ps files
   | Some (Some new) \<Rightarrow>
       (let (files', moves, ok) = rename_each yload ps (move_file p new files) in (files', (p, new) # moves, ok)))"

definition rename_existing_to_slug :: "(string \<Rightarrow> pyval option) \<Rightarrow> repo \<Rightarrow> repo \<times> (path \<times> path) list \<times> bool" where
  "rename_existing_to_slug yload files =
     rename_each yload (sort (filter (\<lambda>p. length p = 2 \<and> endswith (last p) ''.yml'') (map fst files))) files"

definition cleaned_path :: "asset_kind list option \<Rightarrow> path \<Rightarrow> bool" where
  "cleaned_path kinds p = (case p of
     [d, n] \<Rightarrow> d \<notin> {''templates'', ''samples''} \<and>
       (case asset_of d of None \<Rightarrow> False | Some k \<Rightarrow> (case kinds of None \<Rightarrow> True | Some ks \<Rightarrow> k \<in> set ks)) \<and>
       (endswith n ''.yml'' \<or> endswith n ''.yaml'')
   | _ \<Rightarrow> False)"

definition clean_local_detections :: "asset_kind list option \<Rightarrow> repo \<Rightarrow> repo \<times> nat" where
  "clean_local_detections kinds files =
    (filter (\<lambda>(p, _). \<not> cleaned_path kinds p) files, length (filter (\<lambda>(p, _). cleaned_path kinds p) files))"

text \<open>\<open>confirm\<close> is the answer to the prompt; a refusal aborts with exit 1.\<close>

definition clean_cmd :: "asset_kind list \<Rightarrow> bool \<Rightarrow> bool \<Rightarrow> repo \<Rightarrow> nat \<times> repo" where
  "clean_cmd asset_filter skip_confirm confirm files =
    (let kinds = (if asset_filter = [] then None else Some asset_filter);
         (files', n) = clean_local_detections kinds files
     in if n = 0 then (0, files) else if \<not> skip_confirm \<and> \<not> confirm then (1, files) else (0, files'))"

section \<open>The command\<close>

record collect_opts =
  co_target :: "asset_kind option"
  co_since :: "string option"
  co_rename :: bool
  co_role :: "role option"
  co_workspace :: "string option"
  co_clear :: bool
  co_enrich :: bool
  co_adopt :: "string list"

record 'w collect_env =
  ce_outcome :: load_outcome
  ce_pipeline_ws :: "string option"
  ce_disabled :: string
  ce_handler :: "asset_kind \<Rightarrow> 'w \<Rightarrow> handler option"
  ce_adopt :: "string \<Rightarrow> 'w \<Rightarrow> bool \<times> 'w"
  ce_yload :: "string \<Rightarrow> pyval option"
  ce_ydump :: "pydict \<Rightarrow> string"
  ce_to_int :: "pyval \<Rightarrow> int option"
  ce_iso :: "string \<Rightarrow> stamp option"

definition drift_handlers_of ::
  "'w collect_env \<Rightarrow> asset_kind list \<Rightarrow> asset_kind option \<Rightarrow> 'w \<Rightarrow> handler list" where
  "drift_handlers_of E kinds target w = concat (map (\<lambda>k. case ce_handler E k w of None \<Rightarrow> [] | Some h \<Rightarrow> [h])
     (filter (\<lambda>k. target = None \<or> target = Some k) kinds))"

text \<open>The writes up to the first entry that raises.\<close>

fun write_until ::
  "(string \<Rightarrow> pyval option) \<Rightarrow> (pydict \<Rightarrow> string) \<Rightarrow> path \<Rightarrow> drift_entry list \<Rightarrow> repo \<times> path list \<Rightarrow>
   (repo \<times> path list) \<times> bool" where
  "write_until yload ydump out_dir [] st = (st, True)"
| "write_until yload ydump out_dir (en # ens) st = (case write_entry yload ydump out_dir en st of
     None \<Rightarrow> (st, False) | Some st' \<Rightarrow> write_until yload ydump out_dir ens st')"

text \<open>Only kinds whose listing succeeded are cleared.\<close>

definition listed_kinds :: "handler list \<Rightarrow> asset_kind list" where
  "listed_kinds hs = map h_asset (filter (\<lambda>h. asset_value (h_asset h) \<notin> set (dkeys (snd (list_remote_parallel hs)))) hs)"

definition cleared :: "collect_opts \<Rightarrow> handler list \<Rightarrow> repo \<Rightarrow> repo" where
  "cleared opt hs files = (if co_clear opt \<and> listed_kinds hs \<noteq> []
     then fst (clean_local_detections (Some (listed_kinds hs)) files) else files)"

definition write_report ::
  "'w collect_env \<Rightarrow> collect_opts \<Rightarrow> (string \<times> string) list \<Rightarrow> drift_entry list \<Rightarrow> repo \<Rightarrow> nat option \<times> repo" where
  "write_report E opt failed report0 files =
    (let report = (if co_enrich opt then map enrich_entry report0 else report0);
         (st, ok) = write_until (ce_yload E) (ce_ydump E) []
           (entries_of Drift_new report @ entries_of Drift_changed report) (files, [])
     in (if \<not> ok then None else if failed \<noteq> [] then Some 2 else Some 0, fst st))"

text \<open>From the listing on: the exit and the files.\<close>

definition collect_run ::
  "'w collect_env \<Rightarrow> collect_opts \<Rightarrow> stamp option \<Rightarrow> handler list \<Rightarrow> repo \<Rightarrow> nat option \<times> repo" where
  "collect_run E opt since hs files0 =
    (case (if co_rename opt then rename_existing_to_slug (ce_yload E) (cleared opt hs files0)
           else (cleared opt hs files0, [], True)) of
       (files, _, False) \<Rightarrow> (None, files)
     | (files, _, True) \<Rightarrow>
         (case classify_collected_drift (ce_yload E) (ce_to_int E) (ce_iso E) since files (fst (list_remote_parallel hs)) hs of
            None \<Rightarrow> (None, files)
          | Some report \<Rightarrow> write_report E opt (snd (list_remote_parallel hs)) report files))"

fun adopt_each :: "'w collect_env \<Rightarrow> string list \<Rightarrow> 'w \<Rightarrow> bool \<times> 'w" where
  "adopt_each E [] w = (True, w)"
| "adopt_each E (n # ns) w = (case ce_adopt E n w of (False, w') \<Rightarrow> (False, w') | (True, w') \<Rightarrow> adopt_each E ns w')"

definition adopt_playbooks ::
  "'w collect_env \<Rightarrow> asset_kind list \<Rightarrow> collect_opts \<Rightarrow> 'w \<Rightarrow> bool \<times> 'w" where
  "adopt_playbooks E kinds opt w =
    (if co_adopt opt = [] then (True, w)
     else if co_target opt \<noteq> Some SENTINEL_PLAYBOOK \<or> SENTINEL_PLAYBOOK \<notin> set kinds then (False, w)
     else adopt_each E (co_adopt opt) w)"

definition collect_cmd ::
  "'w collect_env \<Rightarrow> collect_opts \<Rightarrow> repo \<Rightarrow> 'w \<Rightarrow> nat option \<times> repo \<times> 'w" where
  "collect_cmd E opt files w =
    (if skip_if_integration_role_absent (ce_outcome E) (co_role opt) (co_workspace opt) then (Some 0, files, w)
     else case resolve_single_workspace (ce_outcome E) (ce_pipeline_ws E) (co_role opt) (co_workspace opt) (Some Prod) of
       Exit n \<Rightarrow> (Some n, files, w)
     | Crash \<Rightarrow> (None, files, w)
     | Env _ \<Rightarrow>
         (case register_default_handlers (ce_outcome E) (ce_disabled E) of
            None \<Rightarrow> (None, files, w)
          | Some kinds \<Rightarrow>
              (case adopt_playbooks E kinds opt w of
                 (False, w') \<Rightarrow> (Some 2, files, w')
               | (True, w') \<Rightarrow>
                   (let hs = drift_handlers_of E kinds (co_target opt) w' in
                    if hs = [] then (Some 0, files, w')
                    else case collect_since (ce_iso E) (co_since opt) of
                      Inl n \<Rightarrow> (Some n, files, w')
                    | Inr since \<Rightarrow> (case collect_run E opt since hs files of (ex, files') \<Rightarrow> (ex, files', w'))))))"

section \<open>Lemmas\<close>

text \<open>Every file that loads stands in the directory of its kind, as collect writes them.\<close>

definition kind_layout :: "'w collect_env \<Rightarrow> repo \<Rightarrow> bool" where
  "kind_layout E files \<longleftrightarrow> (\<forall>q \<in> set (map fst files). case load_asset (ce_yload E) (ce_to_int E) files q of
     Inl _ \<Rightarrow> True | Inr la \<Rightarrow> length q = 2 \<and> hd q = asset_value (kind (la_envelope la)))"

lemma kind_layoutD:
  assumes "kind_layout E files" and "load_asset (ce_yload E) (ce_to_int E) files q = Inr la"
  shows "\<exists>n. q = [asset_value (kind (la_envelope la)), n]"
proof -
  have "map_of files q \<noteq> None" using assms(2) by (cases "map_of files q") (simp_all add: load_asset_def)
  then have "q \<in> set (map fst files)" by (auto simp: map_of_eq_None_iff)
  then have "length q = 2 \<and> hd q = asset_value (kind (la_envelope la))"
    using assms by (auto simp: kind_layout_def)
  then show ?thesis by (cases q; cases "tl q") auto
qed

lemma lookup_cleaned:
  "map_of (fst (clean_local_detections ks files)) q = (if cleaned_path ks q then None else map_of files q)"
  by (induction files) (auto simp: clean_local_detections_def)

lemma load_cleaned:
  assumes "load_asset yload to_int (fst (clean_local_detections ks files)) q = Inr la"
  shows "load_asset yload to_int files q = Inr la"
proof -
  let ?f = "fst (clean_local_detections ks files)"
  have q: "map_of ?f q = map_of files q"
    using assms lookup_cleaned[of ks files q] by (auto simp: load_asset_def split: option.splits if_splits)
  have "\<not> cleaned_path ks (butlast q @ [n])" if "sidecar_name_ok n" for n
  proof -
    have "last n = CHR ''n''" using that by (auto simp: sidecar_name_ok_def endswith_def suffix_def)
    then show ?thesis by (auto simp: cleaned_path_def endswith_def suffix_def split: list.splits)
  qed
  then have "inline_playbook_sidecar ?f q v = inline_playbook_sidecar files q v" for v
    by (cases v) (simp_all add: inline_playbook_sidecar_def Let_def lookup_cleaned)
  then have f: "inline_playbook_sidecar ?f q = inline_playbook_sidecar files q" ..
  show ?thesis using assms unfolding load_asset_def q f .
qed

lemma classify_pair_places:
  assumes "en \<in> set (classify_pair a (local_index yload to_int files a) x)" and "de_path en = Some p"
  shows "\<exists>la. load_asset yload to_int files p = Inr la \<and> kind (la_envelope la) = a"
proof -
  obtain e r i where x: "x = (e, r, i)" by (cases x)
  obtain pl where "find_local (local_index yload to_int files a) r i = Some (p, pl)"
    using assms by (auto simp: x classify_pair_def Let_def split: if_splits option.splits)
  then have "map_of (local_index yload to_int files a) (remote_key r) = Some (p, pl) \<or>
      map_of (local_index yload to_int files a) i = Some (p, pl)"
    by (auto simp: find_local_def split: if_splits option.splits)
  then show ?thesis by (auto elim!: local_index_sound)
qed

lemma classify_pair_asset: "en \<in> set (classify_pair a local x) \<Longrightarrow> de_asset en = a"
  by (cases x) (auto simp: classify_pair_def Let_def split: if_splits option.splits)

lemma classified:
  assumes "classify_collected_drift yload to_int iso_stamp since files listed hs = Some report" and "en \<in> set report"
  obtains h rs x where "h \<in> set hs" "map_of listed (asset_value (h_asset h)) = Some rs"
    "\<exists>r \<in> set rs. too_old iso_stamp since r = Some False"
    "en \<in> set (classify_pair (h_asset h) (local_index yload to_int files (h_asset h)) x)"
proof -
  obtain ess where ess: "those (map (classify_handler yload to_int iso_stamp since files listed) hs) = Some ess"
      "en \<in> set (concat ess)"
    using assms by (auto simp: classify_collected_drift_def)
  have "map (classify_handler yload to_int iso_stamp since files listed) hs = map Some ess"
    using ess(1) by (simp add: those_Some_iff)
  obtain es where es: "es \<in> set ess" "en \<in> set es" using ess(2) by auto
  then have "Some es \<in> set (map (classify_handler yload to_int iso_stamp since files listed) hs)"
    unfolding \<open>map _ hs = _\<close> by simp
  then obtain h where h: "h \<in> set hs" "classify_handler yload to_int iso_stamp since files listed h = Some es" "en \<in> set es"
    using es(2) by (metis (no_types, lifting) imageE list.set_map)
  let ?rs = "case map_of listed (asset_value (h_asset h)) of None \<Rightarrow> [] | Some rs \<Rightarrow> rs"
  obtain pss where pss: "those (map (collected_pair iso_stamp since h) ?rs) = Some pss"
    using h(2) by (auto simp: classify_handler_def Let_def)
  have es: "es = concat (map (\<lambda>(e, (_, r)). classify_pair (h_asset h) (local_index yload to_int files (h_asset h))
      (e, r, text_of (dget e ''id''))) (zip (disambiguate_envelope_ids (map fst (concat pss))) (concat pss)))"
    using h(2) pss by (simp add: classify_handler_def Let_def)
  have "q \<noteq> []" if "en \<in> set (concat (map f (zip a q)))" for f a and q :: "(pydict \<times> pydict) list"
    using that by (cases q) auto
  then have "concat pss \<noteq> []" using h(3) unfolding es by blast
  then obtain ps where ps: "ps \<in> set pss" "ps \<noteq> []" by auto
  have "map (collected_pair iso_stamp since h) ?rs = map Some pss" using pss by (simp add: those_Some_iff)
  then have "Some ps \<in> set (map (collected_pair iso_stamp since h) ?rs)" using ps(1) by simp
  then obtain r where r: "r \<in> set ?rs" "collected_pair iso_stamp since h r = Some ps"
    unfolding set_map by (metis imageE)
  then have "too_old iso_stamp since r = Some False"
    using ps(2) by (cases "too_old iso_stamp since r") (auto simp: collected_pair_def split: if_splits)
  then have "\<exists>r \<in> set ?rs. too_old iso_stamp since r = Some False" using r(1) by blast
  moreover obtain x where "en \<in> set (classify_pair (h_asset h) (local_index yload to_int files (h_asset h)) x)"
    using h by (auto simp: classify_handler_def Let_def)
  ultimately show thesis
    using that[OF h(1), of _ x] by (cases "map_of listed (asset_value (h_asset h))") simp_all
qed

text \<open>An entry writes into one directory.\<close>

lemma write_sidecar_frame:
  "butlast q \<noteq> dir \<Longrightarrow> map_of (fst (fold (write_sidecar dir) ss st)) q = map_of (fst st) q"
  by (induction ss arbitrary: st) (auto simp: write_sidecar_def Let_def)

lemma write_entry_frame:
  assumes "write_entry yload ydump [] en st = Some st'" and "\<And>p. de_path en = Some p \<Longrightarrow> butlast p = [asset_value (de_asset en)]"
    and "butlast q \<noteq> [asset_value (de_asset en)]"
  shows "map_of (fst st') q = map_of (fst st) q"
proof (cases "de_envelope en")
  case (Some e0)
  obtain t e ss where w: "st' = fold (write_sidecar (butlast t)) ss (dset t (ydump e) (fst st), snd st @ [t])"
      "t = [asset_value (de_asset en), de_id en @ ''.yml''] \<or> de_path en = Some t"
    using assms(1) Some by (cases "de_path en") (fastforce simp: write_entry_def bind_eq_Some_conv Let_def)+
  then have "butlast t = [asset_value (de_asset en)]" using assms(2) by auto
  with assms(3) show ?thesis unfolding w(1) by (subst write_sidecar_frame) auto
qed (use assms(1) in \<open>simp add: write_entry_def\<close>)

lemma write_until_frame:
  assumes "\<forall>en \<in> set ens. butlast q \<noteq> [asset_value (de_asset en)] \<and>
      (\<forall>p. de_path en = Some p \<longrightarrow> butlast p = [asset_value (de_asset en)])"
  shows "map_of (fst (fst (write_until yload ydump [] ens st))) q = map_of (fst st) q"
  using assms
proof (induction ens arbitrary: st)
  case (Cons en ens)
  show ?case
  proof (cases "write_entry yload ydump [] en st")
    case (Some st')
    have "map_of (fst st') q = map_of (fst st) q" by (rule write_entry_frame[OF Some]) (use Cons.prems in auto)
    then show ?thesis using Cons Some by simp
  qed simp
qed simp

text \<open>What listing tells of a kind whose handlers all failed.\<close>

lemma failed_kind_lists_nothing:
  assumes "\<forall>h \<in> set hs. h_asset h = k \<longrightarrow> isl (list_remote h)"
  shows "map_of (fst (list_remote_parallel hs)) (asset_value k) \<in> {None, Some []}"
proof -
  have "map_of (fold (\<lambda>h. dset (asset_value (h_asset h)) (case list_remote h of Inl _ \<Rightarrow> [] | Inr rs \<Rightarrow> rs)) hs acc)
      (asset_value k) \<in> {None, Some []}"
    if "map_of acc (asset_value k) \<in> {None, Some []}" for acc
    using that assms
  proof (induction hs arbitrary: acc)
    case (Cons h hs)
    show ?case unfolding fold_simps comp_def
      by (rule Cons.IH) (use Cons.prems in \<open>auto split: sum.splits\<close>)
  qed simp
  then show ?thesis by (simp add: list_remote_parallel_def)
qed

lemma listed_of_kind:
  assumes "\<forall>h' \<in> set hs. h_asset h' = k \<longrightarrow> h' = h"
    and "map_of (fst (list_remote_parallel hs)) (asset_value k) = Some rs"
  shows "rs = (case list_remote h of Inl _ \<Rightarrow> [] | Inr rs \<Rightarrow> rs)"
proof -
  let ?r = "\<lambda>h. case list_remote h of Inl _ \<Rightarrow> [] | Inr rs \<Rightarrow> rs"
  have "map_of (fold (\<lambda>h. dset (asset_value (h_asset h)) (?r h)) hs acc) (asset_value k) \<in> {None, Some (?r h)}"
    if "map_of acc (asset_value k) \<in> {None, Some (?r h)}" for acc
    using that assms(1)
  proof (induction hs arbitrary: acc)
    case (Cons x hs)
    show ?case unfolding fold_simps comp_def by (rule Cons.IH) (use Cons.prems in auto)
  qed simp
  from this[of "[]"] assms(2) show ?thesis by (simp add: list_remote_parallel_def)
qed

lemma failed_kinds: "set (dkeys (snd (list_remote_parallel hs))) = {asset_value (h_asset h) |h. h \<in> set hs \<and> isl (list_remote h)}"
proof -
  have "set (dkeys (fold (\<lambda>h out. case list_remote h of Inl msg \<Rightarrow> dset (asset_value (h_asset h)) msg out | Inr _ \<Rightarrow> out) hs acc))
      = set (dkeys acc) \<union> {asset_value (h_asset h) |h. h \<in> set hs \<and> isl (list_remote h)}" for acc
    by (induction hs arbitrary: acc) (auto simp: set_dkeys split: sum.splits)
  then show ?thesis by (simp add: list_remote_parallel_def dkeys_def)
qed

lemma collect_run_plain:
  "\<not> co_rename opt \<Longrightarrow> collect_run E opt since hs files =
    (case classify_collected_drift (ce_yload E) (ce_to_int E) (ce_iso E) since (cleared opt hs files)
        (fst (list_remote_parallel hs)) hs of
       None \<Rightarrow> (None, cleared opt hs files)
     | Some report \<Rightarrow> write_report E opt (snd (list_remote_parallel hs)) report (cleared opt hs files))"
  by (simp add: collect_run_def)

lemma load_of_cleared:
  assumes "load_asset yload to_int (cleared opt hs files) q = Inr la"
  shows "load_asset yload to_int files q = Inr la"
proof (cases "co_clear opt \<and> listed_kinds hs \<noteq> []")
  case True
  then have "cleared opt hs files = fst (clean_local_detections (Some (listed_kinds hs)) files)" by (simp add: cleared_def)
  from load_cleaned[OF assms[unfolded this]] show ?thesis .
qed (use assms in \<open>simp only: cleared_def if_False\<close>)

lemma enrich_entry_place [simp]: "de_asset (enrich_entry en) = de_asset en" "de_path (enrich_entry en) = de_path en"
    "de_kind (enrich_entry en) = de_kind en"
  by (simp_all add: enrich_entry_def)

lemma collect_run_frame:
  assumes layout: "kind_layout E files" and r: "\<not> co_rename opt" and run: "collect_run E opt since hs files = (ex, files')"
    and none: "\<And>report en. classify_collected_drift (ce_yload E) (ce_to_int E) (ce_iso E) since (cleared opt hs files)
        (fst (list_remote_parallel hs)) hs = Some report \<Longrightarrow> en \<in> set report \<Longrightarrow> de_asset en \<noteq> k"
  shows "map_of files' [asset_value k, n] = map_of (cleared opt hs files) [asset_value k, n]"
proof (cases "classify_collected_drift (ce_yload E) (ce_to_int E) (ce_iso E) since (cleared opt hs files)
    (fst (list_remote_parallel hs)) hs")
  case (Some report)
  define rep where "rep = (if co_enrich opt then map enrich_entry report else report)"
  have en: "de_asset en \<noteq> k \<and> (\<forall>p. de_path en = Some p \<longrightarrow> butlast p = [asset_value (de_asset en)])" if e: "en \<in> set rep" for en
  proof -
    obtain en0 where en0: "en0 \<in> set report" "de_asset en = de_asset en0" "de_path en = de_path en0"
      using e by (auto simp: rep_def split: if_splits)
    obtain h rs x where hx: "h \<in> set hs" "map_of (fst (list_remote_parallel hs)) (asset_value (h_asset h)) = Some rs" "\<exists>r \<in> set rs. too_old (ce_iso E) since r = Some False"
        "en0 \<in> set (classify_pair (h_asset h) (local_index (ce_yload E) (ce_to_int E)
        (cleared opt hs files) (h_asset h)) x)"
      using Some en0(1) by (rule classified)
    have "butlast p = [asset_value (de_asset en0)]" if "de_path en0 = Some p" for p
      using classify_pair_places[OF hx(4) that] classify_pair_asset[OF hx(4)] kind_layoutD[OF layout load_of_cleared]
      by fastforce
    with none[OF Some en0(1)] en0 show ?thesis by simp
  qed
  have "fst (fst (write_until (ce_yload E) (ce_ydump E) [] (entries_of Drift_new rep @ entries_of Drift_changed rep)
      (cleared opt hs files, []))) = files'"
    using run Some r by (simp add: collect_run_plain write_report_def rep_def Let_def case_prod_unfold)
  moreover have "map_of (fst (fst (write_until (ce_yload E) (ce_ydump E) []
      (entries_of Drift_new rep @ entries_of Drift_changed rep) (cleared opt hs files, [])))) [asset_value k, n] =
      map_of (fst (cleared opt hs files, [] :: path list)) [asset_value k, n]"
    by (rule write_until_frame) (use en in \<open>auto simp: entries_of_def\<close>)
  ultimately show ?thesis by simp
qed (use run r in \<open>simp add: collect_run_plain\<close>)

lemma enrich_metadata: "is_minimal (existing_metadata e) \<Longrightarrow>
    \<exists>rm. dget (enrich_envelope e) ''metadata'' = PDict rm \<and> (\<forall>k v. map_of ENRICH_TODO_METADATA k = Some v \<longrightarrow>
      map_of (rev rm) k = Some v \<and> map_of rm k = Some v)"
proof -
  assume m: "is_minimal (existing_metadata e)"
  have same: "existing_metadata (demote_status e) = existing_metadata e"
    by (simp add: existing_metadata_def demote_status_def dget_def)
  have "map_of (rev (placeholder_metadata md)) k = Some v \<and> map_of (placeholder_metadata md) k = Some v" if "map_of ENRICH_TODO_METADATA k = Some v" for md k v
    using that by (auto simp: placeholder_metadata_def ENRICH_TODO_METADATA_def Let_def split: if_splits)
  moreover have "dget (enrich_envelope e) ''metadata'' = PDict (placeholder_metadata (existing_metadata e))"
    using m by (simp add: enrich_envelope_def same Let_def)
  ultimately show ?thesis by blast
qed

section \<open>Instances\<close>

definition parser_down :: "asset_kind \<Rightarrow> unit \<Rightarrow> handler option" where
  "parser_down k w = (if k = SENTINEL_PARSER then Some (demo_handler\<lparr>list_remote := Inl ''403''\<rparr>)
     else if k = SENTINEL_HUNTING then Some (demo_handler\<lparr>h_asset := SENTINEL_HUNTING\<rparr>) else None)"

definition collect_demo :: "unit collect_env" where
  "collect_demo = \<lparr>ce_outcome = No_config, ce_pipeline_ws = None, ce_disabled = [], ce_handler = parser_down,
     ce_adopt = (\<lambda>_ w. (True, w)), ce_yload = demo_yload, ce_ydump = (\<lambda>_. ''doc''), ce_to_int = num_of,
     ce_iso = (\<lambda>s. if s = ''old'' then Some (True, 1) else None)\<rparr>"

definition clear_all :: collect_opts where
  "clear_all = \<lparr>co_target = None, co_since = None, co_rename = False, co_role = None, co_workspace = None,
     co_clear = True, co_enrich = False, co_adopt = []\<rparr>"

definition adopt_demo :: "string list collect_env" where
  "adopt_demo = \<lparr>ce_outcome = Loaded closed_tenant, ce_pipeline_ws = None, ce_disabled = [], ce_handler = (\<lambda>_ _. None),
     ce_adopt = (\<lambda>n w. (True, w @ [n])), ce_yload = demo_yload, ce_ydump = (\<lambda>_. ''doc''), ce_to_int = num_of,
     ce_iso = (\<lambda>_. None)\<rparr>"

definition parser_file :: repo where
  "parser_file = [([''sentinel_parser'', ''a.yml''], ''doc'')]"

text \<open>A parser whose query changed in the portal, as it is collected.\<close>

definition remote_parser :: pydict where
  "remote_parser = [(''id'', PStr ''ab''), (''version'', PStr ''1.0.0''), (''asset'', PStr ''sentinel_parser''),
     (''status'', PStr ''production''), (''metadata'', PDict [(''arm_name'', PStr ''g1'')]),
     (''payload'', PDict [(''query'', PStr ''new'')])]"

definition demo_changed :: drift_entry where
  "demo_changed = \<lparr>de_asset = SENTINEL_PARSER, de_id = ''ab'', de_kind = Drift_changed, de_envelope = Some remote_parser,
     de_path = Some [''a.yml''], de_error = None\<rparr>"

definition old_parser :: handler where
  "old_parser = demo_handler\<lparr>list_remote := Inr [[(''name'', PStr ''g1''), (''lastUpdated'', PStr ''old'')]]\<rparr>"

section \<open>Properties\<close>

text \<open>
  C36. A kind that could not be listed loses nothing: whatever is collected of the other kinds, also with
  \<open>--clear\<close>, the files in its directory stay as they are, and a run that changed
  any file does not end as a success.
\<close>

theorem collect_spares_failed_kinds:
  assumes "kind_layout E files" and "\<not> co_rename opt" and "\<And>j h'. ce_handler E j w' = Some h' \<Longrightarrow> h_asset h' = j"
    and "collect_cmd E opt files w = (ex, files', w')" and "ce_handler E k w' = Some h" and "isl (list_remote h)"
    and "register_default_handlers (ce_outcome E) (ce_disabled E) = Some kinds" "k \<in> set kinds"
      "co_target opt \<in> {None, Some k}"
  shows "map_of files' [asset_value k, n] = map_of files [asset_value k, n] \<and> (files' \<noteq> files \<longrightarrow> ex \<in> {None, Some 2})"
proof (cases "files' = files")
  case False
  define hs where "hs = drift_handlers_of E kinds (co_target opt) w'"
  obtain since where run: "collect_run E opt since hs files = (ex, files')"
    using assms(4,7) False
    by (auto simp: collect_cmd_def Let_def hs_def split: if_splits resolution.splits bool.splits sum.splits prod.splits)
  have h: "h \<in> set hs" using assms(5,8,9) by (force simp: hs_def drift_handlers_of_def)
  have only: "\<forall>h' \<in> set hs. h_asset h' = k \<longrightarrow> isl (list_remote h')"
    using assms(3,5,6) by (auto simp: hs_def drift_handlers_of_def split: option.splits)
  have hk: "h_asset h = k" using assms(3,5) by blast
  then have bad: "asset_value k \<in> set (dkeys (snd (list_remote_parallel hs)))"
    using h assms(6) unfolding failed_kinds by blast
  have "map_of (cleared opt hs files) [asset_value k, n] = map_of files [asset_value k, n]"
    using bad by (auto simp: cleared_def lookup_cleaned cleaned_path_def listed_kinds_def)
  moreover have "map_of files' [asset_value k, n] = map_of (cleared opt hs files) [asset_value k, n]"
  proof (rule collect_run_frame[OF assms(1,2) run])
    fix report en
    assume c: "classify_collected_drift (ce_yload E) (ce_to_int E) (ce_iso E) since (cleared opt hs files)
        (fst (list_remote_parallel hs)) hs = Some report" and en: "en \<in> set report"
    obtain h' rs x where h': "h' \<in> set hs" "map_of (fst (list_remote_parallel hs)) (asset_value (h_asset h')) = Some rs" "\<exists>r \<in> set rs. too_old (ce_iso E) since r = Some False"
        "en \<in> set (classify_pair (h_asset h') (local_index (ce_yload E) (ce_to_int E) (cleared opt hs files) (h_asset h')) x)"
      using c en by (rule classified)
    then show "de_asset en \<noteq> k"
      using failed_kind_lists_nothing[OF only] classify_pair_asset[OF h'(4)] by auto
  qed
  moreover have "ex \<in> {None, Some 2}"
    using run bad by (auto simp: collect_run_plain[OF assms(2)] write_report_def Let_def dkeys_def split: option.splits if_splits prod.splits)
  ultimately show ?thesis by simp
qed simp

theorem collect_spares_failed_kinds_witness:
  "map_of (fst (snd (collect_cmd collect_demo clear_all parser_file ()))) [''sentinel_parser'', ''a.yml''] = Some ''doc''"
proof -
  obtain ex files' w' where run: "collect_cmd collect_demo clear_all parser_file () = (ex, files', w')" by (metis prod_cases3)
  have layout: "kind_layout collect_demo parser_file" by code_simp
  have c: "h_asset h' = j" if "ce_handler collect_demo j w' = Some h'" for j h'
    using that by (auto simp: collect_demo_def parser_down_def demo_handler_def split: if_splits)
  have h: "ce_handler collect_demo SENTINEL_PARSER w' = Some (demo_handler\<lparr>list_remote := Inl ''403''\<rparr>)"
    by (simp add: collect_demo_def parser_down_def)
  have opt: "\<not> co_rename clear_all" "co_target clear_all \<in> {None, Some SENTINEL_PARSER}"
    by (simp_all add: clear_all_def)
  have reg: "register_default_handlers (ce_outcome collect_demo) (ce_disabled collect_demo) =
      Some [SENTINEL_ANALYTIC, DEFENDER_CUSTOM_DETECTION, SENTINEL_HUNTING, SENTINEL_WATCHLIST, SENTINEL_PARSER,
        SENTINEL_DATA_CONNECTOR, SENTINEL_PLAYBOOK, SENTINEL_AUTOMATION_RULE]" by code_simp
  have "map_of files' [asset_value SENTINEL_PARSER, ''a.yml''] = map_of parser_file [asset_value SENTINEL_PARSER, ''a.yml'']"
    using collect_spares_failed_kinds[OF layout opt(1) c run h _ reg _ opt(2), of "''a.yml''"] by simp
  then have "map_of files' [''sentinel_parser'', ''a.yml''] = Some ''doc''" by (simp add: parser_file_def)
  then show ?thesis by (simp only: run fst_conv snd_conv)
qed

text \<open>
  C37. A bulk import overwrites what was authored: writing back a changed asset with \<open>--enrich\<close> puts every
  placeholder (owner, severity, tactics and so on) into the file, whatever metadata the file had.
\<close>

theorem enrich_overwrites_metadata:
  assumes "de_kind en = Drift_changed" and "de_path en = Some p" and "de_envelope en = Some e"
    and "is_minimal (existing_metadata e)" and "dget e ''asset'' = PStr a" and "a \<noteq> asset_value SENTINEL_PLAYBOOK"
    and "write_entry yload ydump out_dir (enrich_entry en) (files, ps) = Some (files', ps')"
  shows "\<exists>e' md. map_of files' p = Some (ydump e') \<and> dget e' ''metadata'' = PDict md \<and>
    (\<forall>k v. map_of ENRICH_TODO_METADATA k = Some v \<longrightarrow> map_of md k = Some v)"
proof -
  let ?e = "enrich_envelope e"
  obtain rm where rm: "dget ?e ''metadata'' = PDict rm" "\<forall>k v. map_of ENRICH_TODO_METADATA k = Some v \<longrightarrow>
      map_of (rev rm) k = Some v \<and> map_of rm k = Some v"
    using enrich_metadata[OF assms(4)] by blast
  have "dget ?e ''asset'' = PStr a"
    using assms(5) by (simp add: enrich_envelope_def demote_status_def dget_def Let_def)
  then have split: "split_sidecar_files ?e = Some (?e, [])"
    using assms(6) by (simp add: split_sidecar_files_def)
  let ?m = "preserve_local_metadata yload files p ?e"
  obtain e1 e2 where w: "preserve_local_version yload ydump files p (preserve_local_id yload files p ?m) = Some e1"
      "bump_for_changed_sidecars yload files p [] e1 = Some e2" "map_of files' p = Some (ydump e2)"
    using assms(1-3,7) split by (auto simp: write_entry_def enrich_entry_def bind_eq_Some_conv)
  have "map_of e2 ''metadata'' = map_of ?m ''metadata''"
    using preserve_frame(2)[of "''metadata''"] preserve_frame(3)[OF _ w(1), of "''metadata''"]
      preserve_frame(4)[OF _ w(2), of "''metadata''"] by simp
  moreover have "\<exists>md. dget ?m ''metadata'' = PDict md \<and> (\<forall>k v. map_of ENRICH_TODO_METADATA k = Some v \<longrightarrow> map_of md k = Some v)"
  proof (cases "?m = ?e")
    case True
    then show ?thesis using rm by simp
  next
    case False
    then obtain lm where "?m = dset ''metadata'' (PDict (fold (\<lambda>(k, v). dset k v) rm lm)) ?e"
      using rm(1) by (auto simp: preserve_local_metadata_def split: option.splits pyval.splits if_splits)
    then have "dget ?m ''metadata'' = PDict (fold (\<lambda>(k, v). dset k v) rm lm)" by simp
    then show ?thesis using rm(2) by (simp add: map_of_fold_dset map_add_Some_iff)
  qed
  ultimately show ?thesis using w(3) by (auto simp: dget_def)
qed

theorem enrich_overwrites_metadata_witness:
  "\<exists>e' md. map_of (fst (the (write_entry demo_yload (\<lambda>_. ''doc'') [] (enrich_entry demo_changed) (demo_files, [])))) [''a.yml''] = Some ''doc'' \<and>
     dget e' ''metadata'' = PDict md \<and> map_of md ''owner'' = Some (PStr ''unknown@example.invalid'')"
proof -
  have c: "de_kind demo_changed = Drift_changed" "de_path demo_changed = Some [''a.yml'']"
      "de_envelope demo_changed = Some remote_parser" "is_minimal (existing_metadata remote_parser)"
      "dget remote_parser ''asset'' = PStr ''sentinel_parser''"
    by (simp_all add: demo_changed_def remote_parser_def existing_metadata_def is_minimal_def dget_def dkeys_def)
  have "write_entry demo_yload (\<lambda>_. ''doc'') [] (enrich_entry demo_changed) (demo_files, []) \<noteq> None" by code_simp
  then obtain files' ps' where w: "write_entry demo_yload (\<lambda>_. ''doc'') [] (enrich_entry demo_changed) (demo_files, []) = Some (files', ps')"
    by auto
  have o: "map_of ENRICH_TODO_METADATA ''owner'' = Some (PStr ''unknown@example.invalid'')" by (simp add: ENRICH_TODO_METADATA_def)
  from enrich_overwrites_metadata[OF c _ w] obtain e' md where "map_of files' [''a.yml''] = Some ''doc''"
      "dget e' ''metadata'' = PDict md" "map_of md ''owner'' = Some (PStr ''unknown@example.invalid'')"
    using o by auto
  then show ?thesis unfolding w by auto
qed

text \<open>
  With \<open>--clear --since\<close> the files of every kind that listed are deleted, but only what changed since is
  written back: a kind whose remote assets are all older ends without a file.
\<close>

theorem clear_since_loses_files:
  assumes "kind_layout E files" and "\<not> co_rename opt" "co_clear opt" and "collect_run E opt (Some t) hs files = (ex, files')"
    and "h \<in> set hs" "h_asset h = k" "list_remote h = Inr rs" "\<forall>h' \<in> set hs. h_asset h' = k \<longrightarrow> h' = h"
    and "\<forall>r \<in> set rs. \<exists>ts. remote_timestamp (ce_iso E) r = Some ts \<and> fst ts = fst t \<and> snd ts < snd t"
  shows "map_of files' [asset_value k, n @ ''.yml''] = None"
proof -
  have "asset_value k \<notin> set (dkeys (snd (list_remote_parallel hs)))"
    unfolding failed_kinds using assms(7,8) by auto
  then have k: "k \<in> set (listed_kinds hs)"
    using assms(5,6) by (force simp: listed_kinds_def)
  have "map_of files' [asset_value k, n @ ''.yml''] = map_of (cleared opt hs files) [asset_value k, n @ ''.yml'']"
  proof (rule collect_run_frame[OF assms(1,2,4)])
    fix report en
    assume "classify_collected_drift (ce_yload E) (ce_to_int E) (ce_iso E) (Some t) (cleared opt hs files)
        (fst (list_remote_parallel hs)) hs = Some report" and "en \<in> set report"
    then obtain h' rs' x where h': "h' \<in> set hs" "map_of (fst (list_remote_parallel hs)) (asset_value (h_asset h')) = Some rs'"
        "\<exists>r \<in> set rs'. too_old (ce_iso E) (Some t) r = Some False"
        "en \<in> set (classify_pair (h_asset h') (local_index (ce_yload E) (ce_to_int E) (cleared opt hs files) (h_asset h')) x)"
      by (rule classified)
    show "de_asset en \<noteq> k"
    proof
      assume "de_asset en = k"
      then have "h' = h" using classify_pair_asset[OF h'(4)] assms(8) h'(1) by auto
      then have "set rs' \<subseteq> set rs" using listed_of_kind[OF assms(8)] h'(2) assms(6,7) by auto
      then show False using h'(3) assms(9) by (fastforce simp: too_old_def)
    qed
  qed
  moreover have "cleaned_path (Some (listed_kinds hs)) [asset_value k, n @ ''.yml'']"
  proof -
    have "asset_value k \<notin> {''templates'', ''samples''}" by (cases k) simp_all
    moreover have "endswith (n @ ''.yml'') ''.yml''" by (simp add: endswith_def suffix_def)
    ultimately show ?thesis using k by (simp add: cleaned_path_def)
  qed
  moreover have "cleared opt hs files = fst (clean_local_detections (Some (listed_kinds hs)) files)"
    using k assms(3) by (auto simp: cleared_def)
  ultimately show ?thesis by (simp add: lookup_cleaned)
qed

theorem clear_since_loses_files_witness:
  "map_of (snd (collect_run collect_demo clear_all (Some (True, 5)) [old_parser] parser_file)) [''sentinel_parser'', ''a.yml''] = None \<and>
   map_of parser_file [''sentinel_parser'', ''a.yml''] \<noteq> None"
proof -
  obtain ex files' where run: "collect_run collect_demo clear_all (Some (True, 5)) [old_parser] parser_file = (ex, files')" by fastforce
  have layout: "kind_layout collect_demo parser_file" by code_simp
  have opt: "\<not> co_rename clear_all" "co_clear clear_all" by (simp_all add: clear_all_def)
  have h: "old_parser \<in> set [old_parser]" "h_asset old_parser = SENTINEL_PARSER"
      "list_remote old_parser = Inr [[(''name'', PStr ''g1''), (''lastUpdated'', PStr ''old'')]]"
    by (simp_all add: old_parser_def demo_handler_def)
  have "remote_timestamp (ce_iso collect_demo) [(''name'', PStr ''g1''), (''lastUpdated'', PStr ''old'')] = Some (True, 1)" by code_simp
  then have "map_of files' [asset_value SENTINEL_PARSER, ''a'' @ ''.yml''] = None"
    using clear_since_loses_files[OF layout opt run h, of "''a''"] by simp
  then show ?thesis by (simp add: run[unfolded parser_file_def] parser_file_def)
qed

text \<open>
  With a \<open>--since\<close> without a time zone the run ends with an exception as soon as a remote carries a zone,
  after the files were cleared: every kind that listed is left without its files.
\<close>

lemma those_None: "None \<in> set xs \<Longrightarrow> those xs = None"
  by (induction xs) (auto split: option.splits)

theorem clear_mixed_stamps_loses_files:
  assumes "\<not> co_rename opt" "co_clear opt" and "h \<in> set hs" "list_remote h = Inr rs" "r \<in> set rs"
    and "\<forall>h' \<in> set hs. h_asset h' = h_asset h \<longrightarrow> h' = h"
    and "remote_timestamp (ce_iso E) r = Some ts" "fst ts \<noteq> fst t"
  shows "collect_run E opt (Some t) hs files =
    (None, fst (clean_local_detections (Some (listed_kinds hs)) files)) \<and> h_asset h \<in> set (listed_kinds hs)"
proof -
  let ?l = "fst (list_remote_parallel hs)" and ?c = "cleared opt hs files"
  have "map_of ?l (asset_value (h_asset h)) \<noteq> None"
  proof -
    have "map_of (fold (\<lambda>h. dset (asset_value (h_asset h)) (case list_remote h of Inl _ \<Rightarrow> [] | Inr rs \<Rightarrow> rs)) hs acc)
        (asset_value (h_asset h)) \<noteq> None" if "h \<in> set hs \<or> map_of acc (asset_value (h_asset h)) \<noteq> None" for acc
      using that by (induction hs arbitrary: acc) auto
    then show ?thesis using assms(3) by (simp add: list_remote_parallel_def)
  qed
  then have l: "map_of ?l (asset_value (h_asset h)) = Some rs"
    using listed_of_kind[OF assms(6)] assms(4) by fastforce
  have "collected_pair (ce_iso E) (Some t) h r = None"
    using assms(7,8) by (simp add: collected_pair_def too_old_def)
  then have "those (map (collected_pair (ce_iso E) (Some t) h) rs) = None"
    using assms(5) by (intro those_None) (metis image_eqI list.set_map)
  then have "classify_handler (ce_yload E) (ce_to_int E) (ce_iso E) (Some t) ?c ?l h = None"
    by (simp add: classify_handler_def l)
  then have "those (map (classify_handler (ce_yload E) (ce_to_int E) (ce_iso E) (Some t) ?c ?l) hs) = None"
    using assms(3) by (intro those_None) (metis image_eqI list.set_map)
  then have run: "collect_run E opt (Some t) hs files = (None, ?c)"
    by (simp add: collect_run_plain[OF assms(1)] classify_collected_drift_def)
  have "asset_value (h_asset h) \<notin> set (dkeys (snd (list_remote_parallel hs)))"
    unfolding failed_kinds using assms(4,6) by auto
  then have k: "h_asset h \<in> set (listed_kinds hs)"
    using assms(3) by (force simp: listed_kinds_def)
  then have "?c = fst (clean_local_detections (Some (listed_kinds hs)) files)"
    using assms(2) by (auto simp: cleared_def)
  with run k show ?thesis by simp
qed

theorem clear_mixed_stamps_loses_files_witness:
  "fst (collect_run collect_demo clear_all (Some (False, 5)) [old_parser] parser_file) = None"
proof -
  have "remote_timestamp (ce_iso collect_demo) [(''name'', PStr ''g1''), (''lastUpdated'', PStr ''old'')] = Some (True, 1)" by code_simp
  then show ?thesis
    using clear_mixed_stamps_loses_files[of clear_all old_parser "[old_parser]" _ "[(''name'', PStr ''g1''), (''lastUpdated'', PStr ''old'')]"
        collect_demo "(True, 1)" "(False, 5)" parser_file]
    by (simp add: clear_all_def old_parser_def demo_handler_def)
qed

lemma rename_target_free:
  assumes "rename_target yload files p = Some (Some new)"
  shows "map_of files new = None"
proof -
  obtain raw where raw: "Option.bind (map_of files p) yload = Some (PDict raw)"
    using assms by (auto simp: rename_target_def split: option.splits pyval.splits)
  show ?thesis
    using assms unfolding rename_target_def raw option.case pyval.case Let_def
    by (cases "display_name_of raw") (auto split: if_splits)
qed

lemma move_file_keeps:
  assumes "distinct (map fst files)" and "map_of files new = None"
  shows "distinct (map fst (move_file p new files)) \<and> map snd (move_file p new files) = map snd files"
proof
  let ?f = "\<lambda>q. if q = p then new else q"
  have m: "map fst (move_file p new files) = map ?f (map fst files)" by (simp add: move_file_def case_prod_unfold)
  have n: "new \<notin> set (map fst files)" using assms(2) by (simp add: map_of_eq_None_iff)
  have "inj_on ?f A" if "new \<notin> A" for A using that by (auto simp: inj_on_def)
  from this[OF n] show "distinct (map fst (move_file p new files))"
    unfolding m by (subst distinct_map) (use assms(1) in blast)
  show "map snd (move_file p new files) = map snd files" by (simp add: move_file_def case_prod_unfold)
qed

text \<open>
  Renaming loses nothing: the contents stay what they were and no path is given to two files.
\<close>

theorem rename_loses_nothing:
  assumes "distinct (map fst files)" and "rename_existing_to_slug yload files = (files', moves, ok)"
  shows "distinct (map fst files') \<and> map snd files' = map snd files"
proof -
  have "distinct (map fst fs') \<and> map snd fs' = map snd fs"
    if "rename_each yload ps fs = (fs', ms, b)" "distinct (map fst fs)" for ps fs fs' ms b
    using that
  proof (induction ps arbitrary: fs ms)
    case (Cons p ps)
    show ?case
    proof (cases "rename_target yload fs p")
      case (Some a)
      show ?thesis
      proof (cases a)
        case None
        then show ?thesis using Cons.IH[of fs ms] Cons.prems Some by simp
      next
        case new: (Some new)
        obtain ms' where r: "rename_each yload ps (move_file p new fs) = (fs', ms', b)"
          using Cons.prems(1) Some new by (auto split: prod.splits)
        note m = move_file_keeps[OF Cons.prems(2) rename_target_free[OF Some[unfolded new]], of p]
        from Cons.IH[OF r] m show ?thesis by simp
      qed
    qed (use Cons.prems in simp)
  qed simp
  then show ?thesis using assms by (simp add: rename_existing_to_slug_def)
qed

theorem rename_loses_nothing_witness:
  "map snd (fst (rename_existing_to_slug demo_yload parser_file)) = [''doc'']"
proof -
  obtain f m b where r: "rename_existing_to_slug demo_yload parser_file = (f, m, b)" by (metis prod_cases3)
  have "distinct (map fst parser_file)" by (simp add: parser_file_def)
  from rename_loses_nothing[OF this r] show ?thesis by (simp add: r[unfolded parser_file_def] parser_file_def)
qed

text \<open>
  C38. \<open>--adopt\<close> writes without a gate: the tags of the named Logic Apps are written whatever
  \<open>writeAllowed\<close> the resolved workspace has, before anything is listed, and no part of the command
  writes an audit record. One that fails leaves the earlier ones tagged and ends with exit 2.
\<close>

theorem collect_adopt_is_ungated:
  assumes "\<not> skip_if_integration_role_absent (ce_outcome E) (co_role opt) (co_workspace opt)"
    and "resolve_single_workspace (ce_outcome E) (ce_pipeline_ws E) (co_role opt) (co_workspace opt) (Some Prod) = Env e"
    and "register_default_handlers (ce_outcome E) (ce_disabled E) = Some kinds" "SENTINEL_PLAYBOOK \<in> set kinds"
    and "co_target opt = Some SENTINEL_PLAYBOOK" "co_adopt opt = ns @ n # ns'"
    and "list_all (\<lambda>i. fst (ce_adopt E (ns ! i) (fold (\<lambda>m v. snd (ce_adopt E m v)) (take i ns) w))) [0..<length ns]"
    and "v = fold (\<lambda>m v. snd (ce_adopt E m v)) (ns @ [n]) w"
      "\<not> fst (ce_adopt E n (fold (\<lambda>m v. snd (ce_adopt E m v)) ns w)) \<or> ns' = []"
  shows "snd (snd (collect_cmd E opt files w)) = v \<and>
    (\<not> fst (ce_adopt E n (fold (\<lambda>m v. snd (ce_adopt E m v)) ns w)) \<longrightarrow> collect_cmd E opt files w = (Some 2, files, v))"
proof -
  let ?step = "\<lambda>m v. snd (ce_adopt E m v)"
  have prefix: "adopt_each E (ns @ xs) u = adopt_each E xs (fold ?step ns u)"
    if "\<forall>i < length ns. fst (ce_adopt E (ns ! i) (fold ?step (take i ns) u))" for ns xs u
    using that
  proof (induction ns arbitrary: u)
    case (Cons m ns)
    have "fst (ce_adopt E m u)" using Cons.prems by (auto dest: spec[of _ 0])
    moreover have "\<forall>i < length ns. fst (ce_adopt E (ns ! i) (fold ?step (take i ns) (snd (ce_adopt E m u))))"
      using Cons.prems by (auto dest: spec[of _ "Suc _"])
    ultimately show ?case using Cons.IH by (cases "ce_adopt E m u") simp
  qed simp
  let ?w = "fold ?step ns w"
  have "adopt_each E (ns @ n # ns') w = adopt_each E (n # ns') ?w"
    using assms(7) by (intro prefix) (simp add: list_all_iff)
  then have a: "adopt_playbooks E kinds opt w = (fst (ce_adopt E n ?w), v)"
    using assms(4-6,8,9) by (cases "ce_adopt E n ?w"; cases "fst (ce_adopt E n ?w)") (auto simp: adopt_playbooks_def)
  then show ?thesis
    using assms(1-3) by (auto simp: collect_cmd_def Let_def split: bool.splits sum.splits prod.splits)
qed

theorem collect_adopt_is_ungated_witness:
  "\<not> writeAllowed (hd (sentinelWorkspaces closed_tenant)) \<and>
   snd (snd (collect_cmd adopt_demo (clear_all\<lparr>co_target := Some SENTINEL_PLAYBOOK, co_adopt := [''flow'']\<rparr>) [] [])) = [''flow'']"
proof
  show "\<not> writeAllowed (hd (sentinelWorkspaces closed_tenant))" by (simp add: closed_tenant_def)
  let ?opt = "clear_all\<lparr>co_target := Some SENTINEL_PLAYBOOK, co_adopt := [''flow'']\<rparr>"
  have c: "\<not> skip_if_integration_role_absent (ce_outcome adopt_demo) (co_role ?opt) (co_workspace ?opt)"
    "resolve_single_workspace (ce_outcome adopt_demo) (ce_pipeline_ws adopt_demo) (co_role ?opt) (co_workspace ?opt) (Some Prod)
      = Env (Some ''Main'')"
    "case register_default_handlers (ce_outcome adopt_demo) (ce_disabled adopt_demo) of None \<Rightarrow> False | Some k \<Rightarrow> SENTINEL_PLAYBOOK \<in> set k"
    by code_simp+
  then obtain kinds where k: "register_default_handlers (ce_outcome adopt_demo) (ce_disabled adopt_demo) = Some kinds"
      "SENTINEL_PLAYBOOK \<in> set kinds" by (auto split: option.splits)
  show "snd (snd (collect_cmd adopt_demo ?opt [] [])) = [''flow'']"
    using collect_adopt_is_ungated[OF c(1,2) k, of "[]" "''flow''" "[]" "[]" "[''flow'']" "[]"]
    by (simp add: clear_all_def adopt_demo_def)
qed

end
