(* ===== verification/Drift_Commands.thy ===== *)
theory Drift_Commands
  imports Collect
begin

text \<open>
  The commands drift and drift-resolve, \<open>contentops/cli/commands/drift.py\<close>, with the suppressions of
  \<open>contentops/drift_suppressions.py\<close> and the strategies of \<open>contentops/drift_resolve.py\<close>. A date is its
  day number; \<open>iso_date\<close> is \<open>date.fromisoformat\<close>, and a date that PyYAML decodes itself stands for the
  text it prints. The files are those below \<open>detections/\<close>. Printed tables and \<open>--diff\<close> are not modelled.
\<close>

section \<open>Suppressions\<close>

datatype suppressions_error =
    Unparsable
  | Not_a_mapping
  | Schema_not_supported string
  | Not_a_list
  | Entry_not_a_mapping nat
  | Kind_not_known nat
  | Id_empty nat
  | Reason_empty nat
  | Expires_no_date nat

record suppression =
  su_asset :: string
  su_id :: string
  su_reason :: string
  su_expires :: int

definition su_key :: "suppression \<Rightarrow> string \<times> string" where
  "su_key s = (su_asset s, su_id s)"

definition expired :: "int \<Rightarrow> suppression \<Rightarrow> bool" where
  "expired today s \<longleftrightarrow> su_expires s < today"

definition coerce_date :: "(string \<Rightarrow> int option) \<Rightarrow> pyval \<Rightarrow> int option" where
  "coerce_date iso_date raw = (case raw of PStr s \<Rightarrow> iso_date s | _ \<Rightarrow> None)"

definition load_suppression ::
  "(string \<Rightarrow> int option) \<Rightarrow> nat \<times> pyval \<Rightarrow> suppressions_error + suppression" where
  "load_suppression iso_date = (\<lambda>(i, entry). case entry of
     PDict d \<Rightarrow>
       (let a = str_or_empty (dget d ''asset''); n = str_or_empty (dget d ''id''); r = str_or_empty (dget d ''reason'') in
        if asset_of a = None then Inl (Kind_not_known i)
        else if n = [] then Inl (Id_empty i)
        else if r = [] then Inl (Reason_empty i)
        else case coerce_date iso_date (dget d ''expires'') of
          None \<Rightarrow> Inl (Expires_no_date i)
        | Some t \<Rightarrow> Inr \<lparr>su_asset = a, su_id = n, su_reason = r, su_expires = t\<rparr>)
   | _ \<Rightarrow> Inl (Entry_not_a_mapping i))"

fun load_all :: "('a \<Rightarrow> 'e + 'b) \<Rightarrow> 'a list \<Rightarrow> 'e + 'b list" where
  "load_all f [] = Inr []"
| "load_all f (x # xs) = rbind (f x) (\<lambda>y. rbind (load_all f xs) (\<lambda>ys. Inr (y # ys)))"

definition load_suppressions ::
  "(string \<Rightarrow> pyval option) \<Rightarrow> (string \<Rightarrow> int option) \<Rightarrow> repo \<Rightarrow> suppressions_error + suppression list" where
  "load_suppressions yload iso_date files = (case map_of files [''drift_suppressions.yml''] of
     None \<Rightarrow> Inr []
   | Some text \<Rightarrow>
       (case yload text of
          None \<Rightarrow> Inl Unparsable
        | Some PNone \<Rightarrow> Inr []
        | Some (PDict raw) \<Rightarrow>
            (let schema = str_or_empty (dget raw ''schema_version'');
                 entries = (if truthy (dget raw ''suppressions'') then dget raw ''suppressions'' else PList [])
             in if schema \<noteq> [] \<and> schema \<noteq> ''1.0'' then Inl (Schema_not_supported schema)
                else case entries of
                  PList xs \<Rightarrow> load_all (load_suppression iso_date) (enumerate 0 xs)
                | _ \<Rightarrow> Inl Not_a_list)
        | Some _ \<Rightarrow> Inl Not_a_mapping))"

record filter_result =
  filtered :: "drift_entry list"
  suppressed :: "drift_entry list"
  expired_ones :: "suppression list"
  unused :: "suppression list"

definition entry_key :: "drift_entry \<Rightarrow> string \<times> string" where
  "entry_key e = (asset_value (de_asset e), de_id e)"

definition by_key :: "suppression list \<Rightarrow> ((string \<times> string) \<times> suppression) list" where
  "by_key sups = fold (\<lambda>s. dset (su_key s) s) sups []"

text \<open>One entry: what is filtered, suppressed and expired so far, and the keys that matched.\<close>

definition suppress_entry ::
  "int \<Rightarrow> suppression list \<Rightarrow> drift_entry \<Rightarrow>
   drift_entry list \<times> drift_entry list \<times> suppression list \<times> (string \<times> string) list \<Rightarrow>
   drift_entry list \<times> drift_entry list \<times> suppression list \<times> (string \<times> string) list" where
  "suppress_entry today sups e = (\<lambda>(keep, supp, ex, matched). case map_of (by_key sups) (entry_key e) of
     None \<Rightarrow> (keep @ [e], supp, ex, matched)
   | Some s \<Rightarrow> (if expired today s then (keep @ [e], supp, ex @ [s], entry_key e # matched)
                else (keep, supp @ [e], ex, entry_key e # matched)))"

definition apply_suppressions :: "drift_entry list \<Rightarrow> suppression list \<Rightarrow> int \<Rightarrow> filter_result" where
  "apply_suppressions report sups today =
    (let (keep, supp, ex, matched) = fold (suppress_entry today sups) report ([], [], [], [])
     in \<lparr>filtered = keep, suppressed = supp, expired_ones = ex,
         unused = filter (\<lambda>s. su_key s \<notin> set matched) sups\<rparr>)"

section \<open>The command drift\<close>

record drift_opts =
  do_target :: "asset_kind option"
  do_write :: bool
  do_exit_on_drift :: bool
  do_honor :: bool
  do_role :: "role option"
  do_workspace :: "string option"

record drift_doc =
  dd_entries :: "(string \<times> string \<times> drift_kind) list"
  dd_errors :: "(string \<times> string) list"
  dd_suppressed :: "(string \<times> string) list"
  dd_expired :: "(string \<times> string) list"
  dd_unused :: "(string \<times> string \<times> int) list"

definition drift_doc_of :: "filter_result \<Rightarrow> drift_doc" where
  "drift_doc_of r = \<lparr>
     dd_entries = map (\<lambda>e. (asset_value (de_asset e), de_id e, de_kind e))
       (entries_of Drift_new (filtered r) @ entries_of Drift_changed (filtered r)),
     dd_errors = map (\<lambda>e. (asset_value (de_asset e), case de_error e of None \<Rightarrow> [] | Some m \<Rightarrow> m))
       (entries_of Drift_error (filtered r)),
     dd_suppressed = map entry_key (suppressed r),
     dd_expired = sort (remdups (map su_key (expired_ones r))),
     dd_unused = map (\<lambda>s. (su_asset s, su_id s, su_expires s)) (unused r)\<rparr>"

definition drift_filter :: "int \<Rightarrow> suppression list \<Rightarrow> drift_entry list \<Rightarrow> filter_result" where
  "drift_filter today sups report = (if sups \<noteq> [] then apply_suppressions report sups today
     else \<lparr>filtered = report, suppressed = [], expired_ones = [], unused = []\<rparr>)"

definition drift_exit :: "bool \<Rightarrow> drift_entry list \<Rightarrow> nat" where
  "drift_exit exit_on_drift report = (if has_errors report then 2 else if exit_on_drift \<and> has_drift report then 2 else 0)"

text \<open>From the listing on: the exit, the files and the report.\<close>

definition drift_run ::
  "'w collect_env \<Rightarrow> drift_opts \<Rightarrow> int \<Rightarrow> suppression list \<Rightarrow> handler list \<Rightarrow> repo \<Rightarrow>
   nat option \<times> repo \<times> drift_doc option" where
  "drift_run E opt today sups hs files =
    (let r = drift_filter today sups (detect_drift (ce_yload E) (ce_to_int E) files hs);
         (st, ok) = (if do_write opt \<and> has_drift (filtered r)
            then write_until (ce_yload E) (ce_ydump E) []
              (entries_of Drift_new (filtered r) @ entries_of Drift_changed (filtered r)) (files, [])
            else ((files, []), True))
     in if \<not> ok then (None, fst st, None)
        else (Some (drift_exit (do_exit_on_drift opt) (filtered r)), fst st, Some (drift_doc_of r)))"

definition drift_cmd ::
  "'w collect_env \<Rightarrow> (string \<Rightarrow> int option) \<Rightarrow> int \<Rightarrow> drift_opts \<Rightarrow> repo \<Rightarrow> 'w \<Rightarrow>
   nat option \<times> repo \<times> drift_doc option" where
  "drift_cmd E iso_date today opt files w =
    (if skip_if_integration_role_absent (ce_outcome E) (do_role opt) (do_workspace opt) then (Some 0, files, None)
     else case resolve_single_workspace (ce_outcome E) (ce_pipeline_ws E) (do_role opt) (do_workspace opt) None of
       Exit n \<Rightarrow> (Some n, files, None)
     | Crash \<Rightarrow> (None, files, None)
     | Env _ \<Rightarrow>
         (case register_default_handlers (ce_outcome E) (ce_disabled E) of
            None \<Rightarrow> (None, files, None)
          | Some kinds \<Rightarrow>
              (case (if do_honor opt then load_suppressions (ce_yload E) iso_date files else Inr []) of
                 Inl _ \<Rightarrow> (Some 2, files, None)
               | Inr sups \<Rightarrow>
                   (let hs = drift_handlers_of E kinds (do_target opt) w in
                    if hs = [] then (Some 0, files, None) else drift_run E opt today sups hs files))))"

section \<open>The command drift-resolve\<close>

datatype strategy = Keep_git | Take_remote | Merge

text \<open>The first envelope of the id, in the handlers that list.\<close>

definition entry_in ::
  "(string \<Rightarrow> pyval option) \<Rightarrow> (pyval \<Rightarrow> int option) \<Rightarrow> repo \<Rightarrow> string \<Rightarrow> handler \<Rightarrow> drift_entry option" where
  "entry_in yload to_int files asset_id h = (case list_remote h of
     Inl _ \<Rightarrow> None
   | Inr remotes \<Rightarrow>
       (let envs = disambiguate_envelope_ids (List.map_filter (to_envelope h) remotes);
            local = local_index yload to_int files (h_asset h) in
        case find (\<lambda>e. dget e ''id'' = PStr asset_id) envs of
          None \<Rightarrow> None
        | Some e \<Rightarrow>
            (case map_of local asset_id of
               None \<Rightarrow> Some \<lparr>de_asset = h_asset h, de_id = asset_id, de_kind = Drift_new, de_envelope = Some e,
                  de_path = None, de_error = None\<rparr>
             | Some (p, lp) \<Rightarrow>
                 (if payloads_match lp (dget_default e ''payload'' (PDict []))
                  then Some \<lparr>de_asset = h_asset h, de_id = asset_id, de_kind = Drift_in_sync, de_envelope = None,
                    de_path = Some p, de_error = None\<rparr>
                  else Some \<lparr>de_asset = h_asset h, de_id = asset_id, de_kind = Drift_changed, de_envelope = Some e,
                    de_path = Some p, de_error = None\<rparr>))))"

fun find_entry_for ::
  "(string \<Rightarrow> pyval option) \<Rightarrow> (pyval \<Rightarrow> int option) \<Rightarrow> repo \<Rightarrow> string \<Rightarrow> handler list \<Rightarrow> drift_entry option" where
  "find_entry_for yload to_int files asset_id [] = None"
| "find_entry_for yload to_int files asset_id (h # hs) = (case entry_in yload to_int files asset_id h of
     Some e \<Rightarrow> Some e | None \<Rightarrow> find_entry_for yload to_int files asset_id hs)"

definition resolve_remote :: "(pydict \<Rightarrow> string) \<Rightarrow> drift_entry \<Rightarrow> bool \<Rightarrow> repo \<Rightarrow> (repo \<times> path) option" where
  "resolve_remote ydump e dry_run files = (case de_envelope e of
     None \<Rightarrow> None
   | Some doc \<Rightarrow>
       (let target = (case de_path e of Some p \<Rightarrow> p | None \<Rightarrow> [asset_value (de_asset e), de_id e @ ''.yml''])
        in Some (if dry_run then files else dset target (ydump doc) files, target)))"

definition drift_resolve_cmd ::
  "'w collect_env \<Rightarrow> string \<Rightarrow> strategy \<Rightarrow> asset_kind option \<Rightarrow> bool \<Rightarrow> repo \<Rightarrow> 'w \<Rightarrow> nat option \<times> repo" where
  "drift_resolve_cmd E asset_id how target dry_run files w =
    (case register_default_handlers (ce_outcome E) (ce_disabled E) of
       None \<Rightarrow> (None, files)
     | Some kinds \<Rightarrow>
         (if how = Keep_git then (Some 0, files)
          else case find_entry_for (ce_yload E) (ce_to_int E) files asset_id (drift_handlers_of E kinds target w) of
            None \<Rightarrow> (Some 1, files)
          | Some e \<Rightarrow>
              (if de_kind e = Drift_in_sync then (Some 0, files)
               else if how = Merge then (Some 2, files)
               else case resolve_remote (ce_ydump E) e dry_run files of
                 None \<Rightarrow> (Some 1, files) | Some (files', _) \<Rightarrow> (Some 0, files'))))"

section \<open>Lemmas\<close>

text \<open>The suppression that counts for a key is the last one of the file.\<close>

definition counts :: "suppression list \<Rightarrow> string \<times> string \<Rightarrow> suppression option" where
  "counts sups k = find (\<lambda>s. su_key s = k) (rev sups)"

lemma by_key_counts: "map_of (by_key sups) k = counts sups k"
  unfolding by_key_def counts_def
  by (induction sups rule: rev_induct) auto

definition active :: "suppression list \<Rightarrow> int \<Rightarrow> drift_entry \<Rightarrow> bool" where
  "active sups today e \<longleftrightarrow> (case counts sups (entry_key e) of None \<Rightarrow> False | Some s \<Rightarrow> \<not> expired today s)"

lemma suppress_fold:
  "fold (suppress_entry today sups) report (keep, supp, ex, matched) =
    (keep @ filter (\<lambda>e. \<not> active sups today e) report, supp @ filter (active sups today) report,
     ex @ map (\<lambda>e. the (counts sups (entry_key e)))
       (filter (\<lambda>e. counts sups (entry_key e) \<noteq> None \<and> \<not> active sups today e) report),
     rev (map entry_key (filter (\<lambda>e. counts sups (entry_key e) \<noteq> None) report)) @ matched)"
  by (induction report arbitrary: keep supp ex matched)
    (auto simp: suppress_entry_def by_key_counts active_def split: option.splits)

lemma counts_None: "counts sups k = None \<longleftrightarrow> k \<notin> su_key ` set sups"
  by (auto simp: counts_def find_None_iff)

lemma counts_snoc: "counts (sups @ [x]) k = (if su_key x = k then Some x else counts sups k)"
  by (simp add: counts_def)

lemma counts_split: "counts sups k = Some s \<longleftrightarrow>
    (\<exists>pre post. sups = pre @ s # post \<and> su_key s = k \<and> k \<notin> su_key ` set post)"
proof (induction sups rule: rev_induct)
  case (snoc x sups)
  have "(\<exists>pre post. sups @ [x] = pre @ s # post \<and> su_key s = k \<and> k \<notin> su_key ` set post) \<longleftrightarrow>
      (if su_key x = k then x = s
       else \<exists>pre post. sups = pre @ s # post \<and> su_key s = k \<and> k \<notin> su_key ` set post)" (is "?l \<longleftrightarrow> ?r")
  proof
    assume ?l
    then obtain pre post where "sups @ [x] = pre @ s # post" "su_key s = k" "k \<notin> su_key ` set post" by blast
    then show ?r by (cases post rule: rev_cases) (auto simp flip: append_assoc append_Cons)
  next
    assume ?r
    show ?l
    proof (cases "su_key x = k")
      case True
      with \<open>?r\<close> have "sups @ [x] = sups @ s # []" "su_key s = k" "k \<notin> su_key ` set []" by auto
      then show ?thesis by blast
    next
      case False
      with \<open>?r\<close> obtain pre post where "sups = pre @ s # post" "su_key s = k" "k \<notin> su_key ` set post" by auto
      with False have "sups @ [x] = pre @ s # (post @ [x])" "su_key s = k" "k \<notin> su_key ` set (post @ [x])" by auto
      then show ?thesis by blast
    qed
  qed
  then show ?case using snoc.IH by (simp add: counts_snoc)
qed (simp add: counts_def)

lemma apply_suppressions_spec:
  "apply_suppressions report sups today = \<lparr>filtered = filter (\<lambda>e. \<not> active sups today e) report,
     suppressed = filter (active sups today) report,
     expired_ones = map (\<lambda>e. the (counts sups (entry_key e)))
       (filter (\<lambda>e. counts sups (entry_key e) \<noteq> None \<and> \<not> active sups today e) report),
     unused = filter (\<lambda>s. su_key s \<notin> entry_key ` set report) sups\<rparr>"
proof -
  have "filter (\<lambda>s. su_key s \<notin> entry_key ` {e \<in> set report. counts sups (entry_key e) \<noteq> None}) sups =
      filter (\<lambda>s. su_key s \<notin> entry_key ` set report) sups"
    by (rule filter_cong) (auto simp: counts_None, metis (mono_tags, lifting) image_iff mem_Collect_eq)
  then show ?thesis by (simp add: apply_suppressions_def suppress_fold)
qed

section \<open>Instances\<close>

definition star_suppression :: suppression where
  "star_suppression = \<lparr>su_asset = ''sentinel_parser'', su_id = ''*'', su_reason = ''portal tuning'', su_expires = 100\<rparr>"

definition parsers_down :: handler where
  "parsers_down = demo_handler\<lparr>list_remote := Inl ''403''\<rparr>"

definition plain_drift :: drift_opts where
  "plain_drift = \<lparr>do_target = None, do_write = False, do_exit_on_drift = True, do_honor = True, do_role = None,
     do_workspace = None\<rparr>"

definition tuned_handler :: handler where
  "tuned_handler = \<lparr>h_asset = SENTINEL_PARSER, list_remote = Inr [[(''name'', PStr ''g1'')]], to_envelope = (\<lambda>_. Some remote_parser)\<rparr>"

definition resolve_demo :: "unit collect_env" where
  "resolve_demo = collect_demo\<lparr>ce_handler := (\<lambda>k _. if k = SENTINEL_PARSER then Some tuned_handler else None),
     ce_ydump := (\<lambda>e. dumps (PDict e))\<rparr>"

definition tuned_entry :: drift_entry where
  "tuned_entry = \<lparr>de_asset = SENTINEL_PARSER, de_id = ''ab'', de_kind = Drift_changed, de_envelope = Some remote_parser,
     de_path = Some [''sentinel_parser'', ''a.yml''], de_error = None\<rparr>"

section \<open>Properties\<close>

text \<open>
  C39. What the suppressions do to a report: an entry is taken out exactly when the last suppression of its
  kind and id has not expired, whatever the entry says (also one in sync, new, or a listing
  that failed); the others keep their order; and a suppression counts as unused exactly when no entry at
  all has its kind and id.
\<close>

theorem suppressions_exact:
  "e \<in> set (filtered (apply_suppressions report sups today)) \<longleftrightarrow> e \<in> set report \<and>
     (\<forall>pre s post. sups = pre @ s # post \<and> su_key s = entry_key e \<and> entry_key e \<notin> su_key ` set post \<longrightarrow> expired today s)"
proof -
  have "active sups today e \<longleftrightarrow> (\<exists>s. counts sups (entry_key e) = Some s \<and> \<not> expired today s)"
    by (auto simp: active_def split: option.splits)
  then have "active sups today e \<longleftrightarrow>
      (\<exists>pre s post. sups = pre @ s # post \<and> su_key s = entry_key e \<and> entry_key e \<notin> su_key ` set post \<and> \<not> expired today s)"
    unfolding counts_split by blast
  then show ?thesis
    unfolding apply_suppressions_spec filter_result.select_convs set_filter mem_Collect_eq by blast
qed

theorem suppressions_exact_witness:
  "demo_changed \<notin> set (filtered (apply_suppressions [demo_changed] [star_suppression, star_suppression\<lparr>su_id := ''ab''\<rparr>] 10))"
proof -
  let ?s = "star_suppression\<lparr>su_id := ''ab''\<rparr>"
  have "[star_suppression, ?s] = [star_suppression] @ ?s # []" "su_key ?s = entry_key demo_changed" "\<not> expired 10 ?s"
    by (simp_all add: su_key_def entry_key_def star_suppression_def demo_changed_def expired_def)
  moreover have "expired 10 ?s"
    if "demo_changed \<in> set (filtered (apply_suppressions [demo_changed] [star_suppression, ?s] 10))"
    using conjunct2[OF iffD1[OF suppressions_exact that]] calculation(1,2)
    by (metis empty_iff image_empty list.set(1))
  ultimately show ?thesis by blast
qed

text \<open>
  C40. A suppression of the id \<open>*\<close> hides that a kind could not be listed: the entry of a failed
  listing carries that id, so it leaves the report, and a drift check in which every listing failed
  ends with exit 0.
\<close>

theorem star_suppression_hides_failures:
  assumes "sups \<noteq> []" and "\<forall>h \<in> set hs. isl (list_remote h) \<and>
      (\<exists>s. counts sups (asset_value (h_asset h), ''*'') = Some s \<and> \<not> expired today s)"
  shows "drift_run E opt today sups hs files = (Some 0, files, Some (drift_doc_of
    \<lparr>filtered = [], suppressed = detect_drift (ce_yload E) (ce_to_int E) files hs, expired_ones = [],
     unused = filter (\<lambda>s. su_key s \<notin> (\<lambda>h. (asset_value (h_asset h), ''*'')) ` set hs) sups\<rparr>))"
proof -
  let ?rep = "detect_drift (ce_yload E) (ce_to_int E) files hs"
  have rep: "?rep = map (\<lambda>h. \<lparr>de_asset = h_asset h, de_id = ''*'', de_kind = Drift_error, de_envelope = None,
      de_path = None, de_error = Some (projl (list_remote h))\<rparr>) hs"
    using assms(2) unfolding detect_drift_def
    by (induction hs) (auto simp: detect_one_def Let_def isl_def)
  have act: "active sups today e" if "e \<in> set ?rep" for e
    using that assms(2) by (auto simp: rep active_def entry_key_def)
  have "filter (\<lambda>e. \<not> active sups today e) ?rep = []" "filter (active sups today) ?rep = ?rep"
    using act by (simp_all add: filter_empty_conv filter_id_conv)
  moreover have "entry_key ` set ?rep = (\<lambda>h. (asset_value (h_asset h), ''*'')) ` set hs"
    unfolding rep by (auto simp: entry_key_def image_iff)
  moreover have "filter (\<lambda>e. counts sups (entry_key e) \<noteq> None \<and> \<not> active sups today e) ?rep = []"
    using act by (auto simp: filter_empty_conv)
  ultimately have "drift_filter today sups ?rep = \<lparr>filtered = [], suppressed = ?rep, expired_ones = [],
     unused = filter (\<lambda>s. su_key s \<notin> (\<lambda>h. (asset_value (h_asset h), ''*'')) ` set hs) sups\<rparr>"
    using assms(1) by (simp add: drift_filter_def apply_suppressions_spec)
  then show ?thesis
    by (simp add: drift_run_def drift_exit_def has_errors_def has_drift_def entries_of_def)
qed

theorem star_suppression_hides_failures_witness:
  "fst (drift_run collect_demo plain_drift 10 [star_suppression] [parsers_down] parser_file) = Some 0 \<and>
   has_errors (detect_drift (ce_yload collect_demo) (ce_to_int collect_demo) parser_file [parsers_down])"
proof
  have "\<forall>h \<in> set [parsers_down]. isl (list_remote h) \<and>
      (\<exists>s. counts [star_suppression] (asset_value (h_asset h), ''*'') = Some s \<and> \<not> expired 10 s)"
    by (simp add: parsers_down_def demo_handler_def counts_def star_suppression_def su_key_def expired_def)
  from star_suppression_hides_failures[OF _ this, of collect_demo plain_drift parser_file]
  show "fst (drift_run collect_demo plain_drift 10 [star_suppression] [parsers_down] parser_file) = Some 0"
    by (metis fst_conv list.distinct(1))
  show "has_errors (detect_drift (ce_yload collect_demo) (ce_to_int collect_demo) parser_file [parsers_down])"
    by (simp add: detect_drift_def detect_one_def Let_def parsers_down_def has_errors_def entries_of_def)
qed

text \<open>
  Taking the remote side of one rule is no write-back: the file becomes the collected envelope as it is,
  so the authored metadata, the id and the version of the file are gone.
\<close>

theorem resolve_remote_is_raw:
  assumes "register_default_handlers (ce_outcome E) (ce_disabled E) = Some kinds"
    and "find_entry_for (ce_yload E) (ce_to_int E) files asset_id (drift_handlers_of E kinds target w) = Some e"
    and "de_kind e = Drift_changed"
  shows "\<exists>p doc. de_path e = Some p \<and> de_envelope e = Some doc \<and> dget doc ''id'' = PStr asset_id \<and>
    drift_resolve_cmd E asset_id Take_remote target False files w = (Some 0, dset p (ce_ydump E doc) files)"
proof -
  have "\<exists>p doc. de_path e = Some p \<and> de_envelope e = Some doc \<and> dget doc ''id'' = PStr asset_id"
    if "find_entry_for (ce_yload E) (ce_to_int E) files asset_id hs = Some e" for hs
    using that assms(3)
    by (induction hs) (auto simp: entry_in_def Let_def find_Some_iff split: option.splits sum.splits if_splits)
  then obtain p doc where "de_path e = Some p" "de_envelope e = Some doc" "dget doc ''id'' = PStr asset_id"
    using assms(2) by blast
  then show ?thesis
    using assms by (auto simp: drift_resolve_cmd_def resolve_remote_def)
qed

theorem resolve_remote_is_raw_witness:
  "drift_resolve_cmd resolve_demo ''ab'' Take_remote None False parser_file () =
     (Some 0, dset [''sentinel_parser'', ''a.yml''] (dumps (PDict remote_parser)) parser_file) \<and>
   dget remote_parser ''metadata'' = PDict [(''arm_name'', PStr ''g1'')]"
proof -
  have k: "register_default_handlers (ce_outcome resolve_demo) (ce_disabled resolve_demo) =
      Some [SENTINEL_ANALYTIC, DEFENDER_CUSTOM_DETECTION, SENTINEL_HUNTING, SENTINEL_WATCHLIST, SENTINEL_PARSER,
        SENTINEL_DATA_CONNECTOR, SENTINEL_PLAYBOOK, SENTINEL_AUTOMATION_RULE]" by code_simp
  have hs: "drift_handlers_of resolve_demo [SENTINEL_ANALYTIC, DEFENDER_CUSTOM_DETECTION, SENTINEL_HUNTING,
      SENTINEL_WATCHLIST, SENTINEL_PARSER, SENTINEL_DATA_CONNECTOR, SENTINEL_PLAYBOOK, SENTINEL_AUTOMATION_RULE] None ()
      = [tuned_handler]" by (simp add: drift_handlers_of_def resolve_demo_def)
  have "find_entry_for demo_yload num_of parser_file ''ab'' [tuned_handler] = Some tuned_entry" by code_simp
  then have f: "find_entry_for (ce_yload resolve_demo) (ce_to_int resolve_demo) parser_file ''ab'' (drift_handlers_of resolve_demo
      [SENTINEL_ANALYTIC, DEFENDER_CUSTOM_DETECTION, SENTINEL_HUNTING, SENTINEL_WATCHLIST, SENTINEL_PARSER,
        SENTINEL_DATA_CONNECTOR, SENTINEL_PLAYBOOK, SENTINEL_AUTOMATION_RULE] None ()) = Some tuned_entry"
    unfolding hs by (simp add: resolve_demo_def collect_demo_def)
  have d: "ce_ydump resolve_demo = (\<lambda>e. dumps (PDict e))" "de_kind tuned_entry = Drift_changed"
    "de_path tuned_entry = Some [''sentinel_parser'', ''a.yml'']" "de_envelope tuned_entry = Some remote_parser"
    "dget remote_parser ''metadata'' = PDict [(''arm_name'', PStr ''g1'')]"
    by (simp_all add: resolve_demo_def tuned_entry_def remote_parser_def dget_def)
  from resolve_remote_is_raw[OF k f d(2)] show ?thesis by (auto simp only: d option.inject)
qed

end
